(* ===== verification/Prelude.thy ===== *)
theory Prelude
  imports Main "HOL-Library.Word"
begin

text \<open>
  Shared vocabulary of the development: the machine integers of the contract
  with Rust's saturating and checked arithmetic, the two ways an invocation can
  fail, the few \<^verbatim>\<open>soroban_sdk::Vec\<close> idioms the storage layer uses, and
  generic list and order lemmas that several components need.  The named
  collections below gather the rewrite rules of each kind, so that component
  proofs say which group of facts they rest on.
\<close>

named_theorems unat_ops \<open>value of the machine operations as natural numbers\<close>
named_theorems store_defs \<open>definitions of the storage accessors\<close>
named_theorems frame_simps \<open>storage accessors commute with unrelated writes\<close>

section \<open>Machine integers\<close>

type_synonym u8 = "8 word"
type_synonym u32 = "32 word"
type_synonym u64 = "64 word"
type_synonym bytes = "8 word list"

text \<open>The release profile has \<^verbatim>\<open>overflow-checks = true\<close>, so a plain
  operator that leaves its range aborts the invocation; the \<^verbatim>\<open>checked_*\<close>
  forms give \<^verbatim>\<open>None\<close> there and the \<^verbatim>\<open>saturating_*\<close> forms clamp.\<close>

definition saturating_add :: "'a::len word \<Rightarrow> 'a word \<Rightarrow> 'a word" where
  "saturating_add a b = (if a + b < a then - 1 else a + b)"

definition saturating_sub :: "'a::len word \<Rightarrow> 'a word \<Rightarrow> 'a word" where
  "saturating_sub a b = (if b \<le> a then a - b else 0)"

definition saturating_mul :: "'a::len word \<Rightarrow> 'a word \<Rightarrow> 'a word" where
  "saturating_mul a b =
     (if unat a * unat b < 2 ^ LENGTH('a) then a * b else - 1)"

definition checked_add :: "'a::len word \<Rightarrow> 'a word \<Rightarrow> 'a word option" where
  "checked_add a b = (if a + b < a then None else Some (a + b))"

definition checked_sub :: "'a::len word \<Rightarrow> 'a word \<Rightarrow> 'a word option" where
  "checked_sub a b = (if b \<le> a then Some (a - b) else None)"

definition checked_mul :: "'a::len word \<Rightarrow> 'a word \<Rightarrow> 'a word option" where
  "checked_mul a b =
     (if unat a * unat b < 2 ^ LENGTH('a) then Some (a * b) else None)"

definition abs_diff :: "'a::len word \<Rightarrow> 'a word \<Rightarrow> 'a word" where
  "abs_diff a b = (if a \<le> b then b - a else a - b)"

lemma unat_less_pow [simp]: "unat (a :: 'a::len word) < 2 ^ LENGTH('a)"
  by (rule unsigned_less)

lemma unat_max_word [simp]: "unat (- 1 :: 'a::len word) = 2 ^ LENGTH('a) - 1"
  by (simp add: unsigned_minus_1_eq_mask mask_eq_exp_minus_1)

lemma add_no_overflow_iff:
  "(\<not> a + b < a) = (unat a + unat b < 2 ^ LENGTH('a))" for a b :: "'a::len word"
  by (meson no_olen_add_nat not_less)

lemma unat_saturating_add [unat_ops]:
  "unat (saturating_add a b) = min (unat a + unat b) (2 ^ LENGTH('a) - 1)"
  for a b :: "'a::len word"
proof (cases "a + b < a")
  case True
  then have "2 ^ LENGTH('a) \<le> unat a + unat b"
    using add_no_overflow_iff [of a b] by simp
  then show ?thesis
    using True by (simp add: saturating_add_def )
next
  case False
  then have "unat a + unat b < 2 ^ LENGTH('a)"
    using add_no_overflow_iff [of a b] by simp
  then show ?thesis
    using False by (simp add: saturating_add_def unat_word_ariths)
qed

lemma unat_saturating_sub [unat_ops]:
  "unat (saturating_sub a b) = unat a - unat b"
  by (simp add: saturating_sub_def unat_sub word_le_nat_alt)

lemma unat_saturating_mul [unat_ops]:
  "unat (saturating_mul a b) = min (unat a * unat b) (2 ^ LENGTH('a) - 1)"
  for a b :: "'a::len word"
  by (auto simp add: saturating_mul_def  unat_word_ariths)

lemma unat_checked_add [unat_ops]:
  "checked_add a b = Some c \<longleftrightarrow> unat c = unat a + unat b"
  for a b c :: "'a::len word"
proof
  assume "checked_add a b = Some c"
  then have "\<not> a + b < a" "c = a + b"
    by (auto simp: checked_add_def split: if_splits)
  then show "unat c = unat a + unat b"
    using add_no_overflow_iff [of a b] by (simp add: unat_word_ariths)
next
  assume c: "unat c = unat a + unat b"
  then have lt: "unat a + unat b < 2 ^ LENGTH('a)"
    using unat_less_pow [of c] by simp
  then have "unat (a + b) = unat c"
    by (simp add: unat_word_ariths c)
  then have "a + b = c"
    by (rule unsigned_word_eqI)
  then show "checked_add a b = Some c"
    using add_no_overflow_iff [of a b] lt by (auto simp: checked_add_def)
qed

lemma unat_checked_mul [unat_ops]:
  "checked_mul a b = Some c \<longleftrightarrow> unat c = unat a * unat b"
  for a b c :: "'a::len word"
proof
  assume "checked_mul a b = Some c"
  then show "unat c = unat a * unat b"
    by (auto simp: checked_mul_def unat_word_ariths split: if_splits)
next
  assume c: "unat c = unat a * unat b"
  then have lt: "unat a * unat b < 2 ^ LENGTH('a)"
    using unat_less_pow [of c] by simp
  then have "unat (a * b) = unat c"
    by (simp add: unat_word_ariths c)
  then have "a * b = c"
    by (rule unsigned_word_eqI)
  then show "checked_mul a b = Some c"
    using lt by (auto simp: checked_mul_def)
qed

lemma unat_abs_diff [unat_ops]:
  "unat (abs_diff a b) = (if unat a \<le> unat b then unat b - unat a else unat a - unat b)"
  by (simp add: abs_diff_def unat_sub word_le_nat_alt)

lemma saturating_sub_le [simp]: "saturating_sub a b \<le> a"
  by (simp add: word_le_nat_alt unat_ops)

lemma saturating_sub_self [simp]: "saturating_sub a a = 0"
  by (simp add: saturating_sub_def)

lemma saturating_sub_mono: "b \<le> c \<Longrightarrow> saturating_sub a c \<le> saturating_sub a b"
  by (simp add: word_le_nat_alt unat_ops)

lemma unat_le_max: "unat (a :: 'a::len word) \<le> 2 ^ LENGTH('a) - 1"
  using unat_less_pow [of a] by linarith

lemma saturating_add_ge [simp]: "a \<le> saturating_add a b"
  by (metis le_add1 min.boundedI unat_le_max unat_saturating_add word_le_nat_alt)

text \<open>A widening cast keeps the value; a narrowing cast keeps the values that fit.\<close>

lemma unat_ucast_up [unat_ops]:
  "LENGTH('a) \<le> LENGTH('b) \<Longrightarrow> unat (ucast (a :: 'a::len word) :: 'b::len word) = unat a"
  by (metis unsigned_ucast_eq take_bit_nat_eq_self unat_less_pow power_increasing
    order_less_le_trans one_le_numeral)

lemma unat_ucast_fits:
  "unat a < 2 ^ LENGTH('b) \<Longrightarrow> unat (ucast (a :: 'a::len word) :: 'b::len word) = unat a"
  by (simp add: unsigned_ucast_eq take_bit_nat_eq_self)

lemma unat_of_nat_le: "unat (of_nat n :: 'a::len word) \<le> n"
  by (simp add: unsigned_of_nat take_bit_nat_less_eq_self)

lemma unat_of_nat_small: "n < 2 ^ LENGTH('a) \<Longrightarrow> unat (of_nat n :: 'a::len word) = n"
  by (simp add: unsigned_of_nat take_bit_nat_eq_self)

section \<open>Byte encodings\<close>

text \<open>\<^verbatim>\<open>to_le_bytes\<close> and \<^verbatim>\<open>to_be_bytes\<close> of a word of \<^term>\<open>n\<close> bytes.\<close>

fun le_bytes :: "nat \<Rightarrow> 'a::len word \<Rightarrow> bytes" where
  "le_bytes 0 w = []"
| "le_bytes (Suc n) w = ucast w # le_bytes n (drop_bit 8 w)"

definition be_bytes :: "nat \<Rightarrow> 'a::len word \<Rightarrow> bytes" where
  "be_bytes n w = rev (le_bytes n w)"

abbreviation u32_le :: "u32 \<Rightarrow> bytes" where "u32_le \<equiv> le_bytes 4"
abbreviation u64_le :: "u64 \<Rightarrow> bytes" where "u64_le \<equiv> le_bytes 8"

fun nat_of_le :: "bytes \<Rightarrow> nat" where
  "nat_of_le [] = 0"
| "nat_of_le (b # bs) = unat b + 256 * nat_of_le bs"

lemma length_le_bytes [simp]: "length (le_bytes n w) = n"
  by (induction n arbitrary: w) simp_all

lemma length_be_bytes [simp]: "length (be_bytes n w) = n"
  by (simp add: be_bytes_def)

lemma nat_of_le_bytes: "nat_of_le (le_bytes n w) = unat w mod 256 ^ n"
proof (induction n arbitrary: w)
  case (Suc n)
  have "unat (ucast w :: u8) = unat w mod 256"
    by (simp add: unsigned_ucast_eq take_bit_eq_mod)
  moreover have "unat (drop_bit 8 w) = unat w div 256"
    by (simp only: unsigned_drop_bit_eq) (simp add: drop_bit_eq_div take_bit_nat_eq_self)
  ultimately show ?case
    using Suc [of "drop_bit 8 w"] by (simp only: le_bytes.simps nat_of_le.simps power_Suc mod_mult2_eq)
qed simp

lemma nat_of_le_less: "nat_of_le bs < 256 ^ length bs"
proof (induction bs)
  case (Cons b bs)
  have "unat b \<le> 255"
    using unat_less_pow [of b] by simp
  then show ?case
    using Cons by simp
qed simp

lemma nat_of_le_inject: "length bs = length bs' \<Longrightarrow> nat_of_le bs = nat_of_le bs' \<Longrightarrow> bs = bs'"
proof (induction bs bs' rule: list_induct2)
  case (Cons b bs b' bs')
  have digits: "nat_of_le (x # xs) mod 256 = unat x" "nat_of_le (x # xs) div 256 = nat_of_le xs" for x xs
    using unat_less_pow [of x] by simp_all
  have "unat b = unat b'" "nat_of_le bs = nat_of_le bs'"
    using digits [of b bs] digits [of b' bs'] Cons.prems by (metis, metis)
  then show ?case
    using Cons.IH by (simp add: word_unat_eq_iff)
qed simp

lemma le_bytes_inject:
  fixes v w :: "'a::len word"
  assumes "le_bytes n v = le_bytes n w" "LENGTH('a) = 8 * n"
  shows "v = w"
proof -
  have "unat v mod 256 ^ n = unat w mod 256 ^ n"
    using assms(1) by (metis nat_of_le_bytes)
  moreover have "(256 :: nat) ^ n = 2 ^ LENGTH('a)"
    using assms(2) by (simp add: power_mult)
  ultimately show ?thesis
    by (simp add: word_unat_eq_iff)
qed

section \<open>Failure of an invocation\<close>

text \<open>Every operation of the source that a component lists as fallible returns
  \<^typ>\<open>'e + 'a\<close>, with \<^term>\<open>Inl\<close> the failure.\<close>

definition bind_res :: "'e + 'a \<Rightarrow> ('a \<Rightarrow> 'e + 'b) \<Rightarrow> 'e + 'b" where
  "bind_res m f = (case m of Inl e \<Rightarrow> Inl e | Inr x \<Rightarrow> f x)"

lemma bind_res_simps [simp]:
  "bind_res (Inl e) f = Inl e"
  "bind_res (Inr x) f = f x"
  by (simp_all add: bind_res_def)

lemma bind_res_Inr_iff:
  "bind_res m f = Inr y \<longleftrightarrow> (\<exists>x. m = Inr x \<and> f x = Inr y)"
  by (cases m) auto

lemma bind_res_InrE:
  assumes "bind_res m f = Inr y"
  obtains x where "m = Inr x" "f x = Inr y"
  using assms by (auto simp: bind_res_Inr_iff)

section \<open>Vector idioms\<close>

text \<open>\<^verbatim>\<open>if let Some(i) = v.first_index_of(x) { v.remove(i) }\<close> removes the first
  occurrence of \<^verbatim>\<open>x\<close>, which is \<^const>\<open>remove1\<close>.\<close>

lemma set_remove1_distinct:
  "distinct xs \<Longrightarrow> set (remove1 x xs) = set xs - {x}"
  by simp

lemma sorted_wrt_remove1:
  "sorted_wrt P xs \<Longrightarrow> sorted_wrt P (remove1 x xs)"
  by (induction xs) (auto dest: notin_set_remove1 [THEN contrapos_nn] set_remove1_subset [THEN subsetD])

lemma length_remove1_mem:
  "x \<in> set xs \<Longrightarrow> length (remove1 x xs) = length xs - 1"
  by (simp add: length_remove1)

text \<open>\<^verbatim>\<open>get(&key).unwrap_or(d)\<close>\<close>

definition unwrap_or :: "'a option \<Rightarrow> 'a \<Rightarrow> 'a" where
  "unwrap_or m d = (case m of None \<Rightarrow> d | Some x \<Rightarrow> x)"

lemma unwrap_or_simps [simp]:
  "unwrap_or None d = d"
  "unwrap_or (Some x) d = x"
  by (simp_all add: unwrap_or_def)

end
