(* ===== verification/Ledger_Types.thy ===== *)
theory Ledger_Types
  imports Prelude
begin

text \<open>
  Error codes, constants and data types of the score contract
  (\<^verbatim>\<open>contracts/ledgerlens-score/src/errors.rs\<close>, \<^verbatim>\<open>constants.rs\<close> and
  \<^verbatim>\<open>types.rs\<close>), and the part of the ledger an invocation can observe.  Structs
  are records whose field names carry a short prefix because record fields are
  global names; enums are datatypes with the source's constructors.
\<close>

section \<open>Addresses, symbols and the ledger environment\<close>

datatype address = Addr (addr_id: nat)

type_synonym symbol = string

text \<open>\<^verbatim>\<open>Address\<close> values are totally ordered on the host.\<close>

instantiation address :: linorder
begin

definition less_eq_address :: "address \<Rightarrow> address \<Rightarrow> bool" where
  "less_eq_address a b = (addr_id a \<le> addr_id b)"

definition less_address :: "address \<Rightarrow> address \<Rightarrow> bool" where
  "less_address a b = (addr_id a < addr_id b)"

instance
  by standard (auto simp: less_eq_address_def less_address_def address.expand)

end

text \<open>The environment of one invocation: the ledger clock and sequence number, the
  addresses whose authorization the transaction carries (a \<^verbatim>\<open>require_auth\<close> on any
  other address traps), and the host functions the contract calls.  The host is
  not part of the source, so its functions are parameters: \<^verbatim>\<open>sha256\<close>, the text form
  of an address, public-key recovery of a 64-byte signature with a recovery id
  (\<^verbatim>\<open>None\<close> where the host traps), and the identities of the contract and network.
  \<^verbatim>\<open>verkle::update_accumulator\<close> is called by \<^verbatim>\<open>lib.rs\<close> but not defined in the sources, so
  it is a parameter too.\<close>

record env =
  ledger_timestamp :: u64
  ledger_sequence :: u32
  authorized :: "address \<Rightarrow> bool"
  sha256 :: "bytes \<Rightarrow> bytes"
  addr_str :: "address \<Rightarrow> bytes"
  secp256k1_recover :: "bytes \<Rightarrow> bytes \<Rightarrow> u32 \<Rightarrow> bytes option"
  current_contract :: address
  network_id :: bytes
  update_accumulator :: "bytes \<Rightarrow> bytes \<Rightarrow> bytes \<Rightarrow> bytes"

text \<open>A concrete environment for the witnesses; the stand-in digest keeps the length of
  the message in its first byte.\<close>

definition sample_env :: "u32 \<Rightarrow> env" where
  "sample_env n = \<lparr>ledger_timestamp = 1000, ledger_sequence = n, authorized = (\<lambda>_. True),
     sha256 = (\<lambda>bs. of_nat (length bs) # replicate 31 0),
     addr_str = (\<lambda>a. of_nat (addr_id a) # replicate 55 0),
     secp256k1_recover = (\<lambda>_ _ _. None), current_contract = Addr 0,
     network_id = replicate 32 0,
     update_accumulator = (\<lambda>acc z v. map2 xor acc (of_nat (Suc (length z + length v)) # replicate 31 0))\<rparr>"

section \<open>Errors\<close>

datatype error =
    AlreadyInitialized | NotInitialized | Unauthorized | InvalidScore
  | InvalidConfidence | ScoreNotFound | ContractPaused | NoPendingAdminTransfer
  | EmptyBatch | BatchTooLarge | ArithmeticOverflow | UpgradeAlreadyPending
  | NoPendingUpgrade | InsufficientSigners | UnauthorizedSigner | InvalidThreshold
  | ServiceSetFull | SignerAlreadyInSet | SignerNotInSet | UpgradeNotReady
  | InvalidUpgradeDelay | InvalidStalenessWindow | RateLimitExceeded
  | InvalidCooldown | InvalidTimestamp | ServicePubkeyNotSet | InvalidAttestation
  | InvalidPubkeyLength | InvalidHistoryDepth | InsufficientConsensus
  | ConsensusInputEmpty | InvalidConsensusConfig | AdminSetFull
  | AdminSignerNotInSet | InsufficientAdminSigners | CyclicDelegation
  | ScoreEmbargoed | FeeTokenNotSet | QuorumFailureWindowNotElapsed
  | RevealWindowExpired | CommitmentMismatch | InvalidFinalityBuffer
  | NoPendingScore | FinalityWindowNotElapsed | InvalidDisputeBond
  | DisputeAlreadyOpen | DisputeNotFound | DisputeNotYetTimedOut
  | InvalidHysteresisMargin | InvalidModelPriorWeight

fun error_code :: "error \<Rightarrow> u32" where
  "error_code AlreadyInitialized = 1"
| "error_code NotInitialized = 2"
| "error_code Unauthorized = 3"
| "error_code InvalidScore = 4"
| "error_code InvalidConfidence = 5"
| "error_code ScoreNotFound = 6"
| "error_code ContractPaused = 7"
| "error_code NoPendingAdminTransfer = 8"
| "error_code EmptyBatch = 9"
| "error_code BatchTooLarge = 10"
| "error_code ArithmeticOverflow = 11"
| "error_code UpgradeAlreadyPending = 12"
| "error_code NoPendingUpgrade = 13"
| "error_code InsufficientSigners = 14"
| "error_code UnauthorizedSigner = 15"
| "error_code InvalidThreshold = 16"
| "error_code ServiceSetFull = 17"
| "error_code SignerAlreadyInSet = 18"
| "error_code SignerNotInSet = 19"
| "error_code UpgradeNotReady = 20"
| "error_code InvalidUpgradeDelay = 21"
| "error_code InvalidStalenessWindow = 22"
| "error_code RateLimitExceeded = 23"
| "error_code InvalidCooldown = 24"
| "error_code InvalidTimestamp = 25"
| "error_code ServicePubkeyNotSet = 26"
| "error_code InvalidAttestation = 27"
| "error_code InvalidPubkeyLength = 28"
| "error_code InvalidHistoryDepth = 29"
| "error_code InsufficientConsensus = 30"
| "error_code ConsensusInputEmpty = 31"
| "error_code InvalidConsensusConfig = 32"
| "error_code AdminSetFull = 33"
| "error_code AdminSignerNotInSet = 34"
| "error_code InsufficientAdminSigners = 35"
| "error_code CyclicDelegation = 36"
| "error_code ScoreEmbargoed = 37"
| "error_code FeeTokenNotSet = 38"
| "error_code QuorumFailureWindowNotElapsed = 39"
| "error_code RevealWindowExpired = 40"
| "error_code CommitmentMismatch = 41"
| "error_code InvalidFinalityBuffer = 42"
| "error_code NoPendingScore = 43"
| "error_code FinalityWindowNotElapsed = 44"
| "error_code InvalidDisputeBond = 45"
| "error_code DisputeAlreadyOpen = 46"
| "error_code DisputeNotFound = 47"
| "error_code DisputeNotYetTimedOut = 48"
| "error_code InvalidHysteresisMargin = 49"
| "error_code InvalidModelPriorWeight = 50"

text \<open>The associated constants of \<^verbatim>\<open>impl Error\<close>: names that share a code with one
  of the fifty variants.\<close>

abbreviation "InvalidMinConfidence \<equiv> InvalidConfidence"
abbreviation "InvalidWithdrawalAmount \<equiv> InvalidThreshold"
abbreviation "WithdrawalInProgress \<equiv> Unauthorized"
abbreviation "PairPaused \<equiv> ContractPaused"
abbreviation "PausedPairIndexFull \<equiv> ServiceSetFull"
abbreviation "DelegateNotFound \<equiv> ScoreNotFound"
abbreviation "InvalidDecayRate \<equiv> InvalidThreshold"
abbreviation "CounterpartyLinkFull \<equiv> ServiceSetFull"
abbreviation "ScoreVelocityExceeded \<equiv> RateLimitExceeded"
abbreviation "InvalidEscalation \<equiv> InvalidThreshold"
abbreviation "InvalidJump \<equiv> InvalidScore"
abbreviation "BelowScoreFloor \<equiv> InvalidScore"
abbreviation "InvalidScoreFloorPolicy \<equiv> InvalidThreshold"
abbreviation "DisputeIndexFull \<equiv> ServiceSetFull"
abbreviation "ActorDisputeLimitExceeded \<equiv> RateLimitExceeded"
abbreviation "EmbargoedWalletIndexFull \<equiv> ServiceSetFull"
abbreviation "ModelVersionNotRegistered \<equiv> InvalidScore"
abbreviation "ModelVersionDeprecated \<equiv> Unauthorized"
abbreviation "ModelVersionAlreadyDeprecated \<equiv> AlreadyInitialized"
abbreviation "ModelVersionAlreadyRegistered \<equiv> SignerAlreadyInSet"
abbreviation "ModelVersionRegistryFull \<equiv> ServiceSetFull"
abbreviation "ModelVersionNotReady \<equiv> UpgradeNotReady"
abbreviation "ModelVersionAlreadyProposed \<equiv> UpgradeAlreadyPending"
abbreviation "ModelVersionNotProposed \<equiv> NoPendingUpgrade"
abbreviation "ModelVersionNotActive \<equiv> Unauthorized"
abbreviation "EpochClosed \<equiv> ContractPaused"
abbreviation "ParamChangeAlreadyPending \<equiv> UpgradeAlreadyPending"
abbreviation "TooManySigners \<equiv> ServiceSetFull"
abbreviation "InvalidPolicy \<equiv> InvalidThreshold"

text \<open>Distinct variants have distinct codes, so the order derived for
  \<^verbatim>\<open>Error\<close> is the order of the codes.\<close>

lemma unat_error_code: "0 < unat (error_code e) \<and> unat (error_code e) \<le> 50"
  by (cases e) simp_all

definition error_of_code :: "nat \<Rightarrow> error" where
  "error_of_code n =
     [AlreadyInitialized, AlreadyInitialized, NotInitialized, Unauthorized, InvalidScore,
      InvalidConfidence, ScoreNotFound, ContractPaused, NoPendingAdminTransfer,
      EmptyBatch, BatchTooLarge, ArithmeticOverflow, UpgradeAlreadyPending,
      NoPendingUpgrade, InsufficientSigners, UnauthorizedSigner, InvalidThreshold,
      ServiceSetFull, SignerAlreadyInSet, SignerNotInSet, UpgradeNotReady,
      InvalidUpgradeDelay, InvalidStalenessWindow, RateLimitExceeded,
      InvalidCooldown, InvalidTimestamp, ServicePubkeyNotSet, InvalidAttestation,
      InvalidPubkeyLength, InvalidHistoryDepth, InsufficientConsensus,
      ConsensusInputEmpty, InvalidConsensusConfig, AdminSetFull,
      AdminSignerNotInSet, InsufficientAdminSigners, CyclicDelegation,
      ScoreEmbargoed, FeeTokenNotSet, QuorumFailureWindowNotElapsed,
      RevealWindowExpired, CommitmentMismatch, InvalidFinalityBuffer,
      NoPendingScore, FinalityWindowNotElapsed, InvalidDisputeBond,
      DisputeAlreadyOpen, DisputeNotFound, DisputeNotYetTimedOut,
      InvalidHysteresisMargin, InvalidModelPriorWeight] ! n"

lemma error_of_code_inverse: "error_of_code (unat (error_code e)) = e"
  by (cases e) (simp_all add: error_of_code_def)

lemma error_code_eq_iff [simp]: "error_code a = error_code b \<longleftrightarrow> a = b"
  by (metis error_of_code_inverse)

instantiation error :: linorder
begin

definition less_eq_error :: "error \<Rightarrow> error \<Rightarrow> bool" where
  "less_eq_error a b = (error_code a \<le> error_code b)"

definition less_error :: "error \<Rightarrow> error \<Rightarrow> bool" where
  "less_error a b = (error_code a < error_code b)"

instance
  by standard (auto simp: less_eq_error_def less_error_def order_less_le)

end

text \<open>\<^verbatim>\<open>lib.rs\<close> also returns four \<^verbatim>\<open>ScoreHook*\<close> errors that \<^verbatim>\<open>errors.rs\<close> does not
  declare (the enum already has the fifty variants its format allows); they are
  kept apart because they have no code.\<close>

datatype hook_error =
    ScoreHookDispatchInProgress | ScoreHookAlreadyRegistered
  | ScoreHookLimitReached | ScoreHookNotRegistered

text \<open>A failed invocation either returned an error or trapped (a failed
  \<^verbatim>\<open>require_auth\<close>, an \<^verbatim>\<open>unwrap\<close> of \<^verbatim>\<open>None\<close> or an arithmetic overflow).  Both roll
  the transaction back.\<close>

datatype failure = Err error | HookErr hook_error | Trap

type_synonym 'a res = "failure + 'a"

text \<open>\<^verbatim>\<open>address.require_auth()\<close>\<close>

definition require_auth :: "env \<Rightarrow> address \<Rightarrow> unit res" where
  "require_auth e a = (if authorized e a then Inr () else Inl Trap)"

lemma require_auth_Inr [simp]: "require_auth e a = Inr u \<longleftrightarrow> authorized e a"
  by (simp add: require_auth_def)

section \<open>Events\<close>

text \<open>A published event: the name of its publisher in \<^verbatim>\<open>events.rs\<close> with the values
  it is given.\<close>

datatype event_val =
    VAddr address | VSym symbol | VU32 u32 | VU64 u64 | VInt int | VBool bool | VBytes bytes

datatype event = Event (event_name: string) (event_args: "event_val list")

definition count_events :: "string \<Rightarrow> event list \<Rightarrow> nat" where
  "count_events n evs = length (filter (\<lambda>ev. event_name ev = n) evs)"

lemma count_events_simps [simp]:
  "count_events n [] = 0"
  "count_events n (ev # evs) = (if event_name ev = n then 1 else 0) + count_events n evs"
  "count_events n (xs @ ys) = count_events n xs + count_events n ys"
  by (simp_all add: count_events_def)

text \<open>Running a step that publishes events over a sequence of inputs.\<close>

definition run_steps :: "('x \<Rightarrow> 's \<Rightarrow> 's \<times> event list) \<Rightarrow> 'x list \<Rightarrow> 's \<Rightarrow> 's \<times> event list" where
  "run_steps step xs s =
     fold (\<lambda>x (s, evs). (fst (step x s), evs @ snd (step x s))) xs (s, [])"

lemma run_steps_simps [simp]:
  "run_steps step [] s = (s, [])"
  "run_steps step (xs @ [x]) s =
     (fst (step x (fst (run_steps step xs s))),
      snd (run_steps step xs s) @ snd (step x (fst (run_steps step xs s))))"
  by (simp_all add: run_steps_def split_beta)

section \<open>Constants\<close>

text \<open>Bounds on vector lengths are natural numbers; bounds on stored integers keep
  the width of the integers they bound.\<close>

definition SCORE_TTL_THRESHOLD :: u32 where "SCORE_TTL_THRESHOLD = 518400"
definition MAX_SCORE :: u32 where "MAX_SCORE = 100"
definition MAX_HISTORY_DEPTH :: u32 where "MAX_HISTORY_DEPTH = 50"
definition DEFAULT_HISTORY_MAX_DEPTH :: u32 where "DEFAULT_HISTORY_MAX_DEPTH = 10"
definition MAX_BATCH_SIZE :: nat where "MAX_BATCH_SIZE = 20"
definition MAX_ASSET_PAIR_BYTES :: nat where "MAX_ASSET_PAIR_BYTES = 9"
definition MAX_SCORE_COMMITMENT_BYTES :: nat where "MAX_SCORE_COMMITMENT_BYTES = 32"
definition DEFAULT_RISK_THRESHOLD :: u32 where "DEFAULT_RISK_THRESHOLD = 75"
definition DEFAULT_JUMP_THRESHOLD :: u32 where "DEFAULT_JUMP_THRESHOLD = 30"
definition MAX_WALLET_PAIRS :: nat where "MAX_WALLET_PAIRS = 20"
definition DEFAULT_COOLDOWN_SECS :: u64 where "DEFAULT_COOLDOWN_SECS = 3600"
definition MIN_COOLDOWN_SECS :: u64 where "MIN_COOLDOWN_SECS = 60"
definition MAX_COOLDOWN_SECS :: u64 where "MAX_COOLDOWN_SECS = 86400"
definition MAX_TRACKED_SCORE_ENTRIES :: nat where "MAX_TRACKED_SCORE_ENTRIES = 500"
definition MAX_EXPIRING_ENTRIES_PER_CALL :: u32 where "MAX_EXPIRING_ENTRIES_PER_CALL = 100"

section \<open>Scores\<close>

record RiskScore =
  rs_score :: u32
  rs_benford_flag :: bool
  rs_ml_flag :: bool
  rs_timestamp :: u64
  rs_confidence :: u32
  rs_model_version :: u32
  rs_benford_score :: u32
  rs_ml_score :: u32
  rs_network_score :: u32
  rs_commitment :: "bytes option"

type_synonym pair_key = "address \<times> symbol"

end
