(* ===== verification/Risk_Monitor.thy ===== *)
theory Risk_Monitor
  imports Ledger_Types
begin

text \<open>
  What a score write observes about the trajectory of one wallet and pair: the
  hysteresis risk band, the consecutive-breach counter with its escalation
  events, the trend of the score and the largest jump
  (\<^verbatim>\<open>evaluate_risk_band\<close>, \<^verbatim>\<open>update_breach_counter\<close>, \<^verbatim>\<open>emit_score_delta\<close> and
  \<^verbatim>\<open>emit_score_jump_anomaly\<close> of \<^verbatim>\<open>lib.rs\<close> with their accessors in
  \<^verbatim>\<open>storage.rs\<close>).  Each step returns the new monitor state and the events it
  publishes; the lemmas characterise the state after any sequence of scores.
\<close>

record ScoreTrend =
  st_trend :: int
  st_consecutive :: u32

record JumpStats =
  js_max_jump :: u32
  js_at_timestamp :: u64

record monitor =
  risk_threshold :: "u32 option"
  jump_threshold :: "u32 option"
  hysteresis_margin :: "u32 option"
  risk_band_state :: "pair_key \<Rightarrow> bool option"
  band_entry_time :: "pair_key \<Rightarrow> u64 option"
  escalation_threshold :: "u32 option"
  breach_count :: "pair_key \<Rightarrow> u32 option"
  trend_state :: "pair_key \<Rightarrow> ScoreTrend option"
  jump_stats :: "pair_key \<Rightarrow> JumpStats option"
  pair_asset_class :: "symbol \<Rightarrow> symbol option"
  asset_class_risk_threshold :: "symbol \<Rightarrow> u32 option"

definition DEFAULT_ESCALATION_THRESHOLD :: u32 where "DEFAULT_ESCALATION_THRESHOLD = 5"
definition MIN_ESCALATION_THRESHOLD :: u32 where "MIN_ESCALATION_THRESHOLD = 2"
definition MAX_ESCALATION_THRESHOLD :: u32 where "MAX_ESCALATION_THRESHOLD = 20"
definition MAX_HYSTERESIS_MARGIN :: u32 where "MAX_HYSTERESIS_MARGIN = 50"

definition empty_monitor :: monitor where
  "empty_monitor = \<lparr>risk_threshold = None, jump_threshold = None, hysteresis_margin = None,
     risk_band_state = (\<lambda>_. None), band_entry_time = (\<lambda>_. None), escalation_threshold = None,
     breach_count = (\<lambda>_. None), trend_state = (\<lambda>_. None), jump_stats = (\<lambda>_. None),
     pair_asset_class = (\<lambda>_. None), asset_class_risk_threshold = (\<lambda>_. None)\<rparr>"

section \<open>Accessors\<close>

definition get_risk_threshold :: "monitor \<Rightarrow> u32" where
  "get_risk_threshold m = unwrap_or (risk_threshold m) DEFAULT_RISK_THRESHOLD"

definition get_jump_threshold :: "monitor \<Rightarrow> u32" where
  "get_jump_threshold m = unwrap_or (jump_threshold m) DEFAULT_JUMP_THRESHOLD"

definition get_hysteresis_margin :: "monitor \<Rightarrow> u32" where
  "get_hysteresis_margin m = unwrap_or (hysteresis_margin m) 0"

definition get_escalation_threshold :: "monitor \<Rightarrow> u32" where
  "get_escalation_threshold m = unwrap_or (escalation_threshold m) DEFAULT_ESCALATION_THRESHOLD"

definition get_risk_band_state :: "pair_key \<Rightarrow> monitor \<Rightarrow> bool" where
  "get_risk_band_state k m = unwrap_or (risk_band_state m k) False"

definition set_risk_band_state :: "pair_key \<Rightarrow> bool \<Rightarrow> monitor \<Rightarrow> monitor" where
  "set_risk_band_state k in_band m =
     m\<lparr>risk_band_state := (risk_band_state m)(k := if in_band then Some True else None)\<rparr>"

definition set_band_entry_time :: "pair_key \<Rightarrow> u64 \<Rightarrow> monitor \<Rightarrow> monitor" where
  "set_band_entry_time k t m = m\<lparr>band_entry_time := (band_entry_time m)(k \<mapsto> t)\<rparr>"

definition clear_band_entry_time :: "pair_key \<Rightarrow> monitor \<Rightarrow> monitor" where
  "clear_band_entry_time k m = m\<lparr>band_entry_time := (band_entry_time m)(k := None)\<rparr>"

definition get_breach_count :: "pair_key \<Rightarrow> monitor \<Rightarrow> u32" where
  "get_breach_count k m = unwrap_or (breach_count m k) 0"

definition set_breach_count :: "pair_key \<Rightarrow> u32 \<Rightarrow> monitor \<Rightarrow> monitor" where
  "set_breach_count k c m =
     m\<lparr>breach_count := (breach_count m)(k := if c = 0 then None else Some c)\<rparr>"

definition get_trend_state :: "pair_key \<Rightarrow> monitor \<Rightarrow> ScoreTrend" where
  "get_trend_state k m = unwrap_or (trend_state m k) \<lparr>st_trend = 0, st_consecutive = 0\<rparr>"

definition set_trend_state :: "pair_key \<Rightarrow> ScoreTrend \<Rightarrow> monitor \<Rightarrow> monitor" where
  "set_trend_state k t m = m\<lparr>trend_state := (trend_state m)(k \<mapsto> t)\<rparr>"

definition record_jump_stats :: "pair_key \<Rightarrow> u32 \<Rightarrow> u64 \<Rightarrow> monitor \<Rightarrow> monitor" where
  "record_jump_stats k jump ts m =
     (let is_new_max = (case jump_stats m k of
            Some stats \<Rightarrow> js_max_jump stats < jump | None \<Rightarrow> True) in
      if is_new_max
      then m\<lparr>jump_stats := (jump_stats m)(k \<mapsto> \<lparr>js_max_jump = jump, js_at_timestamp = ts\<rparr>)\<rparr>
      else m)"

definition get_effective_risk_threshold :: "symbol \<Rightarrow> monitor \<Rightarrow> u32" where
  "get_effective_risk_threshold p m =
     (case pair_asset_class m p of
        Some class \<Rightarrow> (case asset_class_risk_threshold m class of
            Some t \<Rightarrow> t | None \<Rightarrow> get_risk_threshold m)
      | None \<Rightarrow> get_risk_threshold m)"

lemmas [store_defs] = get_risk_threshold_def get_jump_threshold_def get_hysteresis_margin_def
  get_escalation_threshold_def get_risk_band_state_def set_risk_band_state_def
  set_band_entry_time_def clear_band_entry_time_def get_breach_count_def set_breach_count_def
  get_trend_state_def set_trend_state_def record_jump_stats_def

section \<open>Steps of a score write\<close>

definition evaluate_risk_band ::
    "env \<Rightarrow> pair_key \<Rightarrow> u32 \<Rightarrow> u32 \<Rightarrow> monitor \<Rightarrow> monitor \<times> event list" where
  "evaluate_risk_band e k score threshold m =
     (let in_band = get_risk_band_state k m;
          exit_threshold = saturating_sub threshold (get_hysteresis_margin m) in
      if threshold \<le> score then
        (if \<not> in_band
         then (set_band_entry_time k (ledger_timestamp e) (set_risk_band_state k True m),
               [Event ''risk_band_entered''
                  [VAddr (fst k), VSym (snd k), VU32 score, VU32 threshold]])
         else (m, []))
      else if in_band \<and> score < exit_threshold then
        (clear_band_entry_time k (set_risk_band_state k False m),
         [Event ''risk_band_cleared''
            [VAddr (fst k), VSym (snd k), VU32 score, VU32 exit_threshold]])
      else (m, []))"

definition update_breach_counter ::
    "pair_key \<Rightarrow> u32 \<Rightarrow> u32 \<Rightarrow> monitor \<Rightarrow> monitor \<times> event list" where
  "update_breach_counter k score threshold m =
     (let escalation_n = get_escalation_threshold m; count = get_breach_count k m in
      if threshold \<le> score then
        (let count' = saturating_add count 1 in
         (set_breach_count k count' m,
          if count' = escalation_n
          then [Event ''escalation_triggered''
                  [VAddr (fst k), VSym (snd k), VU32 count', VU32 score, VU32 escalation_n]]
          else []))
      else
        (set_breach_count k 0 m,
         if escalation_n \<le> count \<and> 0 < escalation_n
         then [Event ''escalation_resolved''
                 [VAddr (fst k), VSym (snd k), VU32 count, VU32 score]]
         else []))"

definition emit_score_delta ::
    "pair_key \<Rightarrow> u32 option \<Rightarrow> u32 \<Rightarrow> monitor \<Rightarrow> monitor \<times> event list" where
  "emit_score_delta k previous new_score m =
     (let (trend, consecutive, prev_for_event, delta_abs) =
        (case previous of
           None \<Rightarrow> (0, 0, 0, 0)
         | Some prev \<Rightarrow>
             (let delta_abs = abs_diff new_score prev in
              if delta_abs = 0 then (0, 0, prev, 0)
              else
                (let new_trend = (if prev < new_score then 1 else - 1);
                     prev_state = get_trend_state k m;
                     new_consecutive =
                       (if st_trend prev_state = new_trend
                        then saturating_add (st_consecutive prev_state) 1 else 1) in
                 (new_trend, new_consecutive, prev, delta_abs)))) in
      (set_trend_state k \<lparr>st_trend = trend, st_consecutive = consecutive\<rparr> m,
       [Event ''score_delta''
          [VAddr (fst k), VSym (snd k), VU32 prev_for_event, VU32 new_score, VU32 delta_abs,
           VInt trend, VU32 consecutive]]))"

definition emit_score_jump_anomaly ::
    "env \<Rightarrow> pair_key \<Rightarrow> u32 option \<Rightarrow> u32 \<Rightarrow> u32 \<Rightarrow> monitor \<Rightarrow> monitor \<times> event list" where
  "emit_score_jump_anomaly e k previous new_score model_version m =
     (case previous of
        None \<Rightarrow> (m, [])
      | Some prev \<Rightarrow>
          (let delta_abs = abs_diff new_score prev in
           if get_jump_threshold m < delta_abs then
             (record_jump_stats k delta_abs (ledger_timestamp e) m,
              [Event ''score_jump_anomaly''
                 [VAddr (fst k), VSym (snd k), VU32 prev, VU32 new_score,
                  VInt (int (unat new_score) - int (unat prev)), VU32 model_version,
                  VU64 (ledger_timestamp e)]])
           else (m, [])))"

section \<open>The risk band has hysteresis\<close>

text \<open>A run of writes at one key: pairs of the environment of the write and the
  score written.\<close>

definition run_band :: "pair_key \<Rightarrow> u32 \<Rightarrow> (env \<times> u32) list \<Rightarrow> monitor \<Rightarrow> monitor \<times> event list" where
  "run_band k threshold = run_steps (\<lambda>(e, score). evaluate_risk_band e k score threshold)"

lemma evaluate_risk_band_frame [frame_simps]:
  "hysteresis_margin (fst (evaluate_risk_band e k score t m)) = hysteresis_margin m"
  "breach_count (fst (evaluate_risk_band e k score t m)) = breach_count m"
  "trend_state (fst (evaluate_risk_band e k score t m)) = trend_state m"
  "jump_stats (fst (evaluate_risk_band e k score t m)) = jump_stats m"
  "j \<noteq> k \<Longrightarrow> risk_band_state (fst (evaluate_risk_band e k score t m)) j = risk_band_state m j"
  by (simp_all add: evaluate_risk_band_def store_defs Let_def)

lemma run_band_margin [simp]:
  "hysteresis_margin (fst (run_band k t xs m)) = hysteresis_margin m"
  by (induction xs rule: rev_induct) (auto simp: run_band_def frame_simps split: prod.splits)

lemma evaluate_risk_band_state:
  "get_risk_band_state k (fst (evaluate_risk_band e k score t m)) \<longleftrightarrow>
     t \<le> score \<or> get_risk_band_state k m \<and> saturating_sub t (get_hysteresis_margin m) \<le> score"
  by (auto simp: evaluate_risk_band_def get_risk_band_state_def set_risk_band_state_def
    set_band_entry_time_def clear_band_entry_time_def Let_def not_less)

lemma split_at_last:
  "(\<exists>ys x zs. xs @ [w] = ys @ x # zs \<and> P x \<and> (\<forall>z \<in> set zs. Q z)) \<longleftrightarrow>
     P w \<or> Q w \<and> (\<exists>ys x zs. xs = ys @ x # zs \<and> P x \<and> (\<forall>z \<in> set zs. Q z))"
proof
  assume "\<exists>ys x zs. xs @ [w] = ys @ x # zs \<and> P x \<and> (\<forall>z \<in> set zs. Q z)"
  then obtain ys x zs where "xs @ [w] = ys @ x # zs" "P x" "\<forall>z \<in> set zs. Q z"
    by blast
  then show "P w \<or> Q w \<and> (\<exists>ys x zs. xs = ys @ x # zs \<and> P x \<and> (\<forall>z \<in> set zs. Q z))"
    by (cases zs rule: rev_cases) auto
next
  assume "P w \<or> Q w \<and> (\<exists>ys x zs. xs = ys @ x # zs \<and> P x \<and> (\<forall>z \<in> set zs. Q z))"
  then show "\<exists>ys x zs. xs @ [w] = ys @ x # zs \<and> P x \<and> (\<forall>z \<in> set zs. Q z)"
  proof (elim disjE conjE exE)
    assume "P w"
    then show ?thesis
      by (intro exI [of _ xs] exI [of _ w] exI [of _ "[]"]) simp
  next
    fix ys x zs
    assume "Q w" "xs = ys @ x # zs" "P x" "\<forall>z \<in> set zs. Q z"
    then show ?thesis
      by (intro exI [of _ ys] exI [of _ x] exI [of _ "zs @ [w]"]) auto
  qed
qed

text \<open>C7: after any sequence of writes a wallet is in the risk band exactly when some
  write reached the threshold and no later write fell below the exit threshold
  (threshold minus margin, saturating), or it was in the band before and no
  write fell below the exit threshold.\<close>

theorem risk_band_hysteresis:
  "get_risk_band_state k (fst (run_band k t xs m)) \<longleftrightarrow>
     (\<exists>ys x zs. xs = ys @ x # zs \<and> t \<le> snd x
        \<and> (\<forall>z \<in> set zs. saturating_sub t (get_hysteresis_margin m) \<le> snd z))
     \<or> get_risk_band_state k m
        \<and> (\<forall>z \<in> set xs. saturating_sub t (get_hysteresis_margin m) \<le> snd z)"
proof (induction xs rule: rev_induct)
  case Nil
  then show ?case by (simp add: run_band_def)
next
  case (snoc w xs)
  have mar: "get_hysteresis_margin (fst (run_band k t xs m)) = get_hysteresis_margin m"
    by (simp add: get_hysteresis_margin_def)
  have step: "get_risk_band_state k (fst (run_band k t (xs @ [w]) m)) \<longleftrightarrow>
      t \<le> snd w \<or> get_risk_band_state k (fst (run_band k t xs m))
        \<and> saturating_sub t (get_hysteresis_margin m) \<le> snd w"
    using evaluate_risk_band_state [of k "fst w" "snd w" t "fst (run_band k t xs m)"] mar
    by (cases w) (simp add: run_band_def)
  have all: "(\<forall>z \<in> set (xs @ [w]). Q z) \<longleftrightarrow> Q w \<and> (\<forall>z \<in> set xs. Q z)" for Q
    by auto
  have "L \<longleftrightarrow> (p \<or> q \<and> A) \<or> B \<and> q \<and> C" if "L \<longleftrightarrow> p \<or> S \<and> q" "S \<longleftrightarrow> A \<or> B \<and> C"
    for L p q S A B C
    using that by blast
  from this [OF step snoc] show ?case
    unfolding split_at_last all .
qed

theorem risk_band_hysteresis_witness:
  "get_risk_band_state (Addr 1, ''XLM'')
     (fst (run_band (Addr 1, ''XLM'') 75 [(sample_env 1, 80), (sample_env 2, 60)]
        (empty_monitor\<lparr>hysteresis_margin := Some 20\<rparr>)))
   \<and> \<not> get_risk_band_state (Addr 1, ''XLM'')
     (fst (run_band (Addr 1, ''XLM'') 75 [(sample_env 1, 80), (sample_env 2, 40)]
        (empty_monitor\<lparr>hysteresis_margin := Some 20\<rparr>)))"
  (is "?A \<and> \<not> ?B")
proof
  show ?A
    unfolding risk_band_hysteresis
    by (rule disjI1, rule exI [of _ "[]"], rule exI [of _ "(sample_env 1, 80)"],
        rule exI [of _ "[(sample_env 2, 60)]"])
      (simp add: empty_monitor_def get_hysteresis_margin_def saturating_sub_def)
  show "\<not> ?B"
    unfolding risk_band_hysteresis
    by (auto simp: empty_monitor_def get_hysteresis_margin_def get_risk_band_state_def
      saturating_sub_def Cons_eq_append_conv)
qed

text \<open>The entry time is recorded exactly while the wallet is in the band.\<close>

definition band_times_wf :: "monitor \<Rightarrow> bool" where
  "band_times_wf m = (\<forall>k. band_entry_time m k \<noteq> None \<longleftrightarrow> get_risk_band_state k m)"

lemma band_times_wf_evaluate_risk_band:
  "band_times_wf m \<Longrightarrow> band_times_wf (fst (evaluate_risk_band e k score t m))"
  unfolding band_times_wf_def
proof
  fix j assume "\<forall>k. (band_entry_time m k \<noteq> None) = get_risk_band_state k m"
  then have "(band_entry_time m j \<noteq> None) = get_risk_band_state j m" ..
  then show "(band_entry_time (fst (evaluate_risk_band e k score t m)) j \<noteq> None)
      = get_risk_band_state j (fst (evaluate_risk_band e k score t m))"
    by (cases "j = k") (simp_all add: evaluate_risk_band_def get_risk_band_state_def Let_def
      set_risk_band_state_def set_band_entry_time_def clear_band_entry_time_def)
qed

section \<open>Escalation\<close>

definition run_breach :: "pair_key \<Rightarrow> u32 \<Rightarrow> u32 list \<Rightarrow> monitor \<Rightarrow> monitor \<times> event list" where
  "run_breach k threshold = run_steps (\<lambda>score. update_breach_counter k score threshold)"

lemma run_breach_simps [simp]:
  "run_breach k t [] m = (m, [])"
  "run_breach k t (xs @ [x]) m =
     (fst (update_breach_counter k x t (fst (run_breach k t xs m))),
      snd (run_breach k t xs m) @ snd (update_breach_counter k x t (fst (run_breach k t xs m))))"
  by (simp_all add: run_breach_def)

text \<open>Length of the run of breaches that ends a sequence of scores.\<close>

definition breach_run :: "u32 \<Rightarrow> u32 list \<Rightarrow> nat" where
  "breach_run t xs = length (takeWhile (\<lambda>s. t \<le> s) (rev xs))"

lemma breach_run_simps [simp]:
  "breach_run t [] = 0"
  "breach_run t (xs @ [x]) = (if t \<le> x then Suc (breach_run t xs) else 0)"
  by (simp_all add: breach_run_def)

lemma breach_run_le: "breach_run t xs \<le> length xs"
  using length_takeWhile_le [of "\<lambda>s. t \<le> s" "rev xs"] by (simp add: breach_run_def)

lemma get_set_breach_count [simp]: "get_breach_count k (set_breach_count k c m) = c"
  by (simp add: get_breach_count_def set_breach_count_def)

lemma update_breach_counter_count:
  "get_breach_count k (fst (update_breach_counter k s t m)) =
     (if t \<le> s then saturating_add (get_breach_count k m) 1 else 0)"
  by (simp add: update_breach_counter_def Let_def)

lemma update_breach_counter_threshold [simp]:
  "escalation_threshold (fst (update_breach_counter k s t m)) = escalation_threshold m"
  by (simp add: update_breach_counter_def Let_def set_breach_count_def)

lemma run_breach_threshold [simp]:
  "get_escalation_threshold (fst (run_breach k t xs m)) = get_escalation_threshold m"
  by (induction xs rule: rev_induct) (simp_all add: get_escalation_threshold_def)

lemma run_breach_count:
  assumes "get_breach_count k m = 0" "length xs < 2 ^ 32"
  shows "unat (get_breach_count k (fst (run_breach k t xs m))) = breach_run t xs"
  using assms(2)
proof (induction xs rule: rev_induct)
  case Nil
  then show ?case using assms(1) by simp
next
  case (snoc x xs)
  then have IH: "unat (get_breach_count k (fst (run_breach k t xs m))) = breach_run t xs"
    by simp
  have "breach_run t xs < 2 ^ 32 - 1"
    using breach_run_le [of t xs] snoc.prems by simp
  then show ?case
    using IH update_breach_counter_count [of k x t "fst (run_breach k t xs m)"]
    by (simp add: unat_ops)
qed

lemma update_breach_counter_events:
  fixes k s t m
  defines "n \<equiv> get_escalation_threshold m" and "c \<equiv> get_breach_count k m"
    and "evs \<equiv> snd (update_breach_counter k s t m)"
  shows "count_events ''escalation_triggered'' evs =
      (if t \<le> s \<and> saturating_add c 1 = n then 1 else 0)"
    and "count_events ''escalation_resolved'' evs =
      (if \<not> t \<le> s \<and> n \<le> c \<and> 0 < n then 1 else 0)"
  by (simp_all add: assms update_breach_counter_def Let_def)

text \<open>C8: starting from a clear counter, over any sequence of writes the number of
  escalations equals the number of resolutions, plus one while the current run of
  breaches is at least as long as the escalation threshold: an escalation fires
  once per run and is resolved once.\<close>

theorem escalation_once_per_run:
  assumes "get_breach_count k m = 0" "length xs < 2 ^ 32 - 1" "0 < get_escalation_threshold m"
  shows "count_events ''escalation_triggered'' (snd (run_breach k t xs m)) =
         count_events ''escalation_resolved'' (snd (run_breach k t xs m))
         + (if unat (get_escalation_threshold m) \<le> breach_run t xs then 1 else 0)"
  using assms(2)
proof (induction xs rule: rev_induct)
  case Nil
  have "unat (get_escalation_threshold m) \<noteq> 0"
    using assms(3) by (simp add: word_gt_0 unat_eq_zero)
  then show ?case by simp
next
  case (snoc x xs)
  let ?m = "fst (run_breach k t xs m)"
  have len: "length xs < 2 ^ 32" and run: "breach_run t xs < 2 ^ 32 - 1"
    using snoc.prems breach_run_le [of t xs] by simp_all
  have c: "unat (get_breach_count k ?m) = breach_run t xs"
    by (rule run_breach_count [OF assms(1) len])
  have inc: "saturating_add (get_breach_count k ?m) 1 = get_escalation_threshold m
      \<longleftrightarrow> Suc (breach_run t xs) = unat (get_escalation_threshold m)"
    using run c by (auto simp: word_unat_eq_iff unat_ops)
  have le: "get_escalation_threshold m \<le> get_breach_count k ?m
      \<longleftrightarrow> unat (get_escalation_threshold m) \<le> breach_run t xs"
    using c by (simp add: word_le_nat_alt)
  have "unat (get_escalation_threshold m) > 0"
    using assms(3) by (simp add: word_less_nat_alt)
  then show ?case
    using snoc assms(3) by (simp add: update_breach_counter_events inc le)
qed

theorem escalation_once_per_run_witness:
  "count_events ''escalation_triggered''
     (snd (run_breach (Addr 1, ''XLM'') 75 [80, 90, 95, 10, 99]
        (empty_monitor\<lparr>escalation_threshold := Some 2\<rparr>))) = 1
   \<and> count_events ''escalation_resolved''
     (snd (run_breach (Addr 1, ''XLM'') 75 [80, 90, 95, 10, 99]
        (empty_monitor\<lparr>escalation_threshold := Some 2\<rparr>))) = 1"
proof -
  let ?m = "empty_monitor\<lparr>escalation_threshold := Some 2\<rparr>" and ?k = "(Addr 1, ''XLM'')"
  have "count_events ''escalation_resolved'' (snd (run_breach ?k 75 [80, 90, 95, 10, 99] ?m)) = 1"
    by (simp add: run_breach_def run_steps_def update_breach_counter_def get_breach_count_def
      set_breach_count_def get_escalation_threshold_def saturating_add_def empty_monitor_def Let_def)
  then show ?thesis
    using escalation_once_per_run [of ?k ?m "[80, 90, 95, 10, 99]" 75]
    by (simp add: get_breach_count_def get_escalation_threshold_def empty_monitor_def
      breach_run_def)
qed

end
