(* ===== verification/Rate_Limit.thy ===== *)
theory Rate_Limit
  imports Ledger_Types
begin

text \<open>
  Admission control of score writes: the flat cooldown and the token bucket of
  \<^verbatim>\<open>write_score_with_rate_limit\<close>, the variance-scaled cooldown, the velocity cap
  with its one-shot override, and the score floor
  (\<^verbatim>\<open>lib.rs\<close> 9555--9629, 11797--11809, 11973--12036 and their accessors in
  \<^verbatim>\<open>storage.rs\<close>).  The score histogram lives here because the adaptive cooldown
  is its only consumer on the write path.
\<close>

record AdaptiveRateLimit =
  ar_enabled :: bool
  ar_variance_scale :: u32

record TokenBucket =
  tb_tokens :: u32
  tb_last_refill :: u64

record ScoreVelocityCap =
  vc_enabled :: bool
  vc_points_per_hour :: u32

record ScoreFloorPolicy =
  fp_enabled :: bool
  fp_high_water_mark :: u32
  fp_floor_value :: u32

record limits =
  last_submit_time :: "pair_key \<Rightarrow> u64 option"
  cooldown_secs :: "u64 option"
  pair_cooldown :: "symbol \<Rightarrow> u64 option"
  adaptive_rate_limit :: "AdaptiveRateLimit option"
  burst_capacity :: "u32 option"
  token_bucket :: "pair_key \<Rightarrow> TokenBucket option"
  velocity_cap_enabled :: "bool option"
  velocity_cap_points_per_hour :: "u32 option"
  velocity_cap_override :: "pair_key \<Rightarrow> bool option"
  score_floor_config :: "(bool \<times> u32 \<times> u32) option"
  historical_max_score :: "pair_key \<Rightarrow> u32 option"
  score_histogram :: "u64 list option"

definition DEFAULT_SCORE_FLOOR_HWM :: u32 where "DEFAULT_SCORE_FLOOR_HWM = 80"
definition DEFAULT_SCORE_FLOOR_MIN :: u32 where "DEFAULT_SCORE_FLOOR_MIN = 20"

definition empty_limits :: limits where
  "empty_limits = \<lparr>last_submit_time = (\<lambda>_. None), cooldown_secs = None,
     pair_cooldown = (\<lambda>_. None), adaptive_rate_limit = None, burst_capacity = None,
     token_bucket = (\<lambda>_. None), velocity_cap_enabled = None,
     velocity_cap_points_per_hour = None, velocity_cap_override = (\<lambda>_. None),
     score_floor_config = None, historical_max_score = (\<lambda>_. None), score_histogram = None\<rparr>"

section \<open>Accessors\<close>

definition get_last_submit_time :: "pair_key \<Rightarrow> limits \<Rightarrow> u64" where
  "get_last_submit_time k l = unwrap_or (last_submit_time l k) 0"

definition set_last_submit_time :: "pair_key \<Rightarrow> u64 \<Rightarrow> limits \<Rightarrow> limits" where
  "set_last_submit_time k t l = l\<lparr>last_submit_time := (last_submit_time l)(k \<mapsto> t)\<rparr>"

definition clear_last_submit_time :: "pair_key \<Rightarrow> limits \<Rightarrow> limits" where
  "clear_last_submit_time k l = l\<lparr>last_submit_time := (last_submit_time l)(k := None)\<rparr>"

definition get_cooldown_secs :: "limits \<Rightarrow> u64" where
  "get_cooldown_secs l = unwrap_or (cooldown_secs l) DEFAULT_COOLDOWN_SECS"

definition get_pair_cooldown_secs :: "symbol \<Rightarrow> limits \<Rightarrow> u64" where
  "get_pair_cooldown_secs p l = unwrap_or (pair_cooldown l p) (get_cooldown_secs l)"

definition get_adaptive_rate_limit :: "limits \<Rightarrow> AdaptiveRateLimit" where
  "get_adaptive_rate_limit l =
     unwrap_or (adaptive_rate_limit l) \<lparr>ar_enabled = False, ar_variance_scale = 0\<rparr>"

definition get_burst_capacity :: "limits \<Rightarrow> u32" where
  "get_burst_capacity l = unwrap_or (burst_capacity l) 1"

definition set_token_bucket :: "pair_key \<Rightarrow> TokenBucket \<Rightarrow> limits \<Rightarrow> limits" where
  "set_token_bucket k b l = l\<lparr>token_bucket := (token_bucket l)(k \<mapsto> b)\<rparr>"

definition get_score_velocity_cap :: "limits \<Rightarrow> ScoreVelocityCap" where
  "get_score_velocity_cap l =
     \<lparr>vc_enabled = unwrap_or (velocity_cap_enabled l) False,
      vc_points_per_hour = unwrap_or (velocity_cap_points_per_hour l) 0\<rparr>"

definition is_velocity_cap_overridden :: "pair_key \<Rightarrow> limits \<Rightarrow> bool" where
  "is_velocity_cap_overridden k l = unwrap_or (velocity_cap_override l k) False"

definition set_velocity_cap_override :: "pair_key \<Rightarrow> limits \<Rightarrow> limits" where
  "set_velocity_cap_override k l =
     l\<lparr>velocity_cap_override := (velocity_cap_override l)(k \<mapsto> True)\<rparr>"

definition clear_velocity_cap_override :: "pair_key \<Rightarrow> limits \<Rightarrow> limits" where
  "clear_velocity_cap_override k l =
     l\<lparr>velocity_cap_override := (velocity_cap_override l)(k := None)\<rparr>"

definition get_score_floor_policy :: "limits \<Rightarrow> ScoreFloorPolicy" where
  "get_score_floor_policy l =
     (case score_floor_config l of
        Some (enabled, hwm, floor) \<Rightarrow>
          \<lparr>fp_enabled = enabled, fp_high_water_mark = hwm, fp_floor_value = floor\<rparr>
      | None \<Rightarrow> \<lparr>fp_enabled = False, fp_high_water_mark = DEFAULT_SCORE_FLOOR_HWM,
                 fp_floor_value = DEFAULT_SCORE_FLOOR_MIN\<rparr>)"

definition get_historical_max_score :: "pair_key \<Rightarrow> limits \<Rightarrow> u32" where
  "get_historical_max_score k l = unwrap_or (historical_max_score l k) 0"

definition update_historical_max_score :: "pair_key \<Rightarrow> u32 \<Rightarrow> limits \<Rightarrow> limits" where
  "update_historical_max_score k score l =
     (if unwrap_or (historical_max_score l k) 0 < score
      then l\<lparr>historical_max_score := (historical_max_score l)(k \<mapsto> score)\<rparr> else l)"

definition score_floor_blocks :: "pair_key \<Rightarrow> u32 \<Rightarrow> limits \<Rightarrow> bool" where
  "score_floor_blocks k new_score l =
     (let policy = get_score_floor_policy l in
      if \<not> fp_enabled policy then False
      else fp_high_water_mark policy \<le> get_historical_max_score k l
           \<and> new_score < fp_floor_value policy)"

section \<open>Score histogram\<close>

definition get_histogram_vec :: "limits \<Rightarrow> u64 list" where
  "get_histogram_vec l = unwrap_or (score_histogram l) (replicate 10 0)"

definition hist_total :: "u64 list \<Rightarrow> u64" where
  "hist_total buckets = foldl saturating_add 0 buckets"

text \<open>\<^verbatim>\<open>v.get(i).unwrap_or(0)\<close>; the bucket index is below ten wherever it is written.\<close>

definition bucket_get :: "u64 list \<Rightarrow> nat \<Rightarrow> u64" where
  "bucket_get h i = (if i < length h then h ! i else 0)"

definition bucket_of :: "u32 \<Rightarrow> nat" where
  "bucket_of score = (if 100 \<le> score then 9 else unat (score div 10))"

definition update_histogram_on_clear :: "u32 \<Rightarrow> limits \<Rightarrow> limits" where
  "update_histogram_on_clear removed l =
     (let histogram = get_histogram_vec l; bucket = bucket_of removed in
      if 10 \<le> length histogram
      then l\<lparr>score_histogram :=
             Some (histogram[bucket := saturating_sub (bucket_get histogram bucket) 1])\<rparr>
      else l)"

definition update_histogram_on_write :: "u32 option \<Rightarrow> u32 \<Rightarrow> limits \<Rightarrow> limits" where
  "update_histogram_on_write previous new_score l =
     (let histogram = get_histogram_vec l in
      if length histogram < 10 then l
      else
        (let histogram1 =
           (case previous of
              Some prev \<Rightarrow>
                histogram[bucket_of prev := saturating_sub (bucket_get histogram (bucket_of prev)) 1]
            | None \<Rightarrow> histogram);
             new_bucket = bucket_of new_score in
         l\<lparr>score_histogram :=
            Some (histogram1[new_bucket := saturating_add (bucket_get histogram1 new_bucket) 1])\<rparr>))"

text \<open>The 128-bit intermediate values are natural numbers here: the two sums are
  below \<open>2 ^ 64\<close>, so none of the products below leaves the 128-bit range (see
  \<open>global_variance_u128\<close>).\<close>

fun weighted_sums :: "nat \<Rightarrow> u64 list \<Rightarrow> u64 \<times> u64 \<Rightarrow> u64 \<times> u64" where
  "weighted_sums i [] acc = acc"
| "weighted_sums i (count # buckets) (ws, wsq) =
     (let midpoint = of_nat (i * 10 + 5) in
      weighted_sums (Suc i) buckets
        (saturating_add ws (saturating_mul midpoint count),
         saturating_add wsq (saturating_mul (saturating_mul midpoint midpoint) count)))"

definition compute_global_variance :: "limits \<Rightarrow> u32" where
  "compute_global_variance l =
     (let buckets = get_histogram_vec l; total = hist_total buckets in
      if total = 0 then 0
      else
        (let (weighted_sum, weighted_sum_sq) = weighted_sums 0 buckets (0, 0);
             mean_scaled = unat weighted_sum * 1000 div unat total;
             mean_sq_scaled = mean_scaled * mean_scaled div 1000;
             esq_scaled = unat weighted_sum_sq * 1000 div unat total;
             variance_scaled = esq_scaled - mean_sq_scaled in
         of_nat (min (variance_scaled div 2500) 1000)))"

definition compute_effective_cooldown :: "u64 \<Rightarrow> limits \<Rightarrow> u64" where
  "compute_effective_cooldown base l =
     (let config = get_adaptive_rate_limit l in
      if \<not> ar_enabled config \<or> ar_variance_scale config = 0 then base
      else
        (let norm_var = compute_global_variance l;
             numerator = 1000 + unat (ar_variance_scale config) * unat norm_var;
             effective = unat base * numerator div 1000 in
         of_nat (min effective (2 ^ 64 - 1))))"

section \<open>Admission of a write\<close>

text \<open>The token-bucket branch: \<^verbatim>\<open>checked_div\<close> by a zero cooldown counts no refill.\<close>

definition refills_since :: "u64 \<Rightarrow> u64 \<Rightarrow> u64 \<Rightarrow> u64" where
  "refills_since now last_refill cooldown =
     (if cooldown = 0 then 0 else saturating_sub now last_refill div cooldown)"

definition refilled_tokens :: "u32 \<Rightarrow> u32 \<Rightarrow> u64 \<Rightarrow> u32" where
  "refilled_tokens capacity tokens refills =
     ucast (min (saturating_add (ucast tokens :: u64) refills) (ucast capacity))"

definition get_remaining_tokens :: "env \<Rightarrow> pair_key \<Rightarrow> limits \<Rightarrow> u32" where
  "get_remaining_tokens e k l =
     (let capacity = get_burst_capacity l;
          cooldown = compute_effective_cooldown (get_pair_cooldown_secs (snd k) l) l in
      case token_bucket l k of
        None \<Rightarrow> capacity
      | Some b \<Rightarrow>
          refilled_tokens capacity (tb_tokens b)
            (refills_since (ledger_timestamp e) (tb_last_refill b) cooldown))"

definition admit_rate :: "env \<Rightarrow> pair_key \<Rightarrow> limits \<Rightarrow> limits res" where
  "admit_rate e k l =
     (let now = ledger_timestamp e;
          cooldown = compute_effective_cooldown (get_pair_cooldown_secs (snd k) l) l;
          capacity = get_burst_capacity l;
          last_submit = get_last_submit_time k l in
      if 1 < capacity then
        (let (current_tokens, last_refill) =
           (case token_bucket l k of
              Some b \<Rightarrow> (tb_tokens b, tb_last_refill b)
            | None \<Rightarrow> (capacity, now));
             refills = refills_since now last_refill cooldown;
             refilled = refilled_tokens capacity current_tokens refills in
         if refilled = 0 then Inl (Err RateLimitExceeded)
         else
           (let new_last_refill =
              (if 0 < refills then saturating_add last_refill (saturating_mul refills cooldown)
               else last_refill) in
            Inr (set_token_bucket k
                   \<lparr>tb_tokens = refilled - 1, tb_last_refill = new_last_refill\<rparr> l)))
      else if last_submit \<noteq> 0 \<and> now < saturating_add last_submit cooldown
      then Inl (Err RateLimitExceeded)
      else Inr l)"

definition allowed_delta :: "u32 \<Rightarrow> u64 \<Rightarrow> u64" where
  "allowed_delta points_per_hour elapsed =
     max 1 (saturating_mul (ucast points_per_hour) elapsed div 3600)"

text \<open>The velocity cap reads the submission time from before this write.\<close>

definition admit_velocity ::
    "env \<Rightarrow> pair_key \<Rightarrow> u64 \<Rightarrow> u32 option \<Rightarrow> u32 \<Rightarrow> limits \<Rightarrow> limits res" where
  "admit_velocity e k last_submit previous new_score l =
     (case previous of
        None \<Rightarrow> Inr l
      | Some prev \<Rightarrow>
          (let cap = get_score_velocity_cap l in
           if \<not> vc_enabled cap then Inr l
           else if is_velocity_cap_overridden k l then Inr (clear_velocity_cap_override k l)
           else if last_submit \<noteq> 0
             \<and> allowed_delta (vc_points_per_hour cap)
                 (saturating_sub (ledger_timestamp e) last_submit)
               < ucast (abs_diff new_score prev)
           then Inl (Err RateLimitExceeded)
           else Inr l))"

definition admit_write ::
    "env \<Rightarrow> pair_key \<Rightarrow> u32 option \<Rightarrow> u32 \<Rightarrow> limits \<Rightarrow> limits res" where
  "admit_write e k previous new_score l =
     bind_res (admit_rate e k l) (\<lambda>l1.
     bind_res (admit_velocity e k (get_last_submit_time k l) previous new_score l1) (\<lambda>l2.
     (let l3 = set_last_submit_time k (ledger_timestamp e) l2 in
      if score_floor_blocks k new_score l3 then Inl (Err InvalidScore) else Inr l3)))"

text \<open>Unfolding equations that evaluate an admission on concrete values.\<close>

lemmas admit_eval = admit_write_def admit_rate_def admit_velocity_def empty_limits_def
  sample_env_def get_burst_capacity_def get_last_submit_time_def set_last_submit_time_def
  score_floor_blocks_def get_score_floor_policy_def get_score_velocity_cap_def
  compute_effective_cooldown_def get_adaptive_rate_limit_def get_pair_cooldown_secs_def
  get_cooldown_secs_def saturating_add_def saturating_sub_def saturating_mul_def refills_since_def
  refilled_tokens_def set_token_bucket_def is_velocity_cap_overridden_def
  clear_velocity_cap_override_def allowed_delta_def abs_diff_def get_historical_max_score_def
  DEFAULT_COOLDOWN_SECS_def Let_def

section \<open>Configuration is untouched by admission\<close>

text \<open>Admission changes only the submission time, the bucket and the override of its
  key, so the cooldown and the capacity stay what they were.\<close>

definition same_config :: "limits \<Rightarrow> limits \<Rightarrow> bool" where
  "same_config l l' =
     (cooldown_secs l' = cooldown_secs l \<and> pair_cooldown l' = pair_cooldown l
      \<and> adaptive_rate_limit l' = adaptive_rate_limit l \<and> burst_capacity l' = burst_capacity l
      \<and> score_histogram l' = score_histogram l \<and> score_floor_config l' = score_floor_config l
      \<and> historical_max_score l' = historical_max_score l
      \<and> velocity_cap_enabled l' = velocity_cap_enabled l
      \<and> velocity_cap_points_per_hour l' = velocity_cap_points_per_hour l)"

lemma same_config_refl [simp]: "same_config l l"
  by (simp add: same_config_def)

lemma same_config_trans: "same_config l l' \<Longrightarrow> same_config l' l'' \<Longrightarrow> same_config l l''"
  by (simp add: same_config_def)

lemma same_config_writes [simp]:
  "same_config l (set_token_bucket k b l)"
  "same_config l (set_last_submit_time k t l)"
  "same_config l (clear_velocity_cap_override k l)"
  by (simp_all add: same_config_def set_token_bucket_def set_last_submit_time_def
    clear_velocity_cap_override_def)

lemma same_config_values:
  assumes "same_config l l'"
  shows "get_burst_capacity l' = get_burst_capacity l"
    "get_pair_cooldown_secs p l' = get_pair_cooldown_secs p l"
    "compute_effective_cooldown base l' = compute_effective_cooldown base l"
    "get_score_floor_policy l' = get_score_floor_policy l"
    "get_score_velocity_cap l' = get_score_velocity_cap l"
proof -
  have "get_histogram_vec l' = get_histogram_vec l"
    using assms by (simp add: same_config_def get_histogram_vec_def)
  then have "compute_global_variance l' = compute_global_variance l"
    by (simp add: compute_global_variance_def)
  then show "get_burst_capacity l' = get_burst_capacity l"
    "get_pair_cooldown_secs p l' = get_pair_cooldown_secs p l"
    "compute_effective_cooldown base l' = compute_effective_cooldown base l"
    "get_score_floor_policy l' = get_score_floor_policy l"
    "get_score_velocity_cap l' = get_score_velocity_cap l"
    using assms by (simp_all add: same_config_def get_burst_capacity_def
      get_pair_cooldown_secs_def get_cooldown_secs_def compute_effective_cooldown_def Let_def
      get_adaptive_rate_limit_def get_score_floor_policy_def get_score_velocity_cap_def)
qed

lemma admit_rate_config: "admit_rate e k l = Inr l' \<Longrightarrow> same_config l l'"
  by (auto simp: admit_rate_def Let_def split: if_splits option.splits)

lemma admit_velocity_cases:
  "admit_velocity e k t prev sc l = Inr l' \<Longrightarrow> l' = l \<or> l' = clear_velocity_cap_override k l"
  by (auto simp: admit_velocity_def Let_def split: if_splits option.splits)

lemma admit_write_steps:
  assumes "admit_write e k prev sc l = Inr l'"
  obtains l1 l2 where "admit_rate e k l = Inr l1"
    "admit_velocity e k (get_last_submit_time k l) prev sc l1 = Inr l2"
    "l' = set_last_submit_time k (ledger_timestamp e) l2" "\<not> score_floor_blocks k sc l'"
  using assms by (auto simp: admit_write_def bind_res_Inr_iff Let_def split: if_splits)

lemma admit_write_config: "admit_write e k prev sc l = Inr l' \<Longrightarrow> same_config l l'"
  by (elim admit_write_steps)
    (metis admit_rate_config admit_velocity_cases same_config_trans same_config_writes(2,3))

lemma admit_write_time [simp]:
  "admit_write e k prev sc l = Inr l' \<Longrightarrow> get_last_submit_time k l' = ledger_timestamp e"
  by (elim admit_write_steps) (simp add: get_last_submit_time_def set_last_submit_time_def)

lemma admit_write_bucket:
  "admit_write e k prev sc l = Inr l' \<Longrightarrow>
     \<exists>l1. admit_rate e k l = Inr l1 \<and> token_bucket l' k = token_bucket l1 k"
  by (elim admit_write_steps)
    (auto simp: set_last_submit_time_def clear_velocity_cap_override_def dest: admit_velocity_cases)

section \<open>Flat cooldown\<close>



section \<open>Token bucket\<close>

text \<open>Attempts at one key in order: an attempt that fails is rolled back, one that is
  admitted leaves its state behind.  The result counts the admitted attempts.\<close>

fun admitted :: "pair_key \<Rightarrow> (env \<times> u32 option \<times> u32) list \<Rightarrow> limits \<Rightarrow> nat" where
  "admitted k [] l = 0"
| "admitted k ((e, prev, sc) # xs) l =
     (case admit_write e k prev sc l of
        Inr l' \<Rightarrow> Suc (admitted k xs l')
      | Inl _ \<Rightarrow> admitted k xs l)"

abbreviation key_cooldown :: "pair_key \<Rightarrow> limits \<Rightarrow> u64" where
  "key_cooldown k l \<equiv> compute_effective_cooldown (get_pair_cooldown_secs (snd k) l) l"

abbreviation at_time :: "env \<times> u32 option \<times> u32 \<Rightarrow> nat" where
  "at_time x \<equiv> unat (ledger_timestamp (fst x))"

lemma unat_refilled_tokens:
  "unat (refilled_tokens cap tokens r) = min (unat tokens + unat r) (unat cap)"
proof -
  let ?m = "min (saturating_add (ucast tokens :: u64) r) (ucast cap)"
  have cap: "unat cap < 2 ^ 32"
    using unat_less_pow [of cap] by simp
  have "unat ?m = min (min (unat tokens + unat r) (2 ^ 64 - 1)) (unat cap)"
    by (simp add: min_def word_le_nat_alt unat_ops)
  also have "\<dots> = min (unat tokens + unat r) (unat cap)"
    using cap by (simp add: min_def)
  finally have m: "unat ?m = min (unat tokens + unat r) (unat cap)" .
  then have "unat (ucast ?m :: u32) = unat ?m"
    using cap by (intro unat_ucast_fits) simp
  then show ?thesis
    by (simp only: refilled_tokens_def m)
qed

text \<open>The potential: tokens in the bucket plus the refills due until \<^term>\<open>T\<close>; an
  absent bucket is full from the first moment \<^term>\<open>t\<close> on.\<close>

definition bucket_potential :: "nat \<Rightarrow> nat \<Rightarrow> pair_key \<Rightarrow> limits \<Rightarrow> nat" where
  "bucket_potential T t k l =
     (case token_bucket l k of
        None \<Rightarrow> unat (get_burst_capacity l) + (T - t) div unat (key_cooldown k l)
      | Some b \<Rightarrow> unat (tb_tokens b) + (T - unat (tb_last_refill b)) div unat (key_cooldown k l))"

lemma refill_moves_potential:
  fixes last now T c :: nat
  assumes "0 < c" "last \<le> now" "now \<le> T"
  shows "(T - (last + (now - last) div c * c)) div c = (T - last) div c - (now - last) div c"
proof -
  have "(now - last) div c * c \<le> T - last"
    using assms by (meson diff_le_mono div_times_less_eq_dividend le_trans)
  then have "T - last = (T - (last + (now - last) div c * c)) + (now - last) div c * c"
    using assms by simp
  then have "(T - last) div c = (T - (last + (now - last) div c * c)) div c + (now - last) div c"
    using assms(1) by (metis div_mult_self1 less_numeral_extra(3) add.commute mult.commute)
  then show ?thesis by simp
qed

lemma admit_spends_potential:
  assumes adm: "admit_write e k prev sc l = Inr l'" and cap: "1 < get_burst_capacity l"
    and c: "0 < key_cooldown k l"
    and time: "t \<le> unat (ledger_timestamp e)" "unat (ledger_timestamp e) \<le> T"
    and bucket: "\<And>b. token_bucket l k = Some b \<Longrightarrow> tb_last_refill b \<le> ledger_timestamp e"
  shows "Suc (bucket_potential T t' k l') \<le> bucket_potential T t k l"
    and "\<exists>b. token_bucket l' k = Some b \<and> tb_last_refill b \<le> ledger_timestamp e"
proof -
  define now c' where "now = ledger_timestamp e" and "c' = key_cooldown k l"
  obtain tok last where cur: "(case token_bucket l k of Some b \<Rightarrow> (tb_tokens b, tb_last_refill b)
      | None \<Rightarrow> (get_burst_capacity l, now)) = (tok, last)"
    by force
  define r where "r = refills_since now last c'"
  have ge: "last \<le> now"
    using cur bucket by (auto simp: now_def split: option.splits)
  have r: "unat r = (unat now - unat last) div unat c'"
    using c by (simp add: r_def refills_since_def c'_def unat_div unat_ops word_gt_0)
  have c0: "0 < unat c'"
    using c by (simp add: c'_def word_less_nat_alt)
  let ?f = "refilled_tokens (get_burst_capacity l) tok r"
  let ?last = "if 0 < r then saturating_add last (saturating_mul r c') else last"
  have fit: "unat last + unat r * unat c' \<le> unat now"
    using ge by (simp add: r word_le_nat_alt) (metis add.commute div_times_less_eq_dividend le_diff_conv2)
  have last: "unat ?last = unat last + unat r * unat c'"
    using fit unat_le_max [of now] by (auto simp: unat_ops word_gt_0 unat_eq_zero)
  obtain l1 where l1: "admit_rate e k l = Inr l1" "token_bucket l' k = token_bucket l1 k"
    using admit_write_bucket [OF adm] by blast
  then have f0: "?f \<noteq> 0" and
    b': "token_bucket l' k = Some \<lparr>tb_tokens = ?f - 1, tb_last_refill = ?last\<rparr>"
    using cap cur by (auto simp: admit_rate_def Let_def now_def [symmetric] c'_def [symmetric]
      r_def [symmetric] set_token_bucket_def split: if_splits)
  have tok': "unat (?f - 1) = unat ?f - 1" "0 < unat ?f"
    using unat_minus_one [OF f0] f0 by (simp_all add: unat_gt_0)
  have cool: "key_cooldown k l' = c'"
    using same_config_values [OF admit_write_config [OF adm]] by (simp add: c'_def)
  have "(T - (unat last + unat r * unat c')) div unat c' = (T - unat last) div unat c' - unat r"
    using refill_moves_potential [OF c0, of "unat last" "unat now" T] ge time(2)
    by (simp add: r word_le_nat_alt now_def)
  then have pot': "bucket_potential T t' k l' =
      unat (?f - 1) + ((T - unat last) div unat c' - unat r)"
    by (simp add: bucket_potential_def b' cool last)
  have "unat r \<le> (T - unat last) div unat c'"
    using time(2) by (simp add: r now_def div_le_mono)
  moreover have "unat ?f \<le> unat tok + unat r"
    by (simp add: unat_refilled_tokens)
  moreover have "unat tok + (T - unat last) div unat c' \<le> bucket_potential T t k l"
    using cur time(1) by (auto simp: bucket_potential_def c'_def [symmetric] now_def
      intro!: div_le_mono split: option.splits)
  ultimately show "Suc (bucket_potential T t' k l') \<le> bucket_potential T t k l"
    using pot' tok' by linarith
  show "\<exists>b. token_bucket l' k = Some b \<and> tb_last_refill b \<le> ledger_timestamp e"
    using b' fit last by (simp add: word_le_nat_alt now_def)
qed

lemma admitted_le_potential:
  assumes "1 < get_burst_capacity l" "0 < key_cooldown k l"
    "sorted (map at_time xs)" "\<forall>x \<in> set xs. t \<le> at_time x \<and> at_time x \<le> T"
    "\<And>b. token_bucket l k = Some b \<Longrightarrow> \<forall>x \<in> set xs. unat (tb_last_refill b) \<le> at_time x"
  shows "admitted k xs l \<le> bucket_potential T t k l"
  using assms
proof (induction xs arbitrary: l)
  case (Cons x xs)
  obtain e prev sc where x: "x = (e, prev, sc)"
    by (cases x)
  show ?case
  proof (cases "admit_write e k prev sc l")
    case (Inl f)
    have "admitted k xs l \<le> bucket_potential T t k l"
      using Cons.prems by (intro Cons.IH) auto
    then show ?thesis
      by (simp add: x Inl)
  next
    case (Inr l')
    have first: "tb_last_refill b \<le> ledger_timestamp e" if "token_bucket l k = Some b" for b
      using Cons.prems(5) [OF that] by (simp add: x word_le_nat_alt)
    have range: "t \<le> unat (ledger_timestamp e)" "unat (ledger_timestamp e) \<le> T"
      using Cons.prems(4) by (simp_all add: x)
    note spend = admit_spends_potential [OF Inr Cons.prems(1,2) range first]
    have le: "\<forall>y \<in> set xs. unat (ledger_timestamp e) \<le> at_time y"
      using Cons.prems(3) by (auto simp: x)
    have "admitted k xs l' \<le> bucket_potential T t k l'"
    proof (rule Cons.IH)
      show "1 < get_burst_capacity l'" "0 < key_cooldown k l'"
        using Cons.prems(1,2) same_config_values [OF admit_write_config [OF Inr]] by simp_all
      show "\<forall>y \<in> set xs. unat (tb_last_refill b) \<le> at_time y" if "token_bucket l' k = Some b" for b
        using spend(2) that le Cons.prems(4) by (auto simp: x word_le_nat_alt)
    qed (use Cons.prems in auto)
    then show ?thesis
      using spend(1) [of t] by (simp add: x Inr)
  qed
qed simp



section \<open>Adaptive cooldown\<close>

lemma foldl_saturating_add_ge:
  "x \<le> foldl saturating_add x xs" for x :: u64
proof (induction xs arbitrary: x)
  case (Cons y ys)
  show ?case
    using order_trans [OF saturating_add_ge Cons.IH [of "saturating_add x y"]] by simp
qed simp

lemma unat_foldl_saturating_add:
  "unat (foldl saturating_add x xs) = min (unat x + sum_list (map unat xs)) (2 ^ 64 - 1)"
  for x :: u64
proof (induction xs arbitrary: x)
  case Nil
  then show ?case using unat_le_max [of x] by (simp add: min_def)
next
  case (Cons y ys)
  then show ?case by (simp add: unat_ops)
qed

lemma weighted_sums_bound:
  "unat (fst (weighted_sums i buckets acc))
     \<le> unat (fst acc) + (10 * (i + length buckets)) * sum_list (map unat buckets)"
proof (induction buckets arbitrary: i acc)
  case (Cons count buckets)
  obtain ws wsq where acc: "acc = (ws, wsq)"
    by (cases acc)
  define mid :: u64 where "mid = of_nat (i * 10 + 5)"
  let ?n = "10 * (i + length (count # buckets))" and ?s = "sum_list (map unat buckets)"
  have "unat mid \<le> ?n"
    using unat_of_nat_le [of "i * 10 + 5", where 'a = 64] by (simp add: mid_def)
  then have "unat mid * unat count \<le> ?n * unat count"
    by (rule mult_right_mono) simp
  then have "unat (saturating_add ws (saturating_mul mid count)) \<le> unat ws + ?n * unat count"
    by (simp only: unat_ops min_le_iff_disj) linarith
  moreover have "unat (fst (weighted_sums (Suc i) buckets (saturating_add ws (saturating_mul mid count), q)))
      \<le> unat (saturating_add ws (saturating_mul mid count)) + ?n * ?s" for q
    using Cons.IH [of "Suc i" "(saturating_add ws (saturating_mul mid count), q)"] by simp
  ultimately have "unat (fst (weighted_sums (Suc i) buckets (saturating_add ws (saturating_mul mid count), q)))
      \<le> unat ws + ?n * unat count + ?n * ?s" for q
    using add_right_mono order_trans by blast
  then show ?case
    by (simp only: acc weighted_sums.simps Let_def mid_def [symmetric] fst_conv list.map
      sum_list.Cons distrib_left add.assoc)
qed simp

text \<open>On the ten buckets the scaled mean stays below a hundred thousand, so the
  squares of \<^verbatim>\<open>compute_global_variance\<close> fit into 128 bits.\<close>

lemma global_variance_u128:
  assumes "length buckets \<le> 10" "hist_total buckets \<noteq> 0"
  shows "unat (fst (weighted_sums 0 buckets (0, 0))) * 1000 div unat (hist_total buckets) \<le> 100000"
proof -
  let ?s = "sum_list (map unat buckets)" and ?w = "unat (fst (weighted_sums 0 buckets (0, 0)))"
  have t: "unat (hist_total buckets) = min ?s (2 ^ 64 - 1)"
    by (simp add: hist_total_def unat_foldl_saturating_add)
  have "?w \<le> 10 * length buckets * ?s"
    using weighted_sums_bound [of 0 buckets "(0, 0)"] by simp
  also have "10 * length buckets * ?s \<le> 100 * ?s"
    using assms(1) by (intro mult_right_mono) simp_all
  finally have w: "?w \<le> 100 * ?s" .
  have "?w \<le> 100 * unat (hist_total buckets)"
    using w t unat_le_max [of "fst (weighted_sums 0 buckets (0, 0))"] by (auto simp: min_def)
  then have "?w * 1000 \<le> 100000 * unat (hist_total buckets)"
    by simp
  then show ?thesis
    using assms(2) by (metis div_le_mono nonzero_mult_div_cancel_right unat_eq_zero)
qed

lemma compute_global_variance_le: "unat (compute_global_variance l) \<le> 1000"
proof -
  have "unat (of_nat (min n 1000) :: u32) \<le> 1000" for n
    by (simp add: unat_of_nat_small)
  then show ?thesis
    by (simp add: compute_global_variance_def Let_def split_beta)
qed

text \<open>the adaptive rate limit never shortens a cooldown and stretches it at most
  by the configured variance scale; switched off, the cooldown is the
  configured one.\<close>

theorem effective_cooldown_bounds:
  "base \<le> compute_effective_cooldown base l
   \<and> unat (compute_effective_cooldown base l)
       \<le> unat base * (1 + unat (ar_variance_scale (get_adaptive_rate_limit l)))
   \<and> (compute_effective_cooldown base l = base
      \<or> ar_enabled (get_adaptive_rate_limit l))"
proof -
  let ?c = "get_adaptive_rate_limit l"
  let ?v = "unat (compute_global_variance l)" and ?s = "unat (ar_variance_scale (get_adaptive_rate_limit l))"
  let ?e = "unat base * (1000 + ?s * ?v) div 1000"
  have v: "?v \<le> 1000"
    by (rule compute_global_variance_le)
  have lower: "unat base \<le> ?e"
    by (simp add: div_le_mono algebra_simps less_eq_div_iff_mult_less_eq)
  have "?s * ?v \<le> ?s * 1000"
    using v by simp
  then have "unat base * (1000 + ?s * ?v) \<le> unat base * (1000 + ?s * 1000)"
    by simp
  then have "?e \<le> unat base * (1000 + ?s * 1000) div 1000"
    by (rule div_le_mono)
  also have "unat base * (1000 + ?s * 1000) = 1000 * (unat base * (1 + ?s))"
    by (simp add: algebra_simps)
  also have "1000 * (unat base * (1 + ?s)) div 1000 = unat base * (1 + ?s)"
    by (rule nonzero_mult_div_cancel_left) simp
  finally have upper: "?e \<le> unat base * (1 + ?s)" .
  have "unat (of_nat (min ?e (2 ^ 64 - 1)) :: u64) = min ?e (2 ^ 64 - 1)"
    by (rule unat_of_nat_small) simp
  then show ?thesis
    using lower upper unat_le_max [of base]
    by (auto simp: compute_effective_cooldown_def Let_def word_le_nat_alt)
qed

section \<open>Velocity cap and score floor\<close>

text \<open>a write admitted while the velocity cap is enabled either spent a one-shot
  override, or changed the score by at most one point or the points per hour
  times the elapsed hours; and a write admitted under an enabled floor policy is
  not below the floor once the historical maximum has reached the mark.\<close>

theorem admitted_write_within_policy:
  assumes "admit_write e k (Some prev) sc l = Inr l'" "get_last_submit_time k l \<noteq> 0"
    "vc_enabled (get_score_velocity_cap l)"
  shows "(is_velocity_cap_overridden k l \<and> \<not> is_velocity_cap_overridden k l'
          \<or> unat (abs_diff sc prev) \<le>
              max 1 (unat (vc_points_per_hour (get_score_velocity_cap l))
                     * (unat (ledger_timestamp e) - unat (get_last_submit_time k l)) div 3600))
         \<and> (fp_enabled (get_score_floor_policy l)
            \<longrightarrow> fp_high_water_mark (get_score_floor_policy l) \<le> get_historical_max_score k l
            \<longrightarrow> fp_floor_value (get_score_floor_policy l) \<le> sc)"
proof -
  obtain l1 l2 where s: "admit_rate e k l = Inr l1"
    "admit_velocity e k (get_last_submit_time k l) (Some prev) sc l1 = Inr l2"
    "l' = set_last_submit_time k (ledger_timestamp e) l2" "\<not> score_floor_blocks k sc l'"
    using assms(1) by (elim admit_write_steps)
  have ov: "is_velocity_cap_overridden k l1 = is_velocity_cap_overridden k l"
    using s(1) by (auto simp: admit_rate_def Let_def is_velocity_cap_overridden_def
      set_token_bucket_def split: if_splits option.splits)
  note cfg1 = same_config_values [OF admit_rate_config [OF s(1)]]
  note cfg = same_config_values [OF admit_write_config [OF assms(1)]]
  have hist: "get_historical_max_score k l' = get_historical_max_score k l"
    using admit_write_config [OF assms(1)] by (simp add: same_config_def get_historical_max_score_def)
  let ?d = "allowed_delta (vc_points_per_hour (get_score_velocity_cap l))
      (saturating_sub (ledger_timestamp e) (get_last_submit_time k l))"
  have "unat ?d \<le> max 1 (unat (vc_points_per_hour (get_score_velocity_cap l))
      * (unat (ledger_timestamp e) - unat (get_last_submit_time k l)) div 3600)"
    by (auto simp: allowed_delta_def max_def word_le_nat_alt unat_div unat_ops div_le_mono)
  moreover have "is_velocity_cap_overridden k l \<and> \<not> is_velocity_cap_overridden k l'
      \<or> unat (abs_diff sc prev) \<le> unat ?d"
    using s(2,3) assms(2,3) ov
    by (auto simp: admit_velocity_def Let_def cfg1 word_less_nat_alt unat_ucast_up not_less
      is_velocity_cap_overridden_def set_last_submit_time_def clear_velocity_cap_override_def
      split: if_splits)
  ultimately show ?thesis
    using s(4) by (auto simp: score_floor_blocks_def Let_def cfg hist not_less)
qed

theorem admitted_write_within_policy_witness:
  "\<exists>l'. admit_write (sample_env 2\<lparr>ledger_timestamp := 4600\<rparr>) (Addr 1, ''XLM'') (Some 40) 50
       (empty_limits\<lparr>last_submit_time := [(Addr 1, ''XLM'') \<mapsto> 1000],
          velocity_cap_enabled := Some True, velocity_cap_points_per_hour := Some 10,
          score_floor_config := Some (True, 80, 20), historical_max_score := (\<lambda>_. Some 90)\<rparr>) = Inr l'
     \<and> unat (abs_diff 50 (40 :: u32)) \<le> max 1 (10 * (4600 - 1000) div 3600)
     \<and> (20 :: u32) \<le> 50"
proof -
  let ?l = "empty_limits\<lparr>last_submit_time := [(Addr 1, ''XLM'') \<mapsto> 1000],
      velocity_cap_enabled := Some True, velocity_cap_points_per_hour := Some 10,
      score_floor_config := Some (True, 80, 20), historical_max_score := (\<lambda>_. Some 90)\<rparr>"
  let ?k = "(Addr 1, ''XLM'')" and ?e = "sample_env 2\<lparr>ledger_timestamp := 4600\<rparr>"
  obtain l' where adm: "admit_write ?e ?k (Some 40) 50 ?l = Inr l'"
    by (simp add: admit_eval)
  have "get_last_submit_time ?k ?l \<noteq> 0" "vc_enabled (get_score_velocity_cap ?l)"
    by (simp_all add: admit_eval)
  from admitted_write_within_policy [OF adm this] show ?thesis
    using adm by (simp add: is_velocity_cap_overridden_def get_score_velocity_cap_def
      get_last_submit_time_def sample_env_def get_score_floor_policy_def
      get_historical_max_score_def empty_limits_def)
qed

end
