(* ===== verification/History.thy ===== *)
theory History
  imports Ledger_Types "HOL-Library.Signed_Division"
begin

text \<open>
  The score history of a wallet and pair: the ring buffer of
  \<^verbatim>\<open>storage.rs\<close> 548--639 with its paginated reader, and the interpolation of
  past scores in \<^verbatim>\<open>lib.rs\<close> 3248--3269 and 3302--3483.  A history is stored oldest first.
\<close>

record StepWiseEntry =
  sw_time_threshold_secs :: u64
  sw_score_value :: u32

datatype DecayCurve = Exponential | Quadratic | Logarithmic | StepWise "StepWiseEntry list"

record history_store =
  score_history :: "pair_key \<Rightarrow> RiskScore list option"
  history_max_depth :: "u32 option"
  decay_curve :: "DecayCurve option"

definition empty_history_store :: history_store where
  "empty_history_store =
     \<lparr>score_history = (\<lambda>_. None), history_max_depth = None, decay_curve = None\<rparr>"

section \<open>Ring buffer\<close>

definition get_history_max_depth :: "history_store \<Rightarrow> u32" where
  "get_history_max_depth h = unwrap_or (history_max_depth h) DEFAULT_HISTORY_MAX_DEPTH"

definition get_score_history :: "pair_key \<Rightarrow> history_store \<Rightarrow> RiskScore list" where
  "get_score_history k h = unwrap_or (score_history h k) []"

text \<open>\<^verbatim>\<open>while history.len() > depth { history.remove(0); }\<close>\<close>

fun evict_front :: "nat \<Rightarrow> 'a list \<Rightarrow> 'a list" where
  "evict_front depth [] = []"
| "evict_front depth (x # xs) =
     (if depth < length (x # xs) then evict_front depth xs else x # xs)"

definition push_score_history :: "pair_key \<Rightarrow> RiskScore \<Rightarrow> history_store \<Rightarrow> history_store" where
  "push_score_history k score h =
     (let history = get_score_history k h @ [score] in
      h\<lparr>score_history := (score_history h)
          (k \<mapsto> evict_front (unat (get_history_max_depth h)) history)\<rparr>)"

definition clear_score_history :: "pair_key \<Rightarrow> history_store \<Rightarrow> history_store" where
  "clear_score_history k h = h\<lparr>score_history := (score_history h)(k := None)\<rparr>"

text \<open>The backwards walk of the paginated reader: at most \<^verbatim>\<open>budget\<close> entries, from
  index \<^verbatim>\<open>idx\<close> down to the oldest.\<close>

fun page_walk :: "RiskScore list \<Rightarrow> nat \<Rightarrow> nat \<Rightarrow> RiskScore list" where
  "page_walk history 0 idx = []"
| "page_walk history (Suc budget) idx =
     history ! idx # (if idx = 0 then [] else page_walk history budget (idx - 1))"

definition get_score_history_paginated ::
    "pair_key \<Rightarrow> u32 \<Rightarrow> u32 \<Rightarrow> history_store \<Rightarrow> RiskScore list" where
  "get_score_history_paginated k offset limit h =
     (let history = get_score_history k h; len = length history in
      if len \<le> unat offset then []
      else page_walk history (unat (min limit MAX_HISTORY_DEPTH)) (len - 1 - unat offset))"

lemma evict_front_eq: "evict_front d xs = drop (length xs - d) xs"
  by (induction xs) (auto simp: Suc_diff_le not_less)

lemma push_score_history_eq:
  "get_score_history k (push_score_history k r h) =
     drop (Suc (length (get_score_history k h)) - unat (get_history_max_depth h))
       (get_score_history k h @ [r])"
  by (simp add: push_score_history_def get_score_history_def evict_front_eq Let_def)

lemma push_score_history_depth [simp]:
  "history_max_depth (push_score_history k r h) = history_max_depth h"
  by (simp add: push_score_history_def Let_def)

lemma push_score_history_other [simp]:
  "j \<noteq> k \<Longrightarrow> score_history (push_score_history k r h) j = score_history h j"
  by (simp add: push_score_history_def Let_def)

lemma keep_last_snoc:
  "drop (Suc (length (drop (length xs - d) xs)) - d) (drop (length xs - d) xs @ [x])
   = drop (Suc (length xs) - d) (xs @ [x])"
proof (cases "length xs \<le> d")
  case True
  then show ?thesis by simp
next
  case False
  then show ?thesis by (simp add: Suc_diff_le)
qed

text \<open>after any sequence of pushes the stored history of a key is exactly the most
  recent entries, as many as the depth allows, of the old history followed by
  the pushed ones, oldest first; other keys keep theirs.\<close>

theorem history_keeps_most_recent:
  "get_score_history k (fold (push_score_history k) (r # rs) h) =
     drop (length (get_score_history k h @ r # rs) - unat (get_history_max_depth h))
       (get_score_history k h @ r # rs)
   \<and> (j = k \<or> score_history (fold (push_score_history k) (r # rs) h) j = score_history h j)"
proof (induction rs rule: rev_induct)
  case Nil
  show ?case
    by (cases "j = k") (simp_all add: push_score_history_eq)
next
  case (snoc x rs)
  let ?h = "fold (push_score_history k) (r # rs) h"
  let ?all = "get_score_history k h @ r # rs" and ?d = "unat (get_history_max_depth h)"
  have d: "get_history_max_depth ?h = get_history_max_depth h"
    by (induction rs rule: rev_induct) (simp_all add: get_history_max_depth_def)
  have IH: "get_score_history k ?h = drop (length ?all - ?d) ?all"
    and other: "j = k \<or> score_history ?h j = score_history h j"
    using snoc by blast+
  have "get_score_history k (push_score_history k x ?h) = drop (Suc (length ?all) - ?d) (?all @ [x])"
    unfolding push_score_history_eq d IH by (rule keep_last_snoc)
  moreover have "j = k \<or> score_history (push_score_history k x ?h) j = score_history h j"
    using other by (cases "j = k") simp_all
  ultimately show ?case
    by simp
qed

lemma page_walk_eq:
  "idx < length xs \<Longrightarrow> page_walk xs n idx = take n (rev (take (Suc idx) xs))"
proof (induction n arbitrary: idx)
  case (Suc n)
  then show ?case
    by (cases idx) (auto simp: take_Suc_conv_app_nth)
qed simp

lemma rev_take_drop: "rev (take n xs) = drop (length xs - n) (rev xs)"
  by (simp add: rev_take)

text \<open>a page is the slice of the history, newest first, that starts at the offset
  and has at most the requested and at most 50 entries.\<close>

theorem paginated_slice:
  "get_score_history_paginated k offset limit h =
     take (unat (min limit MAX_HISTORY_DEPTH)) (drop (unat offset) (rev (get_score_history k h)))"
proof (cases "length (get_score_history k h) \<le> unat offset")
  case True
  then show ?thesis
    by (simp add: get_score_history_paginated_def)
next
  case False
  then show ?thesis
    by (simp add: get_score_history_paginated_def page_walk_eq Let_def rev_take not_le Suc_diff_Suc)
qed

section \<open>Interpolation\<close>

text \<open>Rust's signed division truncates towards zero, which is \<^term>\<open>(sdiv)\<close> on
  integers.  The \<^verbatim>\<open>i128\<close> values of the source stay far inside their range.\<close>

definition clamp :: "int \<Rightarrow> int \<Rightarrow> int \<Rightarrow> int" where
  "clamp lo hi x = max lo (min hi x)"

fun step_score :: "u64 \<Rightarrow> StepWiseEntry list \<Rightarrow> u64 \<Rightarrow> bool \<Rightarrow> int \<Rightarrow> int" where
  "step_score elapsed [] best_thr best_found acc = acc"
| "step_score elapsed (st # steps) best_thr best_found acc =
     (if sw_time_threshold_secs st \<le> elapsed
         \<and> (\<not> best_found \<or> best_thr \<le> sw_time_threshold_secs st)
      then step_score elapsed steps (sw_time_threshold_secs st) True
             (uint (sw_score_value st))
      else step_score elapsed steps best_thr best_found acc)"

definition apply_curve_interp :: "u64 \<Rightarrow> u64 \<Rightarrow> u32 \<Rightarrow> u32 \<Rightarrow> DecayCurve \<Rightarrow> u32" where
  "apply_curve_interp elapsed dt score_a score_b curve =
     (let SCALE = 1000000;
          f = (uint elapsed * SCALE) sdiv uint dt;
          sa = uint score_a;
          sb = uint score_b;
          delta = sb - sa;
          result =
            (case curve of
               Exponential \<Rightarrow> sa + (f * delta) sdiv SCALE
             | Quadratic \<Rightarrow> (let f2 = (f * f) sdiv SCALE in sa + (f2 * delta) sdiv SCALE)
             | Logarithmic \<Rightarrow>
                 (let f2 = (f * f) sdiv SCALE;
                      y = clamp 0 SCALE (2 * f - f2) in
                  sa + (y * delta) sdiv SCALE)
             | StepWise steps \<Rightarrow> step_score elapsed steps 0 False sa) in
      of_int (clamp 0 100 result))"

fun interp_walk :: "u64 \<Rightarrow> DecayCurve \<Rightarrow> RiskScore list \<Rightarrow> u32" where
  "interp_walk ts curve (a # b # rest) =
     (if rs_timestamp a \<le> ts \<and> ts \<le> rs_timestamp b
      then (let dt = saturating_sub (rs_timestamp b) (rs_timestamp a) in
            if dt = 0 then rs_score a
            else apply_curve_interp (saturating_sub ts (rs_timestamp a)) dt
                   (rs_score a) (rs_score b) curve)
      else interp_walk ts curve (b # rest))"
| "interp_walk ts curve [a] = rs_score a"
| "interp_walk ts curve [] = 0"

definition get_interpolated_score :: "pair_key \<Rightarrow> u64 \<Rightarrow> history_store \<Rightarrow> u32" where
  "get_interpolated_score k ts h =
     (let history = get_score_history k h in
      if history = [] then 0
      else case find (\<lambda>r. rs_timestamp r = ts) history of
        Some r \<Rightarrow> rs_score r
      | None \<Rightarrow>
          (if ts \<le> rs_timestamp (hd history) then rs_score (hd history)
           else if rs_timestamp (last history) \<le> ts then rs_score (last history)
           else interp_walk ts (unwrap_or (decay_curve h) Exponential) history))"

lemma sdiv_scaled_bounds:
  fixes y d :: int
  assumes "0 \<le> y" "y \<le> 1000000"
  shows "min 0 d \<le> (y * d) sdiv 1000000 \<and> (y * d) sdiv 1000000 \<le> max 0 d"
proof (cases "0 \<le> d")
  case True
  have "y * d \<le> 1000000 * d"
    using assms True by (intro mult_right_mono) simp_all
  then have "y * d div 1000000 \<le> d"
    by linarith
  moreover have "(y * d) sdiv 1000000 = y * d div 1000000"
    using assms(1) True by (auto simp: signed_divide_int_def sgn_if zero_less_mult_iff)
  ultimately show ?thesis
    using assms(1) True by (simp add: pos_imp_zdiv_nonneg_iff)
next
  case False
  have "y * (- d) \<le> 1000000 * (- d)"
    using assms False by (intro mult_right_mono) simp_all
  then have "(y * (- d)) div 1000000 \<le> - d"
    by linarith
  moreover have "(y * d) sdiv 1000000 = - ((y * (- d)) div 1000000)"
    using assms(1) False
    by (auto simp: signed_divide_int_def sgn_if abs_mult mult_less_0_iff zero_less_mult_iff)
  moreover have "0 \<le> (y * (- d)) div 1000000"
    using assms(1) False by (simp add: pos_imp_zdiv_nonneg_iff mult_nonneg_nonpos)
  ultimately show ?thesis
    using False by simp
qed

lemma sdiv_scaled_endpoints [simp]:
  "(0 * d) sdiv 1000000 = (0 :: int)" "(1000000 * d) sdiv 1000000 = (d :: int)"
  by (simp_all add: signed_divide_int_def sgn_if abs_mult)

text \<open>The curve fraction in fixed point.\<close>

lemma curve_fraction:
  assumes "0 < dt" "elapsed \<le> dt"
  defines "f \<equiv> (uint elapsed * 1000000) sdiv uint dt"
  shows "0 \<le> f" "f \<le> 1000000" "elapsed = 0 \<Longrightarrow> f = 0" "elapsed = dt \<Longrightarrow> f = 1000000"
proof -
  have d: "0 < uint dt"
    using assms(1) by (simp add: word_less_def)
  have le: "uint elapsed \<le> uint dt"
    using assms(2) by (simp add: word_le_def)
  have f: "f = uint elapsed * 1000000 div uint dt"
    using d by (cases "elapsed = 0") (simp_all add: f_def signed_divide_int_def sgn_if)
  show "0 \<le> f"
    using d by (simp add: f pos_imp_zdiv_nonneg_iff)
  have "uint elapsed * 1000000 div uint dt \<le> uint dt * 1000000 div uint dt"
    using d le by (intro zdiv_mono1) simp_all
  then show "f \<le> 1000000"
    using d by (simp add: f)
  show "elapsed = 0 \<Longrightarrow> f = 0" "elapsed = dt \<Longrightarrow> f = 1000000"
    using d by (simp_all add: f)
qed

lemma square_scaled:
  fixes f :: int
  assumes "0 \<le> f" "f \<le> 1000000"
  shows "0 \<le> (f * f) sdiv 1000000 \<and> (f * f) sdiv 1000000 \<le> f"
  using sdiv_scaled_bounds [OF assms, of f] assms by (simp add: min_def max_def split: if_splits)

lemma of_int_clamp_between:
  fixes a b :: u32
  assumes "uint a \<le> x" "x \<le> uint b" "b \<le> 100"
  shows "a \<le> of_int (clamp 0 100 x) \<and> of_int (clamp 0 100 x) \<le> b"
proof -
  have b: "uint b \<le> 100"
    using assms(3) by (simp add: word_le_def)
  have x: "0 \<le> x"
    using order_trans [OF uint_ge_0 assms(1)] .
  have "clamp 0 100 x = x"
    using assms(2) x b by (simp add: clamp_def)
  moreover have "uint (of_int x :: u32) = x"
    using assms(2) x b by (simp add: uint_word_of_int_eq take_bit_int_eq_self)
  ultimately show ?thesis
    using assms(1,2) by (simp add: word_le_def)
qed

text \<open>on the smooth curves an interpolated score lies between the two scores
  it connects, equals the first at the start of the interval and the second at
  its end.\<close>

theorem curve_interp_between:
  assumes "0 < dt" "elapsed \<le> dt" "a \<le> 100" "b \<le> 100" "\<forall>steps. curve \<noteq> StepWise steps"
  shows "min a b \<le> apply_curve_interp elapsed dt a b curve
         \<and> apply_curve_interp elapsed dt a b curve \<le> max a b
         \<and> (elapsed = 0 \<longrightarrow> apply_curve_interp elapsed dt a b curve = a)
         \<and> (elapsed = dt \<longrightarrow> apply_curve_interp elapsed dt a b curve = b)"
proof -
  define f where "f = (uint elapsed * 1000000) sdiv uint dt"
  note fr = curve_fraction [OF assms(1,2), folded f_def]
  define y where "y = (case curve of Exponential \<Rightarrow> f | Quadratic \<Rightarrow> (f * f) sdiv 1000000
    | _ \<Rightarrow> clamp 0 1000000 (2 * f - (f * f) sdiv 1000000))"
  let ?d = "uint b - uint a"
  have y: "0 \<le> y" "y \<le> 1000000"
    using fr(1,2) square_scaled [OF fr(1,2)] by (auto simp: y_def clamp_def split: DecayCurve.split)
  have y0: "y = 0" if "elapsed = 0"
    using fr(3) [OF that] by (simp add: y_def clamp_def split: DecayCurve.split)
  have y1: "y = 1000000" if "elapsed = dt"
    using fr(4) [OF that] by (simp add: y_def clamp_def split: DecayCurve.split)
  have res: "apply_curve_interp elapsed dt a b curve =
      of_int (clamp 0 100 (uint a + (y * ?d) sdiv 1000000))"
    using assms(5) by (simp add: apply_curve_interp_def Let_def f_def [symmetric] y_def
      split: DecayCurve.split)
  have lo: "uint (min a b) = min (uint a) (uint b)" and hi: "uint (max a b) = max (uint a) (uint b)"
    by (simp_all add: min_def max_def word_le_def)
  have bounds: "uint (min a b) \<le> uint a + (y * ?d) sdiv 1000000"
    "uint a + (y * ?d) sdiv 1000000 \<le> uint (max a b)"
    using sdiv_scaled_bounds [OF y, of ?d] unfolding lo hi by (auto simp: min_def max_def split: if_splits)
  have "max a b \<le> 100"
    using assms(3,4) by simp
  note between = of_int_clamp_between [OF bounds this, folded res]
  have fit: "clamp 0 100 (uint x) = uint x" if "x \<le> 100" for x :: u32
    using that by (simp add: clamp_def word_le_def)
  have "apply_curve_interp elapsed dt a b curve = a" if "elapsed = 0"
    unfolding res y0 [OF that] sdiv_scaled_endpoints using fit [OF assms(3)] by simp
  moreover have "apply_curve_interp elapsed dt a b curve = b" if "elapsed = dt"
    unfolding res y1 [OF that] sdiv_scaled_endpoints using fit [OF assms(4)] by simp
  ultimately show ?thesis
    using between by blast
qed

theorem curve_interp_between_witness:
  "min 20 90 \<le> apply_curve_interp 30 60 20 90 Quadratic
   \<and> apply_curve_interp 30 60 20 90 Quadratic \<le> max 20 90
   \<and> apply_curve_interp 30 60 20 90 Quadratic = 37"
proof -
  have "apply_curve_interp 30 60 20 90 Quadratic = 37"
    by code_simp
  moreover have "min 20 90 \<le> apply_curve_interp 30 60 20 90 Quadratic
      \<and> apply_curve_interp 30 60 20 90 Quadratic \<le> max 20 90"
    using curve_interp_between [of 60 30 20 90 Quadratic] by auto
  ultimately show ?thesis
    by blast
qed

end
