(* ===== verification/Score_Store.thy ===== *)
theory Score_Store
  imports Ledger_Types
begin

text \<open>
  Latest scores and the rent queue of
  \<^verbatim>\<open>contracts/ledgerlens-score/src/storage.rs\<close> (lines 79--367).  Every write of a
  score moves its key to the back of a bounded index and stamps the ledger of
  the write, so the index is meant to be a queue ordered by last touch; the rent
  sweep \<^verbatim>\<open>get_expiring_entries\<close> relies on that order to stop at the first entry
  that is not due.  The group of lemmas below proves the order invariant,
  and that the sweep returns what the full scan with a selection sort returns.
\<close>

record score_store =
  scores :: "pair_key \<Rightarrow> RiskScore option"
  entry_index :: "pair_key list"
  last_touched :: "pair_key \<Rightarrow> u32 option"

section \<open>Operations\<close>

definition ledgers_since_touch :: "env \<Rightarrow> pair_key \<Rightarrow> score_store \<Rightarrow> u32 option" where
  "ledgers_since_touch e k s =
     map_option (\<lambda>l. saturating_sub (ledger_sequence e) l) (last_touched s k)"

definition estimate_entry_ttl :: "env \<Rightarrow> pair_key \<Rightarrow> score_store \<Rightarrow> u32 option" where
  "estimate_entry_ttl e k s =
     map_option (\<lambda>elapsed. saturating_sub SCORE_TTL_THRESHOLD elapsed)
       (ledgers_since_touch e k s)"

definition reindex_entry_to_back :: "pair_key \<Rightarrow> score_store \<Rightarrow> score_store" where
  "reindex_entry_to_back k s =
     (let index = entry_index s in
      if k \<in> set index then s\<lparr>entry_index := remove1 k index @ [k]\<rparr>
      else if MAX_TRACKED_SCORE_ENTRIES \<le> length index then s
      else s\<lparr>entry_index := index @ [k]\<rparr>)"

definition touch_score_entry :: "env \<Rightarrow> pair_key \<Rightarrow> score_store \<Rightarrow> score_store" where
  "touch_score_entry e k s =
     s\<lparr>last_touched := (last_touched s)(k \<mapsto> ledger_sequence e)\<rparr>"

definition track_score_entry :: "env \<Rightarrow> pair_key \<Rightarrow> score_store \<Rightarrow> score_store" where
  "track_score_entry e k s = touch_score_entry e k (reindex_entry_to_back k s)"

definition remove_score_entry :: "pair_key \<Rightarrow> score_store \<Rightarrow> score_store" where
  "remove_score_entry k s =
     (if k \<in> set (entry_index s)
      then s\<lparr>entry_index := remove1 k (entry_index s)\<rparr> else s)"

definition set_score :: "env \<Rightarrow> pair_key \<Rightarrow> RiskScore \<Rightarrow> score_store \<Rightarrow> score_store" where
  "set_score e k r s = track_score_entry e k (s\<lparr>scores := (scores s)(k \<mapsto> r)\<rparr>)"

definition extend_score_entry_ttl :: "env \<Rightarrow> pair_key \<Rightarrow> score_store \<Rightarrow> bool \<times> score_store" where
  "extend_score_entry_ttl e k s =
     (case scores s k of
        None \<Rightarrow> (False, s)
      | Some _ \<Rightarrow> (True, touch_score_entry e k (reindex_entry_to_back k s)))"

text \<open>The loop of \<^verbatim>\<open>get_expiring_entries\<close>: it stops at the cap or at the first
  entry that is not due.\<close>

definition is_due :: "env \<Rightarrow> score_store \<Rightarrow> pair_key \<Rightarrow> bool" where
  "is_due e s k =
     (case ledgers_since_touch e k s of
        Some elapsed \<Rightarrow> SCORE_TTL_THRESHOLD \<le> elapsed
      | None \<Rightarrow> False)"

fun sweep_due :: "env \<Rightarrow> score_store \<Rightarrow> nat \<Rightarrow> pair_key list \<Rightarrow> pair_key list \<Rightarrow> pair_key list" where
  "sweep_due e s capped result [] = result"
| "sweep_due e s capped result (k # index) =
     (if capped \<le> length result then result
      else if is_due e s k then sweep_due e s capped (result @ [k]) index
      else result)"

definition get_expiring_entries :: "env \<Rightarrow> u32 \<Rightarrow> score_store \<Rightarrow> pair_key list" where
  "get_expiring_entries e max_entries s =
     sweep_due e s (unat (min max_entries MAX_EXPIRING_ENTRIES_PER_CALL)) [] (entry_index s)"

text \<open>The reference routine kept for the tests: collect every due entry with its
  age, then repeatedly extract the first entry of maximal age.\<close>

fun collect_due :: "env \<Rightarrow> score_store \<Rightarrow> pair_key list \<Rightarrow> (u32 \<times> pair_key) list" where
  "collect_due e s [] = []"
| "collect_due e s (k # index) =
     (case ledgers_since_touch e k s of
        Some elapsed \<Rightarrow>
          if SCORE_TTL_THRESHOLD \<le> elapsed then (elapsed, k) # collect_due e s index
          else collect_due e s index
      | None \<Rightarrow> collect_due e s index)"

fun best_from :: "(u32 \<times> pair_key) list \<Rightarrow> nat \<Rightarrow> nat \<Rightarrow> u32 \<Rightarrow> nat" where
  "best_from [] i best_idx best_elapsed = best_idx"
| "best_from ((elapsed, _) # due) i best_idx best_elapsed =
     (if best_elapsed < elapsed then best_from due (Suc i) i elapsed
      else best_from due (Suc i) best_idx best_elapsed)"

fun extract_oldest :: "nat \<Rightarrow> (u32 \<times> pair_key) list \<Rightarrow> pair_key list" where
  "extract_oldest 0 due = []"
| "extract_oldest (Suc n) due =
     (let best_idx = best_from (tl due) 1 0 (fst (due ! 0)) in
      snd (due ! best_idx) # extract_oldest n (take best_idx due @ drop (Suc best_idx) due))"

definition get_expiring_entries_full_scan_baseline ::
    "env \<Rightarrow> u32 \<Rightarrow> score_store \<Rightarrow> pair_key list" where
  "get_expiring_entries_full_scan_baseline e max_entries s =
     (let due = collect_due e s (entry_index s);
          capped = unat (min max_entries MAX_EXPIRING_ENTRIES_PER_CALL) in
      extract_oldest (min capped (length due)) due)"

section \<open>The queue invariant\<close>

text \<open>At ledger \<^term>\<open>n\<close>: the index has no duplicates and at most 500 entries,
  every indexed key has a touch stamp that is not in the future, and the stamps
  are ascending from front to back.\<close>

definition touch_of :: "score_store \<Rightarrow> pair_key \<Rightarrow> u32" where
  "touch_of s k = unwrap_or (last_touched s k) 0"

definition touch_sorted :: "score_store \<Rightarrow> pair_key list \<Rightarrow> bool" where
  "touch_sorted s ix = sorted_wrt (\<lambda>a b. touch_of s a \<le> touch_of s b) ix"

definition touched_by :: "u32 \<Rightarrow> score_store \<Rightarrow> pair_key list \<Rightarrow> bool" where
  "touched_by n s ix = (\<forall>k \<in> set ix. last_touched s k \<noteq> None \<and> touch_of s k \<le> n)"

definition rent_wf :: "u32 \<Rightarrow> score_store \<Rightarrow> bool" where
  "rent_wf n s =
     (distinct (entry_index s) \<and> length (entry_index s) \<le> MAX_TRACKED_SCORE_ENTRIES
      \<and> touched_by n s (entry_index s) \<and> touch_sorted s (entry_index s))"

definition empty_score_store :: score_store where
  "empty_score_store = \<lparr>scores = (\<lambda>_. None), entry_index = [], last_touched = (\<lambda>_. None)\<rparr>"

lemma rent_wf_empty [simp]: "rent_wf n empty_score_store"
  by (simp add: rent_wf_def touched_by_def touch_sorted_def empty_score_store_def)

lemma touched_by_mono: "touched_by n s ix \<Longrightarrow> n \<le> m \<Longrightarrow> touched_by m s ix"
  by (auto simp: touched_by_def intro: order_trans)

lemma rent_wf_mono: "rent_wf n s \<Longrightarrow> n \<le> m \<Longrightarrow> rent_wf m s"
  by (auto simp: rent_wf_def intro: touched_by_mono)

text \<open>Both predicates only look at the stamps of the listed keys.\<close>

lemma stamps_cong:
  assumes "\<And>k. k \<in> set ix \<Longrightarrow> last_touched s' k = last_touched s k"
  shows "touch_sorted s' ix = touch_sorted s ix" "touched_by n s' ix = touched_by n s ix"
proof -
  have t: "touch_of s' k = touch_of s k" if "k \<in> set ix" for k
    using assms that by (simp add: touch_of_def)
  show "touch_sorted s' ix = touch_sorted s ix"
    unfolding touch_sorted_def by (rule iffI; erule sorted_wrt_mono_rel [rotated]; simp add: t)
  show "touched_by n s' ix = touched_by n s ix"
    using assms t by (simp add: touched_by_def)
qed

lemma touch_sorted_remove1: "touch_sorted s ix \<Longrightarrow> touch_sorted s (remove1 k ix)"
  by (simp add: touch_sorted_def sorted_wrt_remove1)

lemma touched_by_remove1: "touched_by n s ix \<Longrightarrow> touched_by n s (remove1 k ix)"
  using set_remove1_subset [of k ix] by (auto simp: touched_by_def)

lemma touch_sorted_snoc:
  "touch_sorted s ix \<Longrightarrow> touched_by n s ix \<Longrightarrow> n \<le> touch_of s k \<Longrightarrow> touch_sorted s (ix @ [k])"
  by (auto simp: touch_sorted_def touched_by_def sorted_wrt_append intro: order_trans)

lemma length_remove1_le: "length (remove1 x xs) \<le> length xs"
  by (induction xs) auto

lemma rent_wf_scores [simp]: "rent_wf n (s\<lparr>scores := f\<rparr>) = rent_wf n s"
  using stamps_cong [of "entry_index s" "s\<lparr>scores := f\<rparr>" s] by (simp add: rent_wf_def)

text \<open>Stamping a key and appending it to a queue that does not hold it.\<close>

lemma rent_wf_push_back:
  assumes le: "n \<le> ledger_sequence e"
    and ix: "k \<notin> set ix" "distinct ix" "length ix < MAX_TRACKED_SCORE_ENTRIES"
      "touch_sorted s ix" "touched_by n s ix"
  shows "rent_wf (ledger_sequence e)
           (touch_score_entry e k (s\<lparr>entry_index := ix @ [k]\<rparr>))" (is "rent_wf ?m ?s'")
proof -
  have same: "last_touched ?s' j = last_touched s j" if "j \<in> set ix" for j
    using that ix(1) by (auto simp: touch_score_entry_def)
  have k: "touch_of ?s' k = ?m" "last_touched ?s' k = Some ?m"
    by (simp_all add: touch_of_def touch_score_entry_def)
  have tb: "touched_by ?m ?s' ix" and ts: "touch_sorted ?s' ix"
    using ix touched_by_mono [OF ix(5) le] by (simp_all add: stamps_cong [OF same])
  have "touch_sorted ?s' (ix @ [k])"
    using touch_sorted_snoc [OF ts tb] k by simp
  moreover have "touched_by ?m ?s' (ix @ [k])"
    using tb k by (auto simp: touched_by_def)
  moreover have "entry_index ?s' = ix @ [k]"
    by (simp add: touch_score_entry_def)
  ultimately show ?thesis
    using ix(1-3) by (simp add: rent_wf_def)
qed

lemma rent_wf_touch_untracked:
  assumes "rent_wf n s" "n \<le> ledger_sequence e" "k \<notin> set (entry_index s)"
  shows "rent_wf (ledger_sequence e) (touch_score_entry e k s)"
proof -
  have same: "last_touched (touch_score_entry e k s) j = last_touched s j"
    if "j \<in> set (entry_index s)" for j
    using that assms(3) by (auto simp: touch_score_entry_def)
  have "entry_index (touch_score_entry e k s) = entry_index s"
    by (simp add: touch_score_entry_def)
  then show ?thesis
    using rent_wf_mono [OF assms(1,2)] by (simp add: rent_wf_def stamps_cong [OF same])
qed

lemma rent_wf_track_score_entry:
  assumes wf: "rent_wf n s" and le: "n \<le> ledger_sequence e"
  shows "rent_wf (ledger_sequence e) (track_score_entry e k s)"
proof -
  consider (old) "k \<in> set (entry_index s)"
    | (full) "k \<notin> set (entry_index s)" "MAX_TRACKED_SCORE_ENTRIES \<le> length (entry_index s)"
    | (new) "k \<notin> set (entry_index s)" "length (entry_index s) < MAX_TRACKED_SCORE_ENTRIES"
    by linarith
  then show ?thesis
  proof cases
    case old
    then have "length (remove1 k (entry_index s)) < length (entry_index s)"
      using length_pos_if_in_set [OF old] by (simp add: length_remove1)
    then have "length (remove1 k (entry_index s)) < MAX_TRACKED_SCORE_ENTRIES"
      using wf by (simp add: rent_wf_def)
    then show ?thesis
      using old wf rent_wf_push_back [OF le, of k "remove1 k (entry_index s)" s]
      by (simp add: rent_wf_def track_score_entry_def reindex_entry_to_back_def
        touch_sorted_remove1 touched_by_remove1)
  next
    case full
    then show ?thesis
      using rent_wf_touch_untracked [OF wf le]
      by (simp add: track_score_entry_def reindex_entry_to_back_def)
  next
    case new
    then show ?thesis
      using wf rent_wf_push_back [OF le, of k "entry_index s" s]
      by (simp add: rent_wf_def track_score_entry_def reindex_entry_to_back_def)
  qed
qed

lemma rent_wf_set_score:
  "rent_wf n s \<Longrightarrow> n \<le> ledger_sequence e \<Longrightarrow> rent_wf (ledger_sequence e) (set_score e k r s)"
  by (simp add: set_score_def rent_wf_track_score_entry)

lemma rent_wf_remove_score_entry: "rent_wf n s \<Longrightarrow> rent_wf n (remove_score_entry k s)"
  using stamps_cong [of "remove1 k (entry_index s)" "s\<lparr>entry_index := remove1 k (entry_index s)\<rparr>" s]
    length_remove1_le [of k "entry_index s"]
  by (simp add: rent_wf_def remove_score_entry_def touch_sorted_remove1 touched_by_remove1)

lemma rent_wf_extend_score_entry_ttl:
  assumes "rent_wf n s" "n \<le> ledger_sequence e"
  shows "rent_wf (ledger_sequence e) (snd (extend_score_entry_ttl e k s))"
  using rent_wf_track_score_entry [OF assms, of k] rent_wf_mono [OF assms]
  by (simp add: extend_score_entry_ttl_def track_score_entry_def split: option.split)

section \<open>The sweep agrees with the full scan\<close>

lemma sweep_due_eq:
  "sweep_due e s c r ix = r @ take (c - length r) (takeWhile (is_due e s) ix)"
  by (induction ix arbitrary: r) (auto simp: Suc_diff_le not_le take_Suc_conv_app_nth
    intro: take_Cons' [symmetric] simp: take_Cons')

lemma collect_due_eq:
  "collect_due e s ix =
     map (\<lambda>k. (the (ledgers_since_touch e k s), k)) (filter (is_due e s) ix)"
  by (induction ix) (auto simp: is_due_def split: option.splits)

lemma best_from_descending:
  "\<forall>p \<in> set due. fst p \<le> m \<Longrightarrow> best_from due i b m = b"
  by (induction due arbitrary: i) (auto simp: not_less)

lemma extract_oldest_descending:
  "sorted_wrt (\<lambda>p q. fst q \<le> fst p) due \<Longrightarrow> n \<le> length due
   \<Longrightarrow> extract_oldest n due = take n (map snd due)"
proof (induction n arbitrary: due)
  case (Suc n)
  then obtain p ps where due: "due = p # ps"
    by (cases due) auto
  then show ?case
    using Suc by (simp add: best_from_descending)
qed simp

text \<open>On a queue ordered by stamps the ages are descending, so the due
  entries are a prefix.\<close>

lemma touch_sorted_ages:
  assumes "touch_sorted s ix" "touched_by n s ix"
  shows "sorted_wrt (\<lambda>a b. the (ledgers_since_touch e b s) \<le> the (ledgers_since_touch e a s)) ix"
  using assms(1) unfolding touch_sorted_def
proof (rule sorted_wrt_mono_rel [rotated])
  fix a b assume "a \<in> set ix" "b \<in> set ix" "touch_of s a \<le> touch_of s b"
  moreover from this obtain x y where "last_touched s a = Some x" "last_touched s b = Some y"
    using assms(2) unfolding touched_by_def by (metis option.exhaust)
  ultimately show "the (ledgers_since_touch e b s) \<le> the (ledgers_since_touch e a s)"
    by (simp add: touch_of_def ledgers_since_touch_def saturating_sub_mono)
qed

lemma is_due_iff:
  "touched_by n s ix \<Longrightarrow> k \<in> set ix
   \<Longrightarrow> is_due e s k \<longleftrightarrow> SCORE_TTL_THRESHOLD \<le> the (ledgers_since_touch e k s)"
  by (auto simp: touched_by_def is_due_def ledgers_since_touch_def split: option.splits)

lemma takeWhile_eq_filter_down:
  "sorted_wrt (\<lambda>a b. P b \<longrightarrow> P a) xs \<Longrightarrow> takeWhile P xs = filter P xs"
  by (induction xs) (auto simp: filter_empty_conv)

lemma due_prefix:
  assumes "touch_sorted s ix" "touched_by n s ix"
  shows "takeWhile (is_due e s) ix = filter (is_due e s) ix"
proof (rule takeWhile_eq_filter_down, rule sorted_wrt_mono_rel [OF _ touch_sorted_ages [OF assms]])
  fix a b assume "a \<in> set ix" "b \<in> set ix"
    "the (ledgers_since_touch e b s) \<le> the (ledgers_since_touch e a s)"
  then show "is_due e s b \<longrightarrow> is_due e s a"
    by (auto simp: is_due_iff [OF assms(2)] intro: order_trans)
qed

lemma extract_oldest_due:
  assumes "touch_sorted s ix" "touched_by n s ix" "m \<le> length (filter (is_due e s) ix)"
  shows "extract_oldest m (collect_due e s ix) = take m (filter (is_due e s) ix)"
proof -
  have "sorted_wrt (\<lambda>p q. fst q \<le> fst p) (collect_due e s ix)"
    using sorted_wrt_filter [OF touch_sorted_ages [OF assms(1,2)]]
    by (simp add: collect_due_eq sorted_wrt_map)
  then show ?thesis
    using assms(3) by (simp add: extract_oldest_descending collect_due_eq comp_def)
qed

text \<open>C6: on a well-formed rent queue the early-stopping sweep returns exactly the
  entries, in the same order, that the full scan with selection by age returns.\<close>

theorem get_expiring_entries_eq_baseline:
  assumes "rent_wf n s"
  shows "get_expiring_entries e m s = get_expiring_entries_full_scan_baseline e m s"
proof -
  let ?c = "unat (min m MAX_EXPIRING_ENTRIES_PER_CALL)" and ?f = "filter (is_due e s) (entry_index s)"
  have wf: "touch_sorted s (entry_index s)" "touched_by n s (entry_index s)"
    using assms by (simp_all add: rent_wf_def)
  have "get_expiring_entries e m s = take ?c ?f"
    by (simp add: get_expiring_entries_def sweep_due_eq due_prefix [OF wf])
  also have "\<dots> = extract_oldest (min ?c (length ?f)) (collect_due e s (entry_index s))"
    using extract_oldest_due [OF wf, of "min ?c (length ?f)"] by (simp add: min_def)
  finally show ?thesis
    by (simp add: get_expiring_entries_full_scan_baseline_def collect_due_eq)
qed

definition sample_score :: RiskScore where
  "sample_score = \<lparr>rs_score = 40, rs_benford_flag = False, rs_ml_flag = False,
     rs_timestamp = 900, rs_confidence = 80, rs_model_version = 1, rs_benford_score = 0,
     rs_ml_score = 0, rs_network_score = 0, rs_commitment = None\<rparr>"

definition sample_store :: score_store where
  "sample_store =
     set_score (sample_env 9) (Addr 2, ''XLM'') sample_score
       (set_score (sample_env 5) (Addr 1, ''XLM'') sample_score empty_score_store)"

lemma rent_wf_sample: "rent_wf 9 sample_store"
proof -
  have "rent_wf 5 (set_score (sample_env 5) (Addr 1, ''XLM'') sample_score empty_score_store)"
    using rent_wf_set_score [of 0 empty_score_store "sample_env 5"] by (simp add: sample_env_def)
  then show ?thesis
    using rent_wf_set_score [of 5 _ "sample_env 9"]
    by (simp add: sample_store_def sample_env_def)
qed

theorem get_expiring_entries_eq_baseline_witness:
  "rent_wf 9 sample_store
   \<and> get_expiring_entries (sample_env 518406) 7 sample_store = [(Addr 1, ''XLM'')]
   \<and> get_expiring_entries_full_scan_baseline (sample_env 518406) 7 sample_store
       = [(Addr 1, ''XLM'')]"
proof -
  have "get_expiring_entries (sample_env 518406) 7 sample_store = [(Addr 1, ''XLM'')]"
    by (simp add: get_expiring_entries_def is_due_def ledgers_since_touch_def sample_store_def
      sample_env_def set_score_def track_score_entry_def touch_score_entry_def
      reindex_entry_to_back_def empty_score_store_def saturating_sub_def
      MAX_TRACKED_SCORE_ENTRIES_def MAX_EXPIRING_ENTRIES_PER_CALL_def SCORE_TTL_THRESHOLD_def
      min_def)
  then show ?thesis
    using rent_wf_sample
      get_expiring_entries_eq_baseline [OF rent_wf_sample, of "sample_env 518406" 7] by simp
qed

end
