(* ===== verification/Bounded_Index.thy ===== *)
theory Bounded_Index
  imports Prelude
begin

text \<open>
  The interface of the capped key lists the storage layer keeps next to its
  per-key flags (paused pairs, embargoed wallets, open disputes): adding a key
  reports whether the key is in the list afterwards, and fails only when a new
  key meets a full list; removing deletes one occurrence.  The lemmas hold for
  every provider of these two laws.
\<close>

locale bounded_index =
  fixes index :: "'s \<Rightarrow> 'k list"
    and add :: "'k \<Rightarrow> 's \<Rightarrow> bool \<times> 's"
    and remove :: "'k \<Rightarrow> 's \<Rightarrow> 's"
    and cap :: nat
  assumes add_reports: "fst (add k s) \<longleftrightarrow> k \<in> set (index s) \<or> length (index s) < cap"
    and add_appends: "index (snd (add k s)) =
      (if k \<in> set (index s) \<or> cap \<le> length (index s) then index s else index s @ [k])"
    and remove_first: "index (remove k s) = remove1 k (index s)"
begin

lemma add_member: "fst (add k s) \<longleftrightarrow> k \<in> set (index (snd (add k s)))"
  by (auto simp: add_reports add_appends)

lemma add_keeps: "set (index s) \<subseteq> set (index (snd (add k s)))"
  by (auto simp: add_appends)

lemma add_only: "set (index (snd (add k s))) \<subseteq> insert k (set (index s))"
  by (auto simp: add_appends)

lemma add_bounded:
  "distinct (index s) \<Longrightarrow> length (index s) \<le> cap \<Longrightarrow>
   distinct (index (snd (add k s))) \<and> length (index (snd (add k s))) \<le> cap"
  by (auto simp: add_appends)

lemma remove_bounded:
  "distinct (index s) \<Longrightarrow> length (index s) \<le> cap \<Longrightarrow>
   distinct (index (remove k s)) \<and> length (index (remove k s)) \<le> cap"
  by (auto simp: remove_first length_remove1)

lemma remove_member:
  "distinct (index s) \<Longrightarrow> set (index (remove k s)) = set (index s) - {k}"
  by (simp add: remove_first)

lemma remove_then_add:
  assumes "k \<in> set (index s)" "length (index s) \<le> cap"
  shows "fst (add k' (remove k s))"
proof -
  have "length (index (remove k s)) < length (index s)"
    using assms(1) length_pos_if_in_set [OF assms(1)] by (simp add: remove_first length_remove1)
  then show ?thesis
    using assms(2) by (simp add: add_reports)
qed

end

end
