(* ===== verification/Auth.thy ===== *)
theory Auth
  imports Ledger_Types Bounded_Index
begin

text \<open>
  Who may do what: the admin and service roles, the M-of-N signer sets with
  their thresholds, the two-step admin transfer, separation-of-duty approvals,
  signer expiry, the circuit breakers and the governance audit chain
  (\<^verbatim>\<open>lib.rs\<close> 366--381, 5799--5955, 6222--6234, 7075--7457, 9769--9842,
  10744--10830, 12459--12653 with the accessors of \<^verbatim>\<open>storage.rs\<close>).  An operation
  returns the new state with the events it publishes, or the failure.
\<close>

datatype Policy = ScorePolicy | UpgradeGovernance | EmergencyPause | DataDeletion | SignerAdmin

datatype SignerState = Pending | Active | Superseded | Revoked

record SignerStateRecord =
  ss_signer :: address
  ss_state :: SignerState
  ss_changed_at :: u64
  ss_changed_by :: address

record PolicyApproval =
  pa_enabled :: bool
  pa_approver :: "address option"

record auth_state =
  admin :: "address option"
  service :: "address option"
  pending_admin :: "address option"
  admin_set :: "address list"
  admin_threshold :: "u32 option"
  service_set :: "address list"
  service_threshold :: "u32 option"
  signer_added_at :: "address \<Rightarrow> u64 option"
  signer_ttl :: "u64 option"
  signer_grace_period :: "u64 option"
  signer_state :: "address \<Rightarrow> SignerStateRecord option"
  signer_nonce :: "address \<Rightarrow> u64 option"
  policy_enabled :: "Policy \<Rightarrow> bool option"
  policy_approver :: "Policy \<Rightarrow> address option"
  deletion_policy_enabled :: "bool option"
  deletion_approver :: "address option"
  upgrade_approvals :: "address list"
  admin_audit_root :: "bytes option"
  paused :: "bool option"
  frozen :: "bool option"
  pair_paused :: "symbol \<Rightarrow> bool option"
  paused_pair_index :: "symbol list"
  epoch_open :: "bool option"
  current_epoch :: "u32 option"

type_synonym 's op = "('s \<times> event list) res"

definition MAX_SERVICE_SIGNERS :: nat where "MAX_SERVICE_SIGNERS = 10"
definition MAX_ADMIN_SIGNERS :: nat where "MAX_ADMIN_SIGNERS = 5"
definition MAX_PAUSED_PAIRS :: nat where "MAX_PAUSED_PAIRS = 50"

definition empty_auth :: auth_state where
  "empty_auth = \<lparr>admin = None, service = None, pending_admin = None, admin_set = [],
     admin_threshold = None, service_set = [], service_threshold = None,
     signer_added_at = (\<lambda>_. None), signer_ttl = None, signer_grace_period = None,
     signer_state = (\<lambda>_. None), signer_nonce = (\<lambda>_. None), policy_enabled = (\<lambda>_. None),
     policy_approver = (\<lambda>_. None), deletion_policy_enabled = None, deletion_approver = None,
     upgrade_approvals = [], admin_audit_root = None, paused = None, frozen = None,
     pair_paused = (\<lambda>_. None), paused_pair_index = [], epoch_open = None, current_epoch = None\<rparr>"

section \<open>Accessors\<close>

definition has_admin :: "auth_state \<Rightarrow> bool" where
  "has_admin a = (admin a \<noteq> None)"

text \<open>\<^verbatim>\<open>get_admin\<close> and \<^verbatim>\<open>get_service\<close> unwrap, so they trap when unset.\<close>

definition get_admin :: "auth_state \<Rightarrow> address res" where
  "get_admin a = (case admin a of Some x \<Rightarrow> Inr x | None \<Rightarrow> Inl Trap)"

definition get_service :: "auth_state \<Rightarrow> address res" where
  "get_service a = (case service a of Some x \<Rightarrow> Inr x | None \<Rightarrow> Inl Trap)"

definition get_admin_threshold :: "auth_state \<Rightarrow> u32" where
  "get_admin_threshold a = unwrap_or (admin_threshold a) 0"

definition get_service_threshold :: "auth_state \<Rightarrow> u32" where
  "get_service_threshold a = unwrap_or (service_threshold a) 1"

definition get_signer_age :: "env \<Rightarrow> address \<Rightarrow> auth_state \<Rightarrow> u64 option" where
  "get_signer_age e signer a =
     map_option (\<lambda>t. saturating_sub (ledger_timestamp e) t) (signer_added_at a signer)"

definition check_signer_expired :: "env \<Rightarrow> address \<Rightarrow> auth_state \<Rightarrow> event list res" where
  "check_signer_expired e signer a =
     (let ttl = unwrap_or (signer_ttl a) 0 in
      if ttl = 0 then Inr []
      else case get_signer_age e signer a of
        None \<Rightarrow> Inr []
      | Some age \<Rightarrow>
          (let grace = unwrap_or (signer_grace_period a) 0 in
           if grace < saturating_sub age ttl then Inl (Err UnauthorizedSigner)
           else if ttl < age then Inr [Event ''signer_expiring'' [VAddr signer]]
           else Inr []))"

definition is_pair_paused :: "symbol \<Rightarrow> auth_state \<Rightarrow> bool" where
  "is_pair_paused p a = unwrap_or (pair_paused a p) False"

definition set_pair_paused_flag :: "symbol \<Rightarrow> bool \<Rightarrow> auth_state \<Rightarrow> auth_state" where
  "set_pair_paused_flag p b a =
     a\<lparr>pair_paused := (pair_paused a)(p := if b then Some True else None)\<rparr>"

definition add_to_paused_index :: "symbol \<Rightarrow> auth_state \<Rightarrow> bool \<times> auth_state" where
  "add_to_paused_index p a =
     (let pairs = paused_pair_index a in
      if p \<in> set pairs then (True, a)
      else if MAX_PAUSED_PAIRS \<le> length pairs then (False, a)
      else (True, a\<lparr>paused_pair_index := pairs @ [p]\<rparr>))"

definition remove_from_paused_index :: "symbol \<Rightarrow> auth_state \<Rightarrow> auth_state" where
  "remove_from_paused_index p a =
     (if p \<in> set (paused_pair_index a)
      then a\<lparr>paused_pair_index := remove1 p (paused_pair_index a)\<rparr> else a)"

definition get_policy_approval :: "Policy \<Rightarrow> auth_state \<Rightarrow> PolicyApproval" where
  "get_policy_approval p a =
     \<lparr>pa_enabled = unwrap_or (policy_enabled a p) False, pa_approver = policy_approver a p\<rparr>"

definition get_deletion_approval_policy :: "auth_state \<Rightarrow> PolicyApproval" where
  "get_deletion_approval_policy a =
     \<lparr>pa_enabled = unwrap_or (deletion_policy_enabled a) False,
      pa_approver = deletion_approver a\<rparr>"

section \<open>Authorization checks\<close>

text \<open>Whether an address authorized the call is a property of the transaction, so naming an
  address twice succeeds twice here; a host that refuses a repeated authorization in one
  call only rejects more.\<close>

fun admin_signers_loop :: "env \<Rightarrow> address list \<Rightarrow> auth_state \<Rightarrow> unit res" where
  "admin_signers_loop e [] a = Inr ()"
| "admin_signers_loop e (signer # signers) a =
     (if signer \<notin> set (admin_set a) then Inl (Err AdminSignerNotInSet)
      else bind_res (require_auth e signer) (\<lambda>_. admin_signers_loop e signers a))"

definition require_admin_auth :: "env \<Rightarrow> address list \<Rightarrow> auth_state \<Rightarrow> unit res" where
  "require_admin_auth e signers a =
     (let threshold = unat (get_admin_threshold a) in
      if admin_set a \<noteq> [] \<and> 0 < threshold then
        (if length signers < threshold then Inl (Err InsufficientAdminSigners)
         else if length (admin_set a) < length signers then Inl (Err TooManySigners)
         else admin_signers_loop e signers a)
      else bind_res (get_admin a) (require_auth e))"

fun service_signers_loop :: "env \<Rightarrow> address list \<Rightarrow> auth_state \<Rightarrow> event list res" where
  "service_signers_loop e [] a = Inr []"
| "service_signers_loop e (signer # signers) a =
     (if signer \<notin> set (service_set a) then Inl (Err UnauthorizedSigner)
      else bind_res (check_signer_expired e signer a) (\<lambda>evs.
           bind_res (require_auth e signer) (\<lambda>_.
           bind_res (service_signers_loop e signers a) (\<lambda>evs'. Inr (evs @ evs')))))"

definition require_service_signers_auth :: "env \<Rightarrow> address list \<Rightarrow> auth_state \<Rightarrow> event list res" where
  "require_service_signers_auth e signers a =
     (let threshold = unat (get_service_threshold a) in
      if service_set a \<noteq> [] \<and> 0 < threshold then
        (if length signers < threshold then Inl (Err InsufficientSigners)
         else if length (service_set a) < length signers then Inl (Err TooManySigners)
         else service_signers_loop e signers a)
      else bind_res (get_service a) (\<lambda>s. bind_res (require_auth e s) (\<lambda>_. Inr [])))"

definition authorize_submission :: "env \<Rightarrow> address list \<Rightarrow> auth_state \<Rightarrow> event list res" where
  "authorize_submission e signers a =
     (let threshold = unat (get_service_threshold a) in
      if service_set a \<noteq> [] \<and> 0 < threshold then
        (if length signers < threshold then Inl (Err InsufficientSigners)
         else service_signers_loop e signers a)
      else bind_res (get_service a) (\<lambda>s. bind_res (require_auth e s) (\<lambda>_. Inr [])))"

definition approver_conflicts_with_admin :: "address \<Rightarrow> auth_state \<Rightarrow> bool res" where
  "approver_conflicts_with_admin x a =
     bind_res (get_admin a) (\<lambda>adm. Inr (adm = x \<or> x \<in> set (admin_set a)))"

definition require_policy_auth :: "env \<Rightarrow> Policy \<Rightarrow> address list \<Rightarrow> auth_state \<Rightarrow> unit res" where
  "require_policy_auth e p signers a =
     bind_res (require_admin_auth e signers a) (\<lambda>_.
     (let approval = get_policy_approval p a in
      if \<not> pa_enabled approval then Inr ()
      else case pa_approver approval of
        None \<Rightarrow> Inl (Err Unauthorized)
      | Some x \<Rightarrow>
          bind_res (approver_conflicts_with_admin x a) (\<lambda>conflict.
            if conflict then Inl (Err Unauthorized) else require_auth e x)))"

definition require_deletion_auth :: "env \<Rightarrow> address list \<Rightarrow> auth_state \<Rightarrow> unit res" where
  "require_deletion_auth e signers a =
     bind_res (require_admin_auth e signers a) (\<lambda>_.
     (let policy = get_deletion_approval_policy a in
      if \<not> pa_enabled policy then Inr ()
      else case pa_approver policy of
        None \<Rightarrow> Inl (Err Unauthorized)
      | Some x \<Rightarrow>
          bind_res (approver_conflicts_with_admin x a) (\<lambda>conflict.
            if conflict then Inl (Err Unauthorized) else require_auth e x)))"

section \<open>Governance audit chain\<close>

definition get_admin_audit_root :: "auth_state \<Rightarrow> bytes" where
  "get_admin_audit_root a = unwrap_or (admin_audit_root a) (replicate 32 0)"

text \<open>The action name, actor and parameters that the source passes are not used.\<close>

definition update_audit_root :: "env \<Rightarrow> symbol \<Rightarrow> address \<Rightarrow> bytes \<Rightarrow> auth_state \<Rightarrow> auth_state" where
  "update_audit_root e action_name actor params a =
     a\<lparr>admin_audit_root := Some (sha256 e
        (get_admin_audit_root a @ u64_le (ledger_timestamp e) @ u32_le (ledger_sequence e)))\<rparr>"

definition append_governance_action_raw :: "env \<Rightarrow> bytes \<Rightarrow> auth_state \<Rightarrow> auth_state" where
  "append_governance_action_raw e data a =
     a\<lparr>admin_audit_root := Some (sha256 e (get_admin_audit_root a @ data))\<rparr>"

definition append_governance_action ::
    "env \<Rightarrow> u32 \<Rightarrow> symbol \<Rightarrow> bytes \<Rightarrow> auth_state \<Rightarrow> auth_state \<times> event list" where
  "append_governance_action e action_id action_name data a =
     (let a' = append_governance_action_raw e data a in
      (a', [Event ''gov_action''
              [VU32 action_id, VSym action_name, VBytes (get_admin_audit_root a')]]))"

section \<open>Operations\<close>

definition initialize :: "env \<Rightarrow> address \<Rightarrow> address \<Rightarrow> auth_state \<Rightarrow> auth_state op" where
  "initialize e adm svc a =
     (if has_admin a then Inl (Err AlreadyInitialized)
      else bind_res (require_auth e adm) (\<lambda>_.
        Inr (a\<lparr>admin := Some adm, service := Some svc,
               admin_audit_root := Some (replicate 32 0)\<rparr>, [])))"

text \<open>The guard most admin entry points start with.\<close>

definition admin_op ::
    "env \<Rightarrow> address list \<Rightarrow> auth_state \<Rightarrow> (address \<Rightarrow> auth_state op) \<Rightarrow> auth_state op" where
  "admin_op e signers a body =
     (if \<not> has_admin a then Inl (Err NotInitialized)
      else bind_res (require_admin_auth e signers a) (\<lambda>_. bind_res (get_admin a) body))"

text \<open>The same two guards for entry points that change another component's state: the
  M-of-N check, and the check of the single stored admin.\<close>

definition admin_guard :: "env \<Rightarrow> address list \<Rightarrow> auth_state \<Rightarrow> 'x res \<Rightarrow> 'x res" where
  "admin_guard e signers a body =
     (if \<not> has_admin a then Inl (Err NotInitialized)
      else bind_res (require_admin_auth e signers a) (\<lambda>_. body))"

definition stored_admin_guard :: "env \<Rightarrow> auth_state \<Rightarrow> 'x res \<Rightarrow> 'x res" where
  "stored_admin_guard e a body =
     (if \<not> has_admin a then Inl (Err NotInitialized)
      else bind_res (get_admin a) (\<lambda>adm. bind_res (require_auth e adm) (\<lambda>_. body)))"

definition add_service_signer :: "env \<Rightarrow> address list \<Rightarrow> address \<Rightarrow> auth_state \<Rightarrow> auth_state op" where
  "add_service_signer e signers signer a =
     admin_op e signers a (\<lambda>adm.
       if MAX_SERVICE_SIGNERS \<le> length (service_set a) then Inl (Err ServiceSetFull)
       else if signer \<in> set (service_set a) then Inl (Err SignerAlreadyInSet)
       else
         (let a1 = a\<lparr>service_set := service_set a @ [signer],
                signer_added_at := (signer_added_at a)(signer \<mapsto> ledger_timestamp e),
                signer_state := (signer_state a)(signer \<mapsto>
                  \<lparr>ss_signer = signer, ss_state = Pending,
                   ss_changed_at = ledger_timestamp e, ss_changed_by = adm\<rparr>)\<rparr>;
              (a2, evs) = append_governance_action e 2 ''add_sig'' (2 # replicate 31 0) a1 in
          Inr (a2, Event ''signer_added'' [VAddr signer] # evs)))"

definition remove_service_signer :: "env \<Rightarrow> address list \<Rightarrow> address \<Rightarrow> auth_state \<Rightarrow> auth_state op" where
  "remove_service_signer e signers signer a =
     admin_op e signers a (\<lambda>adm.
       if signer \<notin> set (service_set a) then Inl (Err SignerNotInSet)
       else
         (let set' = remove1 signer (service_set a);
              a1 = a\<lparr>service_set := set'\<rparr>;
              (a2, evs) =
                (if set' = [] then (a1\<lparr>service_threshold := Some 0\<rparr>,
                   [Event ''service_threshold_updated'' [VU32 0]])
                 else if length set' < unat (get_service_threshold a1)
                 then (a1\<lparr>service_threshold := Some (of_nat (length set'))\<rparr>,
                   [Event ''service_threshold_updated'' [VU32 (of_nat (length set'))]])
                 else (a1, []));
              a3 = a2\<lparr>signer_added_at := (signer_added_at a2)(signer := None),
                signer_state := (signer_state a2)(signer \<mapsto>
                  \<lparr>ss_signer = signer, ss_state = Revoked,
                   ss_changed_at = ledger_timestamp e, ss_changed_by = adm\<rparr>)\<rparr> in
          Inr (a3, evs @ [Event ''signer_removed'' [VAddr signer]])))"

definition set_service_threshold :: "env \<Rightarrow> address list \<Rightarrow> u32 \<Rightarrow> auth_state \<Rightarrow> auth_state op" where
  "set_service_threshold e signers threshold a =
     admin_op e signers a (\<lambda>_.
       if threshold = 0 \<or> length (service_set a) < unat threshold then Inl (Err InvalidThreshold)
       else Inr (a\<lparr>service_threshold := Some threshold\<rparr>,
                 [Event ''service_threshold_updated'' [VU32 threshold]]))"

definition set_service :: "env \<Rightarrow> address \<Rightarrow> auth_state \<Rightarrow> auth_state op" where
  "set_service e new_service a =
     (if \<not> has_admin a then Inl (Err NotInitialized)
      else bind_res (get_admin a) (\<lambda>adm. bind_res (require_auth e adm) (\<lambda>_.
        (let (a', evs) = append_governance_action e 1 ''set_svc'' (1 # replicate 31 0)
               (a\<lparr>service := Some new_service\<rparr>) in
         Inr (a', Event ''service_updated'' [VAddr new_service] # evs)))))"

definition transfer_admin :: "env \<Rightarrow> address list \<Rightarrow> address \<Rightarrow> auth_state \<Rightarrow> auth_state op" where
  "transfer_admin e signers new_admin a =
     admin_op e signers a (\<lambda>adm.
       Inr (a\<lparr>pending_admin := Some new_admin\<rparr>,
            [Event ''admin_transfer_initiated'' [VAddr adm, VAddr new_admin]]))"

definition accept_admin :: "env \<Rightarrow> auth_state \<Rightarrow> auth_state op" where
  "accept_admin e a =
     (if \<not> has_admin a then Inl (Err NotInitialized)
      else case pending_admin a of
        None \<Rightarrow> Inl (Err NoPendingAdminTransfer)
      | Some pending \<Rightarrow> bind_res (require_auth e pending) (\<lambda>_.
          Inr (a\<lparr>admin := Some pending, pending_admin := None\<rparr>,
               [Event ''admin_transfer_accepted'' [VAddr pending]])))"

definition cancel_admin_transfer :: "env \<Rightarrow> address list \<Rightarrow> auth_state \<Rightarrow> auth_state op" where
  "cancel_admin_transfer e signers a =
     (if \<not> has_admin a then Inl (Err NotInitialized)
      else if pending_admin a = None then Inl (Err NoPendingAdminTransfer)
      else admin_op e signers a (\<lambda>adm.
        Inr (a\<lparr>pending_admin := None\<rparr>, [Event ''admin_transfer_cancelled'' [VAddr adm]])))"

definition policy_op ::
    "env \<Rightarrow> Policy \<Rightarrow> address list \<Rightarrow> auth_state \<Rightarrow> (address \<Rightarrow> auth_state op) \<Rightarrow> auth_state op" where
  "policy_op e p signers a body =
     (if \<not> has_admin a then Inl (Err NotInitialized)
      else bind_res (require_policy_auth e p signers a) (\<lambda>_. bind_res (get_admin a) body))"

definition pause :: "env \<Rightarrow> address list \<Rightarrow> auth_state \<Rightarrow> auth_state op" where
  "pause e signers a =
     policy_op e EmergencyPause signers a (\<lambda>adm.
       Inr (update_audit_root e ''pause'' adm [] (a\<lparr>paused := Some True\<rparr>),
            [Event ''contract_paused'' [VAddr adm]]))"

definition unpause :: "env \<Rightarrow> address list \<Rightarrow> auth_state \<Rightarrow> auth_state op" where
  "unpause e signers a =
     policy_op e EmergencyPause signers a (\<lambda>adm.
       Inr (update_audit_root e ''unpause'' adm [] (a\<lparr>paused := Some False\<rparr>),
            [Event ''contract_unpaused'' [VAddr adm]]))"

definition freeze_contract :: "env \<Rightarrow> address list \<Rightarrow> auth_state \<Rightarrow> auth_state op" where
  "freeze_contract e signers a =
     admin_op e signers a (\<lambda>adm.
       Inr (update_audit_root e ''freeze'' adm [] (a\<lparr>frozen := Some True\<rparr>),
            [Event ''contract_frozen'' [VAddr adm]]))"

definition unfreeze_contract :: "env \<Rightarrow> address list \<Rightarrow> auth_state \<Rightarrow> auth_state op" where
  "unfreeze_contract e signers a =
     admin_op e signers a (\<lambda>adm.
       Inr (update_audit_root e ''unfroz'' adm [] (a\<lparr>frozen := Some False\<rparr>),
            [Event ''contract_unfrozen'' [VAddr adm]]))"

definition open_epoch :: "env \<Rightarrow> address list \<Rightarrow> u32 \<Rightarrow> auth_state \<Rightarrow> auth_state op" where
  "open_epoch e signers epoch_id a =
     admin_op e signers a (\<lambda>_.
       Inr (a\<lparr>current_epoch := Some epoch_id, epoch_open := Some True\<rparr>,
            [Event ''epoch_opened'' [VU32 epoch_id]]))"

definition close_epoch :: "env \<Rightarrow> address list \<Rightarrow> auth_state \<Rightarrow> auth_state op" where
  "close_epoch e signers a =
     admin_op e signers a (\<lambda>_.
       Inr (a\<lparr>epoch_open := Some False\<rparr>,
            [Event ''epoch_closed'' [VU32 (unwrap_or (current_epoch a) 0)]]))"

definition set_signer_rotation_ttl :: "env \<Rightarrow> address list \<Rightarrow> u64 \<Rightarrow> auth_state \<Rightarrow> auth_state op" where
  "set_signer_rotation_ttl e signers ttl a =
     admin_op e signers a (\<lambda>_.
       Inr (a\<lparr>signer_ttl := Some ttl\<rparr>, [Event ''signer_ttl_updated'' [VU64 ttl]]))"

definition set_signer_rotation_grace :: "env \<Rightarrow> address list \<Rightarrow> u64 \<Rightarrow> auth_state \<Rightarrow> auth_state op" where
  "set_signer_rotation_grace e signers grace a =
     admin_op e signers a (\<lambda>_.
       Inr (a\<lparr>signer_grace_period := Some grace\<rparr>,
            [Event ''signer_grace_period_updated'' [VU64 grace]]))"

definition set_pair_paused :: "env \<Rightarrow> symbol \<Rightarrow> bool \<Rightarrow> auth_state \<Rightarrow> auth_state op" where
  "set_pair_paused e p flag a =
     (if \<not> has_admin a then Inl (Err NotInitialized)
      else bind_res (get_admin a) (\<lambda>adm. bind_res (require_auth e adm) (\<lambda>_.
        if flag then
          (if is_pair_paused p a
           then Inr (set_pair_paused_flag p True a, [Event ''pair_paused'' [VSym p, VBool flag]])
           else (let (ok, a1) = add_to_paused_index p a in
                 if \<not> ok then Inl (Err ServiceSetFull)
                 else Inr (set_pair_paused_flag p True a1,
                           [Event ''pair_paused'' [VSym p, VBool flag]])))
        else Inr (remove_from_paused_index p (set_pair_paused_flag p False a),
                  [Event ''pair_paused'' [VSym p, VBool flag]]))))"

definition approver_acceptable :: "bool \<Rightarrow> address option \<Rightarrow> auth_state \<Rightarrow> unit res" where
  "approver_acceptable enabled approver a =
     (if \<not> enabled then Inr ()
      else case approver of
        None \<Rightarrow> Inl (Err InvalidThreshold)
      | Some x \<Rightarrow> bind_res (approver_conflicts_with_admin x a) (\<lambda>conflict.
          if conflict then Inl (Err InvalidThreshold) else Inr ()))"

abbreviation approver_args :: "bool \<Rightarrow> address option \<Rightarrow> event_val list" where
  "approver_args enabled approver \<equiv>
     VBool enabled # (case approver of None \<Rightarrow> [] | Some x \<Rightarrow> [VAddr x])"

definition set_deletion_approval_policy ::
    "env \<Rightarrow> address list \<Rightarrow> bool \<Rightarrow> address option \<Rightarrow> auth_state \<Rightarrow> auth_state op" where
  "set_deletion_approval_policy e signers enabled approver a =
     admin_op e signers a (\<lambda>_.
       bind_res (approver_acceptable enabled approver a) (\<lambda>_.
         Inr (a\<lparr>deletion_policy_enabled := Some enabled, deletion_approver := approver\<rparr>,
              [Event ''deletion_policy_updated'' (approver_args enabled approver)])))"

definition set_policy_approval ::
    "env \<Rightarrow> address list \<Rightarrow> Policy \<Rightarrow> bool \<Rightarrow> address option \<Rightarrow> auth_state \<Rightarrow> auth_state op" where
  "set_policy_approval e signers p enabled approver a =
     (if \<not> has_admin a then Inl (Err NotInitialized)
      else if p = DataDeletion then Inl (Err InvalidPolicy)
      else admin_op e signers a (\<lambda>_.
        bind_res (approver_acceptable enabled approver a) (\<lambda>_.
          Inr (a\<lparr>policy_enabled := (policy_enabled a)(p \<mapsto> enabled),
                 policy_approver := (policy_approver a)(p := approver)\<rparr>,
               [Event ''policy_approval_updated'' (approver_args enabled approver)]))))"

definition add_admin_signer :: "env \<Rightarrow> address list \<Rightarrow> address \<Rightarrow> auth_state \<Rightarrow> auth_state op" where
  "add_admin_signer e signers signer a =
     policy_op e SignerAdmin signers a (\<lambda>_.
       if MAX_ADMIN_SIGNERS \<le> length (admin_set a) then Inl (Err AdminSetFull)
       else if signer \<in> set (admin_set a) then Inl (Err SignerAlreadyInSet)
       else Inr (a\<lparr>admin_set := admin_set a @ [signer], upgrade_approvals := []\<rparr>, []))"

definition remove_admin_signer :: "env \<Rightarrow> address list \<Rightarrow> address \<Rightarrow> auth_state \<Rightarrow> auth_state op" where
  "remove_admin_signer e signers signer a =
     policy_op e SignerAdmin signers a (\<lambda>_.
       if signer \<notin> set (admin_set a) then Inl (Err AdminSignerNotInSet)
       else
         (let set' = remove1 signer (admin_set a);
              a1 = a\<lparr>admin_set := set'\<rparr>;
              a2 = (if set' = [] then a1\<lparr>admin_threshold := Some 0\<rparr>
                    else if length set' < unat (get_admin_threshold a1)
                    then a1\<lparr>admin_threshold := Some (of_nat (length set'))\<rparr>
                    else a1) in
          Inr (a2\<lparr>upgrade_approvals := []\<rparr>, [])))"

definition set_admin_threshold :: "env \<Rightarrow> address list \<Rightarrow> u32 \<Rightarrow> auth_state \<Rightarrow> auth_state op" where
  "set_admin_threshold e signers threshold a =
     policy_op e SignerAdmin signers a (\<lambda>_.
       if threshold = 0 \<or> length (admin_set a) < unat threshold then Inl (Err InvalidThreshold)
       else Inr (append_governance_action e 3 ''set_athr''
                   (3 # replicate 27 0 @ be_bytes 4 threshold)
                   (a\<lparr>admin_threshold := Some threshold\<rparr>)))"

section \<open>Steps and reachable states\<close>

text \<open>One successful invocation of an operation of this component.\<close>

inductive auth_step :: "env \<Rightarrow> auth_state \<Rightarrow> auth_state \<Rightarrow> bool" for e a where
  initialize: "initialize e adm svc a = Inr (a', evs) \<Longrightarrow> auth_step e a a'"
| add_service_signer: "add_service_signer e ss s a = Inr (a', evs) \<Longrightarrow> auth_step e a a'"
| remove_service_signer: "remove_service_signer e ss s a = Inr (a', evs) \<Longrightarrow> auth_step e a a'"
| set_service_threshold: "set_service_threshold e ss t a = Inr (a', evs) \<Longrightarrow> auth_step e a a'"
| set_service: "set_service e s a = Inr (a', evs) \<Longrightarrow> auth_step e a a'"
| transfer_admin: "transfer_admin e ss s a = Inr (a', evs) \<Longrightarrow> auth_step e a a'"
| accept_admin: "accept_admin e a = Inr (a', evs) \<Longrightarrow> auth_step e a a'"
| cancel_admin_transfer: "cancel_admin_transfer e ss a = Inr (a', evs) \<Longrightarrow> auth_step e a a'"
| pause: "pause e ss a = Inr (a', evs) \<Longrightarrow> auth_step e a a'"
| unpause: "unpause e ss a = Inr (a', evs) \<Longrightarrow> auth_step e a a'"
| freeze: "freeze_contract e ss a = Inr (a', evs) \<Longrightarrow> auth_step e a a'"
| unfreeze: "unfreeze_contract e ss a = Inr (a', evs) \<Longrightarrow> auth_step e a a'"
| open_epoch: "open_epoch e ss n a = Inr (a', evs) \<Longrightarrow> auth_step e a a'"
| close_epoch: "close_epoch e ss a = Inr (a', evs) \<Longrightarrow> auth_step e a a'"
| set_pair_paused: "set_pair_paused e p b a = Inr (a', evs) \<Longrightarrow> auth_step e a a'"
| set_deletion_approval_policy:
    "set_deletion_approval_policy e ss b x a = Inr (a', evs) \<Longrightarrow> auth_step e a a'"
| set_policy_approval: "set_policy_approval e ss p b x a = Inr (a', evs) \<Longrightarrow> auth_step e a a'"
| add_admin_signer: "add_admin_signer e ss s a = Inr (a', evs) \<Longrightarrow> auth_step e a a'"
| remove_admin_signer: "remove_admin_signer e ss s a = Inr (a', evs) \<Longrightarrow> auth_step e a a'"
| set_signer_rotation_ttl: "set_signer_rotation_ttl e ss n' a = Inr (a', evs) \<Longrightarrow> auth_step e a a'"
| set_signer_rotation_grace: "set_signer_rotation_grace e ss n' a = Inr (a', evs) \<Longrightarrow> auth_step e a a'"
| set_admin_threshold: "set_admin_threshold e ss t a = Inr (a', evs) \<Longrightarrow> auth_step e a a'"

inductive auth_reachable :: "auth_state \<Rightarrow> bool" where
  start: "auth_reachable empty_auth"
| step: "auth_reachable a \<Longrightarrow> auth_step e a a' \<Longrightarrow> auth_reachable a'"

section \<open>Authorization is sound\<close>

lemma admin_signers_loop_Inr:
  "admin_signers_loop e ss a = Inr u \<Longrightarrow> \<forall>s \<in> set ss. s \<in> set (admin_set a) \<and> authorized e s"
  by (induction ss) (auto simp: bind_res_Inr_iff split: if_splits)

lemma admin_signers_loop_complete:
  "\<forall>s \<in> set ss. s \<in> set (admin_set a) \<and> authorized e s \<Longrightarrow> admin_signers_loop e ss a = Inr ()"
  by (induction ss) (simp_all add: require_auth_def)

definition admin_quorum :: "env \<Rightarrow> address list \<Rightarrow> auth_state \<Rightarrow> bool" where
  "admin_quorum e ss a =
     (if admin_set a \<noteq> [] \<and> 0 < unat (get_admin_threshold a)
      then unat (get_admin_threshold a) \<le> length ss \<and> length ss \<le> length (admin_set a)
           \<and> (\<forall>s \<in> set ss. s \<in> set (admin_set a) \<and> authorized e s)
      else (\<exists>adm. admin a = Some adm \<and> authorized e adm))"

lemma require_admin_auth_iff: "require_admin_auth e ss a = Inr u \<longleftrightarrow> admin_quorum e ss a"
  using admin_signers_loop_Inr [of e ss a] admin_signers_loop_complete [of ss a e]
  by (auto simp: require_admin_auth_def admin_quorum_def Let_def bind_res_Inr_iff get_admin_def
    split: option.splits if_splits)

lemma service_signers_loop_Inr:
  "service_signers_loop e ss a = Inr evs \<Longrightarrow>
   \<forall>s \<in> set ss. s \<in> set (service_set a) \<and> authorized e s"
  by (induction ss arbitrary: evs) (auto simp: bind_res_Inr_iff split: if_splits)

lemma admin_op_Inr:
  "admin_op e ss a body = Inr r \<longleftrightarrow>
     (\<exists>adm. admin a = Some adm \<and> admin_quorum e ss a \<and> body adm = Inr r)"
  by (auto simp: admin_op_def has_admin_def get_admin_def bind_res_Inr_iff require_admin_auth_iff
    split: option.splits)

lemma require_policy_auth_Inr:
  "require_policy_auth e p ss a = Inr u \<Longrightarrow>
   admin_quorum e ss a \<and>
   (pa_enabled (get_policy_approval p a) \<longrightarrow>
      (\<exists>x. policy_approver a p = Some x \<and> authorized e x
         \<and> admin a \<noteq> Some x \<and> x \<notin> set (admin_set a)))"
  by (auto simp: require_policy_auth_def bind_res_Inr_iff require_admin_auth_iff Let_def
    get_policy_approval_def approver_conflicts_with_admin_def get_admin_def
    split: if_splits option.splits)

lemma policy_op_Inr:
  "policy_op e p ss a body = Inr r \<Longrightarrow>
     (\<exists>adm. admin a = Some adm \<and> require_policy_auth e p ss a = Inr () \<and> body adm = Inr r)"
  by (auto simp: policy_op_def has_admin_def get_admin_def bind_res_Inr_iff
    split: option.splits if_splits)

section \<open>Well-formed signer sets\<close>

definition admin_wf :: "auth_state \<Rightarrow> bool" where
  "admin_wf a =
     (distinct (admin_set a) \<and> length (admin_set a) \<le> MAX_ADMIN_SIGNERS
      \<and> unat (get_admin_threshold a) \<le> length (admin_set a))"

definition service_wf :: "auth_state \<Rightarrow> bool" where
  "service_wf a =
     (distinct (service_set a) \<and> length (service_set a) \<le> MAX_SERVICE_SIGNERS
      \<and> unat (get_service_threshold a) \<le> max 1 (length (service_set a)))"

definition pause_wf :: "auth_state \<Rightarrow> bool" where
  "pause_wf a =
     (distinct (paused_pair_index a) \<and> length (paused_pair_index a) \<le> MAX_PAUSED_PAIRS
      \<and> (\<forall>p. is_pair_paused p a \<longleftrightarrow> p \<in> set (paused_pair_index a)))"

lemmas auth_op_defs = initialize_def add_service_signer_def remove_service_signer_def
  set_service_threshold_def set_service_def transfer_admin_def accept_admin_def
  cancel_admin_transfer_def pause_def unpause_def freeze_contract_def unfreeze_contract_def
  open_epoch_def close_epoch_def set_pair_paused_def set_deletion_approval_policy_def
  set_policy_approval_def add_admin_signer_def remove_admin_signer_def set_admin_threshold_def
  set_signer_rotation_ttl_def set_signer_rotation_grace_def

lemmas auth_inversion = admin_op_Inr bind_res_Inr_iff Let_def update_audit_root_def
  append_governance_action_def append_governance_action_raw_def

abbreviation admin_keys :: "auth_state \<Rightarrow> address list \<times> u32 option" where
  "admin_keys a \<equiv> (admin_set a, admin_threshold a)"

abbreviation service_keys :: "auth_state \<Rightarrow> address list \<times> u32 option" where
  "service_keys a \<equiv> (service_set a, service_threshold a)"

abbreviation pause_keys :: "auth_state \<Rightarrow> (symbol \<Rightarrow> bool option) \<times> symbol list" where
  "pause_keys a \<equiv> (pair_paused a, paused_pair_index a)"

lemma wf_cong:
  "admin_keys a' = admin_keys a \<Longrightarrow> admin_wf a' = admin_wf a"
  "service_keys a' = service_keys a \<Longrightarrow> service_wf a' = service_wf a"
  "pause_keys a' = pause_keys a \<Longrightarrow> pause_wf a' = pause_wf a"
  by (simp_all add: admin_wf_def service_wf_def pause_wf_def get_admin_threshold_def
    get_service_threshold_def is_pair_paused_def)

abbreviation same_keys :: "auth_state \<Rightarrow> auth_state \<Rightarrow> bool" where
  "same_keys a' a \<equiv> admin_keys a' = admin_keys a \<and> service_keys a' = service_keys a
     \<and> pause_keys a' = pause_keys a"

text \<open>Operations that touch none of the three groups.\<close>

lemma plain_ops_keep_keys:
  "initialize e adm svc a = Inr (a', evs) \<Longrightarrow> same_keys a' a"
  "set_service e s a = Inr (a', evs) \<Longrightarrow> same_keys a' a"
  "transfer_admin e ss s a = Inr (a', evs) \<Longrightarrow> same_keys a' a"
  "accept_admin e a = Inr (a', evs) \<Longrightarrow> same_keys a' a"
  "cancel_admin_transfer e ss a = Inr (a', evs) \<Longrightarrow> same_keys a' a"
  "freeze_contract e ss a = Inr (a', evs) \<Longrightarrow> same_keys a' a"
  "unfreeze_contract e ss a = Inr (a', evs) \<Longrightarrow> same_keys a' a"
  "open_epoch e ss n a = Inr (a', evs) \<Longrightarrow> same_keys a' a"
  "close_epoch e ss a = Inr (a', evs) \<Longrightarrow> same_keys a' a"
  "set_deletion_approval_policy e ss b x a = Inr (a', evs) \<Longrightarrow> same_keys a' a"
  "set_policy_approval e ss p b x a = Inr (a', evs) \<Longrightarrow> same_keys a' a"
  "set_signer_rotation_ttl e ss n' a = Inr (a', evs) \<Longrightarrow> same_keys a' a"
  "set_signer_rotation_grace e ss n' a = Inr (a', evs) \<Longrightarrow> same_keys a' a"
  by (auto simp: auth_op_defs auth_inversion split: if_splits option.splits)

lemma pause_ops_keep_keys:
  "pause e ss a = Inr (a', evs) \<Longrightarrow> same_keys a' a"
  "unpause e ss a = Inr (a', evs) \<Longrightarrow> same_keys a' a"
  unfolding pause_def unpause_def
  by (drule policy_op_Inr, auto simp: update_audit_root_def)+

lemma signer_ops_keep_keys:
  "add_service_signer e ss s a = Inr (a', evs) \<Longrightarrow>
     admin_keys a' = admin_keys a \<and> pause_keys a' = pause_keys a"
  "remove_service_signer e ss s a = Inr (a', evs) \<Longrightarrow>
     admin_keys a' = admin_keys a \<and> pause_keys a' = pause_keys a"
  "set_service_threshold e ss t a = Inr (a', evs) \<Longrightarrow>
     admin_keys a' = admin_keys a \<and> pause_keys a' = pause_keys a"
  by (auto simp: auth_op_defs auth_inversion split: if_splits)

lemma admin_ops_keep_keys:
  "add_admin_signer e ss s a = Inr (a', evs) \<Longrightarrow>
     service_keys a' = service_keys a \<and> pause_keys a' = pause_keys a"
  "remove_admin_signer e ss s a = Inr (a', evs) \<Longrightarrow>
     service_keys a' = service_keys a \<and> pause_keys a' = pause_keys a"
  "set_admin_threshold e ss t a = Inr (a', evs) \<Longrightarrow>
     service_keys a' = service_keys a \<and> pause_keys a' = pause_keys a"
  unfolding add_admin_signer_def remove_admin_signer_def set_admin_threshold_def
  by (drule policy_op_Inr, auto simp: Let_def append_governance_action_def
    append_governance_action_raw_def split: if_splits)+

lemma set_pair_paused_keep_keys:
  "set_pair_paused e p b a = Inr (a', evs) \<Longrightarrow>
     admin_keys a' = admin_keys a \<and> service_keys a' = service_keys a"
  by (auto simp: set_pair_paused_def bind_res_Inr_iff set_pair_paused_flag_def
    add_to_paused_index_def remove_from_paused_index_def Let_def split: if_splits)

lemma length_remove1_less: "x \<in> set xs \<Longrightarrow> length (remove1 x xs) < length xs"
  using length_pos_if_in_set [of x xs] by (simp add: length_remove1)

lemma threshold_after_removal:
  assumes "s \<in> set ms" "unat t \<le> length ms" "length ms \<le> 10"
  shows "unat (if remove1 s ms = [] then 0 else if length (remove1 s ms) < unat t
           then of_nat (length (remove1 s ms)) else t :: u32) \<le> length (remove1 s ms)"
  using unat_of_nat_le [of "length (remove1 s ms)", where 'a = 32] by auto

lemma service_wf_ops:
  "add_service_signer e ss s a = Inr (a', evs) \<Longrightarrow> service_wf a \<Longrightarrow> service_wf a'"
  "remove_service_signer e ss s a = Inr (a', evs) \<Longrightarrow> service_wf a \<Longrightarrow> service_wf a'"
  "set_service_threshold e ss t a = Inr (a', evs) \<Longrightarrow> service_wf a \<Longrightarrow> service_wf a'"
proof -
  show "service_wf a'" if "add_service_signer e ss s a = Inr (a', evs)" "service_wf a"
    using that by (auto simp: add_service_signer_def auth_inversion service_wf_def
      get_service_threshold_def split: if_splits)
  show "service_wf a'" if rem: "remove_service_signer e ss s a = Inr (a', evs)" and wf: "service_wf a"
  proof -
    let ?s' = "remove1 s (service_set a)"
    from rem have s: "s \<in> set (service_set a)"
      and set: "service_set a' = ?s'"
      and thr: "get_service_threshold a' = (if ?s' = [] then 0
        else if length ?s' < unat (get_service_threshold a) then of_nat (length ?s')
        else get_service_threshold a)"
      by (auto simp: remove_service_signer_def auth_inversion get_service_threshold_def
        split: if_splits)
    have "unat (get_service_threshold a) \<le> length (service_set a)"
      using wf length_pos_if_in_set [OF s] by (simp add: service_wf_def max_def split: if_splits)
    then have "unat (get_service_threshold a') \<le> length ?s'"
      unfolding thr using wf s by (intro threshold_after_removal)
        (auto simp: service_wf_def MAX_SERVICE_SIGNERS_def)
    then show ?thesis
      using wf length_remove1_less [OF s] by (simp add: service_wf_def set)
  qed
  show "service_wf a'" if "set_service_threshold e ss t a = Inr (a', evs)" "service_wf a"
    using that by (auto simp: set_service_threshold_def auth_inversion service_wf_def
      get_service_threshold_def split: if_splits)
qed

lemma admin_wf_ops:
  "add_admin_signer e ss s a = Inr (a', evs) \<Longrightarrow> admin_wf a \<Longrightarrow> admin_wf a'"
  "remove_admin_signer e ss s a = Inr (a', evs) \<Longrightarrow> admin_wf a \<Longrightarrow> admin_wf a'"
  "set_admin_threshold e ss t a = Inr (a', evs) \<Longrightarrow> admin_wf a \<Longrightarrow> admin_wf a'"
proof -
  show "admin_wf a'" if "add_admin_signer e ss s a = Inr (a', evs)" "admin_wf a"
    using that by (auto simp: add_admin_signer_def admin_wf_def get_admin_threshold_def
      dest!: policy_op_Inr split: if_splits)
  show "admin_wf a'" if rem: "remove_admin_signer e ss s a = Inr (a', evs)" and wf: "admin_wf a"
  proof -
    let ?s' = "remove1 s (admin_set a)"
    from rem have s: "s \<in> set (admin_set a)"
      and set: "admin_set a' = ?s'"
      and thr: "get_admin_threshold a' = (if ?s' = [] then 0
        else if length ?s' < unat (get_admin_threshold a) then of_nat (length ?s')
        else get_admin_threshold a)"
      by (auto simp: remove_admin_signer_def get_admin_threshold_def Let_def
        dest!: policy_op_Inr split: if_splits)
    have "unat (get_admin_threshold a') \<le> length ?s'"
      unfolding thr using wf s by (intro threshold_after_removal)
        (auto simp: admin_wf_def MAX_ADMIN_SIGNERS_def)
    then show ?thesis
      using wf length_remove1_less [OF s] by (simp add: admin_wf_def set)
  qed
  show "admin_wf a'" if "set_admin_threshold e ss t a = Inr (a', evs)" "admin_wf a"
    using that by (auto simp: set_admin_threshold_def admin_wf_def get_admin_threshold_def
      append_governance_action_def append_governance_action_raw_def Let_def
      dest!: policy_op_Inr split: if_splits)
qed

section \<open>Paused pairs\<close>

interpretation paused_pairs: bounded_index paused_pair_index add_to_paused_index
  remove_from_paused_index MAX_PAUSED_PAIRS
  by unfold_locales (auto simp: add_to_paused_index_def remove_from_paused_index_def Let_def
    remove1_idem)

lemma paused_flag_simps [simp]:
  "is_pair_paused q (set_pair_paused_flag p c a) = (if q = p then c else is_pair_paused q a)"
  "paused_pair_index (set_pair_paused_flag p c a) = paused_pair_index a"
  "is_pair_paused q (snd (add_to_paused_index p a)) = is_pair_paused q a"
  "is_pair_paused q (remove_from_paused_index p a) = is_pair_paused q a"
  by (simp_all add: is_pair_paused_def set_pair_paused_flag_def add_to_paused_index_def
    remove_from_paused_index_def Let_def)

lemma pause_wf_set_pair_paused:
  assumes op: "set_pair_paused e p b a = Inr (a', evs)" and wf: "pause_wf a"
  shows "pause_wf a'"
proof -
  from op consider (again) "is_pair_paused p a" "a' = set_pair_paused_flag p True a"
    | (add) "fst (add_to_paused_index p a)"
        "a' = set_pair_paused_flag p True (snd (add_to_paused_index p a))"
    | (rem) "a' = remove_from_paused_index p (set_pair_paused_flag p False a)"
    by (auto simp: set_pair_paused_def bind_res_Inr_iff split_beta split: if_splits)
  then show ?thesis
  proof cases
    case again
    then show ?thesis
      using wf by (simp add: pause_wf_def)
  next
    case add
    have "set (paused_pair_index (snd (add_to_paused_index p a))) = insert p (set (paused_pair_index a))"
      using add(1) paused_pairs.add_member [of p a] paused_pairs.add_keeps [of a p]
        paused_pairs.add_only [of p a] by auto
    then show ?thesis
      using wf add(2) paused_pairs.add_bounded [of a p] by (simp add: pause_wf_def)
  next
    case rem
    then show ?thesis
      using wf paused_pairs.remove_bounded [of "set_pair_paused_flag p False a" p]
        paused_pairs.remove_member [of "set_pair_paused_flag p False a" p]
      by (simp add: pause_wf_def)
  qed
qed

lemma reachable_auth_wf_all:
  assumes "auth_reachable a"
  shows "admin_wf a \<and> service_wf a \<and> pause_wf a"
  using assms
proof induction
  case start
  show ?case
    by (simp add: admin_wf_def service_wf_def pause_wf_def empty_auth_def
      get_admin_threshold_def get_service_threshold_def is_pair_paused_def)
next
  case (step a e a')
  note keeps = plain_ops_keep_keys pause_ops_keep_keys
  from step(2,3) show ?case
  proof cases
    case (set_pair_paused p b evs)
    then show ?thesis
      using step.IH pause_wf_set_pair_paused set_pair_paused_keep_keys wf_cong(1,2) by metis
  qed (use step.IH keeps [THEN conjunct1] keeps [THEN conjunct2, THEN conjunct1]
      keeps [THEN conjunct2, THEN conjunct2] in
      \<open>(metis wf_cong signer_ops_keep_keys admin_ops_keep_keys service_wf_ops admin_wf_ops)+\<close>)
qed

text \<open>C11: in every reachable state both signer sets are duplicate-free and within
  their caps, the admin threshold never exceeds the number of admin signers and
  the service threshold never exceeds the number of service signers (or is the
  initial one of an empty set), and a trading pair is flagged as paused exactly
  when the capped index lists it.\<close>

theorem reachable_auth_wf:
  assumes "auth_reachable a"
  shows "admin_wf a \<and> service_wf a \<and> pause_wf a"
  using assms by (rule reachable_auth_wf_all)

lemmas reachable_wf_admin = reachable_auth_wf_all [THEN conjunct1]

lemma guard_InrD:
  "admin_guard e signers a body = Inr r \<Longrightarrow> body = Inr r"
  "stored_admin_guard e a body = Inr r \<Longrightarrow> body = Inr r"
  "admin_guard e signers a body = Inr r \<Longrightarrow> require_admin_auth e signers a = Inr ()"
  by (auto simp: admin_guard_def stored_admin_guard_def bind_res_Inr_iff split: if_splits)

definition sample_auth :: auth_state where
  "sample_auth = empty_auth\<lparr>admin := Some (Addr 1), service := Some (Addr 2),
     admin_audit_root := Some (replicate 32 0)\<rparr>"

lemma sample_auth_step: "auth_step (sample_env 1) empty_auth sample_auth"
  by (rule auth_step.initialize [of _ "Addr 1" "Addr 2" _ _ "[]"])
    (simp add: initialize_def has_admin_def empty_auth_def sample_env_def require_auth_def
      sample_auth_def)

lemma sample_auth_reachable: "auth_reachable sample_auth"
  by (rule auth_reachable.step [OF auth_reachable.start sample_auth_step])

lemma sample_env_fields [simp]:
  "ledger_timestamp (sample_env n) = 1000" "ledger_sequence (sample_env n) = n"
  "authorized (sample_env n) w"
  by (simp_all add: sample_env_def)

lemma sample_guards [simp]:
  "admin_guard (sample_env n) signers sample_auth body = body"
  "stored_admin_guard (sample_env n) sample_auth body = body"
  "get_admin sample_auth = Inr (Addr 1)"
  by (simp_all add: admin_guard_def stored_admin_guard_def sample_auth_def sample_env_def
      empty_auth_def has_admin_def get_admin_def require_auth_def require_admin_auth_def
      get_admin_threshold_def)

definition sample_multisig :: auth_state where
  "sample_multisig = sample_auth\<lparr>admin_set := [Addr 3]\<rparr>"

lemma sample_multisig_reachable: "auth_reachable sample_multisig"
proof (rule auth_reachable.step [OF sample_auth_reachable])
  show "auth_step (sample_env 1) sample_auth sample_multisig"
    by (rule auth_step.add_admin_signer [of _ "[]" "Addr 3" _ _ "[]"])
      (simp add: add_admin_signer_def policy_op_def has_admin_def require_policy_auth_def
        require_admin_auth_def get_admin_def sample_auth_def empty_auth_def sample_env_def
        require_auth_def get_policy_approval_def MAX_ADMIN_SIGNERS_def sample_multisig_def Let_def)
qed

theorem reachable_auth_wf_witness:
  "auth_reachable sample_multisig \<and> admin_wf sample_multisig \<and> service_wf sample_multisig
   \<and> pause_wf sample_multisig \<and> admin_set sample_multisig = [Addr 3]"
  using reachable_auth_wf [OF sample_multisig_reachable] sample_multisig_reachable
  by (simp add: sample_multisig_def)

text \<open>an admin check passes exactly when the caller presents a quorum: with an
  active signer set, at least the threshold and at most the set size of
  entries, each a member of the set that authorized the call; otherwise the
  authorization of the single admin.\<close>

theorem require_admin_auth_quorum:
  "require_admin_auth e ss a = Inr () \<longleftrightarrow>
     (if admin_set a \<noteq> [] \<and> 0 < unat (get_admin_threshold a)
      then unat (get_admin_threshold a) \<le> length ss \<and> length ss \<le> length (admin_set a)
           \<and> set ss \<subseteq> {s. s \<in> set (admin_set a) \<and> authorized e s}
      else (case admin a of None \<Rightarrow> False | Some adm \<Rightarrow> authorized e adm))"
  by (auto simp: require_admin_auth_iff admin_quorum_def split: option.split)

text \<open>C12: in a reachable, initialized state the admins are never locked out: if the
  admin and every admin signer authorize a call that names the whole signer
  set, the check passes.\<close>

theorem admins_never_locked_out:
  assumes "auth_reachable a" "admin a = Some adm" "authorized e adm"
    "\<forall>s \<in> set (admin_set a). authorized e s"
  shows "require_admin_auth e (admin_set a) a = Inr ()"
proof -
  have "admin_wf a"
    using reachable_wf_admin [OF assms(1)] .
  then show ?thesis
    using assms(2-4) by (simp add: require_admin_auth_iff admin_quorum_def admin_wf_def)
qed

theorem admins_never_locked_out_witness:
  "require_admin_auth (sample_env 1) (admin_set sample_multisig) sample_multisig = Inr ()"
  by (rule admins_never_locked_out [OF sample_multisig_reachable, of "Addr 1"])
    (simp_all add: sample_multisig_def sample_auth_def sample_env_def)

section \<open>Handover of the admin role\<close>

lemma admin_kept:
  assumes "auth_step e a a'" "admin a \<noteq> None"
  shows "admin a' = admin a \<or>
    (\<exists>p. pending_admin a = Some p \<and> authorized e p \<and> admin a' = Some p \<and> pending_admin a' = None)"
  using assms
proof cases
  case (accept_admin evs)
  then show ?thesis
    by (auto simp: accept_admin_def bind_res_Inr_iff split: if_splits option.splits)
next
  case (initialize adm svc evs)
  then show ?thesis
    using assms(2) by (simp add: initialize_def has_admin_def split: if_splits)
next
  case (pause ss evs)
  then show ?thesis
    by (auto simp: pause_def update_audit_root_def dest!: policy_op_Inr)
next
  case (unpause ss evs)
  then show ?thesis
    by (auto simp: unpause_def update_audit_root_def dest!: policy_op_Inr)
next
  case (set_pair_paused p b evs)
  then show ?thesis
    by (auto simp: set_pair_paused_def bind_res_Inr_iff set_pair_paused_flag_def
      add_to_paused_index_def remove_from_paused_index_def Let_def split: if_splits)
next
  case (set_admin_threshold ss t evs)
  then show ?thesis
    by (auto simp: set_admin_threshold_def append_governance_action_def Let_def
      append_governance_action_raw_def dest!: policy_op_Inr split: if_splits)
next
  case (remove_admin_signer ss s evs)
  then show ?thesis
    by (auto simp: remove_admin_signer_def Let_def dest!: policy_op_Inr split: if_splits)
next
  case (add_admin_signer ss s evs)
  then show ?thesis
    by (auto simp: add_admin_signer_def dest!: policy_op_Inr split: if_splits)
qed (auto simp: auth_op_defs auth_inversion split: if_splits)

lemma pending_nominated:
  assumes "auth_step e a a'" "pending_admin a' \<noteq> pending_admin a" "pending_admin a' \<noteq> None"
  shows "\<exists>ss. admin_quorum e ss a"
  using assms
proof cases
  case (pause ss evs)
  then show ?thesis
    using assms by (auto simp: pause_def update_audit_root_def dest!: policy_op_Inr)
next
  case (unpause ss evs)
  then show ?thesis
    using assms by (auto simp: unpause_def update_audit_root_def dest!: policy_op_Inr)
next
  case (set_admin_threshold ss t evs)
  then show ?thesis
    using assms by (auto simp: set_admin_threshold_def append_governance_action_def Let_def
      append_governance_action_raw_def dest!: policy_op_Inr split: if_splits)
next
  case (set_pair_paused p b evs)
  then show ?thesis
    using assms by (auto simp: set_pair_paused_def bind_res_Inr_iff set_pair_paused_flag_def
      add_to_paused_index_def remove_from_paused_index_def Let_def split: if_splits)
qed (use assms in \<open>auto simp: auth_op_defs auth_inversion
      dest!: policy_op_Inr split: if_splits option.splits\<close>)

text \<open>the admin of an initialized contract changes only when the nominated
  successor accepts with its own authorization, and a successor is nominated
  only with a quorum of the current admins.\<close>

theorem admin_handover:
  assumes "auth_step e a a'" "admin a \<noteq> None"
  shows "(admin a' = admin a \<or>
          (\<exists>p. pending_admin a = Some p \<and> authorized e p \<and> admin a' = Some p
             \<and> pending_admin a' = None))
         \<and> (pending_admin a' = pending_admin a \<or> pending_admin a' = None
            \<or> (\<exists>ss. require_admin_auth e ss a = Inr ()))"
  using admin_kept [OF assms] pending_nominated [OF assms(1)] unfolding require_admin_auth_iff
  by blast

theorem admin_handover_witness:
  "\<exists>a'. auth_step (sample_env 1) (sample_auth\<lparr>pending_admin := Some (Addr 7)\<rparr>) a'
     \<and> admin a' = Some (Addr 7) \<and> pending_admin a' = None"
proof -
  let ?a = "sample_auth\<lparr>pending_admin := Some (Addr 7)\<rparr>"
  let ?a' = "?a\<lparr>admin := Some (Addr 7), pending_admin := None\<rparr>"
  have step: "auth_step (sample_env 1) ?a ?a'"
    by (rule auth_step.accept_admin [of _ _ _ "[Event ''admin_transfer_accepted'' [VAddr (Addr 7)]]"])
      (simp add: accept_admin_def has_admin_def sample_auth_def require_auth_def sample_env_def)
  have "admin ?a' = Some (Addr 7) \<and> pending_admin ?a' = None"
    using admin_handover [OF step] by (simp add: sample_auth_def)
  then show ?thesis
    using step by blast
qed

text \<open>while an approver is required for the emergency pause, pausing takes the
  admin quorum and the authorization of an approver that holds no admin role; the
  contract is paused afterwards.\<close>

theorem pause_needs_independent_approver:
  assumes "pause e ss a = Inr (a', evs)" "pa_enabled (get_policy_approval EmergencyPause a)"
  shows "require_admin_auth e ss a = Inr () \<and> paused a' = Some True
    \<and> (\<exists>x. policy_approver a EmergencyPause = Some x \<and> authorized e x
         \<and> admin a \<noteq> Some x \<and> x \<notin> set (admin_set a))"
  using assms by (auto simp: pause_def update_audit_root_def require_admin_auth_iff
    dest!: policy_op_Inr require_policy_auth_Inr)

theorem pause_needs_independent_approver_witness:
  "\<exists>a' evs. pause (sample_env 1) [] (sample_auth\<lparr>policy_enabled := (\<lambda>_. Some True),
       policy_approver := (\<lambda>_. Some (Addr 9))\<rparr>) = Inr (a', evs) \<and> paused a' = Some True"
proof -
  let ?a = "sample_auth\<lparr>policy_enabled := (\<lambda>_. Some True), policy_approver := (\<lambda>_. Some (Addr 9))\<rparr>"
  obtain a' evs where p: "pause (sample_env 1) [] ?a = Inr (a', evs)"
    by (simp add: pause_def policy_op_def has_admin_def require_policy_auth_def
      require_admin_auth_def get_admin_def sample_auth_def empty_auth_def sample_env_def
      require_auth_def get_policy_approval_def approver_conflicts_with_admin_def Let_def)
  have "pa_enabled (get_policy_approval EmergencyPause ?a)"
    by (simp add: get_policy_approval_def)
  from pause_needs_independent_approver [OF p this] show ?thesis
    using p by blast
qed

end
