(* ===== verification/Portfolio.thy ===== *)
theory Portfolio
  imports Score_Store Auth
begin

text \<open>
  Views over all pairs of a wallet: the decay-weighted aggregate score, the
  wallet-pair registry, pair weights, cluster assignment and the online correlation
  sums (\<^verbatim>\<open>lib.rs\<close> 4485--4498, 4712--4814, 4904--4964, 9225--9256, 11359--11419,
  11502--11582, 11743--11773 and their accessors in \<^verbatim>\<open>storage.rs\<close>).
\<close>

record AggregateRiskScore =
  ag_aggregate_score :: u32
  ag_pair_count :: u32
  ag_max_pair_score :: u32
  ag_max_pair :: symbol
  ag_benford_flag_count :: u32
  ag_ml_flag_count :: u32
  ag_last_updated :: u64
  ag_decay_lambda_applied :: bool

record WelfordCorrState =
  wf_n :: u32
  wf_sum_a :: int
  wf_sum_b :: int
  wf_sum_aa :: int
  wf_sum_bb :: int
  wf_sum_ab :: int

record portfolio =
  asset_pairs :: "address \<Rightarrow> symbol list option"
  pair_weight :: "symbol \<Rightarrow> u32 option"
  aggregate_score_cache :: "address \<Rightarrow> AggregateRiskScore option"
  decay_rate :: "(u64 \<times> u64) option"
  welford_corr_state :: "symbol \<times> symbol \<Rightarrow> WelfordCorrState option"
  cluster_boundaries :: "u32 list"
  wallet_cluster :: "address \<Rightarrow> u32 option"
  require_destructive_multisig :: "bool option"

definition DECAY_FIXED_POINT_SCALE :: u64 where "DECAY_FIXED_POINT_SCALE = 1000000"
definition MAX_DECAY_LAMBDA_NUM :: u64 where "MAX_DECAY_LAMBDA_NUM = 1"
definition MAX_DECAY_LAMBDA_DEN :: u64 where "MAX_DECAY_LAMBDA_DEN = 1"

definition empty_portfolio :: portfolio where
  "empty_portfolio = \<lparr>asset_pairs = (\<lambda>_. None), pair_weight = (\<lambda>_. None),
     aggregate_score_cache = (\<lambda>_. None), decay_rate = None, welford_corr_state = (\<lambda>_. None),
     cluster_boundaries = [], wallet_cluster = (\<lambda>_. None),
     require_destructive_multisig = None\<rparr>"

section \<open>Registry of pairs and weights\<close>

definition get_wallet_pairs :: "address \<Rightarrow> portfolio \<Rightarrow> symbol list" where
  "get_wallet_pairs w f = unwrap_or (asset_pairs f w) []"

definition register_pair_for_wallet :: "pair_key \<Rightarrow> portfolio \<Rightarrow> portfolio" where
  "register_pair_for_wallet k f =
     (let pairs = get_wallet_pairs (fst k) f in
      if snd k \<in> set pairs then f
      else f\<lparr>asset_pairs := (asset_pairs f)(fst k \<mapsto> pairs @ [snd k])\<rparr>)"

definition remove_pair_for_wallet :: "pair_key \<Rightarrow> portfolio \<Rightarrow> portfolio" where
  "remove_pair_for_wallet k f =
     (let pairs = get_wallet_pairs (fst k) f in
      if snd k \<notin> set pairs then f
      else (let pairs' = remove1 (snd k) pairs in
            f\<lparr>asset_pairs := (asset_pairs f)
                (fst k := if pairs' = [] then None else Some pairs')\<rparr>))"

definition get_pair_weight :: "symbol \<Rightarrow> portfolio \<Rightarrow> u32" where
  "get_pair_weight p f = unwrap_or (pair_weight f p) 1"

definition get_decay_rate :: "portfolio \<Rightarrow> u64 \<times> u64" where
  "get_decay_rate f = unwrap_or (decay_rate f) (0, 1)"

section \<open>Fixed-point decay\<close>

text \<open>For \<open>x < 5 * SCALE\<close> every power stays below \<open>2 ^ 127\<close>, so the \<^verbatim>\<open>checked_mul\<close>s on
  \<^verbatim>\<open>i128\<close> in the series never fall back to zero; the quotients are of non-negative
  numbers.\<close>

definition decay_series :: "int \<Rightarrow> int" where
  "decay_series x =
     (let s = 1000000 in
      s - x + x * x div (2 * s) - x * x * x div (6 * s * s) + x * x * x * x div (24 * s * s * s))"

definition decay_fixed :: "u64 \<Rightarrow> u64 \<Rightarrow> u64 \<Rightarrow> u64" where
  "decay_fixed age_secs lambda_num lambda_den =
     (if lambda_num = 0 then DECAY_FIXED_POINT_SCALE
      else
        (case Option.bind (checked_mul lambda_num age_secs) (\<lambda>v.
              Option.bind (checked_mul v DECAY_FIXED_POINT_SCALE) (\<lambda>v.
              if lambda_den = 0 then None else Some (v div lambda_den))) of
           None \<Rightarrow> 0
         | Some x_scaled \<Rightarrow>
             if 5 * DECAY_FIXED_POINT_SCALE \<le> x_scaled then 0
             else
               (let result = decay_series (uint x_scaled) in
                if result < 0 then 0
                else if 1000000 < result then DECAY_FIXED_POINT_SCALE
                else of_int result)))"

section \<open>Aggregate score\<close>

record agg_acc =
  ac_weighted_sum :: u64
  ac_weight_sum :: u64
  ac_max_pair_score :: u32
  ac_max_pair :: symbol
  ac_benford :: u32
  ac_ml :: u32
  ac_last_updated :: u64

definition agg_step ::
    "env \<Rightarrow> portfolio \<Rightarrow> bool \<Rightarrow> symbol \<Rightarrow> RiskScore \<Rightarrow> agg_acc \<Rightarrow> agg_acc res" where
  "agg_step e f is_first pair component acc =
     (let (num, den) = get_decay_rate f;
          acc1 = (if is_first \<or> ac_max_pair_score acc < rs_score component
                  then acc\<lparr>ac_max_pair_score := rs_score component, ac_max_pair := pair\<rparr> else acc);
          acc2 = acc1\<lparr>ac_benford := ac_benford acc1 + (if rs_benford_flag component then 1 else 0),
                      ac_ml := ac_ml acc1 + (if rs_ml_flag component then 1 else 0),
                      ac_last_updated := max (ac_last_updated acc1) (rs_timestamp component)\<rparr>;
          age_secs = saturating_sub (ledger_timestamp e) (rs_timestamp component);
          decay_factor = decay_fixed age_secs num den;
          weight = get_pair_weight pair f in
      case checked_mul (ucast weight :: u64) decay_factor of
        None \<Rightarrow> Inl (Err ArithmeticOverflow)
      | Some scaled \<Rightarrow>
          (let decayed_weight = scaled div DECAY_FIXED_POINT_SCALE in
           case checked_mul (ucast decayed_weight :: u32) (rs_score component) of
             None \<Rightarrow> Inl (Err ArithmeticOverflow)
           | Some product \<Rightarrow>
               (case checked_add (ac_weighted_sum acc2) (ucast product) of
                  None \<Rightarrow> Inl (Err ArithmeticOverflow)
                | Some ws \<Rightarrow>
                    (case checked_add (ac_weight_sum acc2) decayed_weight of
                       None \<Rightarrow> Inl (Err ArithmeticOverflow)
                     | Some wt \<Rightarrow> Inr (acc2\<lparr>ac_weighted_sum := ws, ac_weight_sum := wt\<rparr>)))))"

fun agg_loop ::
    "env \<Rightarrow> score_store \<Rightarrow> portfolio \<Rightarrow> address \<Rightarrow> bool \<Rightarrow> symbol list \<Rightarrow> agg_acc \<Rightarrow> agg_acc res" where
  "agg_loop e s f w is_first [] acc = Inr acc"
| "agg_loop e s f w is_first (pair # pairs) acc =
     (case scores s (w, pair) of
        None \<Rightarrow> Inl (Err ScoreNotFound)
      | Some component \<Rightarrow>
          bind_res (agg_step e f is_first pair component acc)
            (agg_loop e s f w False pairs))"

definition compute_aggregate_score ::
    "env \<Rightarrow> score_store \<Rightarrow> portfolio \<Rightarrow> address \<Rightarrow> AggregateRiskScore res" where
  "compute_aggregate_score e s f w =
     (let pairs = get_wallet_pairs w f in
      if pairs = [] then Inl (Err ScoreNotFound)
      else
        bind_res (agg_loop e s f w True pairs
            \<lparr>ac_weighted_sum = 0, ac_weight_sum = 0, ac_max_pair_score = 0, ac_max_pair = hd pairs,
             ac_benford = 0, ac_ml = 0, ac_last_updated = 0\<rparr>) (\<lambda>acc.
          if ac_weight_sum acc = 0 then Inl (Err ScoreNotFound)
          else Inr \<lparr>ag_aggregate_score = ucast (ac_weighted_sum acc div ac_weight_sum acc),
                    ag_pair_count = of_nat (length pairs),
                    ag_max_pair_score = ac_max_pair_score acc, ag_max_pair = ac_max_pair acc,
                    ag_benford_flag_count = ac_benford acc, ag_ml_flag_count = ac_ml acc,
                    ag_last_updated = ac_last_updated acc,
                    ag_decay_lambda_applied = (fst (get_decay_rate f) \<noteq> 0)\<rparr>))"

definition refresh_aggregate_cache ::
    "env \<Rightarrow> score_store \<Rightarrow> address \<Rightarrow> portfolio \<Rightarrow> portfolio" where
  "refresh_aggregate_cache e s w f =
     (case compute_aggregate_score e s f w of
        Inr aggregate \<Rightarrow>
          f\<lparr>aggregate_score_cache := (aggregate_score_cache f)(w \<mapsto> aggregate)\<rparr>
      | Inl _ \<Rightarrow> f)"

fun first_bucket :: "nat \<Rightarrow> u32 list \<Rightarrow> u32 \<Rightarrow> nat" where
  "first_bucket i [] agg = i"
| "first_bucket i (b # bs) agg = (if agg \<le> b then i else first_bucket (Suc i) bs agg)"

definition assign_wallet_cluster ::
    "env \<Rightarrow> score_store \<Rightarrow> address \<Rightarrow> portfolio \<Rightarrow> portfolio \<times> event list" where
  "assign_wallet_cluster e s w f =
     (if cluster_boundaries f = [] then (f, [])
      else case compute_aggregate_score e s f w of
        Inl _ \<Rightarrow> (f, [])
      | Inr a \<Rightarrow>
          (let cluster = of_nat (first_bucket 0 (cluster_boundaries f) (ag_aggregate_score a)) in
           if wallet_cluster f w \<noteq> Some cluster
           then (f\<lparr>wallet_cluster := (wallet_cluster f)(w \<mapsto> cluster)\<rparr>,
                 [Event ''wallet_cluster_assigned'' [VAddr w, VU32 cluster]])
           else (f, [])))"

section \<open>Online correlation sums\<close>

definition saturating_add_i64 :: "int \<Rightarrow> int \<Rightarrow> int" where
  "saturating_add_i64 a b = max (- (2 ^ 63)) (min (2 ^ 63 - 1) (a + b))"

definition welford_update ::
    "score_store \<Rightarrow> pair_key \<Rightarrow> u32 \<Rightarrow> symbol \<Rightarrow> portfolio \<Rightarrow> portfolio" where
  "welford_update s k score_a other f =
     (if other = snd k then f
      else case scores s (fst k, other) of
        None \<Rightarrow> f
      | Some other_risk \<Rightarrow>
          (let st = unwrap_or (welford_corr_state f (snd k, other))
                 \<lparr>wf_n = 0, wf_sum_a = 0, wf_sum_b = 0, wf_sum_aa = 0, wf_sum_bb = 0, wf_sum_ab = 0\<rparr>;
               a = uint score_a; b = uint (rs_score other_risk) in
           f\<lparr>welford_corr_state := (welford_corr_state f)((snd k, other) \<mapsto>
              \<lparr>wf_n = saturating_add (wf_n st) 1,
               wf_sum_a = saturating_add_i64 (wf_sum_a st) a,
               wf_sum_b = saturating_add_i64 (wf_sum_b st) b,
               wf_sum_aa = saturating_add_i64 (wf_sum_aa st) (a * a),
               wf_sum_bb = saturating_add_i64 (wf_sum_bb st) (b * b),
               wf_sum_ab = saturating_add_i64 (wf_sum_ab st) (a * b)\<rparr>)\<rparr>))"

definition update_welford_correlation ::
    "score_store \<Rightarrow> pair_key \<Rightarrow> u32 \<Rightarrow> portfolio \<Rightarrow> portfolio" where
  "update_welford_correlation s k score_a f =
     fold (welford_update s k score_a) (get_wallet_pairs (fst k) f) f"

section \<open>Administration\<close>

definition set_decay_rate :: "env \<Rightarrow> auth_state \<Rightarrow> u64 \<Rightarrow> u64 \<Rightarrow> portfolio \<Rightarrow> portfolio op" where
  "set_decay_rate e a numerator denominator f =
     (if \<not> has_admin a then Inl (Err NotInitialized)
      else if unwrap_or (paused a) False then Inl (Err ContractPaused)
      else if denominator = 0 then Inl (Err InvalidDecayRate)
      else if (case checked_mul numerator MAX_DECAY_LAMBDA_DEN of
                 Some v \<Rightarrow> v > saturating_mul MAX_DECAY_LAMBDA_NUM denominator | None \<Rightarrow> True)
      then Inl (Err InvalidDecayRate)
      else stored_admin_guard e a
        (Inr (f\<lparr>decay_rate := Some (numerator, denominator)\<rparr>,
              [Event ''decay_rate_updated'' [VU64 numerator, VU64 denominator]])))"

definition store_pair_weight :: "symbol \<Rightarrow> u32 \<Rightarrow> portfolio \<Rightarrow> portfolio" where
  "store_pair_weight p weight f = f\<lparr>pair_weight := (pair_weight f)(p \<mapsto> weight)\<rparr>"

definition reset_pair_correlation :: "env \<Rightarrow> auth_state \<Rightarrow> symbol \<Rightarrow> symbol \<Rightarrow> portfolio \<Rightarrow> portfolio op" where
  "reset_pair_correlation e a pair_a pair_b f =
     stored_admin_guard e a (Inr (f\<lparr>welford_corr_state := (welford_corr_state f)((pair_a, pair_b) := None)\<rparr>, []))"

definition set_pair_weight ::
    "env \<Rightarrow> auth_state \<Rightarrow> address list \<Rightarrow> symbol \<Rightarrow> u32 \<Rightarrow> portfolio \<Rightarrow> portfolio op" where
  "set_pair_weight e a signers p weight f =
     admin_guard e signers a
       (Inr (store_pair_weight p weight f, [Event ''pair_weight_updated'' [VSym p, VU32 weight]]))"

definition set_pair_weight_batch ::
    "env \<Rightarrow> auth_state \<Rightarrow> address list \<Rightarrow> (symbol \<times> u32) list \<Rightarrow> portfolio \<Rightarrow> portfolio op" where
  "set_pair_weight_batch e a signers entries f =
     (if \<not> has_admin a then Inl (Err NotInitialized)
      else if entries = [] then Inl (Err EmptyBatch)
      else if MAX_BATCH_SIZE < length entries then Inl (Err BatchTooLarge)
      else admin_guard e signers a
        (Inr (fold (\<lambda>(p, weight). store_pair_weight p weight) entries f,
              map (\<lambda>(p, weight). Event ''pair_weight_updated'' [VSym p, VU32 weight]) entries)))"

fun reset_weights :: "symbol list \<Rightarrow> portfolio \<Rightarrow> portfolio \<times> event list" where
  "reset_weights [] f = (f, [])"
| "reset_weights (p # ps) f =
     (if pair_weight f p = None then reset_weights ps f
      else (let (f', evs) = reset_weights ps (f\<lparr>pair_weight := (pair_weight f)(p := None)\<rparr>) in
            (f', Event ''pair_weight_reset'' [VSym p] # evs)))"

definition bulk_reset_pair_weight ::
    "env \<Rightarrow> auth_state \<Rightarrow> address list \<Rightarrow> symbol list \<Rightarrow> portfolio \<Rightarrow> portfolio op" where
  "bulk_reset_pair_weight e a signers pairs f =
     admin_guard e signers a
       (if unwrap_or (require_destructive_multisig f) False \<and> length signers < 2
        then Inl (Err InsufficientAdminSigners)
        else Inr (reset_weights pairs f))"

definition set_destructive_multisig ::
    "env \<Rightarrow> auth_state \<Rightarrow> address list \<Rightarrow> bool \<Rightarrow> portfolio \<Rightarrow> portfolio op" where
  "set_destructive_multisig e a signers required f =
     admin_guard e signers a (Inr (f\<lparr>require_destructive_multisig := Some required\<rparr>, []))"

fun boundaries_ok :: "u32 \<Rightarrow> u32 list \<Rightarrow> bool" where
  "boundaries_ok prev [] = True"
| "boundaries_ok prev (b # bs) =
     (if b = 0 \<or> 100 < b \<or> b \<le> prev then False else boundaries_ok b bs)"

definition set_cluster_boundaries ::
    "env \<Rightarrow> auth_state \<Rightarrow> address list \<Rightarrow> u32 list \<Rightarrow> portfolio \<Rightarrow> portfolio op" where
  "set_cluster_boundaries e a signers boundaries f =
     (if \<not> has_admin a then Inl (Err NotInitialized)
      else if boundaries = [] then Inl (Err InvalidThreshold)
      else if \<not> boundaries_ok 0 boundaries then Inl (Err InvalidThreshold)
      else admin_guard e signers a
        (Inr (f\<lparr>cluster_boundaries := boundaries\<rparr>, [Event ''cluster_boundaries_updated'' []])))"

section \<open>Decay\<close>

lemma decay_fixed_le_scale: "decay_fixed age num den \<le> DECAY_FIXED_POINT_SCALE"
proof -
  have "of_int r \<le> DECAY_FIXED_POINT_SCALE" if "0 \<le> r" "r \<le> 1000000" for r :: int
    using that by (simp add: DECAY_FIXED_POINT_SCALE_def word_le_def unsigned_of_int take_bit_int_eq_self)
  then show ?thesis
    by (auto simp: decay_fixed_def Let_def DECAY_FIXED_POINT_SCALE_def split: option.splits)
qed

lemma decay_fixed_fresh: "0 < den \<Longrightarrow> decay_fixed 0 num den = DECAY_FIXED_POINT_SCALE"
  by (auto simp: decay_fixed_def Let_def decay_series_def DECAY_FIXED_POINT_SCALE_def
      checked_mul_def)

section \<open>The aggregate is a weighted mean\<close>

lemma decayed_weight_fits:
  fixes weight :: u32
  assumes "checked_mul (ucast weight :: u64) factor = Some scaled" "factor \<le> DECAY_FIXED_POINT_SCALE"
  shows "unat (ucast (scaled div DECAY_FIXED_POINT_SCALE) :: u32)
       = unat (scaled div DECAY_FIXED_POINT_SCALE)"
proof (rule unat_ucast_fits)
  have "unat scaled \<le> unat weight * 1000000"
    using assms by (simp add: unat_ops unat_ucast_up word_le_nat_alt DECAY_FIXED_POINT_SCALE_def)
  then have "unat scaled div 1000000 \<le> unat weight"
    by linarith
  then show "unat (scaled div DECAY_FIXED_POINT_SCALE) < 2 ^ LENGTH(32)"
    using unsigned_less [of weight, where 'a = nat] by (simp add: unat_div DECAY_FIXED_POINT_SCALE_def)
qed

lemma agg_step_sums:
  assumes "agg_step e f is_first p r acc = Inr acc'"
  shows "\<exists>dw. unat (ac_weighted_sum acc') = unat (ac_weighted_sum acc) + dw * unat (rs_score r) \<and>
              unat (ac_weight_sum acc') = unat (ac_weight_sum acc) + dw"
proof -
  define factor where "factor = decay_fixed (saturating_sub (ledger_timestamp e) (rs_timestamp r))
    (fst (get_decay_rate f)) (snd (get_decay_rate f))"
  obtain scaled product ws wt where
    steps: "checked_mul (ucast (get_pair_weight p f) :: u64) factor = Some scaled"
      "checked_mul (ucast (scaled div DECAY_FIXED_POINT_SCALE) :: u32) (rs_score r) = Some product"
      "checked_add (ac_weighted_sum acc) (ucast product) = Some ws"
      "checked_add (ac_weight_sum acc) (scaled div DECAY_FIXED_POINT_SCALE) = Some wt"
    and res: "ac_weighted_sum acc' = ws" "ac_weight_sum acc' = wt"
    using assms
    by (auto simp: agg_step_def factor_def Let_def case_prod_unfold split: option.splits if_splits)
  have "unat (ucast (scaled div DECAY_FIXED_POINT_SCALE) :: u32)
      = unat (scaled div DECAY_FIXED_POINT_SCALE)"
    using steps(1) by (rule decayed_weight_fits) (simp add: factor_def decay_fixed_le_scale)
  then show ?thesis
    using steps(2-) res
    by (intro exI [of _ "unat (scaled div DECAY_FIXED_POINT_SCALE)"])
       (simp add: unat_ops unat_ucast_up)
qed

lemma agg_step_max:
  assumes "agg_step e f is_first p r acc = Inr acc'"
  shows "ac_max_pair_score acc' = (if is_first then rs_score r else max (ac_max_pair_score acc) (rs_score r))"
    and "ac_max_pair acc' = (if is_first \<or> ac_max_pair_score acc < rs_score r then p else ac_max_pair acc)"
    and "ac_last_updated acc' = max (ac_last_updated acc) (rs_timestamp r)"
  using assms
  by (auto simp: agg_step_def Let_def case_prod_unfold max_def split: option.splits if_splits)


text \<open>What the loop has seen: the sums of the components of \<open>ps\<close> with some weights, and the
  largest of them.\<close>

definition seen_components :: "score_store \<Rightarrow> address \<Rightarrow> symbol list \<Rightarrow> agg_acc \<Rightarrow> bool" where
  "seen_components s w ps acc \<longleftrightarrow>
     (\<forall>p\<in>set ps. \<exists>r. scores s (w, p) = Some r \<and> rs_score r \<le> ac_max_pair_score acc \<and>
        rs_timestamp r \<le> ac_last_updated acc) \<and>
     (ps \<noteq> [] \<longrightarrow> ac_max_pair acc \<in> set ps \<and>
        (\<exists>r. scores s (w, ac_max_pair acc) = Some r \<and> rs_score r = ac_max_pair_score acc)) \<and>
     unat (ac_weighted_sum acc) \<le> unat (ac_max_pair_score acc) * unat (ac_weight_sum acc)"

definition above_floor :: "nat \<Rightarrow> agg_acc \<Rightarrow> bool" where
  "above_floor lo acc \<longleftrightarrow> lo * unat (ac_weight_sum acc) \<le> unat (ac_weighted_sum acc)"

lemma weighted_sum_le:
  fixes m m' w w' dw sc :: nat
  assumes "w \<le> m * wt" "m \<le> m'" "sc \<le> m'" "w' = w + dw * sc" "wt' = wt + dw"
  shows "w' \<le> m' * wt'"
proof -
  have "w \<le> m' * wt" "dw * sc \<le> dw * m'"
    using assms le_trans mult_le_mono1 by (blast, simp)
  then have "w + dw * sc \<le> m' * wt + dw * m'"
    by (rule add_mono)
  then show ?thesis
    by (simp only: assms distrib_left mult.commute [of m' dw])
qed

lemma agg_step_seen:
  assumes "agg_step e f (ps = []) p r acc = Inr acc'" "scores s (w, p) = Some r"
    "seen_components s w ps acc" "ps = [] \<Longrightarrow> ac_max_pair_score acc = 0"
  shows "seen_components s w (ps @ [p]) acc'"
proof -
  note mx = agg_step_max [OF assms(1)]
  obtain dw where dw: "unat (ac_weighted_sum acc') = unat (ac_weighted_sum acc) + dw * unat (rs_score r)"
      "unat (ac_weight_sum acc') = unat (ac_weight_sum acc) + dw"
    using agg_step_sums [OF assms(1)] by blast
  have grow: "ac_max_pair_score acc \<le> ac_max_pair_score acc'" "rs_score r \<le> ac_max_pair_score acc'"
    using mx(1) assms(4) by (auto simp: max_def split: if_splits)
  have time: "ac_last_updated acc \<le> ac_last_updated acc'" "rs_timestamp r \<le> ac_last_updated acc'"
    by (auto simp: mx(3))
  have all: "\<forall>q\<in>set (ps @ [p]). \<exists>c. scores s (w, q) = Some c \<and> rs_score c \<le> ac_max_pair_score acc' \<and>
      rs_timestamp c \<le> ac_last_updated acc'"
    using assms(2,3) grow time unfolding seen_components_def by (force intro: order_trans)
  have best: "ac_max_pair acc' \<in> set (ps @ [p]) \<and>
      (\<exists>c. scores s (w, ac_max_pair acc') = Some c \<and> rs_score c = ac_max_pair_score acc')"
    using assms(2,3) mx(1,2) by (auto simp: seen_components_def max_def split: if_splits)
  have "unat (ac_weighted_sum acc') \<le> unat (ac_max_pair_score acc') * unat (ac_weight_sum acc')"
    using assms(3) grow
    by (intro weighted_sum_le [OF _ _ _ dw]) (auto simp: seen_components_def word_le_nat_alt)
  then show ?thesis
    using all best by (simp add: seen_components_def)
qed

lemma agg_loop_seen:
  assumes "agg_loop e s f w (qs = []) ps acc = Inr acc'" "seen_components s w qs acc"
    "qs = [] \<Longrightarrow> ac_max_pair_score acc = 0"
  shows "seen_components s w (qs @ ps) acc'"
  using assms
proof (induction ps arbitrary: qs acc)
  case (Cons p ps)
  then obtain r acc1 where
    "scores s (w, p) = Some r" "agg_step e f (qs = []) p r acc = Inr acc1"
    "agg_loop e s f w (qs @ [p] = []) ps acc1 = Inr acc'"
    by (auto simp: bind_res_Inr_iff split: option.splits)
  then show ?case
    using Cons.IH [of "qs @ [p]" acc1] agg_step_seen Cons.prems by simp
qed simp

lemma agg_loop_floor:
  assumes "agg_loop e s f w b ps acc = Inr acc'" "above_floor lo acc"
    "\<forall>p\<in>set ps. \<forall>r. scores s (w, p) = Some r \<longrightarrow> lo \<le> unat (rs_score r)"
  shows "above_floor lo acc'"
  using assms
proof (induction ps arbitrary: b acc)
  case (Cons p ps)
  then obtain r acc1 where r: "scores s (w, p) = Some r"
    and step: "agg_step e f b p r acc = Inr acc1" and rest: "agg_loop e s f w False ps acc1 = Inr acc'"
    by (auto simp: bind_res_Inr_iff split: option.splits)
  obtain dw where "unat (ac_weighted_sum acc1) = unat (ac_weighted_sum acc) + dw * unat (rs_score r)"
      "unat (ac_weight_sum acc1) = unat (ac_weight_sum acc) + dw"
    using agg_step_sums [OF step] by blast
  moreover have "lo * dw \<le> dw * unat (rs_score r)"
    using Cons.prems(3) r by simp
  then have "lo * unat (ac_weight_sum acc) + lo * dw \<le> unat (ac_weighted_sum acc) + dw * unat (rs_score r)"
    using Cons.prems(2) unfolding above_floor_def by (rule add_mono [rotated])
  ultimately have "above_floor lo acc1"
    by (simp add: above_floor_def distrib_left)
  then show ?case
    using Cons.IH [OF rest] Cons.prems(3) by simp
qed simp


lemma compute_aggregate_loop:
  assumes "compute_aggregate_score e s f w = Inr a"
  obtains acc where "get_wallet_pairs w f \<noteq> []" "seen_components s w (get_wallet_pairs w f) acc"
    "\<And>lo. \<forall>p\<in>set (get_wallet_pairs w f). \<forall>r. scores s (w, p) = Some r \<longrightarrow> lo \<le> unat (rs_score r)
      \<Longrightarrow> above_floor lo acc"
    "ac_weight_sum acc \<noteq> 0"
    "ag_aggregate_score a = ucast (ac_weighted_sum acc div ac_weight_sum acc)"
    "ag_max_pair_score a = ac_max_pair_score acc" "ag_max_pair a = ac_max_pair acc"
    "ag_last_updated a = ac_last_updated acc"
proof -
  let ?init = "\<lparr>ac_weighted_sum = 0, ac_weight_sum = 0, ac_max_pair_score = 0,
    ac_max_pair = hd (get_wallet_pairs w f), ac_benford = 0, ac_ml = 0, ac_last_updated = 0\<rparr>"
  obtain acc where ne: "get_wallet_pairs w f \<noteq> []"
    and loop: "agg_loop e s f w True (get_wallet_pairs w f) ?init = Inr acc"
    and fields: "ac_weight_sum acc \<noteq> 0"
      "ag_aggregate_score a = ucast (ac_weighted_sum acc div ac_weight_sum acc)"
      "ag_max_pair_score a = ac_max_pair_score acc" "ag_max_pair a = ac_max_pair acc"
      "ag_last_updated a = ac_last_updated acc"
    using assms
    by (auto simp: compute_aggregate_score_def Let_def bind_res_Inr_iff split: if_splits)
  have "seen_components s w ([] @ get_wallet_pairs w f) acc"
    by (rule agg_loop_seen [of e s f w "[]" _ ?init]) (simp_all add: loop seen_components_def)
  moreover have "above_floor lo acc"
    if "\<forall>p\<in>set (get_wallet_pairs w f). \<forall>r. scores s (w, p) = Some r \<longrightarrow> lo \<le> unat (rs_score r)" for lo
    using agg_loop_floor [OF loop _ that] by (simp add: above_floor_def)
  ultimately show thesis
    using that [of acc] ne fields by simp
qed

lemma weighted_mean_bounds:
  fixes ws wt :: u64 and m :: u32
  assumes "wt \<noteq> 0" "unat ws \<le> unat m * unat wt" "lo * unat wt \<le> unat ws"
  shows "unat (ucast (ws div wt) :: u32) = unat ws div unat wt"
    and "(ucast (ws div wt) :: u32) \<le> m" and "lo \<le> unat (ucast (ws div wt) :: u32)"
proof -
  have pos: "0 < unat wt"
    using assms(1) by (simp add: unat_gt_0)
  have le: "unat ws div unat wt \<le> unat m"
    using div_le_mono [OF assms(2), of "unat wt"] pos by simp
  then show eq: "unat (ucast (ws div wt) :: u32) = unat ws div unat wt"
    using unsigned_less [of m, where 'a = nat] by (subst unat_ucast_fits) (simp_all add: unat_div)
  show "(ucast (ws div wt) :: u32) \<le> m"
    using le by (simp add: word_le_nat_alt eq)
  show "lo \<le> unat (ucast (ws div wt) :: u32)"
    using assms(3) pos by (simp add: eq less_eq_div_iff_mult_less_eq)
qed

text \<open>
  C13: When the aggregate of a wallet can be computed, every registered pair has a stored
  score, the reported maximum is the score of the reported pair and no pair's score
  exceeds it, no pair is newer than the reported update time, and the aggregate lies
  between the smallest and the largest component score.
\<close>

theorem aggregate_between_components:
  assumes "compute_aggregate_score e s f w = Inr a"
    and "\<forall>p\<in>set (get_wallet_pairs w f). \<forall>r. scores s (w, p) = Some r \<longrightarrow> lo \<le> rs_score r"
  shows "ag_max_pair a \<in> set (get_wallet_pairs w f) \<and>
    map_option rs_score (scores s (w, ag_max_pair a)) = Some (ag_max_pair_score a) \<and>
    (\<forall>p\<in>set (get_wallet_pairs w f). \<exists>r. scores s (w, p) = Some r \<and>
       rs_score r \<le> ag_max_pair_score a \<and> rs_timestamp r \<le> ag_last_updated a) \<and>
    lo \<le> ag_aggregate_score a \<and> ag_aggregate_score a \<le> ag_max_pair_score a"
proof -
  obtain acc where ne: "get_wallet_pairs w f \<noteq> []"
    and seen: "seen_components s w (get_wallet_pairs w f) acc"
    and floor: "above_floor (unat lo) acc" and wt: "ac_weight_sum acc \<noteq> 0"
    and fields: "ag_aggregate_score a = ucast (ac_weighted_sum acc div ac_weight_sum acc)"
    "ag_max_pair_score a = ac_max_pair_score acc" "ag_max_pair a = ac_max_pair acc"
    "ag_last_updated a = ac_last_updated acc"
    using compute_aggregate_loop [OF assms(1)] assms(2) by (metis word_le_nat_alt)
  have "lo \<le> ag_aggregate_score a \<and> ag_aggregate_score a \<le> ag_max_pair_score a"
    using weighted_mean_bounds [OF wt, of _ "ac_max_pair_score acc" "unat lo"] seen floor
    by (simp add: fields seen_components_def above_floor_def word_le_nat_alt)
  then show ?thesis
    using seen ne by (auto simp: seen_components_def fields)
qed


section \<open>What the series does beyond three time constants\<close>

lemma decay_series_above_scale:
  assumes "3000000 \<le> x"
  shows "1000000 < decay_series x"
proof -
  define S :: int where "S = 1000000"
  define y where "y = x - 3 * S"
  have S: "0 < S" and y: "0 \<le> y" and x: "x = 3 * S + y"
    using assms by (simp_all add: S_def y_def)
  let ?A = "x * x div (2 * S)" and ?B = "x * x * x div (6 * S * S)"
    and ?C = "x * x * x * x div (24 * S * S * S)"
  have A: "x * x < ?A * (2 * S) + 2 * S" and B: "?B * (6 * S * S) \<le> x * x * x"
    and C: "x * x * x * x < ?C * (24 * S * S * S) + 24 * S * S * S"
    using S by (simp_all add: S_def)
  have "x * x * x * x - 4 * S * (x * x * x) + 12 * S * S * (x * x) - 24 * S * S * S * x
      = 9 * S ^ 4 + 48 * S ^ 3 * y + 30 * S ^ 2 * y ^ 2 + 8 * S * y ^ 3 + y ^ 4"
    by (simp add: x power2_eq_square power3_eq_cube power4_eq_xxxx algebra_simps)
  then have "9 * S ^ 4 \<le> x * x * x * x - 4 * S * (x * x * x) + 12 * S * S * (x * x) - 24 * S * S * S * x"
    using S y by simp
  moreover have "48 * (S * S * S) < 9 * S ^ 4"
    by (simp add: S_def)
  moreover have "12 * S * S * (x * x) < 12 * S * S * (?A * (2 * S) + 2 * S)"
    by (rule mult_strict_left_mono [OF A]) (simp add: S)
  moreover have "4 * S * (?B * (6 * S * S)) \<le> 4 * S * (x * x * x)"
    by (rule mult_left_mono [OF B]) (simp add: S order_less_imp_le)
  ultimately have "24 * S * S * S * x < 24 * S * S * S * (?A - ?B + ?C)"
    using C by (simp add: algebra_simps)
  then have "x < ?A - ?B + ?C"
    using S by simp
  then show ?thesis
    by (simp add: decay_series_def S_def Let_def)
qed

text \<open>
  The decay factor never exceeds one (\<open>DECAY_FIXED_POINT_SCALE\<close>), but it is not decreasing in
  age: with the rate \<open>1 / den\<close> every score whose age is between three and five times \<open>den\<close>
  gets the factor one again, the factor of a fresh score, because the truncated series
  grows beyond one there and is clamped.
\<close>

theorem decay_fixed_full_weight_again:
  assumes "3 * unat den \<le> unat age" "unat age < 5 * unat den" "unat age * 1000000 < 2 ^ 64"
  shows "decay_fixed age 1 den = DECAY_FIXED_POINT_SCALE \<and>
    (\<forall>age' num den'. decay_fixed age' num den' \<le> DECAY_FIXED_POINT_SCALE)"
proof -
  have den: "0 < unat den"
    using assms by simp
  have mul: "checked_mul age DECAY_FIXED_POINT_SCALE = Some (age * DECAY_FIXED_POINT_SCALE)"
    and age: "unat (age * DECAY_FIXED_POINT_SCALE) = unat age * 1000000"
    using assms(3) by (simp_all add: unat_ops unat_word_ariths DECAY_FIXED_POINT_SCALE_def)
  let ?x = "age * DECAY_FIXED_POINT_SCALE div den"
  have x: "unat ?x = unat age * 1000000 div unat den"
    by (simp add: unat_div age)
  have lo: "3000000 \<le> unat ?x"
    using assms(1) den by (simp add: x less_eq_div_iff_mult_less_eq)
  have hi: "unat ?x < 5000000"
    using assms(2) den by (simp add: x div_less_iff_less_mult)
  have "1000000 < decay_series (uint ?x)"
    using lo [THEN zle_int [THEN iffD2]] by (intro decay_series_above_scale) simp
  moreover have "\<not> 5 * DECAY_FIXED_POINT_SCALE \<le> ?x"
    using hi by (simp add: word_le_nat_alt DECAY_FIXED_POINT_SCALE_def)
  moreover have "checked_mul 1 age = Some age" "den \<noteq> 0"
    using den by (auto simp: unat_ops)
  ultimately have "decay_fixed age 1 den = DECAY_FIXED_POINT_SCALE"
    by (simp add: decay_fixed_def mul Let_def)
  then show ?thesis
    by (simp add: decay_fixed_le_scale)
qed


theorem decay_fixed_full_weight_again_witness:
  "decay_fixed 259200 1 86400 = DECAY_FIXED_POINT_SCALE \<and> decay_fixed 86400 1 86400 = 375000"
  using decay_fixed_full_weight_again [of 86400 259200]
  by (simp add: decay_fixed_def decay_series_def checked_mul_def DECAY_FIXED_POINT_SCALE_def)

definition sample_portfolio :: portfolio where
  "sample_portfolio = empty_portfolio\<lparr>asset_pairs := [Addr 1 \<mapsto> [''XLM'', ''BTC'']],
     pair_weight := [''BTC'' \<mapsto> 3]\<rparr>"

definition sample_pair_store :: score_store where
  "sample_pair_store = empty_score_store\<lparr>scores :=
     [(Addr 1, ''XLM'') \<mapsto> sample_score, (Addr 1, ''BTC'') \<mapsto> sample_score\<lparr>rs_score := 80\<rparr>]\<rparr>"

lemma sample_aggregate:
  "compute_aggregate_score (sample_env 1) sample_pair_store sample_portfolio (Addr 1) =
   Inr \<lparr>ag_aggregate_score = 70, ag_pair_count = 2, ag_max_pair_score = 80, ag_max_pair = ''BTC'',
     ag_benford_flag_count = 0, ag_ml_flag_count = 0, ag_last_updated = 900,
     ag_decay_lambda_applied = False\<rparr>"
  by (simp add: compute_aggregate_score_def agg_step_def get_wallet_pairs_def get_decay_rate_def
      get_pair_weight_def decay_fixed_def sample_portfolio_def sample_pair_store_def
      empty_portfolio_def sample_score_def sample_env_def checked_mul_def checked_add_def
      DECAY_FIXED_POINT_SCALE_def)

theorem aggregate_between_components_witness:
  "\<exists>a. compute_aggregate_score (sample_env 1) sample_pair_store sample_portfolio (Addr 1) = Inr a \<and>
     40 \<le> ag_aggregate_score a \<and> ag_aggregate_score a \<le> ag_max_pair_score a \<and>
     ag_aggregate_score a = 70"
  using aggregate_between_components [OF sample_aggregate, of 40] sample_aggregate
  by (simp add: sample_pair_store_def sample_score_def)

end
