(* ===== verification/Embargo.thy ===== *)
theory Embargo
  imports Auth
begin

text \<open>
  Score embargoes: the per-wallet record with its expiry, the capped index of
  embargoed wallets and the counter of active embargoes (\<^verbatim>\<open>lib.rs\<close> 8605--8775 and
  \<^verbatim>\<open>storage.rs\<close> 1766--1923).  The ledger's own expiry of temporary entries is not
  modelled.
\<close>

datatype EmbargoExpiry = Indefinite | Until u64

record embargo_state =
  score_embargo :: "address \<Rightarrow> EmbargoExpiry option"
  embargoed_wallet_index :: "address list"
  active_embargo_count :: "u32 option"

definition MAX_EMBARGOED_WALLETS :: nat where "MAX_EMBARGOED_WALLETS = 100"

definition empty_embargoes :: embargo_state where
  "empty_embargoes = \<lparr>score_embargo = (\<lambda>_. None), embargoed_wallet_index = [],
     active_embargo_count = None\<rparr>"

section \<open>Storage\<close>

definition set_embargo :: "address \<Rightarrow> EmbargoExpiry \<Rightarrow> embargo_state \<Rightarrow> embargo_state" where
  "set_embargo w expiry m = m\<lparr>score_embargo := (score_embargo m)(w \<mapsto> expiry)\<rparr>"

definition remove_embargo :: "address \<Rightarrow> embargo_state \<Rightarrow> embargo_state" where
  "remove_embargo w m = m\<lparr>score_embargo := (score_embargo m)(w := None)\<rparr>"

text \<open>\<^verbatim>\<open>is_embargoed\<close> and \<^verbatim>\<open>peek_is_embargoed\<close> return the same value; the former also extends
  the entry's time to live.\<close>

definition is_embargoed :: "env \<Rightarrow> address \<Rightarrow> embargo_state \<Rightarrow> bool" where
  "is_embargoed e w m =
     (case score_embargo m w of
        None \<Rightarrow> False
      | Some Indefinite \<Rightarrow> True
      | Some (Until ts) \<Rightarrow> ledger_timestamp e \<le> ts)"

definition get_embargo_expiry :: "env \<Rightarrow> address \<Rightarrow> embargo_state \<Rightarrow> u64 option" where
  "get_embargo_expiry e w m =
     (case score_embargo m w of
        None \<Rightarrow> None
      | Some Indefinite \<Rightarrow> None
      | Some (Until ts) \<Rightarrow> if ledger_timestamp e \<le> ts then Some ts else None)"

definition add_to_embargoed_index :: "address \<Rightarrow> embargo_state \<Rightarrow> bool \<times> embargo_state" where
  "add_to_embargoed_index w m =
     (let wallets = embargoed_wallet_index m in
      if w \<in> set wallets then (True, m)
      else if MAX_EMBARGOED_WALLETS \<le> length wallets then (False, m)
      else (True, m\<lparr>embargoed_wallet_index := wallets @ [w]\<rparr>))"

definition remove_from_embargoed_index :: "address \<Rightarrow> embargo_state \<Rightarrow> embargo_state" where
  "remove_from_embargoed_index w m =
     (if w \<in> set (embargoed_wallet_index m)
      then m\<lparr>embargoed_wallet_index := remove1 w (embargoed_wallet_index m)\<rparr> else m)"

definition get_active_embargo_count :: "embargo_state \<Rightarrow> u32" where
  "get_active_embargo_count m = unwrap_or (active_embargo_count m) 0"

definition increment_active_embargo_count :: "embargo_state \<Rightarrow> embargo_state" where
  "increment_active_embargo_count m =
     m\<lparr>active_embargo_count := Some (saturating_add (get_active_embargo_count m) 1)\<rparr>"

definition decrement_active_embargo_count :: "embargo_state \<Rightarrow> embargo_state" where
  "decrement_active_embargo_count m =
     (let new_count = saturating_sub (get_active_embargo_count m) 1 in
      m\<lparr>active_embargo_count := if new_count = 0 then None else Some new_count\<rparr>)"

section \<open>Operations\<close>

definition set_score_embargo ::
    "env \<Rightarrow> auth_state \<Rightarrow> address \<Rightarrow> u64 option \<Rightarrow> embargo_state \<Rightarrow> embargo_state op" where
  "set_score_embargo e a w expiry m =
     stored_admin_guard e a
       (let is_new = (\<not> is_embargoed e w m);
            (indexed, m1) = (if is_new then add_to_embargoed_index w m else (True, m)) in
        if \<not> indexed then Inl (Err EmbargoedWalletIndexFull)
        else
          (let m2 = set_embargo w (case expiry of None \<Rightarrow> Indefinite | Some ts \<Rightarrow> Until ts) m1;
               m3 = (if is_new then increment_active_embargo_count m2 else m2) in
           Inr (m3, [Event ''embargo_set'' (VAddr w # (case expiry of None \<Rightarrow> [] | Some ts \<Rightarrow> [VU64 ts]))])))"

definition lift_score_embargo ::
    "env \<Rightarrow> auth_state \<Rightarrow> address \<Rightarrow> embargo_state \<Rightarrow> embargo_state op" where
  "lift_score_embargo e a w m =
     stored_admin_guard e a
       (bind_res (get_admin a) (\<lambda>adm.
         (let m1 = remove_from_embargoed_index w (remove_embargo w m);
              m2 = (if is_embargoed e w m then decrement_active_embargo_count m1 else m1) in
          Inr (m2, [Event ''embargo_lifted'' [VAddr w, VAddr adm]]))))"

fun lift_each ::
    "env \<Rightarrow> address list \<Rightarrow> address list \<Rightarrow> embargo_state \<Rightarrow> (embargo_state \<times> event list \<times> u32) res" where
  "lift_each e signers [] m = Inr (m, [], 0)"
| "lift_each e signers (w # ws) m =
     (if is_embargoed e w m then
        (case signers of
           [] \<Rightarrow> Inl Trap
         | caller # _ \<Rightarrow>
             bind_res (lift_each e signers ws
                 (decrement_active_embargo_count (remove_embargo w m))) (\<lambda>(m', evs, n).
               Inr (m', Event ''embargo_lifted'' [VAddr w, VAddr caller] # evs, n + 1)))
      else lift_each e signers ws m)"

definition batch_lift_score_embargo ::
    "env \<Rightarrow> auth_state \<Rightarrow> address list \<Rightarrow> address list \<Rightarrow> embargo_state
       \<Rightarrow> (embargo_state \<times> event list \<times> u32) res" where
  "batch_lift_score_embargo e a signers wallets m =
     admin_guard e signers a
       (if wallets = [] then Inl (Err EmptyBatch)
        else if MAX_BATCH_SIZE < length wallets then Inl (Err BatchTooLarge)
        else lift_each e signers wallets m)"

fun revoke_each :: "address list \<Rightarrow> address list \<Rightarrow> embargo_state \<Rightarrow> embargo_state op" where
  "revoke_each signers [] m = Inr (m, [])"
| "revoke_each signers (w # ws) m =
     (case signers of
        [] \<Rightarrow> Inl Trap
      | caller # _ \<Rightarrow>
          bind_res (revoke_each signers ws (remove_embargo w m)) (\<lambda>(m', evs).
            Inr (m', Event ''embargo_lifted'' [VAddr w, VAddr caller] # evs)))"

definition revoke_all_embargoes ::
    "env \<Rightarrow> auth_state \<Rightarrow> address list \<Rightarrow> embargo_state \<Rightarrow> embargo_state op" where
  "revoke_all_embargoes e a signers m =
     admin_guard e signers a
       (bind_res (revoke_each signers (embargoed_wallet_index m) m) (\<lambda>(m', evs).
          Inr (m'\<lparr>embargoed_wallet_index := [], active_embargo_count := None\<rparr>, evs)))"


section \<open>Well-formedness\<close>

inductive embargo_step :: "env \<Rightarrow> auth_state \<Rightarrow> embargo_state \<Rightarrow> embargo_state \<Rightarrow> bool" for e a m where
  step_set: "set_score_embargo e a w expiry m = Inr (m', evs) \<Longrightarrow> embargo_step e a m m'"
| step_lift: "lift_score_embargo e a w m = Inr (m', evs) \<Longrightarrow> embargo_step e a m m'"
| step_batch: "batch_lift_score_embargo e a signers ws m = Inr (m', evs, n) \<Longrightarrow> embargo_step e a m m'"
| step_revoke: "revoke_all_embargoes e a signers m = Inr (m', evs) \<Longrightarrow> embargo_step e a m m'"

inductive embargo_reachable :: "embargo_state \<Rightarrow> bool" where
  init: "embargo_reachable empty_embargoes"
| step: "embargo_reachable m \<Longrightarrow> embargo_step e a m m' \<Longrightarrow> embargo_reachable m'"

definition embargo_wf :: "embargo_state \<Rightarrow> bool" where
  "embargo_wf m \<longleftrightarrow> dom (score_embargo m) \<subseteq> set (embargoed_wallet_index m) \<and>
     distinct (embargoed_wallet_index m) \<and> length (embargoed_wallet_index m) \<le> MAX_EMBARGOED_WALLETS"

interpretation embargoes: bounded_index embargoed_wallet_index add_to_embargoed_index
  remove_from_embargoed_index MAX_EMBARGOED_WALLETS
  by unfold_locales (auto simp: add_to_embargoed_index_def remove_from_embargoed_index_def Let_def
    remove1_idem)

lemma embargo_fields [simp]:
  "score_embargo (set_embargo w x m) = (score_embargo m)(w \<mapsto> x)"
  "score_embargo (remove_embargo w m) = (score_embargo m)(w := None)"
  "score_embargo (snd (add_to_embargoed_index w m)) = score_embargo m"
  "score_embargo (remove_from_embargoed_index w m) = score_embargo m"
  "score_embargo (increment_active_embargo_count m) = score_embargo m"
  "score_embargo (decrement_active_embargo_count m) = score_embargo m"
  "embargoed_wallet_index (set_embargo w x m) = embargoed_wallet_index m"
  "embargoed_wallet_index (remove_embargo w m) = embargoed_wallet_index m"
  "embargoed_wallet_index (increment_active_embargo_count m) = embargoed_wallet_index m"
  "embargoed_wallet_index (decrement_active_embargo_count m) = embargoed_wallet_index m"
  by (simp_all add: set_embargo_def remove_embargo_def add_to_embargoed_index_def
      remove_from_embargoed_index_def increment_active_embargo_count_def
      decrement_active_embargo_count_def Let_def)

lemma lift_each_effect:
  "lift_each e signers ws m = Inr (m', evs, n) \<Longrightarrow>
   embargoed_wallet_index m' = embargoed_wallet_index m \<and>
   (\<forall>w. score_embargo m' w = (if w \<in> set ws \<and> is_embargoed e w m then None else score_embargo m w))"
proof (induction ws arbitrary: m evs n)
  case (Cons w ws)
  have keep: "is_embargoed e v (decrement_active_embargo_count (remove_embargo w m))
      = (v \<noteq> w \<and> is_embargoed e v m)" for v
    by (simp add: is_embargoed_def)
  show ?case
  proof (cases "is_embargoed e w m")
    case True
    then obtain evs' n' where
      "lift_each e signers ws (decrement_active_embargo_count (remove_embargo w m)) = Inr (m', evs', n')"
      using Cons.prems by (auto simp: bind_res_Inr_iff split: list.splits)
    then show ?thesis
      using Cons.IH True by (auto simp: keep)
  next
    case False
    then show ?thesis
      using Cons.IH [of m] Cons.prems by auto
  qed
qed simp

lemma revoke_each_effect:
  "revoke_each signers ws m = Inr (m', evs) \<Longrightarrow>
   score_embargo m' = (\<lambda>w. if w \<in> set ws then None else score_embargo m w) \<and>
   count_events ''embargo_lifted'' evs = length ws"
  by (induction ws arbitrary: m evs)
     (auto simp: bind_res_Inr_iff fun_eq_iff split: list.splits)


lemma set_score_embargo_effect:
  assumes "set_score_embargo e a w expiry m = Inr (m', evs)" "embargo_wf m"
  shows "score_embargo m' = (score_embargo m)(w \<mapsto> (case expiry of None \<Rightarrow> Indefinite | Some ts \<Rightarrow> Until ts))"
    and "embargo_wf m'"
proof -
  note op = guard_InrD(2) [OF assms(1) [unfolded set_score_embargo_def]]
  show "score_embargo m' = (score_embargo m)(w \<mapsto> (case expiry of None \<Rightarrow> Indefinite | Some ts \<Rightarrow> Until ts))"
    using op by (auto simp: Let_def case_prod_unfold split: if_splits)
  have "embargoed_wallet_index m' = (if is_embargoed e w m then embargoed_wallet_index m
      else embargoed_wallet_index (snd (add_to_embargoed_index w m)))
    \<and> (is_embargoed e w m \<or> fst (add_to_embargoed_index w m))"
    using op by (auto simp: Let_def case_prod_unfold split: if_splits)
  moreover have "is_embargoed e w m \<Longrightarrow> w \<in> set (embargoed_wallet_index m)"
    using assms(2) by (auto simp: embargo_wf_def is_embargoed_def split: option.splits)
  ultimately show "embargo_wf m'"
    using assms(2) \<open>score_embargo m' = _\<close> embargoes.add_bounded [of m w] embargoes.add_keeps [of m w]
      embargoes.add_member [of w m]
    by (auto simp: embargo_wf_def split: if_splits)
qed

lemma lift_score_embargo_effect:
  assumes "lift_score_embargo e a w m = Inr (m', evs)"
  shows "score_embargo m' = (score_embargo m)(w := None)"
    and "embargoed_wallet_index m' = embargoed_wallet_index (remove_from_embargoed_index w m)"
  using guard_InrD(2) [OF assms [unfolded lift_score_embargo_def]]
  by (auto simp: Let_def bind_res_Inr_iff embargoes.remove_first split: if_splits)

lemma embargo_step_wf: "embargo_step e a m m' \<Longrightarrow> embargo_wf m \<Longrightarrow> embargo_wf m'"
proof (induction rule: embargo_step.induct)
  case (step_set w expiry m' evs)
  then show ?case by (rule set_score_embargo_effect)
next
  case (step_lift w m' evs)
  then show ?case
    using lift_score_embargo_effect [OF step_lift(1)] embargoes.remove_bounded [of m w]
      embargoes.remove_member [of m w]
    by (auto simp: embargo_wf_def)
next
  case (step_batch signers ws m' evs n)
  then have "lift_each e signers ws m = Inr (m', evs, n)"
    unfolding batch_lift_score_embargo_def by (auto dest!: guard_InrD(1) split: if_splits)
  from lift_each_effect [OF this] show ?case
    using step_batch(2) by (auto simp: embargo_wf_def dom_def split: if_splits)
next
  case (step_revoke signers m' evs)
  then obtain m1 where "revoke_each signers (embargoed_wallet_index m) m = Inr (m1, evs)"
    "m' = m1\<lparr>embargoed_wallet_index := [], active_embargo_count := None\<rparr>"
    unfolding revoke_all_embargoes_def by (auto dest!: guard_InrD(1) simp: bind_res_Inr_iff)
  then show ?case
    using step_revoke(2) revoke_each_effect [of signers "embargoed_wallet_index m" m m1 evs]
    by (auto simp: embargo_wf_def dom_def split: if_splits)
qed

lemma embargo_reachable_wf: "embargo_reachable m \<Longrightarrow> embargo_wf m"
proof (induction rule: embargo_reachable.induct)
  case init
  then show ?case by (simp add: embargo_wf_def empty_embargoes_def)
next
  case (step m e a m')
  then show ?case by (blast intro: embargo_step_wf)
qed

text \<open>
  In every state the embargo operations can produce, the index has no duplicates, at
  most 100 entries, and names every embargoed wallet, so that revoking all embargoes
  leaves no wallet embargoed at any later time and reports one lift per indexed wallet.
\<close>

theorem revoke_all_lifts_every_embargo:
  assumes "embargo_reachable m" "revoke_all_embargoes e a signers m = Inr (m', evs)"
  shows "\<not> is_embargoed e' w m' \<and> embargoed_wallet_index m' = [] \<and>
    count_events ''embargo_lifted'' evs = length (embargoed_wallet_index m) \<and>
    length (embargoed_wallet_index m) \<le> MAX_EMBARGOED_WALLETS"
proof -
  obtain m1 where m1: "revoke_each signers (embargoed_wallet_index m) m = Inr (m1, evs)"
    "m' = m1\<lparr>embargoed_wallet_index := [], active_embargo_count := None\<rparr>"
    using guard_InrD(1) [OF assms(2) [unfolded revoke_all_embargoes_def]]
    by (auto simp: bind_res_Inr_iff)
  have "score_embargo m' w = None"
    using revoke_each_effect [OF m1(1)] m1(2) embargo_reachable_wf [OF assms(1)]
    by (auto simp: embargo_wf_def dom_def)
  then show ?thesis
    using revoke_each_effect [OF m1(1)] m1(2) embargo_reachable_wf [OF assms(1)]
    by (simp add: is_embargoed_def embargo_wf_def)
qed


lemma sample_embargo_set:
  "set_score_embargo (sample_env 1) sample_auth (Addr 7) None empty_embargoes
   = Inr (\<lparr>score_embargo = [Addr 7 \<mapsto> Indefinite], embargoed_wallet_index = [Addr 7],
           active_embargo_count = Some 1\<rparr>, [Event ''embargo_set'' [VAddr (Addr 7)]])"
  by (simp add: set_score_embargo_def is_embargoed_def empty_embargoes_def
      add_to_embargoed_index_def set_embargo_def increment_active_embargo_count_def
      get_active_embargo_count_def saturating_add_def MAX_EMBARGOED_WALLETS_def)

theorem revoke_all_lifts_every_embargo_witness:
  "\<exists>m m' evs. embargo_reachable m \<and> is_embargoed (sample_env 1) (Addr 7) m \<and>
     revoke_all_embargoes (sample_env 1) sample_auth [Addr 1] m = Inr (m', evs) \<and>
     \<not> is_embargoed (sample_env 2) (Addr 7) m'"
proof -
  let ?m = "\<lparr>score_embargo = [Addr 7 \<mapsto> Indefinite], embargoed_wallet_index = [Addr 7],
    active_embargo_count = Some 1\<rparr>"
  have r: "embargo_reachable ?m"
    by (rule embargo_reachable.step [OF embargo_reachable.init step_set [OF sample_embargo_set]])
  obtain m' evs where m': "revoke_all_embargoes (sample_env 1) sample_auth [Addr 1] ?m = Inr (m', evs)"
    by (simp add: revoke_all_embargoes_def)
  show ?thesis
    using revoke_all_lifts_every_embargo [OF r m', of "sample_env 2" "Addr 7"] r m'
    by (intro exI [of _ ?m] exI [of _ m'] exI [of _ evs]) (simp add: is_embargoed_def)
qed

text \<open>
  A batch lift removes embargoes but not their index entries: once the index is full,
  lifting any of its wallets in a batch leaves it full, and embargoing a wallet outside
  it fails with \<open>EmbargoedWalletIndexFull\<close>, even if no embargo is left.
\<close>

theorem batch_lift_leaks_index_slots:
  assumes "batch_lift_score_embargo e a signers ws m = Inr (m', evs, n)"
    and "length (embargoed_wallet_index m) = MAX_EMBARGOED_WALLETS"
    and "w \<notin> set (embargoed_wallet_index m)" "score_embargo m w = None" "authorized e (the (admin a))"
  shows "embargoed_wallet_index m' = embargoed_wallet_index m \<and>
    set_score_embargo e a w expiry m' = Inl (Err EmbargoedWalletIndexFull)"
proof -
  have "lift_each e signers ws m = Inr (m', evs, n)"
    using assms(1) unfolding batch_lift_score_embargo_def
    by (auto dest!: guard_InrD(1) split: if_splits)
  have adm: "has_admin a"
    using assms(1) by (auto simp: batch_lift_score_embargo_def admin_guard_def split: if_splits)
  from lift_each_effect [OF \<open>lift_each e signers ws m = _\<close>] have
    ix: "embargoed_wallet_index m' = embargoed_wallet_index m" and "\<not> is_embargoed e w m'"
    using assms(4) by (auto simp: is_embargoed_def)
  then have "fst (add_to_embargoed_index w m') = False"
    using assms(2,3) by (simp add: embargoes.add_reports)
  then show ?thesis
    using ix \<open>\<not> is_embargoed e w m'\<close> adm assms(5)
    by (auto simp: set_score_embargo_def stored_admin_guard_def has_admin_def get_admin_def
        require_auth_def Let_def case_prod_unfold)
qed


theorem batch_lift_leaks_index_slots_witness:
  "\<exists>m m' evs n. batch_lift_score_embargo (sample_env 1) sample_auth [Addr 1] [Addr 3] m = Inr (m', evs, n) \<and>
     is_embargoed (sample_env 1) (Addr 3) m \<and> \<not> is_embargoed (sample_env 1) (Addr 3) m' \<and>
     set_score_embargo (sample_env 1) sample_auth (Addr 100) None m' = Inl (Err EmbargoedWalletIndexFull)"
proof -
  let ?m = "\<lparr>score_embargo = [Addr 3 \<mapsto> Indefinite], embargoed_wallet_index = map Addr [0..<100],
    active_embargo_count = Some 1\<rparr>"
  obtain m' evs n where
    m': "batch_lift_score_embargo (sample_env 1) sample_auth [Addr 1] [Addr 3] ?m = Inr (m', evs, n)"
    and lifted: "score_embargo m' (Addr 3) = None"
    by (simp add: batch_lift_score_embargo_def is_embargoed_def MAX_BATCH_SIZE_def)
  have "Addr 100 \<notin> Addr ` {0..<100}" "authorized (sample_env 1) x" for x
    by (auto simp: sample_env_def)
  then have "set_score_embargo (sample_env 1) sample_auth (Addr 100) None m' = Inl (Err EmbargoedWalletIndexFull)"
    using batch_lift_leaks_index_slots [OF m', of "Addr 100" None]
    by (simp add: MAX_EMBARGOED_WALLETS_def)
  then show ?thesis
    using m' lifted
    by (intro exI [of _ ?m] exI [of _ m'] exI [of _ evs] exI [of _ n]) (simp add: is_embargoed_def)
qed

end
