(* ===== verification/Delegation.thy ===== *)
theory Delegation
  imports Portfolio Embargo
begin

text \<open>
  Score delegation from a sub-wallet to a custodian, and the lookups that follow it:
  \<^verbatim>\<open>lookup_score\<close>, \<^verbatim>\<open>get_delegation_chain\<close> and \<^verbatim>\<open>get_aggregate_score\<close> (\<^verbatim>\<open>lib.rs\<close>
  3943--4080, 4118--4129, 11295--11335).  The bounded loops recurse on the number of
  hops left, which is \<open>MAX_DELEGATION_DEPTH\<close> at the start, as in the source.
\<close>

type_synonym delegates = "address \<Rightarrow> address option"

definition MAX_DELEGATION_DEPTH :: nat where "MAX_DELEGATION_DEPTH = 5"

section \<open>Operations\<close>

fun reaches_sub :: "nat \<Rightarrow> delegates \<Rightarrow> address \<Rightarrow> address \<Rightarrow> bool" where
  "reaches_sub 0 d sub current = False"
| "reaches_sub (Suc n) d sub current =
     (case d current of
        None \<Rightarrow> False
      | Some next_delegate \<Rightarrow>
          if next_delegate = sub then True else reaches_sub n d sub next_delegate)"

definition set_score_delegate ::
    "env \<Rightarrow> auth_state \<Rightarrow> address \<Rightarrow> address \<Rightarrow> delegates \<Rightarrow> delegates op" where
  "set_score_delegate e a sub_wallet custodian d =
     stored_admin_guard e a
       (if custodian = sub_wallet then Inl (Err CyclicDelegation)
        else if reaches_sub MAX_DELEGATION_DEPTH d sub_wallet custodian
        then Inl (Err CyclicDelegation)
        else Inr (d(sub_wallet \<mapsto> custodian),
                  [Event ''delegate_set'' [VAddr sub_wallet, VAddr custodian]]))"

definition remove_score_delegate ::
    "env \<Rightarrow> auth_state \<Rightarrow> address \<Rightarrow> delegates \<Rightarrow> delegates op" where
  "remove_score_delegate e a sub_wallet d =
     stored_admin_guard e a
       (if d sub_wallet = None then Inl (Err ScoreNotFound)
        else Inr (d(sub_wallet := None), [Event ''delegate_removed'' [VAddr sub_wallet]]))"

fun chain_loop :: "nat \<Rightarrow> delegates \<Rightarrow> address list \<Rightarrow> address \<Rightarrow> address list" where
  "chain_loop 0 d chain current = chain"
| "chain_loop (Suc n) d chain current =
     (case d current of
        None \<Rightarrow> chain
      | Some next \<Rightarrow>
          if next \<in> set chain then chain else chain_loop n d (chain @ [next]) next)"

definition get_delegation_chain :: "delegates \<Rightarrow> address \<Rightarrow> address list" where
  "get_delegation_chain d w = chain_loop MAX_DELEGATION_DEPTH d [w] w"

fun lookup_loop ::
    "nat \<Rightarrow> score_store \<Rightarrow> delegates \<Rightarrow> symbol \<Rightarrow> address list \<Rightarrow> address \<Rightarrow> RiskScore option res" where
  "lookup_loop 0 s d p visited current = Inr None"
| "lookup_loop (Suc n) s d p visited current =
     (if current \<in> set visited then Inl (Err CyclicDelegation)
      else case d current of
        None \<Rightarrow> Inr None
      | Some custodian \<Rightarrow>
          (case scores s (custodian, p) of
             Some score \<Rightarrow> Inr (Some score)
           | None \<Rightarrow> lookup_loop n s d p (visited @ [current]) custodian))"

definition lookup_score ::
    "env \<Rightarrow> embargo_state \<Rightarrow> score_store \<Rightarrow> delegates \<Rightarrow> pair_key \<Rightarrow> RiskScore option res" where
  "lookup_score e m s d k =
     (if is_embargoed e (fst k) m then Inl (Err ScoreEmbargoed)
      else case scores s k of
        Some score \<Rightarrow> Inr (Some score)
      | None \<Rightarrow> lookup_loop MAX_DELEGATION_DEPTH s d (snd k) [] (fst k))"

definition get_aggregate_score ::
    "env \<Rightarrow> embargo_state \<Rightarrow> score_store \<Rightarrow> delegates \<Rightarrow> portfolio \<Rightarrow> address \<Rightarrow> AggregateRiskScore res" where
  "get_aggregate_score e m s d f w =
     (if is_embargoed e w m then Inl (Err ScoreEmbargoed)
      else if get_wallet_pairs w f = [] then
        (case d w of
           Some custodian \<Rightarrow> compute_aggregate_score e s f custodian
         | None \<Rightarrow> compute_aggregate_score e s f w)
      else compute_aggregate_score e s f w)"

section \<open>Following delegates\<close>

primrec follow :: "delegates \<Rightarrow> nat \<Rightarrow> address \<Rightarrow> address option" where
  "follow d 0 w = Some w"
| "follow d (Suc n) w = Option.bind (d w) (follow d n)"

lemma follow_add: "follow d (m + n) w = Option.bind (follow d m w) (follow d n)"
  by (induction m arbitrary: w) (auto split: Option.bind_splits)

lemma reaches_sub_iff: "reaches_sub n d sub w \<longleftrightarrow> (\<exists>j. 1 \<le> j \<and> j \<le> n \<and> follow d j w = Some sub)"
proof (induction n arbitrary: w)
  case (Suc n)
  have split: "(\<exists>j. 1 \<le> j \<and> j \<le> Suc n \<and> follow d j w = Some sub) \<longleftrightarrow>
      (\<exists>x. d w = Some x \<and> (x = sub \<or> (\<exists>j. 1 \<le> j \<and> j \<le> n \<and> follow d j x = Some sub)))" (is "?l = ?r")
  proof
    assume ?l
    then obtain j x where "j \<le> n" "d w = Some x" "follow d j x = Some sub"
      by (metis One_nat_def Suc_le_mono Suc_le_D bind_eq_Some_conv follow.simps(2))
    then show ?r
      by (cases j) auto
  next
    assume ?r
    then obtain x where x: "d w = Some x" "x = sub \<or> (\<exists>j. 1 \<le> j \<and> j \<le> n \<and> follow d j x = Some sub)"
      by blast
    then show ?l
    proof (cases "x = sub")
      case True
      then show ?thesis using x by (intro exI [of _ 1]) simp
    next
      case False
      then obtain j where "j \<le> n" "follow d j x = Some sub" using x by blast
      then show ?thesis using x by (intro exI [of _ "Suc j"]) simp
    qed
  qed
  show ?case
    unfolding split by (auto simp: Suc.IH split: option.splits)
qed simp

lemma follow_update_avoiding:
  "\<forall>i<n. follow (d(sub \<mapsto> c)) i w \<noteq> Some sub \<Longrightarrow> follow (d(sub \<mapsto> c)) n w = follow d n w"
proof (induction n arbitrary: w)
  case (Suc n)
  have "w \<noteq> sub"
    using Suc.prems [rule_format, of 0] by simp
  then have same: "(d(sub \<mapsto> c)) w = d w"
    by simp
  have "\<forall>i<n. follow (d(sub \<mapsto> c)) i x \<noteq> Some sub" if "d w = Some x" for x
    using Suc.prems that same by (metis Suc_mono bind.bind_lunit follow.simps(2))
  then have "follow (d(sub \<mapsto> c)) n x = follow d n x" if "d w = Some x" for x
    using Suc.IH that by blast
  then show ?case
    by (simp only: follow.simps same) (simp split: Option.bind_splits)
qed simp

definition cycle_free_upto :: "nat \<Rightarrow> delegates \<Rightarrow> bool" where
  "cycle_free_upto n d \<longleftrightarrow> (\<forall>k w. 1 \<le> k \<and> k \<le> n \<longrightarrow> follow d k w \<noteq> Some w)"

lemma cycle_rotate:
  assumes "follow d k w = Some w" "i < k" "follow d i w = Some x"
  shows "follow d k x = Some x"
proof -
  have "follow d (k - i) x = Some w"
    using follow_add [of d i "k - i" w] assms by simp
  then show ?thesis
    using follow_add [of d "k - i" i x] assms by simp
qed


lemma update_cycle_through_sub:
  assumes "cycle_free_upto k d" "1 \<le> k" "follow (d(sub \<mapsto> c)) k w = Some w"
  shows "follow (d(sub \<mapsto> c)) k sub = Some sub"
proof (cases "\<forall>i<k. follow (d(sub \<mapsto> c)) i w \<noteq> Some sub")
  case True
  then show ?thesis
    using follow_update_avoiding [OF True] assms unfolding cycle_free_upto_def by (metis order_refl)
next
  case False
  then show ?thesis
    using cycle_rotate [OF assms(3)] by blast
qed

lemma update_cycle_reaches_sub:
  assumes "follow (d(sub \<mapsto> c)) (Suc n) sub = Some sub"
  shows "\<exists>j\<le>n. follow d j c = Some sub"
proof -
  let ?d = "d(sub \<mapsto> c)"
  let ?j = "LEAST j. follow ?d j c = Some sub"
  have n: "follow ?d n c = Some sub"
    using assms by simp
  then have "follow ?d ?j c = Some sub" "?j \<le> n"
    by (rule LeastI, rule Least_le)
  moreover have "\<forall>i<?j. follow ?d i c \<noteq> Some sub"
    using not_less_Least by blast
  ultimately show ?thesis
    using follow_update_avoiding [of ?j d sub c c] by metis
qed

text \<open>
  Registering a delegate keeps the delegation graph free of cycles of up to
  \<open>MAX_DELEGATION_DEPTH + 1\<close> wallets: if no such cycle exists before the call, none exists
  after it.
\<close>

theorem set_score_delegate_no_short_cycle:
  assumes "set_score_delegate e a sub custodian d = Inr (d', evs)"
    and "cycle_free_upto (MAX_DELEGATION_DEPTH + 1) d"
  shows "cycle_free_upto (MAX_DELEGATION_DEPTH + 1) d'"
proof -
  have ne: "custodian \<noteq> sub" and none: "\<not> reaches_sub MAX_DELEGATION_DEPTH d sub custodian"
    and d': "d' = d(sub \<mapsto> custodian)"
    using guard_InrD(2) [OF assms(1) [unfolded set_score_delegate_def]] by (auto split: if_splits)
  have "follow d' k w \<noteq> Some w" if k: "1 \<le> k" "k \<le> MAX_DELEGATION_DEPTH + 1" for k w
  proof
    assume cyc: "follow d' k w = Some w"
    have "cycle_free_upto k d"
      using assms(2) k by (simp add: cycle_free_upto_def)
    then have "follow d' (Suc (k - 1)) sub = Some sub"
      using update_cycle_through_sub cyc k by (simp add: d')
    then obtain j where j: "j \<le> k - 1" "follow d j custodian = Some sub"
      unfolding d' using update_cycle_reaches_sub by blast
    then have "1 \<le> j"
      using ne by (cases j) auto
    moreover have "j \<le> MAX_DELEGATION_DEPTH"
      using j(1) k by simp
    ultimately show False
      using none j(2) unfolding reaches_sub_iff by blast
  qed
  then show ?thesis
    by (simp add: cycle_free_upto_def)
qed

section \<open>Chains and lookups\<close>

lemma chain_loop_spec:
  assumes "distinct (pre @ [c])" "successively (\<lambda>x y. d x = Some y) (pre @ [c])"
  shows "\<exists>rest. chain_loop n d (pre @ [c]) c = pre @ c # rest \<and> length rest \<le> n \<and>
    distinct (pre @ c # rest) \<and> successively (\<lambda>x y. d x = Some y) (pre @ c # rest) \<and>
    (length rest = n \<or> d (last (c # rest)) = None \<or>
      (\<exists>x\<in>set (pre @ c # rest). d (last (c # rest)) = Some x))"
  using assms
proof (induction n arbitrary: pre c)
  case (Suc n)
  show ?case
  proof (cases "\<exists>x. d c = Some x \<and> x \<notin> set (pre @ [c])")
    case True
    then obtain x where x: "d c = Some x" "x \<notin> set (pre @ [c])" by blast
    have "successively (\<lambda>x y. d x = Some y) ((pre @ [c]) @ [x])"
      using Suc.prems(2) x(1) by (simp add: successively_append_iff)
    then obtain rest where "chain_loop n d ((pre @ [c]) @ [x]) x = (pre @ [c]) @ x # rest"
      "length rest \<le> n" "distinct ((pre @ [c]) @ x # rest)"
      "successively (\<lambda>x y. d x = Some y) ((pre @ [c]) @ x # rest)"
      "length rest = n \<or> d (last (x # rest)) = None \<or>
        (\<exists>y\<in>set ((pre @ [c]) @ x # rest). d (last (x # rest)) = Some y)"
      using Suc.IH [of "pre @ [c]" x] Suc.prems(1) x(2) by auto
    then show ?thesis
      using x by (intro exI [of _ "x # rest"]) auto
  next
    case False
    then show ?thesis
      using Suc.prems by (intro exI [of _ "[]"]) (auto split: option.splits)
  qed
qed simp

lemma chain_loop_prefix: "\<exists>rest. chain_loop n d chain c = chain @ rest"
proof (induction n arbitrary: chain c)
  case (Suc n)
  have "\<exists>rest. chain_loop n d (chain @ [x]) x = chain @ rest" for x
    using Suc.IH [of "chain @ [x]" x] by auto
  then show ?case
    by (simp split: option.splits)
qed simp


definition closes_cycle :: "nat \<Rightarrow> delegates \<Rightarrow> address list \<Rightarrow> bool" where
  "closes_cycle n d chain \<longleftrightarrow>
     (case d (last chain) of None \<Rightarrow> False | Some x \<Rightarrow> x \<in> set chain \<and> length chain < n)"

lemma find_append_none: "\<forall>x\<in>set xs. \<not> P x \<Longrightarrow> find P (xs @ ys) = find P ys"
  by (induction xs) auto

lemma lookup_loop_chain:
  assumes "c \<notin> set pre" "\<forall>x\<in>set (pre @ [c]). scores s (x, p) = None"
  shows "lookup_loop n s d p pre c =
    (let chain = chain_loop n d (pre @ [c]) c in
     case find (\<lambda>x. scores s (x, p) \<noteq> None) chain of
       Some x \<Rightarrow> Inr (scores s (x, p))
     | None \<Rightarrow> if closes_cycle (length pre + n) d chain then Inl (Err CyclicDelegation) else Inr None)"
  using assms
proof (induction n arbitrary: pre c)
  case 0
  have "find (\<lambda>x. scores s (x, p) \<noteq> None) ((pre @ [c]) @ []) = None"
    using 0(2) by (subst find_append_none) auto
  then show ?case
    by (auto simp: closes_cycle_def Let_def split: option.splits)
next
  case (Suc n)
  have here: "find (\<lambda>x. scores s (x, p) \<noteq> None) ((pre @ [c]) @ ys)
      = find (\<lambda>x. scores s (x, p) \<noteq> None) ys" for ys
    using Suc.prems(2) by (intro find_append_none) simp
  consider (stop) "d c = None" | (cyc) x where "d c = Some x" "x \<in> set (pre @ [c])"
    | (hop) x where "d c = Some x" "x \<notin> set (pre @ [c])"
    by (cases "d c") auto
  then show ?case
  proof cases
    case stop
    then show ?thesis
      using Suc.prems here [of "[]"] by (simp add: closes_cycle_def Let_def)
  next
    case (cyc x)
    have "scores s (x, p) = None"
      using cyc(2) Suc.prems(2) by blast
    then show ?thesis
      using Suc.prems here [of "[]"] cyc by (cases n) (auto simp: closes_cycle_def Let_def)
  next
    case (hop x)
    obtain rest where rest: "chain_loop n d ((pre @ [c]) @ [x]) x = (pre @ [c]) @ x # rest"
      using chain_loop_prefix [of n d "(pre @ [c]) @ [x]" x] by auto
    show ?thesis
    proof (cases "scores s (x, p)")
      case None
      then show ?thesis
        using Suc.IH [of x "pre @ [c]"] Suc.prems hop by (simp add: Let_def)
    next
      case (Some r)
      then show ?thesis
        using Suc.prems hop rest here [of "x # rest"] by (simp add: Let_def)
    qed
  qed
qed

text \<open>
  The delegation chain of a wallet starts with the wallet, follows stored delegates,
  never repeats a wallet, has at most \<open>MAX_DELEGATION_DEPTH\<close> hops, and stops earlier only at a
  wallet without delegate or whose delegate is already in the chain.  A lookup by a
  wallet that is not embargoed returns the score of the first wallet of this chain that
  has one for the pair; if none has, it returns no score, or \<open>CyclicDelegation\<close> when the
  chain closes a cycle before the last hop.
\<close>

theorem lookup_follows_chain:
  assumes "\<not> is_embargoed e w m"
    and "chain = get_delegation_chain d w"
  shows "hd chain = w \<and> distinct chain \<and> length chain \<le> MAX_DELEGATION_DEPTH + 1 \<and>
    successively (\<lambda>x y. d x = Some y) chain \<and>
    (length chain = MAX_DELEGATION_DEPTH + 1 \<or> d (last chain) = None \<or> the (d (last chain)) \<in> set chain) \<and>
    lookup_score e m s d (w, p) =
      (case find (\<lambda>x. scores s (x, p) \<noteq> None) chain of
         Some x \<Rightarrow> Inr (scores s (x, p))
       | None \<Rightarrow> if closes_cycle MAX_DELEGATION_DEPTH d chain then Inl (Err CyclicDelegation)
                 else Inr None)"
proof -
  obtain rest where rest: "chain = w # rest" "length rest \<le> MAX_DELEGATION_DEPTH" "distinct (w # rest)"
    "successively (\<lambda>x y. d x = Some y) (w # rest)"
    "length rest = MAX_DELEGATION_DEPTH \<or> d (last (w # rest)) = None \<or>
      (\<exists>x\<in>set (w # rest). d (last (w # rest)) = Some x)"
    using chain_loop_spec [of "[]" w d MAX_DELEGATION_DEPTH]
    by (auto simp: assms(2) get_delegation_chain_def)
  have "lookup_score e m s d (w, p) =
      (case find (\<lambda>x. scores s (x, p) \<noteq> None) chain of
         Some x \<Rightarrow> Inr (scores s (x, p))
       | None \<Rightarrow> if closes_cycle MAX_DELEGATION_DEPTH d chain then Inl (Err CyclicDelegation)
                 else Inr None)"
  proof (cases "scores s (w, p)")
    case None
    then show ?thesis
      using assms(1) lookup_loop_chain [of w "[]" s p MAX_DELEGATION_DEPTH d]
      by (simp add: lookup_score_def assms(2) get_delegation_chain_def Let_def)
  next
    case (Some r)
    then show ?thesis
      using assms(1) rest(1) by (simp add: lookup_score_def)
  qed
  then show ?thesis
    using rest by auto
qed


text \<open>A sub-wallet without scores that delegates to an embargoed custodian.\<close>

definition sample_delegates :: delegates where
  "sample_delegates = [Addr 7 \<mapsto> Addr 1]"

lemma sample_chain: "get_delegation_chain sample_delegates (Addr 7) = [Addr 7, Addr 1]"
  by (simp add: get_delegation_chain_def sample_delegates_def MAX_DELEGATION_DEPTH_def numeral_eq_Suc)

theorem lookup_follows_chain_witness:
  "lookup_score (sample_env 1) empty_embargoes sample_pair_store sample_delegates (Addr 7, ''XLM'')
     = Inr (Some sample_score) \<and>
   distinct (get_delegation_chain sample_delegates (Addr 7))"
  using lookup_follows_chain [of "sample_env 1" "Addr 7" empty_embargoes _ sample_delegates
      sample_pair_store "''XLM''"]
  by (simp add: sample_chain is_embargoed_def empty_embargoes_def sample_pair_store_def
      empty_score_store_def)

theorem set_score_delegate_no_short_cycle_witness:
  "\<exists>d' evs. set_score_delegate (sample_env 1) sample_auth (Addr 7) (Addr 1) (\<lambda>_. None) = Inr (d', evs) \<and>
     cycle_free_upto (MAX_DELEGATION_DEPTH + 1) d' \<and>
     set_score_delegate (sample_env 1) sample_auth (Addr 1) (Addr 7) d' = Inl (Err CyclicDelegation)"
proof -
  let ?d = "\<lambda>_. None :: address option"
  have set: "set_score_delegate (sample_env 1) sample_auth (Addr 7) (Addr 1) ?d
      = Inr ([Addr 7 \<mapsto> Addr 1], [Event ''delegate_set'' [VAddr (Addr 7), VAddr (Addr 1)]])"
    by (simp add: set_score_delegate_def MAX_DELEGATION_DEPTH_def numeral_eq_Suc)
  have "follow ?d k w \<noteq> Some w" if "1 \<le> k" for k w
    using that by (cases k) auto
  then have "cycle_free_upto (MAX_DELEGATION_DEPTH + 1) [Addr 7 \<mapsto> Addr 1]"
    using set_score_delegate_no_short_cycle [OF set] by (simp add: cycle_free_upto_def)
  then show ?thesis
    using set
    by (intro exI [of _ "[Addr 7 \<mapsto> Addr 1]"] exI conjI)
       (auto simp: set_score_delegate_def MAX_DELEGATION_DEPTH_def numeral_eq_Suc)
qed

text \<open>
  Only the wallet asked for is checked against the embargo list: if it has no score of
  its own, the score of its custodian is returned, and its aggregate is the custodian's,
  whether or not the custodian is embargoed.
\<close>

theorem embargo_bypassed_by_delegation:
  assumes "\<not> is_embargoed e w m" "scores s (w, p) = None" "d w = Some c" "scores s (c, p) = Some r"
    and "get_wallet_pairs w f = []"
  shows "lookup_score e m s d (w, p) = Inr (Some r) \<and>
    get_aggregate_score e m s d f w = compute_aggregate_score e s f c"
  using assms
  by (simp add: lookup_score_def get_aggregate_score_def MAX_DELEGATION_DEPTH_def numeral_eq_Suc)

theorem embargo_bypassed_by_delegation_witness:
  "\<exists>m. is_embargoed (sample_env 1) (Addr 1) m \<and>
     lookup_score (sample_env 1) m sample_pair_store sample_delegates (Addr 1, ''XLM'')
       = Inl (Err ScoreEmbargoed) \<and>
     lookup_score (sample_env 1) m sample_pair_store sample_delegates (Addr 7, ''XLM'')
       = Inr (Some sample_score)"
  using embargo_bypassed_by_delegation [of "sample_env 1" "Addr 7"
      "empty_embargoes\<lparr>score_embargo := [Addr 1 \<mapsto> Indefinite]\<rparr>" sample_pair_store "''XLM''"
      sample_delegates "Addr 1" sample_score empty_portfolio]
  by (intro exI [of _ "empty_embargoes\<lparr>score_embargo := [Addr 1 \<mapsto> Indefinite]\<rparr>"])
     (simp add: is_embargoed_def lookup_score_def sample_delegates_def sample_pair_store_def
      empty_score_store_def get_wallet_pairs_def empty_portfolio_def)

end
