(* ===== verification/Accumulator.thy ===== *)
theory Accumulator
  imports Score_Store
begin

text \<open>
  The incremental state commitment (\<^verbatim>\<open>lib.rs\<close> 13608--13643, \<^verbatim>\<open>storage.rs\<close> 2466--2501,
  the leaf derivation of \<^verbatim>\<open>verkle.rs\<close>) and the Bloom-filter pre-check of \<^verbatim>\<open>verkle.rs\<close>.
  Fixed-size byte arrays are byte lists of that length.
\<close>

record verkle_state =
  verkle_commitment :: "bytes option"
  verkle_leaf :: "pair_key \<Rightarrow> bytes option"

definition empty_verkle :: verkle_state where
  "empty_verkle = \<lparr>verkle_commitment = None, verkle_leaf = (\<lambda>_. None)\<rparr>"

section \<open>Leaves\<close>

definition BLS12_381_FIELD_BITMASK :: "8 word" where "BLS12_381_FIELD_BITMASK = 0x1F"
definition DOMAIN_LEAF :: "8 word" where "DOMAIN_LEAF = 2"
definition DOMAIN_EVAL_POINT :: "8 word" where "DOMAIN_EVAL_POINT = 4"
definition DOMAIN_VALUE :: "8 word" where "DOMAIN_VALUE = 5"
definition DOMAIN_COMMIT :: "8 word" where "DOMAIN_COMMIT = 6"

definition reduce_field :: "bytes \<Rightarrow> bytes" where
  "reduce_field h = h[31 := and (h ! 31) BLS12_381_FIELD_BITMASK]"

definition derive_evaluation_point :: "env \<Rightarrow> bytes \<Rightarrow> bytes \<Rightarrow> bytes" where
  "derive_evaluation_point e wallet_bytes pair_bytes =
     reduce_field (sha256 e (DOMAIN_EVAL_POINT # wallet_bytes @ pair_bytes))"

definition derive_value_element :: "env \<Rightarrow> u32 \<Rightarrow> u64 \<Rightarrow> bytes \<Rightarrow> bytes" where
  "derive_value_element e score timestamp z =
     reduce_field (sha256 e (DOMAIN_VALUE # u32_le score @ u64_le timestamp @ z))"

definition hash_leaf :: "env \<Rightarrow> bytes \<Rightarrow> bytes \<Rightarrow> bytes" where
  "hash_leaf e z v = sha256 e (DOMAIN_LEAF # z @ v)"

definition xor32 :: "bytes \<Rightarrow> bytes \<Rightarrow> bytes" where
  "xor32 a b = map2 xor a b"

definition finalize_commitment :: "env \<Rightarrow> bytes \<Rightarrow> bytes" where
  "finalize_commitment e accumulator = sha256 e (DOMAIN_COMMIT # accumulator)"

section \<open>The commitment\<close>

definition get_verkle_commitment_raw :: "verkle_state \<Rightarrow> bytes" where
  "get_verkle_commitment_raw v =
     (case verkle_commitment v of
        Some b \<Rightarrow> if length b = 32 then b else replicate 32 0
      | None \<Rightarrow> replicate 32 0)"

definition get_verkle_leaf :: "pair_key \<Rightarrow> verkle_state \<Rightarrow> bytes option" where
  "get_verkle_leaf k v =
     (case verkle_leaf v k of Some b \<Rightarrow> if length b = 32 then Some b else None | None \<Rightarrow> None)"

definition pair_buf :: "symbol \<Rightarrow> bytes" where
  "pair_buf p = (let bs = take 9 (map of_char p) in bs @ replicate (9 - length bs) 0)"

definition update_verkle_commitment ::
    "env \<Rightarrow> pair_key \<Rightarrow> RiskScore \<Rightarrow> verkle_state \<Rightarrow> verkle_state" where
  "update_verkle_commitment e k rs v =
     (let z = derive_evaluation_point e (addr_str e (fst k)) (pair_buf (snd k));
          v_new = derive_value_element e (rs_score rs) (rs_timestamp rs) z;
          leaf_new = hash_leaf e z v_new;
          accum = get_verkle_commitment_raw v;
          accum1 = (case get_verkle_leaf k v of
                      Some old_leaf \<Rightarrow> xor32 accum old_leaf | None \<Rightarrow> accum);
          accum2 = update_accumulator e accum1 z v_new in
      v\<lparr>verkle_commitment := Some accum2, verkle_leaf := (verkle_leaf v)(k \<mapsto> leaf_new)\<rparr>)"

section \<open>Bloom filter\<close>

definition DOMAIN_BLOOM_BIT :: "8 word" where "DOMAIN_BLOOM_BIT = 8"
definition DOMAIN_BLOOM_DIGEST :: "8 word" where "DOMAIN_BLOOM_DIGEST = 9"
definition BLOOM_FILTER_BITS :: nat where "BLOOM_FILTER_BITS = 8192"
definition BLOOM_HASH_COUNT :: nat where "BLOOM_HASH_COUNT = 7"

definition bloom_bit_index :: "env \<Rightarrow> bytes \<Rightarrow> u32 \<Rightarrow> nat" where
  "bloom_bit_index e wallet_bytes i =
     nat_of_le (take 4 (sha256 e (DOMAIN_BLOOM_BIT # u32_le i @ wallet_bytes))) mod BLOOM_FILTER_BITS"

definition bloom_set_bit :: "nat \<Rightarrow> bytes \<Rightarrow> bytes" where
  "bloom_set_bit b flt = flt[b div 8 := or (flt ! (b div 8)) (push_bit (b mod 8) 1)]"

definition bloom_insert :: "env \<Rightarrow> bytes \<Rightarrow> bytes \<Rightarrow> bytes" where
  "bloom_insert e wallet_bytes flt =
     fold (\<lambda>i. bloom_set_bit (bloom_bit_index e wallet_bytes (of_nat i))) [0..<BLOOM_HASH_COUNT] flt"

definition bloom_test_bit :: "nat \<Rightarrow> bytes \<Rightarrow> bool" where
  "bloom_test_bit b flt = (and (flt ! (b div 8)) (push_bit (b mod 8) 1) \<noteq> 0)"

definition bloom_contains :: "env \<Rightarrow> bytes \<Rightarrow> bytes \<Rightarrow> bool" where
  "bloom_contains e flt wallet_bytes =
     list_all (\<lambda>i. bloom_test_bit (bloom_bit_index e wallet_bytes (of_nat i)) flt) [0..<BLOOM_HASH_COUNT]"

definition bloom_filter_digest :: "env \<Rightarrow> u32 \<Rightarrow> bytes \<Rightarrow> bytes" where
  "bloom_filter_digest e epoch flt = sha256 e (DOMAIN_BLOOM_DIGEST # u32_le epoch @ flt)"

definition bloom_precheck :: "env \<Rightarrow> bytes \<Rightarrow> u32 \<Rightarrow> u32 \<Rightarrow> bytes \<Rightarrow> bytes \<Rightarrow> bool" where
  "bloom_precheck e stored_digest stored_epoch supplied_epoch flt wallet_bytes =
     (if supplied_epoch < stored_epoch then True
      else if bloom_filter_digest e supplied_epoch flt \<noteq> stored_digest then True
      else bloom_contains e flt wallet_bytes)"

section \<open>The accumulator is the exclusive or of the leaves\<close>

lemma xor32_commute: "xor32 a b = xor32 b a"
  by (auto simp: xor32_def xor.commute intro: nth_equalityI)

lemma xor32_assoc: "xor32 (xor32 a b) c = xor32 a (xor32 b c)"
  by (auto simp: xor32_def xor.assoc intro: nth_equalityI)

lemma length_xor32 [simp]: "length (xor32 a b) = min (length a) (length b)"
  by (simp add: xor32_def)

lemma xor32_cancel: "length a = length b \<Longrightarrow> xor32 (xor32 a b) b = a"
  by (auto simp: xor32_def xor.assoc intro: nth_equalityI)

definition xor_leaves :: "(pair_key \<Rightarrow> bytes option) \<Rightarrow> bytes" where
  "xor_leaves m = Finite_Set.fold (\<lambda>k acc. xor32 acc (the (m k))) (replicate 32 0) (dom m)"

lemma xor32_right_commute: "xor32 (xor32 acc a) b = xor32 (xor32 acc b) a"
  by (simp only: xor32_assoc xor32_commute [of a b])

lemma xor_leaves_commute: "comp_fun_commute_on UNIV (\<lambda>k acc. xor32 acc (the (m k)))"
  by unfold_locales (rule ext, simp add: xor32_right_commute)

lemma xor_leaves_update:
  assumes "finite (dom m)" "m k = None"
  shows "xor_leaves (m(k \<mapsto> l)) = xor32 (xor_leaves m) l"
proof -
  let ?f = "\<lambda>j acc. xor32 acc (the ((m(k \<mapsto> l)) j))"
  have "xor_leaves (m(k \<mapsto> l)) = Finite_Set.fold ?f (replicate 32 0) (insert k (dom m))"
    by (simp add: xor_leaves_def)
  also have "\<dots> = ?f k (Finite_Set.fold ?f (replicate 32 0) (dom m))"
    using assms by (intro comp_fun_commute_on.fold_insert [OF xor_leaves_commute]) (auto simp: domIff)
  also have "Finite_Set.fold ?f (replicate 32 0) (dom m) = xor_leaves m"
    unfolding xor_leaves_def
    by (rule Finite_Set.fold_cong [OF xor_leaves_commute xor_leaves_commute])
       (use assms in \<open>auto simp: domIff\<close>)
  finally show ?thesis
    by (simp only: fun_upd_same option.sel)
qed

lemma xor_leaves_length:
  assumes "finite (dom m)" "\<forall>l\<in>ran m. length l = 32"
  shows "length (xor_leaves m) = 32"
proof -
  let ?f = "\<lambda>k acc. xor32 acc (the (m k))"
  have "length (Finite_Set.fold ?f (replicate 32 0) A) = 32" if "finite A" "A \<subseteq> dom m" for A
    using that
  proof (induction rule: finite_induct)
    case (insert k A)
    then obtain y where "m k = Some y"
      by blast
    then have "length (the (m k)) = 32"
      using assms(2) ranI [of m k y] by simp
    then show ?case
      using insert by (simp add: comp_fun_commute_on.fold_insert [OF xor_leaves_commute])
  qed simp
  then show ?thesis
    using assms(1) by (simp add: xor_leaves_def)
qed


lemma ran_map_upd_None: "ran (m(k := None)) \<subseteq> ran m"
  by (auto simp: ran_def split: if_splits)

definition verkle_wf :: "verkle_state \<Rightarrow> bool" where
  "verkle_wf v \<longleftrightarrow> finite (dom (verkle_leaf v)) \<and> (\<forall>l\<in>ran (verkle_leaf v). length l = 32) \<and>
     get_verkle_commitment_raw v = xor_leaves (verkle_leaf v) \<and>
     length (get_verkle_commitment_raw v) = 32"

text \<open>What the update relies on: digests have 32 bytes, and \<open>update_accumulator\<close> adds the leaf
  of \<open>(z, v)\<close> by exclusive or, as the comments at its call site state.\<close>

definition xor_host :: "env \<Rightarrow> bool" where
  "xor_host e \<longleftrightarrow> (\<forall>bs. length (sha256 e bs) = 32) \<and>
     (\<forall>acc z v. update_accumulator e acc z v = xor32 acc (hash_leaf e z v))"

lemma verkle_wf_empty: "verkle_wf empty_verkle"
  by (simp add: verkle_wf_def empty_verkle_def get_verkle_commitment_raw_def xor_leaves_def)

lemma verkle_update_form:
  assumes "xor_host e"
  obtains l where "length l = 32"
    "verkle_leaf (update_verkle_commitment e k rs v) = (verkle_leaf v)(k \<mapsto> l)"
    "verkle_commitment (update_verkle_commitment e k rs v) =
       Some (xor32 (case get_verkle_leaf k v of
         Some old \<Rightarrow> xor32 (get_verkle_commitment_raw v) old | None \<Rightarrow> get_verkle_commitment_raw v) l)"
  using assms that [of "hash_leaf e _ _"]
  by (auto simp: xor_host_def update_verkle_commitment_def Let_def hash_leaf_def)

lemma verkle_wf_without:
  assumes "verkle_wf v"
  shows "(case get_verkle_leaf k v of
     Some old \<Rightarrow> xor32 (get_verkle_commitment_raw v) old | None \<Rightarrow> get_verkle_commitment_raw v)
   = xor_leaves ((verkle_leaf v)(k := None))"
proof (cases "verkle_leaf v k")
  case None
  then show ?thesis
    using assms by (simp add: verkle_wf_def get_verkle_leaf_def fun_upd_idem)
next
  case (Some old)
  let ?m = "(verkle_leaf v)(k := None)"
  have "verkle_leaf v = ?m(k \<mapsto> old)"
    using Some by auto
  then have acc: "get_verkle_commitment_raw v = xor32 (xor_leaves ?m) old"
    using assms xor_leaves_update [of ?m k old] by (simp add: verkle_wf_def)
  have len: "length old = 32"
    using assms ranI [of "verkle_leaf v" k, OF Some] by (simp add: verkle_wf_def)
  have "length (xor_leaves ?m) = 32"
    using assms ran_map_upd_None [of "verkle_leaf v" k] by (intro xor_leaves_length) (auto simp: verkle_wf_def)
  then show ?thesis
    using Some len acc by (simp add: get_verkle_leaf_def xor32_cancel)
qed


lemma verkle_wf_update:
  assumes "xor_host e" "verkle_wf v"
  shows "verkle_wf (update_verkle_commitment e k rs v)"
proof -
  obtain l where l: "length l = 32"
    "verkle_leaf (update_verkle_commitment e k rs v) = (verkle_leaf v)(k \<mapsto> l)"
    "verkle_commitment (update_verkle_commitment e k rs v) =
       Some (xor32 (case get_verkle_leaf k v of
         Some old \<Rightarrow> xor32 (get_verkle_commitment_raw v) old | None \<Rightarrow> get_verkle_commitment_raw v) l)"
    by (rule verkle_update_form [OF assms(1)])
  let ?m = "(verkle_leaf v)(k := None)"
  have m: "finite (dom ?m)" "\<forall>x\<in>ran ?m. length x = 32"
    using assms(2) ran_map_upd_None [of "verkle_leaf v" k] by (auto simp: verkle_wf_def)
  have "verkle_commitment (update_verkle_commitment e k rs v) = Some (xor_leaves (?m(k \<mapsto> l)))"
    using l(3) verkle_wf_without [OF assms(2)] xor_leaves_update [OF m(1), of k l] by simp
  moreover have ran: "\<forall>x\<in>ran (?m(k \<mapsto> l)). length x = 32" "finite (dom (?m(k \<mapsto> l)))"
    using m l(1) ran_map_upd [of ?m k l] by (simp_all del: fun_upd_upd)
  moreover have "length (xor_leaves (?m(k \<mapsto> l))) = 32"
    using ran by (intro xor_leaves_length)
  ultimately show ?thesis
    using l(2) by (simp add: verkle_wf_def get_verkle_commitment_raw_def)
qed

definition run_updates :: "(env \<times> pair_key \<times> RiskScore) list \<Rightarrow> verkle_state \<Rightarrow> verkle_state" where
  "run_updates us v = fold (\<lambda>(e, k, rs). update_verkle_commitment e k rs) us v"

lemma verkle_wf_run:
  "\<forall>(e, _) \<in> set us. xor_host e \<Longrightarrow> verkle_wf v \<Longrightarrow> verkle_wf (run_updates us v)"
  unfolding run_updates_def by (induction us arbitrary: v) (auto intro: verkle_wf_update)




section \<open>The Bloom filter has no false negatives\<close>

lemma length_bloom_set_bit [simp]: "length (bloom_set_bit b flt) = length flt"
  by (simp add: bloom_set_bit_def)

lemma bloom_test_bit_iff: "bloom_test_bit b flt \<longleftrightarrow> bit (flt ! (b div 8)) (b mod 8)"
  by (simp add: bloom_test_bit_def and_exp_eq_0_iff_not_bit flip: push_bit_eq_mult)

lemma bloom_test_set:
  "b div 8 < length flt \<Longrightarrow> bloom_test_bit b (bloom_set_bit b flt)"
  by (simp add: bloom_test_bit_iff bloom_set_bit_def bit_or_iff bit_exp_iff)

lemma bloom_test_mono: "bloom_test_bit b flt \<Longrightarrow> bloom_test_bit b (bloom_set_bit c flt)"
  by (cases "c div 8 < length flt")
     (auto simp: bloom_test_bit_iff bloom_set_bit_def bit_or_iff nth_list_update list_update_beyond not_less)

lemma bloom_fold_mono:
  "bloom_test_bit b flt \<Longrightarrow> bloom_test_bit b (fold (\<lambda>i. bloom_set_bit (g i)) is flt)"
  by (induction "is" arbitrary: flt) (auto intro: bloom_test_mono)

lemma bloom_fold_sets:
  "i \<in> set is \<Longrightarrow> g i div 8 < length flt \<Longrightarrow>
   bloom_test_bit (g i) (fold (\<lambda>i. bloom_set_bit (g i)) is flt)"
proof (induction "is" arbitrary: flt)
  case (Cons j "is")
  then show ?case
    by (cases "i = j") (auto intro: bloom_fold_mono bloom_test_set)
qed simp

lemma length_bloom_insert [simp]: "length (bloom_insert e w flt) = length flt"
proof -
  have "length (fold (\<lambda>i. bloom_set_bit (g i)) is flt) = length flt" for g :: "nat \<Rightarrow> nat" and "is"
    by (induction "is" arbitrary: flt) auto
  then show ?thesis
    by (simp add: bloom_insert_def)
qed

lemma bloom_bit_index_lt: "bloom_bit_index e w i div 8 < 1024"
  by (simp add: bloom_bit_index_def BLOOM_FILTER_BITS_def less_mult_imp_div_less)

lemma bloom_contains_inserted: "length flt = 1024 \<Longrightarrow> bloom_contains e (bloom_insert e w flt) w"
  by (auto simp: bloom_contains_def bloom_insert_def list_all_iff bloom_bit_index_lt
      intro!: bloom_fold_sets [where g = "\<lambda>i. bloom_bit_index e w (of_nat i)"])

lemma bloom_contains_mono: "bloom_contains e flt w \<Longrightarrow> bloom_contains e (bloom_insert e w' flt) w"
  by (auto simp: bloom_contains_def bloom_insert_def list_all_iff intro: bloom_fold_mono)

lemma bloom_contains_fold:
  "bloom_contains e flt w \<Longrightarrow> bloom_contains e (fold (bloom_insert e) ws flt) w"
  by (induction ws arbitrary: flt) (auto intro: bloom_contains_mono)

text \<open>
  The pre-check never clears an inserted wallet: whatever the stored digest and the
  epochs are, it answers possibly high-risk for every wallet that was inserted into the
  supplied filter.
\<close>

theorem bloom_no_false_negatives:
  assumes "w \<in> set ws" "length flt = 1024"
  shows "bloom_precheck e stored_digest stored_epoch supplied_epoch (fold (bloom_insert e) ws flt) w"
proof -
  have "bloom_contains e (fold (bloom_insert e) ws flt) w"
    using assms
  proof (induction ws arbitrary: flt)
    case (Cons v ws)
    then show ?case
      by (cases "w = v") (auto intro: bloom_contains_fold bloom_contains_inserted)
  qed simp
  then show ?thesis
    by (simp add: bloom_precheck_def)
qed

theorem bloom_no_false_negatives_witness:
  "bloom_precheck (sample_env 1) (replicate 32 0) 1 2
     (fold (bloom_insert (sample_env 1)) [replicate 56 1, replicate 56 2] (replicate 1024 0)) (replicate 56 2)"
  by (rule bloom_no_false_negatives) simp_all

end
