(* ===== verification/Attestation.thy ===== *)
theory Attestation
  imports Auth Accumulator
begin

text \<open>
  Signed score attestations: the digest the service signs, the service keys with their
  rotation windows and revocations, and the checks of the single-key and the
  threshold-key path (\<^verbatim>\<open>lib.rs\<close> 6485--6844, 12413--12456, 13112--13337 and
  \<^verbatim>\<open>storage.rs\<close> 2966--3062, 3280--3282).  Signature recovery is a host function.
\<close>

abbreviation "InvalidKeyOverlap \<equiv> InvalidThreshold"

record ScoreAttestation =
  sa_commitment :: bytes
  sa_signature :: bytes
  sa_contract_id :: bytes
  sa_contract_version :: u32
  sa_nonce :: u64

record ThresholdAttestation =
  ta_commitment :: bytes
  ta_threshold_sig :: bytes
  ta_participating_signers :: "address list"
  ta_contract_id :: bytes
  ta_contract_version :: u32

record RevokedKeyRecord =
  rk_fingerprint :: bytes
  rk_effective_from :: u64
  rk_reason_code :: u32
  rk_revoking_authority :: address

record key_state =
  service_pubkey :: "bytes option"
  pending_service_pubkey :: "(bytes \<times> u64) option"
  aggregate_service_pubkey :: "bytes option"
  pending_aggregate_service_pubkey :: "(bytes \<times> u64) option"
  revoked_key :: "bytes \<Rightarrow> RevokedKeyRecord option"
  revoked_key_index :: "bytes list"
  contract_version :: "u32 option"

definition CONTRACT_VERSION :: u32 where "CONTRACT_VERSION = 5"
definition MAX_KEY_OVERLAP_SECS :: u64 where "MAX_KEY_OVERLAP_SECS = 86400"

definition empty_keys :: key_state where
  "empty_keys = \<lparr>service_pubkey = None, pending_service_pubkey = None,
     aggregate_service_pubkey = None, pending_aggregate_service_pubkey = None,
     revoked_key = (\<lambda>_. None), revoked_key_index = [], contract_version = None\<rparr>"

text \<open>The fields of a submission that the digest covers.\<close>

record score_claim =
  sc_wallet :: address
  sc_asset_pair :: symbol
  sc_score :: u32
  sc_benford_flag :: bool
  sc_ml_flag :: bool
  sc_timestamp :: u64
  sc_confidence :: u32
  sc_model_version :: u32

section \<open>Key management\<close>

definition get_contract_version :: "key_state \<Rightarrow> u32" where
  "get_contract_version y = unwrap_or (contract_version y) CONTRACT_VERSION"

definition validate_pubkey_format :: "bytes \<Rightarrow> bool" where
  "validate_pubkey_format pubkey =
     (length pubkey = 33 \<and> (pubkey ! 0 = 2 \<or> pubkey ! 0 = 3) \<or> length pubkey = 65 \<and> pubkey ! 0 = 4)"

definition set_service_pubkey ::
    "env \<Rightarrow> auth_state \<Rightarrow> address list \<Rightarrow> bytes \<Rightarrow> key_state \<Rightarrow> key_state op" where
  "set_service_pubkey e a signers pubkey y =
     (if \<not> has_admin a then Inl (Err NotInitialized)
      else if \<not> validate_pubkey_format pubkey then Inl (Err InvalidPubkeyLength)
      else admin_guard e signers a
        (Inr (y\<lparr>service_pubkey := Some pubkey\<rparr>, [Event ''service_pubkey_updated'' [VBytes pubkey]])))"

definition rotate_service_pubkey ::
    "env \<Rightarrow> auth_state \<Rightarrow> address list \<Rightarrow> bytes \<Rightarrow> u64 \<Rightarrow> key_state \<Rightarrow> key_state op" where
  "rotate_service_pubkey e a signers new_key overlap_secs y =
     (if \<not> has_admin a then Inl (Err NotInitialized)
      else if \<not> validate_pubkey_format new_key then Inl (Err InvalidPubkeyLength)
      else if MAX_KEY_OVERLAP_SECS < overlap_secs then Inl (Err InvalidKeyOverlap)
      else admin_guard e signers a
        (let y1 = y\<lparr>pending_service_pubkey := None\<rparr> in
         if overlap_secs = 0
         then Inr (y1\<lparr>service_pubkey := Some new_key\<rparr>,
                   [Event ''service_pubkey_updated'' [VBytes new_key],
                    Event ''service_pubkey_rotation_started'' [VBytes new_key, VU64 0]])
         else
           (let expiry = saturating_add (ledger_timestamp e) overlap_secs in
            Inr (y1\<lparr>pending_service_pubkey := Some (new_key, expiry)\<rparr>,
                 [Event ''service_pubkey_rotation_started'' [VBytes new_key, VU64 expiry]]))))"

definition store_revoked_key :: "RevokedKeyRecord \<Rightarrow> key_state \<Rightarrow> key_state" where
  "store_revoked_key r y =
     (let y1 = y\<lparr>revoked_key := (revoked_key y)(rk_fingerprint r \<mapsto> r)\<rparr> in
      if rk_fingerprint r \<in> set (revoked_key_index y1) then y1
      else y1\<lparr>revoked_key_index := revoked_key_index y1 @ [rk_fingerprint r]\<rparr>)"

definition set_revoked_key ::
    "env \<Rightarrow> auth_state \<Rightarrow> address list \<Rightarrow> bytes \<Rightarrow> u64 \<Rightarrow> u32 \<Rightarrow> address \<Rightarrow> key_state \<Rightarrow> key_state op" where
  "set_revoked_key e a signers fingerprint effective_from reason_code authority y =
     admin_guard e signers a
       (let r = unwrap_or (revoked_key y fingerprint)
              \<lparr>rk_fingerprint = fingerprint, rk_effective_from = effective_from,
               rk_reason_code = reason_code, rk_revoking_authority = authority\<rparr>;
            r' = (if effective_from < rk_effective_from r
                  then r\<lparr>rk_effective_from := effective_from, rk_reason_code := reason_code,
                         rk_revoking_authority := authority\<rparr>
                  else r) in
        Inr (store_revoked_key r' y, []))"

definition remove_revoked_key :: "bytes \<Rightarrow> key_state \<Rightarrow> key_state" where
  "remove_revoked_key fingerprint y =
     y\<lparr>revoked_key := (revoked_key y)(fingerprint := None),
       revoked_key_index := remove1 fingerprint (revoked_key_index y)\<rparr>"

definition clear_revoked_key ::
    "env \<Rightarrow> auth_state \<Rightarrow> address list \<Rightarrow> bytes \<Rightarrow> key_state \<Rightarrow> key_state op" where
  "clear_revoked_key e a signers fingerprint y =
     admin_guard e signers a (Inr (remove_revoked_key fingerprint y, []))"

definition set_aggregate_service_pubkey ::
    "env \<Rightarrow> auth_state \<Rightarrow> address list \<Rightarrow> bytes \<Rightarrow> key_state \<Rightarrow> key_state op" where
  "set_aggregate_service_pubkey e a signers pubkey y =
     (if \<not> has_admin a then Inl (Err NotInitialized)
      else if length pubkey \<noteq> 33 \<and> length pubkey \<noteq> 65 then Inl (Err InvalidPubkeyLength)
      else admin_guard e signers a
        (Inr (y\<lparr>aggregate_service_pubkey := Some pubkey\<rparr>,
              [Event ''aggregate_service_pubkey_updated'' [VBytes pubkey]])))"

definition rotate_aggregate_service_pubkey ::
    "env \<Rightarrow> auth_state \<Rightarrow> address list \<Rightarrow> bytes \<Rightarrow> u64 \<Rightarrow> key_state \<Rightarrow> key_state op" where
  "rotate_aggregate_service_pubkey e a signers new_key overlap_secs y =
     (if \<not> has_admin a then Inl (Err NotInitialized)
      else if length new_key \<noteq> 33 \<and> length new_key \<noteq> 65 then Inl (Err InvalidPubkeyLength)
      else if MAX_KEY_OVERLAP_SECS < overlap_secs then Inl (Err InvalidKeyOverlap)
      else admin_guard e signers a
        (let y1 = y\<lparr>pending_aggregate_service_pubkey := None\<rparr> in
         if overlap_secs = 0
         then Inr (y1\<lparr>aggregate_service_pubkey := Some new_key\<rparr>,
                   [Event ''aggregate_service_pubkey_updated'' [VBytes new_key],
                    Event ''aggregate_service_pubkey_rotation_started'' [VBytes new_key, VU64 0]])
         else
           (let expiry = saturating_add (ledger_timestamp e) overlap_secs in
            Inr (y1\<lparr>pending_aggregate_service_pubkey := Some (new_key, expiry)\<rparr>,
                 [Event ''aggregate_service_pubkey_rotation_started'' [VBytes new_key, VU64 expiry]]))))"

section \<open>Digest and signature checks\<close>

definition commitment_preimage :: "env \<Rightarrow> score_claim \<Rightarrow> bytes \<Rightarrow> u32 \<Rightarrow> bytes" where
  "commitment_preimage e c contract_id version =
     addr_str e (sc_wallet c) @ pair_buf (sc_asset_pair c) @ u32_le (sc_score c)
     @ [if sc_benford_flag c then 1 else 0] @ [if sc_ml_flag c then 1 else 0]
     @ u64_le (sc_timestamp c) @ u32_le (sc_confidence c) @ u32_le (sc_model_version c)
     @ addr_str e (current_contract e) @ network_id e @ contract_id @ u32_le version"

definition compute_commitment :: "env \<Rightarrow> score_claim \<Rightarrow> bytes \<Rightarrow> u32 \<Rightarrow> bytes res" where
  "compute_commitment e c contract_id version =
     (if 9 < length (sc_asset_pair c) then Inl (Err InvalidAttestation)
      else Inr (sha256 e (commitment_preimage e c contract_id version)))"

definition key_fingerprint :: "env \<Rightarrow> bytes \<Rightarrow> bytes" where
  "key_fingerprint e key = sha256 e key"

definition is_key_revoked_at :: "env \<Rightarrow> bytes \<Rightarrow> u64 \<Rightarrow> key_state \<Rightarrow> bool" where
  "is_key_revoked_at e key timestamp y =
     (case revoked_key y (key_fingerprint e key) of
        Some r \<Rightarrow> rk_effective_from r \<le> timestamp | None \<Rightarrow> False)"

definition pubkeys_match :: "bytes \<Rightarrow> bytes \<Rightarrow> bool" where
  "pubkeys_match recovered stored =
     (if length stored = 65 then recovered = stored
      else if length stored = 33
      then (if recovered ! 64 mod 2 = 0 then 2 else 3) # take 32 (drop 1 recovered) = stored
      else False)"

definition promote_service_key :: "env \<Rightarrow> key_state \<Rightarrow> key_state" where
  "promote_service_key e y =
     (case pending_service_pubkey y of
        Some (key, expiry) \<Rightarrow>
          if expiry < ledger_timestamp e
          then y\<lparr>service_pubkey := Some key, pending_service_pubkey := None\<rparr> else y
      | None \<Rightarrow> y)"

definition promote_aggregate_key :: "env \<Rightarrow> key_state \<Rightarrow> key_state" where
  "promote_aggregate_key e y =
     (case pending_aggregate_service_pubkey y of
        Some (key, expiry) \<Rightarrow>
          if expiry < ledger_timestamp e
          then y\<lparr>aggregate_service_pubkey := Some key, pending_aggregate_service_pubkey := None\<rparr> else y
      | None \<Rightarrow> y)"

text \<open>The check both signature paths share once the rotation state is resolved.\<close>

definition check_signature ::
    "env \<Rightarrow> bytes option \<Rightarrow> (bytes \<times> u64) option \<Rightarrow> bytes \<Rightarrow> bytes \<Rightarrow> key_state \<Rightarrow> unit res" where
  "check_signature e active pending digest sig y =
     (case active of
        None \<Rightarrow> Inl (Err ServicePubkeyNotSet)
      | Some pubkey \<Rightarrow>
          if is_key_revoked_at e pubkey (ledger_timestamp e) y then Inl (Err InvalidAttestation)
          else if 1 < sig ! 64 then Inl (Err InvalidAttestation)
          else (case secp256k1_recover e digest (take 64 sig) (ucast (sig ! 64)) of
             None \<Rightarrow> Inl Trap
           | Some recovered \<Rightarrow>
               if pubkeys_match recovered pubkey then Inr ()
               else (case pending of
                  None \<Rightarrow> Inl (Err InvalidAttestation)
                | Some (key, expiry) \<Rightarrow>
                    if ledger_timestamp e \<le> expiry \<and> pubkeys_match recovered key
                    then (if is_key_revoked_at e key (ledger_timestamp e) y
                          then Inl (Err InvalidAttestation) else Inr ())
                    else Inl (Err InvalidAttestation))))"

definition verify_signature :: "env \<Rightarrow> bytes \<Rightarrow> bytes \<Rightarrow> key_state \<Rightarrow> key_state res" where
  "verify_signature e digest sig y =
     (let y1 = promote_service_key e y in
      bind_res (check_signature e (service_pubkey y1) (pending_service_pubkey y1) digest sig y1)
        (\<lambda>_. Inr y1))"

definition verify_attestation ::
    "env \<Rightarrow> score_claim \<Rightarrow> ScoreAttestation option \<Rightarrow> key_state \<Rightarrow> key_state res" where
  "verify_attestation e c attestation y =
     (case attestation of
        None \<Rightarrow> Inl (Err InvalidAttestation)
      | Some att \<Rightarrow>
          if sa_contract_version att \<noteq> get_contract_version y then Inl (Err InvalidAttestation)
          else bind_res (compute_commitment e c (sa_contract_id att) (sa_contract_version att)) (\<lambda>digest.
            if digest \<noteq> sa_commitment att then Inl (Err InvalidAttestation)
            else verify_signature e digest (sa_signature att) y))"

definition verify_threshold_attestation ::
    "env \<Rightarrow> score_claim \<Rightarrow> ThresholdAttestation \<Rightarrow> key_state \<Rightarrow> key_state res" where
  "verify_threshold_attestation e c ta y =
     (if ta_contract_version ta \<noteq> get_contract_version y then Inl (Err InvalidAttestation)
      else bind_res (compute_commitment e c (ta_contract_id ta) (ta_contract_version ta)) (\<lambda>digest.
        if digest \<noteq> ta_commitment ta then Inl (Err InvalidAttestation)
        else
          (let y1 = promote_aggregate_key e y in
           bind_res (check_signature e (aggregate_service_pubkey y1)
               (pending_aggregate_service_pubkey y1) digest (ta_threshold_sig ta) y1)
             (\<lambda>_. Inr y1))))"

section \<open>Who may submit\<close>

fun members_loop :: "address list \<Rightarrow> auth_state \<Rightarrow> unit res" where
  "members_loop [] a = Inr ()"
| "members_loop (signer # signers) a =
     (if signer \<notin> set (service_set a) then Inl (Err UnauthorizedSigner) else members_loop signers a)"

fun submit_signers_loop :: "env \<Rightarrow> address list \<Rightarrow> auth_state \<Rightarrow> unit res" where
  "submit_signers_loop e [] a = Inr ()"
| "submit_signers_loop e (signer # signers) a =
     (if signer \<notin> set (service_set a) then Inl (Err UnauthorizedSigner)
      else bind_res (require_auth e signer) (\<lambda>_. submit_signers_loop e signers a))"

definition service_require_auth :: "env \<Rightarrow> auth_state \<Rightarrow> unit res" where
  "service_require_auth e a = bind_res (get_service a) (require_auth e)"

text \<open>The threshold-signature branch and the \<^verbatim>\<open>require_auth\<close> branch of \<^verbatim>\<open>submit_score\<close>.\<close>

definition authorize_threshold ::
    "env \<Rightarrow> score_claim \<Rightarrow> ThresholdAttestation \<Rightarrow> auth_state \<Rightarrow> key_state \<Rightarrow> (auth_state \<times> key_state) res" where
  "authorize_threshold e c ta a y =
     (if aggregate_service_pubkey y = None then Inl (Err ServicePubkeyNotSet)
      else bind_res
        (if service_set a \<noteq> [] \<and> 0 < unat (get_service_threshold a)
         then (if length (ta_participating_signers ta) < unat (get_service_threshold a)
               then Inl (Err InsufficientSigners)
               else members_loop (ta_participating_signers ta) a)
         else Inr ()) (\<lambda>_.
       bind_res (verify_threshold_attestation e c ta y) (\<lambda>y'. Inr (a, y'))))"

definition authorize_signers :: "env \<Rightarrow> address list \<Rightarrow> auth_state \<Rightarrow> unit res" where
  "authorize_signers e signers a =
     (if service_set a \<noteq> [] \<and> 0 < unat (get_service_threshold a) then
        bind_res (if length signers = 1
                  then bind_res (get_service a) (\<lambda>svc. Inr (hd signers = svc)) else Inr False) (\<lambda>is_service.
          if is_service then service_require_auth e a
          else if length signers < unat (get_service_threshold a) then Inl (Err InsufficientSigners)
          else submit_signers_loop e signers a)
      else service_require_auth e a)"

definition check_nonce :: "ScoreAttestation \<Rightarrow> auth_state \<Rightarrow> auth_state res" where
  "check_nonce att a =
     bind_res (get_service a) (\<lambda>svc.
       if unwrap_or (signer_nonce a svc) 0 \<noteq> sa_nonce att then Inl (Err InvalidAttestation)
       else case checked_add (sa_nonce att) 1 of
         None \<Rightarrow> Inl (Err InvalidAttestation)
       | Some next_nonce \<Rightarrow> Inr (a\<lparr>signer_nonce := (signer_nonce a)(svc \<mapsto> next_nonce)\<rparr>))"

definition authorize_score ::
    "env \<Rightarrow> address list \<Rightarrow> score_claim \<Rightarrow> ScoreAttestation option \<Rightarrow> ThresholdAttestation option
       \<Rightarrow> auth_state \<Rightarrow> key_state \<Rightarrow> (auth_state \<times> key_state) res" where
  "authorize_score e signers c attestation threshold_attestation a y =
     (case threshold_attestation of
        Some ta \<Rightarrow> authorize_threshold e c ta a y
      | None \<Rightarrow>
          bind_res (authorize_signers e signers a) (\<lambda>_.
            if service_pubkey y \<noteq> None \<or> attestation \<noteq> None then
              bind_res (verify_attestation e c attestation y) (\<lambda>y'.
                case attestation of
                  None \<Rightarrow> Inr (a, y')
                | Some att \<Rightarrow> bind_res (check_nonce att a) (\<lambda>a'. Inr (a', y')))
            else Inr (a, y)))"

section \<open>The digest covers every field of the claim\<close>

lemma unat_of_char [simp]: "unat (of_char c :: u8) = of_char c"
proof -
  have "(of_char c :: u8) = of_nat (of_char c)"
    by (simp add: of_nat_of_char)
  then show ?thesis
    using nat_of_char_less_256 [of c] by (simp only:) (simp add: unat_of_nat_small)
qed

lemma of_char_u8_inject: "(of_char c :: u8) = of_char d \<longleftrightarrow> c = d"
  by (metis of_char_eq_iff unat_of_char)

definition valid_pair :: "symbol \<Rightarrow> bool" where
  "valid_pair p \<longleftrightarrow> length p \<le> 9 \<and> (\<forall>c\<in>set p. of_char c \<noteq> (0 :: nat))"

lemma length_pair_buf [simp]: "length (pair_buf p) = 9"
  by (simp add: pair_buf_def Let_def)

lemma pair_buf_prefix:
  assumes "valid_pair p"
  shows "takeWhile (\<lambda>b. b \<noteq> 0) (pair_buf p) = map of_char p"
proof -
  have "\<forall>b\<in>set (map of_char p :: u8 list). b \<noteq> 0"
    using assms by (auto simp: valid_pair_def word_unat_eq_iff)
  then have "takeWhile (\<lambda>b. b \<noteq> 0) (map of_char p @ replicate n (0 :: u8)) = map of_char p" for n
    by (subst takeWhile_append2) (auto simp: takeWhile_replicate)
  then show ?thesis
    using assms by (simp add: pair_buf_def valid_pair_def)
qed

lemma pair_buf_inject: "pair_buf p = pair_buf q \<Longrightarrow> valid_pair p \<Longrightarrow> valid_pair q \<Longrightarrow> p = q"
  using pair_buf_prefix [of p] pair_buf_prefix [of q]
  by (metis (no_types, lifting) list.inj_map_strong of_char_u8_inject)

text \<open>What the digest relies on: the text form of an address has 56 bytes, and distinguishes
  the wallets in question.\<close>

definition address_host :: "env \<Rightarrow> address set \<Rightarrow> bool" where
  "address_host e ws \<longleftrightarrow> inj_on (addr_str e) ws \<and> (\<forall>w. length (addr_str e w) = 56)"

lemma preimage_inject:
  assumes "address_host e {sc_wallet c, sc_wallet c'}" "valid_pair (sc_asset_pair c)" "valid_pair (sc_asset_pair c')"
    and "length contract_id = length contract_id'"
    and "commitment_preimage e c contract_id version = commitment_preimage e c' contract_id' version'"
  shows "c = c' \<and> contract_id = contract_id' \<and> version = version'"
proof -
  have len: "length (addr_str e w) = 56" for w
    using assms(1) by (simp add: address_host_def)
  have eq: "addr_str e (sc_wallet c) = addr_str e (sc_wallet c')"
    "pair_buf (sc_asset_pair c) = pair_buf (sc_asset_pair c')"
    "u32_le (sc_score c) = u32_le (sc_score c')"
    "(if sc_benford_flag c then 1 else 0 :: u8) = (if sc_benford_flag c' then 1 else 0)"
    "(if sc_ml_flag c then 1 else 0 :: u8) = (if sc_ml_flag c' then 1 else 0)"
    "u64_le (sc_timestamp c) = u64_le (sc_timestamp c')"
    "u32_le (sc_confidence c) = u32_le (sc_confidence c')"
    "u32_le (sc_model_version c) = u32_le (sc_model_version c')"
    "contract_id = contract_id'" "u32_le version = u32_le version'"
    using assms(4,5) by (simp_all add: commitment_preimage_def len)
  have "inj_on (addr_str e) {sc_wallet c, sc_wallet c'}"
    using assms(1) unfolding address_host_def by (rule conjunct1)
  then have "sc_wallet c = sc_wallet c'"
    by (rule inj_onD [where f = "addr_str e"]) (simp_all only: eq(1) insert_iff simp_thms)
  moreover have "sc_asset_pair c = sc_asset_pair c'"
    using eq(2) assms(2,3) by (rule pair_buf_inject)
  moreover have "sc_benford_flag c = sc_benford_flag c'" "sc_ml_flag c = sc_ml_flag c'"
    using eq(4,5) by (simp_all split: if_splits)
  moreover note eq(3,6,7,8,10) [THEN le_bytes_inject, simplified] eq(9)
  ultimately show ?thesis
    by (cases c, cases c') simp
qed

text \<open>
  The signed message determines the submission: two claims with the same message for one
  contract and network agree in wallet, pair, score, both flags, timestamp, confidence,
  model version, contract id and contract version.
\<close>

theorem commitment_preimage_inject:
  assumes "address_host e {sc_wallet c, sc_wallet c'}" "valid_pair (sc_asset_pair c)" "valid_pair (sc_asset_pair c')"
    and "length contract_id = length contract_id'"
    and "commitment_preimage e c contract_id version = commitment_preimage e c' contract_id' version'"
  shows "c = c' \<and> contract_id = contract_id' \<and> version = version'"
  using assms by (rule preimage_inject)


definition sample_claim :: score_claim where
  "sample_claim = \<lparr>sc_wallet = Addr 7, sc_asset_pair = ''XLM'', sc_score = 40, sc_benford_flag = False,
     sc_ml_flag = True, sc_timestamp = 900, sc_confidence = 80, sc_model_version = 1\<rparr>"

theorem commitment_preimage_inject_witness:
  "commitment_preimage (sample_env 1) sample_claim (replicate 32 1) 5
   \<noteq> commitment_preimage (sample_env 1) (sample_claim\<lparr>sc_wallet := Addr 8, sc_score := 41\<rparr>) (replicate 32 1) 5"
proof -
  have "address_host (sample_env 1) {Addr 7, Addr 8}" "valid_pair ''XLM''"
    by (simp_all add: address_host_def sample_env_def valid_pair_def)
  then show ?thesis
    using commitment_preimage_inject [of "sample_env 1" sample_claim
        "sample_claim\<lparr>sc_wallet := Addr 8, sc_score := 41\<rparr>" "replicate 32 1" "replicate 32 1" 5 5]
    by (auto simp: sample_claim_def)
qed

section \<open>Accepted signatures\<close>

lemma check_signature_ok:
  assumes "check_signature e active pending digest sig y = Inr ()"
  shows "\<exists>recovered key.
    secp256k1_recover e digest (take 64 sig) (ucast (sig ! 64)) = Some recovered \<and>
    pubkeys_match recovered key \<and> \<not> is_key_revoked_at e key (ledger_timestamp e) y \<and>
    (active = Some key \<or> (\<exists>expiry. pending = Some (key, expiry) \<and> ledger_timestamp e \<le> expiry))"
  using assms by (auto simp: check_signature_def split: option.splits if_splits; blast)

text \<open>The key of an accepted signature: the active service key, where a pending key whose
  overlap has ended counts as active, or the pending one within its overlap.\<close>

definition current_service_key :: "env \<Rightarrow> key_state \<Rightarrow> bytes \<Rightarrow> bool" where
  "current_service_key e y key \<longleftrightarrow>
     (case pending_service_pubkey y of
        Some (k, expiry) \<Rightarrow>
          if ledger_timestamp e \<le> expiry then key = k \<or> service_pubkey y = Some key else key = k
      | None \<Rightarrow> service_pubkey y = Some key)"

lemma service_key_of_signature:
  assumes "verify_signature e digest sig y = Inr y'"
  shows "\<exists>recovered key. secp256k1_recover e digest (take 64 sig) (ucast (sig ! 64)) = Some recovered \<and>
    pubkeys_match recovered key \<and> \<not> is_key_revoked_at e key (ledger_timestamp e) y \<and>
    current_service_key e y key"
proof -
  have y1: "is_key_revoked_at e key t (promote_service_key e y) = is_key_revoked_at e key t y" for key t
    by (simp add: promote_service_key_def is_key_revoked_at_def split: option.splits)
  have "check_signature e (service_pubkey (promote_service_key e y))
      (pending_service_pubkey (promote_service_key e y)) digest sig (promote_service_key e y) = Inr ()"
    using assms by (auto simp: verify_signature_def Let_def bind_res_Inr_iff)
  then obtain recovered key where "secp256k1_recover e digest (take 64 sig) (ucast (sig ! 64)) = Some recovered"
    "pubkeys_match recovered key" "\<not> is_key_revoked_at e key (ledger_timestamp e) y"
    "service_pubkey (promote_service_key e y) = Some key \<or>
        (\<exists>expiry. pending_service_pubkey (promote_service_key e y) = Some (key, expiry) \<and>
           ledger_timestamp e \<le> expiry)"
    using check_signature_ok y1 by blast
  then show ?thesis
    by (intro conjI exI [of _ recovered] exI [of _ key])
       (auto simp: promote_service_key_def current_service_key_def split: option.splits if_splits)
qed

text \<open>
  C15: An attestation is accepted only if it carries the digest the contract computes for the
  submitted fields and the current contract version, and the key recovered from its
  signature over that digest is an unrevoked service key: the active one, where a
  pending key whose overlap has ended counts as active, or the pending one within its
  overlap.
\<close>

theorem verify_attestation_sound:
  assumes "verify_attestation e c (Some att) y = Inr y'"
  shows "sa_contract_version att = get_contract_version y \<and>
    compute_commitment e c (sa_contract_id att) (sa_contract_version att) = Inr (sa_commitment att) \<and>
    (\<exists>recovered key.
       secp256k1_recover e (sa_commitment att) (take 64 (sa_signature att)) (ucast (sa_signature att ! 64))
         = Some recovered \<and>
       pubkeys_match recovered key \<and> \<not> is_key_revoked_at e key (ledger_timestamp e) y \<and>
       current_service_key e y key)"
proof -
  have ok: "sa_contract_version att = get_contract_version y"
    "compute_commitment e c (sa_contract_id att) (sa_contract_version att) = Inr (sa_commitment att)"
    and sig: "verify_signature e (sa_commitment att) (sa_signature att) y = Inr y'"
    using assms by (auto simp: verify_attestation_def bind_res_Inr_iff split: if_splits)
  show ?thesis
    using ok service_key_of_signature [OF sig] by blast
qed

lemma no_overflow_succ:
  assumes "x \<noteq> - 1"
  shows "\<not> x + 1 < (x :: 'a::len word)"
proof -
  have "unat x \<noteq> 2 ^ LENGTH('a) - 1"
    using assms by (simp add: word_unat_eq_iff unat_max_word)
  then have "unat x + 1 < 2 ^ LENGTH('a)"
    using unsigned_less [of x, where 'a = nat] by linarith
  then show ?thesis
    by (simp add: word_less_nat_alt unat_word_ariths)
qed

lemma promote_service_key_idem: "promote_service_key e (promote_service_key e y) = promote_service_key e y"
  by (simp add: promote_service_key_def split: option.splits)

lemma promote_service_key_version: "get_contract_version (promote_service_key e y) = get_contract_version y"
  by (simp add: promote_service_key_def get_contract_version_def split: option.splits)

lemma verify_attestation_again:
  assumes "verify_attestation e c (Some att) y = Inr y'"
  shows "y' = promote_service_key e y" "verify_attestation e c (Some (att\<lparr>sa_nonce := n\<rparr>)) y' = Inr y'"
proof -
  show y': "y' = promote_service_key e y"
    using assms by (auto simp: verify_attestation_def verify_signature_def Let_def bind_res_Inr_iff split: if_splits)
  show "verify_attestation e c (Some (att\<lparr>sa_nonce := n\<rparr>)) y' = Inr y'"
    using assms unfolding y'
    by (auto simp: verify_attestation_def verify_signature_def Let_def bind_res_Inr_iff
        promote_service_key_idem promote_service_key_version split: if_splits)
qed

lemma authorize_signers_nonce:
  "authorize_signers e signers (a\<lparr>signer_nonce := m\<rparr>) = authorize_signers e signers a"
proof -
  have "submit_signers_loop e ss (a\<lparr>signer_nonce := m\<rparr>) = submit_signers_loop e ss a" for ss
    by (induction ss) simp_all
  moreover have "get_service (a\<lparr>signer_nonce := m\<rparr>) = get_service a"
    "get_service_threshold (a\<lparr>signer_nonce := m\<rparr>) = get_service_threshold a"
    "service_set (a\<lparr>signer_nonce := m\<rparr>) = service_set a"
    by (simp_all add: get_service_def get_service_threshold_def)
  ultimately show ?thesis
    by (simp only: authorize_signers_def service_require_auth_def)
qed

text \<open>
  The nonce of an attestation is not part of the signed message: if an attested
  submission is accepted and advances the nonce, the same signature with only the nonce
  field raised by one is accepted again from the resulting state.
\<close>

theorem attestation_replay_with_next_nonce:
  assumes "authorize_score e signers c (Some att) None a y = Inr (a', y')"
    and "sa_nonce att + 1 \<noteq> - 1"
  shows "\<exists>a''. authorize_score e signers c (Some (att\<lparr>sa_nonce := sa_nonce att + 1\<rparr>)) None a' y'
    = Inr (a'', y')"
proof -
  have sig: "authorize_signers e signers a = Inr ()" and ver: "verify_attestation e c (Some att) y = Inr y'"
    and nonce: "check_nonce att a = Inr a'"
    using assms(1) by (auto simp: authorize_score_def bind_res_Inr_iff)
  obtain svc n where svc: "service a = Some svc" and n: "checked_add (sa_nonce att) 1 = Some n"
    and upd: "a' = a\<lparr>signer_nonce := (signer_nonce a)(svc \<mapsto> n)\<rparr>"
    using nonce by (auto simp: check_nonce_def bind_res_Inr_iff get_service_def split: option.splits if_splits)
  have a': "a' = a\<lparr>signer_nonce := (signer_nonce a)(svc \<mapsto> sa_nonce att + 1)\<rparr>"
    using n unfolding upd checked_add_def by (simp split: if_splits)
  have next_ok: "checked_add (sa_nonce att + 1) 1 = Some (sa_nonce att + 1 + 1)"
    unfolding checked_add_def using no_overflow_succ [OF assms(2)] by (rule if_not_P)
  have "authorize_signers e signers a' = Inr ()"
    by (simp add: a' authorize_signers_nonce sig)
  moreover have "\<exists>a''. check_nonce (att\<lparr>sa_nonce := sa_nonce att + 1\<rparr>) a' = Inr a''"
    unfolding check_nonce_def by (simp add: a' get_service_def svc next_ok)
  ultimately show ?thesis
    using verify_attestation_again [OF ver] by (auto simp: authorize_score_def)
qed

section \<open>A signed submission\<close>

definition sample_sig_env :: env where
  "sample_sig_env = (sample_env 1)\<lparr>secp256k1_recover := (\<lambda>_ _ _. Some (replicate 65 4))\<rparr>"

definition sample_keys :: key_state where
  "sample_keys = empty_keys\<lparr>service_pubkey := Some (replicate 65 4)\<rparr>"

definition sample_attestation :: ScoreAttestation where
  "sample_attestation = \<lparr>
     sa_commitment = sha256 sample_sig_env (commitment_preimage sample_sig_env sample_claim (replicate 32 1) 5),
     sa_signature = replicate 65 0, sa_contract_id = replicate 32 1, sa_contract_version = 5, sa_nonce = 0\<rparr>"

lemma sample_attestation_verifies:
  "verify_attestation sample_sig_env sample_claim (Some sample_attestation) sample_keys = Inr sample_keys"
proof -
  have "compute_commitment sample_sig_env sample_claim (replicate 32 1) 5 = Inr (sa_commitment sample_attestation)"
    by (simp add: compute_commitment_def sample_attestation_def sample_claim_def)
  moreover have "check_signature sample_sig_env (Some (replicate 65 4)) None d (replicate 65 0) sample_keys = Inr ()" for d
    by (simp add: check_signature_def is_key_revoked_at_def sample_keys_def empty_keys_def
        sample_sig_env_def pubkeys_match_def)
  ultimately show ?thesis
    by (simp add: verify_attestation_def verify_signature_def promote_service_key_def sample_keys_def
        empty_keys_def get_contract_version_def CONTRACT_VERSION_def sample_attestation_def)
qed

theorem verify_attestation_sound_witness:
  "verify_attestation sample_sig_env sample_claim (Some sample_attestation) sample_keys = Inr sample_keys \<and>
   \<not> is_key_revoked_at sample_sig_env (replicate 65 4) 1000 sample_keys"
  using verify_attestation_sound [OF sample_attestation_verifies] sample_attestation_verifies
  by (auto simp: current_service_key_def sample_keys_def empty_keys_def sample_sig_env_def sample_env_def)

lemma sample_authorized:
  "authorize_score sample_sig_env [] sample_claim (Some sample_attestation) None sample_auth sample_keys
   = Inr (sample_auth\<lparr>signer_nonce := [Addr 2 \<mapsto> 1]\<rparr>, sample_keys)"
proof -
  have "authorize_signers sample_sig_env [] sample_auth = Inr ()"
    by (simp add: authorize_signers_def sample_auth_def empty_auth_def service_require_auth_def
        get_service_def require_auth_def sample_sig_env_def sample_env_def)
  moreover have "check_nonce sample_attestation sample_auth = Inr (sample_auth\<lparr>signer_nonce := [Addr 2 \<mapsto> 1]\<rparr>)"
    by (simp add: check_nonce_def sample_auth_def empty_auth_def get_service_def sample_attestation_def
        checked_add_def)
  ultimately show ?thesis
    by (simp add: authorize_score_def sample_attestation_verifies)
qed

theorem attestation_replay_with_next_nonce_witness:
  "\<exists>a''. authorize_score sample_sig_env [] sample_claim (Some (sample_attestation\<lparr>sa_nonce := 1\<rparr>)) None
     (sample_auth\<lparr>signer_nonce := [Addr 2 \<mapsto> 1]\<rparr>) sample_keys = Inr (a'', sample_keys)"
  using attestation_replay_with_next_nonce [OF sample_authorized]
  by (simp add: sample_attestation_def)

end
