(* ===== verification/Model_Registry.thy ===== *)
theory Model_Registry
  imports Auth
begin

text \<open>
  The registry of model versions a score may name: proposal behind a time lock,
  activation, direct registration and deprecation (\<^verbatim>\<open>lib.rs\<close> 11008--11207,
  \<^verbatim>\<open>storage.rs\<close> 2326--2389).  The delay of the time lock is the contract's upgrade
  delay.
\<close>

datatype ModelVersionStatus = Proposed | Active | Deprecated

record models =
  all_model_versions :: "u32 list"
  model_version_status :: "u32 \<Rightarrow> ModelVersionStatus option"
  model_version_executable_after :: "u32 \<Rightarrow> u64 option"
  model_version_description :: "u32 \<Rightarrow> bytes option"

definition MAX_MODEL_VERSIONS :: nat where "MAX_MODEL_VERSIONS = 20"

definition empty_models :: models where
  "empty_models = \<lparr>all_model_versions = [], model_version_status = (\<lambda>_. None),
     model_version_executable_after = (\<lambda>_. None), model_version_description = (\<lambda>_. None)\<rparr>"

definition get_model_version_status :: "u32 \<Rightarrow> models \<Rightarrow> ModelVersionStatus option" where
  "get_model_version_status v r =
     (if v \<notin> set (all_model_versions r) then None
      else case model_version_status r v of Some status \<Rightarrow> Some status | None \<Rightarrow> Some Active)"

definition set_model_version_status :: "u32 \<Rightarrow> ModelVersionStatus \<Rightarrow> models \<Rightarrow> models" where
  "set_model_version_status v status r =
     r\<lparr>model_version_status := (model_version_status r)(v \<mapsto> status)\<rparr>"

definition get_model_version_executable_after :: "u32 \<Rightarrow> models \<Rightarrow> u64" where
  "get_model_version_executable_after v r = unwrap_or (model_version_executable_after r v) 0"

definition is_model_version_active :: "u32 \<Rightarrow> models \<Rightarrow> bool" where
  "is_model_version_active v r = (get_model_version_status v r = Some Active)"

definition get_model_versions :: "models \<Rightarrow> (u32 \<times> bool) list" where
  "get_model_versions r = map (\<lambda>v. (v, is_model_version_active v r)) (all_model_versions r)"

section \<open>Operations\<close>

definition propose_model_version ::
    "env \<Rightarrow> auth_state \<Rightarrow> u64 \<Rightarrow> address list \<Rightarrow> u32 \<Rightarrow> bytes \<Rightarrow> models \<Rightarrow> models op" where
  "propose_model_version e a delay signers v description r =
     admin_guard e signers a
       (if v \<in> set (all_model_versions r) then Inl (Err ModelVersionAlreadyRegistered)
        else if MAX_MODEL_VERSIONS \<le> length (all_model_versions r) then Inl (Err ServiceSetFull)
        else
          (let executable_after = saturating_add (ledger_timestamp e) delay;
               r1 = set_model_version_status v Proposed
                 (r\<lparr>all_model_versions := all_model_versions r @ [v]\<rparr>) in
           Inr (r1\<lparr>model_version_executable_after :=
                   (model_version_executable_after r1)(v \<mapsto> executable_after),
                 model_version_description := (model_version_description r1)(v \<mapsto> description)\<rparr>,
                [Event ''model_version_proposed'' [VU32 v, VU64 executable_after]])))"

definition approve_model_version ::
    "env \<Rightarrow> auth_state \<Rightarrow> address list \<Rightarrow> u32 \<Rightarrow> models \<Rightarrow> models op" where
  "approve_model_version e a signers v r =
     admin_guard e signers a
       (case get_model_version_status v r of
          None \<Rightarrow> Inl (Err ScoreNotFound)
        | Some Proposed \<Rightarrow>
            if ledger_timestamp e < get_model_version_executable_after v r then Inl (Err UpgradeNotReady)
            else Inr (set_model_version_status v Active r, [Event ''model_version_activated'' [VU32 v]])
        | Some Active \<Rightarrow> Inl (Err AlreadyInitialized)
        | Some Deprecated \<Rightarrow> Inl (Err ModelVersionDeprecated))"

definition register_model_version ::
    "env \<Rightarrow> auth_state \<Rightarrow> address list \<Rightarrow> u32 \<Rightarrow> models \<Rightarrow> models op" where
  "register_model_version e a signers v r =
     admin_guard e signers a
       (if v \<in> set (all_model_versions r) then Inl (Err ModelVersionAlreadyRegistered)
        else if MAX_MODEL_VERSIONS \<le> length (all_model_versions r) then Inl (Err ServiceSetFull)
        else Inr (set_model_version_status v Active
                   (r\<lparr>all_model_versions := all_model_versions r @ [v]\<rparr>),
                  [Event ''model_version_registered'' [VU32 v]]))"

definition deprecate_model_version ::
    "env \<Rightarrow> auth_state \<Rightarrow> address list \<Rightarrow> u32 \<Rightarrow> models \<Rightarrow> models op" where
  "deprecate_model_version e a signers v r =
     admin_guard e signers a
       (case get_model_version_status v r of
          None \<Rightarrow> Inl (Err ScoreNotFound)
        | Some status \<Rightarrow>
            if status = Deprecated then Inl (Err AlreadyInitialized)
            else Inr (set_model_version_status v Deprecated r,
                      [Event ''model_version_deprecated'' [VU32 v]]))"

fun deregister_each :: "u32 list \<Rightarrow> models \<Rightarrow> models op" where
  "deregister_each [] r = Inr (r, [])"
| "deregister_each (v # vs) r =
     (case get_model_version_status v r of
        None \<Rightarrow> Inl (Err ScoreNotFound)
      | Some status \<Rightarrow>
          if status = Deprecated then deregister_each vs r
          else bind_res (deregister_each vs (set_model_version_status v Deprecated r)) (\<lambda>(r', evs).
            Inr (r', Event ''model_version_deprecated'' [VU32 v] # evs)))"

definition bulk_deregister_model_version ::
    "env \<Rightarrow> auth_state \<Rightarrow> address list \<Rightarrow> u32 list \<Rightarrow> models \<Rightarrow> models op" where
  "bulk_deregister_model_version e a signers vs r = admin_guard e signers a (deregister_each vs r)"

section \<open>Life cycle\<close>

inductive models_step :: "env \<Rightarrow> auth_state \<Rightarrow> models \<Rightarrow> models \<Rightarrow> bool" for e a r where
  propose: "propose_model_version e a delay signers v d r = Inr (r', evs) \<Longrightarrow> models_step e a r r'"
| approve: "approve_model_version e a signers v r = Inr (r', evs) \<Longrightarrow> models_step e a r r'"
| register: "register_model_version e a signers v r = Inr (r', evs) \<Longrightarrow> models_step e a r r'"
| deprecate: "deprecate_model_version e a signers v r = Inr (r', evs) \<Longrightarrow> models_step e a r r'"
| bulk: "bulk_deregister_model_version e a signers vs r = Inr (r', evs) \<Longrightarrow> models_step e a r r'"

definition allowed_change ::
    "env \<Rightarrow> u32 \<Rightarrow> models \<Rightarrow> ModelVersionStatus option \<Rightarrow> ModelVersionStatus option \<Rightarrow> bool" where
  "allowed_change e v r old new \<longleftrightarrow>
     new = old \<or> old = None \<and> (new = Some Proposed \<or> new = Some Active) \<or>
     old = Some Proposed \<and> new = Some Active \<and>
       get_model_version_executable_after v r \<le> ledger_timestamp e \<or>
     (old = Some Proposed \<or> old = Some Active) \<and> new = Some Deprecated"

lemma status_set [simp]:
  "get_model_version_status v (set_model_version_status w st r) =
     (if v = w \<and> v \<in> set (all_model_versions r) then Some st else get_model_version_status v r)"
  "all_model_versions (set_model_version_status w st r) = all_model_versions r"
  by (simp_all add: get_model_version_status_def set_model_version_status_def)

lemma status_append:
  "get_model_version_status v (r\<lparr>all_model_versions := all_model_versions r @ [w]\<rparr>) =
     (if v = w \<and> v \<notin> set (all_model_versions r)
      then Some (unwrap_or (model_version_status r v) Active) else get_model_version_status v r)"
  by (auto simp: get_model_version_status_def unwrap_or_def split: option.splits)

lemma status_other_fields [simp]:
  "get_model_version_status v (r\<lparr>model_version_executable_after := x\<rparr>) = get_model_version_status v r"
  "get_model_version_status v (r\<lparr>model_version_description := d\<rparr>) = get_model_version_status v r"
  by (simp_all add: get_model_version_status_def)

lemma deregister_each_status:
  "deregister_each vs r = Inr (r', evs) \<Longrightarrow>
   all_model_versions r' = all_model_versions r \<and>
   get_model_version_status v r' =
     (if v \<in> set vs then Some Deprecated else get_model_version_status v r)"
proof (induction vs arbitrary: r evs)
  case (Cons w vs)
  then obtain st where st: "get_model_version_status w r = Some st"
    by (auto split: option.splits)
  then have w: "w \<in> set (all_model_versions r)"
    by (auto simp: get_model_version_status_def split: if_splits)
  show ?case
  proof (cases "st = Deprecated")
    case True
    then show ?thesis
      using Cons.IH [of r] Cons.prems st by auto
  next
    case False
    then obtain evs' where
      "deregister_each vs (set_model_version_status w Deprecated r) = Inr (r', evs')"
      using Cons.prems st by (auto simp: bind_res_Inr_iff)
    from Cons.IH [OF this] show ?thesis
      using w by auto
  qed
qed simp


lemma deregister_each_known:
  "deregister_each vs r = Inr (r', evs) \<Longrightarrow> v \<in> set vs \<Longrightarrow> get_model_version_status v r \<noteq> None"
proof (induction vs arbitrary: r evs)
  case (Cons w vs)
  show ?case
  proof (cases "v = w")
    case True
    then show ?thesis
      using Cons.prems(1) by (auto split: option.splits)
  next
    case False
    then have v: "v \<in> set vs"
      using Cons.prems(2) by simp
    from Cons.prems(1) consider evs' where "deregister_each vs r = Inr (r', evs')"
      | evs' where "deregister_each vs (set_model_version_status w Deprecated r) = Inr (r', evs')"
      by (auto simp: bind_res_Inr_iff split: option.splits if_splits)
    then show ?thesis
      using Cons.IH v False by cases fastforce+
  qed
qed simp

text \<open>
  C18: A registry operation succeeds only with the authorization of an admin quorum, and it
  changes the status of a version only forward: an unknown version becomes proposed or
  active, a proposed one becomes active once its time lock has elapsed, a proposed or
  active one becomes deprecated, and a deprecated one stays deprecated.
\<close>

theorem model_version_lifecycle:
  assumes "models_step e a r r'"
  shows "(\<exists>signers. require_admin_auth e signers a = Inr ()) \<and>
    allowed_change e v r (get_model_version_status v r) (get_model_version_status v r')"
  using assms
proof (cases rule: models_step.cases)
  case (propose delay signers w d evs)
  note op = propose [unfolded propose_model_version_def]
  have "get_model_version_status v r' = (if v = w then Some Proposed else get_model_version_status v r)"
    "get_model_version_status w r = None"
    using guard_InrD(1) [OF op]
    by (auto simp: Let_def status_append get_model_version_status_def [of w r] split: if_splits)
  then show ?thesis
    using guard_InrD(3) [OF op] by (auto simp: allowed_change_def)
next
  case (approve signers w evs)
  note op = approve [unfolded approve_model_version_def]
  have "get_model_version_status w r = Some Proposed"
    "get_model_version_executable_after w r \<le> ledger_timestamp e" "r' = set_model_version_status w Active r"
    using guard_InrD(1) [OF op] by (auto split: option.splits ModelVersionStatus.splits if_splits)
  then show ?thesis
    using guard_InrD(3) [OF op] by (auto simp: allowed_change_def)
next
  case (register signers w evs)
  note op = register [unfolded register_model_version_def]
  have "get_model_version_status v r' = (if v = w then Some Active else get_model_version_status v r)"
    "get_model_version_status w r = None"
    using guard_InrD(1) [OF op]
    by (auto simp: status_append get_model_version_status_def [of w r] split: if_splits)
  then show ?thesis
    using guard_InrD(3) [OF op] by (auto simp: allowed_change_def)
next
  case (deprecate signers w evs)
  note op = deprecate [unfolded deprecate_model_version_def]
  have "get_model_version_status w r \<noteq> None" "r' = set_model_version_status w Deprecated r"
    using guard_InrD(1) [OF op] by (auto split: option.splits if_splits)
  then show ?thesis
    using guard_InrD(3) [OF op]
    by (auto simp: allowed_change_def) (metis ModelVersionStatus.exhaust)
next
  case (bulk signers vs evs)
  note op = bulk [unfolded bulk_deregister_model_version_def]
  have "v \<in> set vs \<Longrightarrow> get_model_version_status v r \<noteq> None"
    using deregister_each_known guard_InrD(1) [OF op] by blast
  then show ?thesis
    using deregister_each_status [OF guard_InrD(1) [OF op], of v] guard_InrD(3) [OF op]
    by (auto simp: allowed_change_def) (metis ModelVersionStatus.exhaust)
qed

lemma sample_propose:
  "\<exists>r. propose_model_version (sample_env 1) sample_auth 100 [Addr 1] 7 [] empty_models = Inr (r, 
     [Event ''model_version_proposed'' [VU32 7, VU64 1100]])"
  by (simp add: propose_model_version_def empty_models_def MAX_MODEL_VERSIONS_def Let_def
      saturating_add_def)

theorem model_version_lifecycle_witness:
  "\<exists>r. models_step (sample_env 1) sample_auth empty_models r \<and>
     allowed_change (sample_env 1) 7 empty_models (get_model_version_status 7 empty_models)
       (get_model_version_status 7 r)"
  using sample_propose model_version_lifecycle models_step.propose by metis

end
