(* ===== verification/Score_Stats.thy ===== *)
theory Score_Stats
  imports Auth
begin

text \<open>
  Counters and sketches the write path keeps beside the scores: submissions per wallet
  and pair, per pair and per model version, the number of wallet-pair combinations ever
  scored, the HyperLogLog sketch of unique wallets per pair and the service heartbeat
  (\<^verbatim>\<open>storage.rs\<close> 1004--1033, 1195--1274, 1337--1349, 2205--2241, 2679--2714 and
  \<^verbatim>\<open>lib.rs\<close> 1236--1255, 11215--11253).  Plain additions trap on overflow.  The
  floating-point cardinality estimate is not modelled.
\<close>

record ModelVersionStats =
  ms_model_version :: u32
  ms_submission_count :: u32
  ms_score_sum :: u64
  ms_total_submissions :: u64
  ms_average_score :: u32

record HllSketch =
  hll_sketch_precision :: u32
  hll_registers :: "u32 list"

record stats =
  score_count :: "pair_key \<Rightarrow> u32 option"
  pair_score_count :: "symbol \<Rightarrow> u64 option"
  total_wallets_scored :: "u64 option"
  model_stats :: "u32 \<Rightarrow> ModelVersionStats option"
  model_version_index :: "u32 list"
  unique_wallets_hll :: "symbol \<Rightarrow> HllSketch option"
  hll_precision :: "u32 option"
  last_service_activity_at :: "u64 option"
  heartbeat_alert_threshold :: "u64 option"
  silent_alert_emitted :: "bool option"

definition HLL_MIN_PRECISION :: u32 where "HLL_MIN_PRECISION = 4"
definition HLL_MAX_PRECISION :: u32 where "HLL_MAX_PRECISION = 16"
definition HLL_DEFAULT_PRECISION :: u32 where "HLL_DEFAULT_PRECISION = 8"
definition DEFAULT_HEARTBEAT_ALERT_THRESHOLD_SECS :: u64 where
  "DEFAULT_HEARTBEAT_ALERT_THRESHOLD_SECS = 3600"
definition MAX_MODEL_STATS :: nat where "MAX_MODEL_STATS = 20"

definition empty_stats :: stats where
  "empty_stats = \<lparr>score_count = (\<lambda>_. None), pair_score_count = (\<lambda>_. None),
     total_wallets_scored = None, model_stats = (\<lambda>_. None), model_version_index = [],
     unique_wallets_hll = (\<lambda>_. None), hll_precision = None, last_service_activity_at = None,
     heartbeat_alert_threshold = None, silent_alert_emitted = None\<rparr>"

section \<open>Counters\<close>

definition plus_one :: "'a::len word option \<Rightarrow> 'a word res" where
  "plus_one c = (case checked_add (unwrap_or c 0) 1 of Some n \<Rightarrow> Inr n | None \<Rightarrow> Inl Trap)"

definition get_score_count :: "pair_key \<Rightarrow> stats \<Rightarrow> u32" where
  "get_score_count k t = unwrap_or (score_count t k) 0"

definition increment_score_count :: "pair_key \<Rightarrow> stats \<Rightarrow> stats res" where
  "increment_score_count k t =
     bind_res (plus_one (score_count t k)) (\<lambda>n. Inr (t\<lparr>score_count := (score_count t)(k \<mapsto> n)\<rparr>))"

definition get_pair_score_count :: "symbol \<Rightarrow> stats \<Rightarrow> u64" where
  "get_pair_score_count p t = unwrap_or (pair_score_count t p) 0"

definition increment_pair_score_count :: "symbol \<Rightarrow> stats \<Rightarrow> stats res" where
  "increment_pair_score_count p t =
     bind_res (plus_one (pair_score_count t p)) (\<lambda>n.
       Inr (t\<lparr>pair_score_count := (pair_score_count t)(p \<mapsto> n)\<rparr>))"

definition get_total_wallets_scored :: "stats \<Rightarrow> u64" where
  "get_total_wallets_scored t = unwrap_or (total_wallets_scored t) 0"

definition increment_total_wallets_scored :: "stats \<Rightarrow> stats res" where
  "increment_total_wallets_scored t =
     bind_res (plus_one (total_wallets_scored t)) (\<lambda>n. Inr (t\<lparr>total_wallets_scored := Some n\<rparr>))"

definition update_model_stats :: "u32 \<Rightarrow> u32 \<Rightarrow> stats \<Rightarrow> stats res" where
  "update_model_stats v score t =
     (let st = unwrap_or (model_stats t v)
            \<lparr>ms_model_version = v, ms_submission_count = 0, ms_score_sum = 0,
             ms_total_submissions = 0, ms_average_score = 0\<rparr> in
      case (checked_add (ms_submission_count st) 1, checked_add (ms_score_sum st) (ucast score)) of
        (Some n, Some new_sum) \<Rightarrow>
          (let t1 = t\<lparr>model_stats := (model_stats t)
                 (v \<mapsto> st\<lparr>ms_submission_count := n, ms_score_sum := new_sum\<rparr>)\<rparr> in
           Inr (if v \<notin> set (model_version_index t1) \<and> length (model_version_index t1) < MAX_MODEL_STATS
                then t1\<lparr>model_version_index := model_version_index t1 @ [v]\<rparr> else t1))
      | _ \<Rightarrow> Inl Trap)"

section \<open>HyperLogLog sketch\<close>

definition get_hll_precision :: "stats \<Rightarrow> u32" where
  "get_hll_precision t = unwrap_or (hll_precision t) HLL_DEFAULT_PRECISION"

definition set_hll_precision ::
    "env \<Rightarrow> auth_state \<Rightarrow> address list \<Rightarrow> u32 \<Rightarrow> stats \<Rightarrow> stats op" where
  "set_hll_precision e a signers precision t =
     (if \<not> has_admin a then Inl (Err NotInitialized)
      else if \<not> (HLL_MIN_PRECISION \<le> precision \<and> precision \<le> HLL_MAX_PRECISION)
      then Inl (Err InvalidThreshold)
      else admin_guard e signers a (Inr (t\<lparr>hll_precision := Some precision\<rparr>, [])))"

definition hll_new_sketch :: "u32 \<Rightarrow> HllSketch" where
  "hll_new_sketch precision =
     \<lparr>hll_sketch_precision = precision, hll_registers = replicate (2 ^ unat precision) 0\<rparr>"

definition hll_hash_wallet :: "env \<Rightarrow> address \<Rightarrow> bytes" where
  "hll_hash_wallet e w = sha256 e (take 56 (addr_str e w))"

text \<open>Bit \<open>i\<close> of a digest, counted from the most significant bit of its first byte.\<close>

definition hash_bit :: "bytes \<Rightarrow> nat \<Rightarrow> bool" where
  "hash_bit hash i = bit (hash ! (i div 8)) (7 - i mod 8)"

fun hll_index_loop :: "bytes \<Rightarrow> nat \<Rightarrow> nat list \<Rightarrow> nat" where
  "hll_index_loop hash index [] = index"
| "hll_index_loop hash index (i # is) =
     hll_index_loop hash (2 * index + (if hash_bit hash i then 1 else 0)) is"

definition hll_register_index :: "bytes \<Rightarrow> u32 \<Rightarrow> nat" where
  "hll_register_index hash precision = hll_index_loop hash 0 [0..<unat precision]"

fun hll_rho_loop :: "bytes \<Rightarrow> u32 \<Rightarrow> nat list \<Rightarrow> u32" where
  "hll_rho_loop hash count [] = count"
| "hll_rho_loop hash count (i # is) =
     (if hash_bit hash i then count else hll_rho_loop hash (saturating_add count 1) is)"

definition hll_rho :: "bytes \<Rightarrow> u32 \<Rightarrow> u32" where
  "hll_rho hash precision = hll_rho_loop hash 1 [unat precision..<256]"

definition hll_update :: "env \<Rightarrow> symbol \<Rightarrow> address \<Rightarrow> stats \<Rightarrow> stats" where
  "hll_update e p w t =
     (let sketch = unwrap_or (unique_wallets_hll t p) (hll_new_sketch (get_hll_precision t));
          hash = hll_hash_wallet e w;
          idx = hll_register_index hash (hll_sketch_precision sketch);
          rank = hll_rho hash (hll_sketch_precision sketch) in
      if idx < length (hll_registers sketch) \<and> hll_registers sketch ! idx < rank
      then t\<lparr>unique_wallets_hll := (unique_wallets_hll t)
             (p \<mapsto> sketch\<lparr>hll_registers := (hll_registers sketch)[idx := rank]\<rparr>)\<rparr>
      else t)"

section \<open>Service heartbeat\<close>

definition get_last_service_activity :: "stats \<Rightarrow> u64" where
  "get_last_service_activity t = unwrap_or (last_service_activity_at t) 0"

definition get_heartbeat_alert_threshold :: "stats \<Rightarrow> u64" where
  "get_heartbeat_alert_threshold t =
     unwrap_or (heartbeat_alert_threshold t) DEFAULT_HEARTBEAT_ALERT_THRESHOLD_SECS"

definition is_silent_alert_emitted :: "stats \<Rightarrow> bool" where
  "is_silent_alert_emitted t = unwrap_or (silent_alert_emitted t) False"

definition record_service_activity :: "env \<Rightarrow> stats \<Rightarrow> stats \<times> event list" where
  "record_service_activity e t =
     (let now = ledger_timestamp e;
          last = get_last_service_activity t;
          (t1, evs) =
            (if is_silent_alert_emitted t
             then (t\<lparr>silent_alert_emitted := None\<rparr>,
                   [Event ''service_resumed'' [VU64 last, VU64 (saturating_sub now last)]])
             else (t, [])) in
      (t1\<lparr>last_service_activity_at := Some now\<rparr>, evs))"

definition check_service_silence :: "env \<Rightarrow> stats \<Rightarrow> stats \<times> event list" where
  "check_service_silence e t =
     (if is_silent_alert_emitted t then (t, [])
      else
        (let last = get_last_service_activity t;
             silent_secs = saturating_sub (ledger_timestamp e) last;
             threshold_secs = get_heartbeat_alert_threshold t in
         if last = 0 then (t, [])
         else if threshold_secs < silent_secs
         then (t\<lparr>silent_alert_emitted := Some True\<rparr>,
               [Event ''service_silence_alert'' [VU64 last, VU64 silent_secs, VU64 threshold_secs]])
         else (t, [])))"


section \<open>The sketch depends only on the set of wallets\<close>

lemma hll_index_loop_lt: "hll_index_loop hash index is < (index + 1) * 2 ^ length is"
proof (induction "is" arbitrary: index)
  case (Cons i "is")
  have "2 * index + (if hash_bit hash i then 1 else 0) + 1 \<le> 2 * (index + 1)"
    by simp
  then have "(2 * index + (if hash_bit hash i then 1 else 0) + 1) * 2 ^ length is
      \<le> 2 * (index + 1) * 2 ^ length is"
    by (rule mult_le_mono1)
  then have "hll_index_loop hash index (i # is) < 2 * (index + 1) * 2 ^ length is"
    using Cons.IH [of "2 * index + (if hash_bit hash i then 1 else 0)"]
    by (simp only: hll_index_loop.simps)
  then show ?case
    by (simp add: algebra_simps)
qed simp

lemma hll_register_index_lt: "hll_register_index hash precision < 2 ^ unat precision"
  using hll_index_loop_lt [of hash 0 "[0..<unat precision]"] by (simp add: hll_register_index_def)

lemma hll_rho_loop_ge: "count \<le> hll_rho_loop hash count is"
  by (induction "is" arbitrary: count) (auto intro: order_trans [OF saturating_add_ge])

lemma hll_rho_pos: "0 < hll_rho hash precision"
  using hll_rho_loop_ge [of 1 hash "[unat precision..<256]"]
  by (simp add: hll_rho_def word_gt_0) (metis word_le_0_iff zero_neq_one)

definition hll_sketch_of :: "symbol \<Rightarrow> stats \<Rightarrow> HllSketch" where
  "hll_sketch_of p t = unwrap_or (unique_wallets_hll t p) (hll_new_sketch (get_hll_precision t))"

definition hll_insert :: "bytes \<Rightarrow> HllSketch \<Rightarrow> HllSketch" where
  "hll_insert hash s =
     (let idx = hll_register_index hash (hll_sketch_precision s) in
      s\<lparr>hll_registers := (hll_registers s)
          [idx := max (hll_registers s ! idx) (hll_rho hash (hll_sketch_precision s))]\<rparr>)"

lemma hll_update_insert:
  "hll_update e p w t = t\<lparr>unique_wallets_hll :=
     (unique_wallets_hll t)(p \<mapsto> hll_insert (hll_hash_wallet e w) (hll_sketch_of p t))\<rparr>"
proof -
  define s where "s = hll_sketch_of p t"
  define idx where "idx = hll_register_index (hll_hash_wallet e w) (hll_sketch_precision s)"
  define rank where "rank = hll_rho (hll_hash_wallet e w) (hll_sketch_precision s)"
  have upd: "hll_update e p w t =
      (if idx < length (hll_registers s) \<and> hll_registers s ! idx < rank
       then t\<lparr>unique_wallets_hll := (unique_wallets_hll t)
             (p \<mapsto> s\<lparr>hll_registers := (hll_registers s)[idx := rank]\<rparr>)\<rparr> else t)"
    by (simp add: hll_update_def Let_def s_def idx_def rank_def hll_sketch_of_def)
  have ins: "hll_insert (hll_hash_wallet e w) s
      = s\<lparr>hll_registers := (hll_registers s)[idx := max (hll_registers s ! idx) rank]\<rparr>"
    by (simp add: hll_insert_def Let_def idx_def rank_def)
  show ?thesis
  proof (cases "idx < length (hll_registers s) \<and> hll_registers s ! idx < rank")
    case True
    then have "max (hll_registers s ! idx) rank = rank"
      by (simp add: max_absorb2 order_less_imp_le)
    then show ?thesis
      using upd ins True by (simp add: s_def [symmetric])
  next
    case False
    have "unique_wallets_hll t p = Some s"
    proof (rule ccontr)
      assume "unique_wallets_hll t p \<noteq> Some s"
      then have "s = hll_new_sketch (get_hll_precision t)"
        by (cases "unique_wallets_hll t p") (simp_all add: s_def hll_sketch_of_def)
      then show False
        using False hll_register_index_lt hll_rho_pos
        by (simp add: idx_def rank_def hll_new_sketch_def)
    qed
    moreover have "hll_insert (hll_hash_wallet e w) s = s"
      using False ins
      by (cases "idx < length (hll_registers s)") (simp_all add: max_absorb1 not_less list_update_beyond)
    ultimately show ?thesis
      using upd False by (simp add: s_def [symmetric] fun_upd_idem)
  qed
qed

lemma hll_insert_precision [simp]: "hll_sketch_precision (hll_insert h s) = hll_sketch_precision s"
  by (simp add: hll_insert_def Let_def)

lemma list_update_max_swap:
  fixes xs :: "'a::linorder list"
  shows "(xs[i := max (xs ! i) a])[j := max (xs[i := max (xs ! i) a] ! j) b]
   = (xs[j := max (xs ! j) b])[i := max (xs[j := max (xs ! j) b] ! i) a]"
proof (cases "i = j \<or> length xs \<le> i \<or> length xs \<le> j")
  case True
  then show ?thesis
    by (cases "i < length xs") (auto simp: list_update_beyond ac_simps)
next
  case False
  then show ?thesis
    by (simp add: list_update_swap)
qed

lemma hll_insert_commute: "hll_insert g (hll_insert h s) = hll_insert h (hll_insert g s)"
  by (simp add: hll_insert_def Let_def)
     (rule arg_cong [where f = "\<lambda>rs. s\<lparr>hll_registers := rs\<rparr>"], rule list_update_max_swap)

lemma hll_insert_idem: "hll_insert h (hll_insert h s) = hll_insert h s"
  by (cases "hll_register_index h (hll_sketch_precision s) < length (hll_registers s)")
     (simp_all add: hll_insert_def Let_def list_update_beyond not_less)

lemma hll_sketch_after [simp]: "hll_sketch_of p (t\<lparr>unique_wallets_hll := m(p \<mapsto> s)\<rparr>) = s"
  by (simp add: hll_sketch_of_def)

lemma hll_update_idem: "comp_fun_idem_on UNIV (hll_update e p)"
  by unfold_locales
     (rule ext, simp add: hll_update_insert hll_insert_commute hll_insert_idem)+

text \<open>
  The unique-wallet sketch of a pair depends only on which wallets were recorded:
  recording wallets in another order, or some of them again, gives the same state.
\<close>

theorem hll_depends_on_set:
  assumes "set ws = set ws'"
  shows "fold (hll_update e p) ws t = fold (hll_update e p) ws' t"
proof -
  have "Finite_Set.fold (hll_update e p) t (set us) = fold (hll_update e p) us t" for us
    by (rule comp_fun_idem_on.fold_set_fold [OF hll_update_idem]) simp
  then show ?thesis
    using assms by metis
qed

theorem hll_depends_on_set_witness:
  "fold (hll_update (sample_env 1) ''XLM'') [Addr 1, Addr 2, Addr 1] empty_stats
   = fold (hll_update (sample_env 1) ''XLM'') [Addr 2, Addr 1] empty_stats"
  by (rule hll_depends_on_set) auto

end
