(* ===== verification/Submission.thy ===== *)
theory Submission
  imports Risk_Monitor Rate_Limit History Delegation Attestation Model_Registry Score_Stats
begin

text \<open>
  The write path of the score contract: \<^verbatim>\<open>submit_score\<close> with its guards, the shared
  finalization with the flash-loan check and the finality buffer, the rate-limited write,
  the commit and cancellation of pending scores, batch submission and score deletion
  (\<^verbatim>\<open>lib.rs\<close> 498--761, 966--1214, 1678--1906, 3042--3050, 9864--9985, 11811--12108).
  The contract's state is the record of the components' states and the keys that only the
  write path uses.
\<close>

record PendingScoreEntry =
  ps_score :: u32
  ps_benford_flag :: bool
  ps_ml_flag :: bool
  ps_submitted_at :: u64
  ps_confidence :: u32
  ps_model_version :: u32
  ps_timestamp :: u64
  ps_commit_after :: u64
  ps_submitted_by :: address
  ps_commitment :: "bytes option"

record SubmissionProvenance =
  pv_model_version :: u32
  pv_service_threshold :: u32
  pv_signers_count :: u32
  pv_score_floor_enabled :: bool
  pv_score_floor_high_water_mark :: u32
  pv_score_floor_value :: u32
  pv_cooldown_secs :: u64
  pv_epoch_id :: u32
  pv_ledger_sequence :: u32
  pv_submitted_at :: u64
  pv_validation_branch :: symbol

record NormalizedSubmission =
  ns_wallet :: address
  ns_asset_pair :: symbol
  ns_score :: u32
  ns_benford_flag :: bool
  ns_ml_flag :: bool
  ns_timestamp :: u64
  ns_confidence :: u32
  ns_model_version :: u32
  ns_commitment :: "bytes option"

datatype FlashProtectionMode = Warn | Reject

record contract =
  c_auth :: auth_state
  c_keys :: key_state
  c_models :: models
  c_store :: score_store
  c_history :: history_store
  c_limits :: limits
  c_monitor :: monitor
  c_portfolio :: portfolio
  c_stats :: stats
  c_verkle :: verkle_state
  c_embargo :: embargo_state
  c_delegates :: delegates
  score_submission_ledger :: "pair_key \<Rightarrow> u32 option"
  submission_provenance :: "pair_key \<Rightarrow> SubmissionProvenance option"
  last_global_submission_time :: "u64 option"
  pending_score :: "pair_key \<Rightarrow> PendingScoreEntry option"
  finality_buffer_secs :: "u64 option"
  gate_read_ledger :: "pair_key \<Rightarrow> u32 option"
  flash_protection_mode :: "FlashProtectionMode option"
  score_hook_dispatching :: "bool option"
  adaptive_threshold_enabled :: "bool option"
  last_computed_threshold :: "u32 option"

definition MAX_FINALITY_BUFFER_SECS :: u64 where "MAX_FINALITY_BUFFER_SECS = 86400"

definition empty_contract :: contract where
  "empty_contract = \<lparr>c_auth = empty_auth, c_keys = empty_keys, c_models = empty_models,
     c_store = empty_score_store, c_history = empty_history_store, c_limits = empty_limits,
     c_monitor = empty_monitor, c_portfolio = empty_portfolio, c_stats = empty_stats,
     c_verkle = empty_verkle, c_embargo = empty_embargoes, c_delegates = (\<lambda>_. None),
     score_submission_ledger = (\<lambda>_. None), submission_provenance = (\<lambda>_. None),
     last_global_submission_time = None, pending_score = (\<lambda>_. None), finality_buffer_secs = None,
     gate_read_ledger = (\<lambda>_. None), flash_protection_mode = None, score_hook_dispatching = None,
     adaptive_threshold_enabled = None, last_computed_threshold = None\<rparr>"

section \<open>Guards and validation\<close>

definition is_score_hook_dispatching :: "contract \<Rightarrow> bool" where
  "is_score_hook_dispatching c = unwrap_or (score_hook_dispatching c) False"

definition is_paused :: "contract \<Rightarrow> bool" where
  "is_paused c = unwrap_or (paused (c_auth c)) False"

definition is_frozen :: "contract \<Rightarrow> bool" where
  "is_frozen c = unwrap_or (frozen (c_auth c)) False"

definition is_epoch_open :: "contract \<Rightarrow> bool" where
  "is_epoch_open c = unwrap_or (epoch_open (c_auth c)) True"

definition asset_pair_is_bounded :: "symbol \<Rightarrow> bool" where
  "asset_pair_is_bounded p = (length p \<le> MAX_ASSET_PAIR_BYTES)"

definition ensure_asset_pair_bounded :: "symbol \<Rightarrow> unit res" where
  "ensure_asset_pair_bounded p =
     (if asset_pair_is_bounded p then Inr () else Inl (Err InvalidAttestation))"

definition ensure_score_commitment_bounded :: "bytes option \<Rightarrow> unit res" where
  "ensure_score_commitment_bounded commitment =
     (case commitment of
        Some bs \<Rightarrow> if length bs \<noteq> MAX_SCORE_COMMITMENT_BYTES then Inl (Err InvalidAttestation) else Inr ()
      | None \<Rightarrow> Inr ())"

definition ensure_active :: "contract \<Rightarrow> unit res" where
  "ensure_active c =
     (if \<not> has_admin (c_auth c) then Inl (Err NotInitialized)
      else if is_paused c then Inl (Err ContractPaused) else Inr ())"

definition get_effective_threshold :: "contract \<Rightarrow> u32" where
  "get_effective_threshold c =
     (if unwrap_or (adaptive_threshold_enabled c) False \<and> unwrap_or (last_computed_threshold c) 0 \<noteq> 0
      then unwrap_or (last_computed_threshold c) 0
      else get_risk_threshold (c_monitor c))"

definition normalize_submission ::
    "address \<Rightarrow> symbol \<Rightarrow> u32 \<Rightarrow> bool \<Rightarrow> bool \<Rightarrow> u64 \<Rightarrow> u32 \<Rightarrow> u32 \<Rightarrow> bytes option \<Rightarrow> NormalizedSubmission" where
  "normalize_submission wallet asset_pair score benford_flag ml_flag timestamp confidence
       model_version commitment =
     \<lparr>ns_wallet = wallet, ns_asset_pair = asset_pair, ns_score = score,
      ns_benford_flag = benford_flag, ns_ml_flag = ml_flag, ns_timestamp = timestamp,
      ns_confidence = confidence, ns_model_version = model_version, ns_commitment = commitment\<rparr>"

text \<open>The model version check that both validators contain.\<close>

definition validate_model_version :: "u32 \<Rightarrow> models \<Rightarrow> unit res" where
  "validate_model_version v r =
     (if all_model_versions r = [] then Inr ()
      else if v \<notin> set (all_model_versions r) then Inl (Err ModelVersionNotRegistered)
      else case get_model_version_status v r of
        Some Active \<Rightarrow> Inr ()
      | Some Proposed \<Rightarrow> Inl (Err ModelVersionNotReady)
      | Some Deprecated \<Rightarrow> Inl (Err ModelVersionDeprecated)
      | None \<Rightarrow> Inl (Err ModelVersionNotRegistered))"

definition validate_normalized_submission :: "NormalizedSubmission \<Rightarrow> models \<Rightarrow> unit res" where
  "validate_normalized_submission sub r =
     (if 100 < ns_score sub then Inl (Err InvalidScore)
      else if 100 < ns_confidence sub then Inl (Err InvalidConfidence)
      else if ns_timestamp sub = 0 then Inl (Err InvalidTimestamp)
      else validate_model_version (ns_model_version sub) r)"

definition validate_risk_score :: "RiskScore \<Rightarrow> models \<Rightarrow> unit res" where
  "validate_risk_score score r =
     (if 100 < rs_score score then Inl (Err InvalidScore)
      else if 100 < rs_confidence score then Inl (Err InvalidConfidence)
      else if rs_timestamp score = 0 then Inl (Err InvalidTimestamp)
      else validate_model_version (rs_model_version score) r)"

definition risk_score_of :: "NormalizedSubmission \<Rightarrow> RiskScore" where
  "risk_score_of ns = \<lparr>rs_score = ns_score ns, rs_benford_flag = ns_benford_flag ns,
     rs_ml_flag = ns_ml_flag ns, rs_timestamp = ns_timestamp ns, rs_confidence = ns_confidence ns,
     rs_model_version = ns_model_version ns, rs_benford_score = 0, rs_ml_score = 0,
     rs_network_score = 0, rs_commitment = ns_commitment ns\<rparr>"

section \<open>The rate-limited write\<close>

definition bump_counters :: "pair_key \<Rightarrow> bool \<Rightarrow> RiskScore \<Rightarrow> stats \<Rightarrow> stats res" where
  "bump_counters k is_new rs t =
     bind_res (increment_score_count k t) (\<lambda>t1.
     bind_res (increment_pair_score_count (snd k) t1) (\<lambda>t2.
     bind_res (if is_new then increment_total_wallets_scored t2 else Inr t2) (\<lambda>t3.
       update_model_stats (rs_model_version rs) (rs_score rs) t3)))"

definition provenance_of ::
    "env \<Rightarrow> symbol \<Rightarrow> u32 \<Rightarrow> u32 \<Rightarrow> symbol \<Rightarrow> contract \<Rightarrow> SubmissionProvenance" where
  "provenance_of e p model_version signers_count branch c =
     (let policy = get_score_floor_policy (c_limits c) in
      \<lparr>pv_model_version = model_version,
       pv_service_threshold = get_service_threshold (c_auth c), pv_signers_count = signers_count,
       pv_score_floor_enabled = fp_enabled policy,
       pv_score_floor_high_water_mark = fp_high_water_mark policy,
       pv_score_floor_value = fp_floor_value policy,
       pv_cooldown_secs = get_pair_cooldown_secs p (c_limits c),
       pv_epoch_id = unwrap_or (current_epoch (c_auth c)) 0,
       pv_ledger_sequence = ledger_sequence e, pv_submitted_at = ledger_timestamp e,
       pv_validation_branch = branch\<rparr>)"

definition score_submitted :: "pair_key \<Rightarrow> RiskScore \<Rightarrow> event" where
  "score_submitted k rs = Event ''score_submitted''
     [VAddr (fst k), VSym (snd k), VU32 (rs_score rs), VBool (rs_benford_flag rs),
      VBool (rs_ml_flag rs), VU32 (rs_confidence rs), VU64 (rs_timestamp rs)]"

definition risk_signals ::
    "env \<Rightarrow> pair_key \<Rightarrow> u32 option \<Rightarrow> RiskScore \<Rightarrow> u32 \<Rightarrow> monitor \<Rightarrow> monitor \<times> event list" where
  "risk_signals e k previous rs threshold m =
     (let score = rs_score rs;
          breached = (if threshold \<le> score
            then [Event ''threshold_breached'' [VAddr (fst k), VSym (snd k), VU32 score, VU32 threshold]]
            else []);
          (m1, ev1) = update_breach_counter k score threshold m;
          (m2, ev2) = evaluate_risk_band e k score threshold m1;
          (m3, ev3) = emit_score_delta k previous score m2;
          (m4, ev4) = emit_score_jump_anomaly e k previous score (rs_model_version rs) m3 in
      (m4, breached @ ev1 @ ev2 @ ev3 @ ev4 @ [score_submitted k rs]))"

definition store_score ::
    "env \<Rightarrow> pair_key \<Rightarrow> u32 option \<Rightarrow> RiskScore \<Rightarrow> limits \<Rightarrow> stats \<Rightarrow> contract \<Rightarrow> contract \<times> event list" where
  "store_score e k previous rs l t c =
     (let store = set_score e k rs (c_store c);
          f1 = register_pair_for_wallet k (c_portfolio c);
          f2 = update_welford_correlation store k (rs_score rs) f1;
          f3 = refresh_aggregate_cache e store (fst k) f2;
          (f4, assigned) = assign_wallet_cluster e store (fst k) f3;
          multisig = (service_set (c_auth c) \<noteq> [] \<and> 0 < unat (get_service_threshold (c_auth c)));
          (m, signals) = risk_signals e k previous rs (get_risk_threshold (c_monitor c)) (c_monitor c);
          provenance = provenance_of e (snd k) (rs_model_version rs)
            (of_nat (length (service_set (c_auth c))))
            (if multisig then ''multisig'' else ''single'') (c\<lparr>c_limits := l\<rparr>) in
      (c\<lparr>c_store := store,
         score_submission_ledger := (score_submission_ledger c)(k \<mapsto> ledger_sequence e),
         submission_provenance := (submission_provenance c)(k \<mapsto> provenance),
         last_global_submission_time := Some (ledger_timestamp e),
         c_history := push_score_history k rs (c_history c),
         c_stats := t,
         c_limits := update_histogram_on_write previous (rs_score rs)
           (update_historical_max_score k (rs_score rs) l),
         c_portfolio := f4,
         c_verkle := update_verkle_commitment e k rs (c_verkle c),
         c_monitor := m\<rparr>,
       assigned @ signals))"

definition write_score_with_rate_limit ::
    "env \<Rightarrow> pair_key \<Rightarrow> RiskScore \<Rightarrow> contract \<Rightarrow> contract op" where
  "write_score_with_rate_limit e k rs c =
     (if is_score_hook_dispatching c then Inl (HookErr ScoreHookDispatchInProgress)
      else
        bind_res (validate_risk_score rs (c_models c)) (\<lambda>_.
        (let previous = map_option rs_score (scores (c_store c) k) in
         bind_res (admit_write e k previous (rs_score rs) (c_limits c)) (\<lambda>l.
         bind_res (bump_counters k (previous = None) rs (c_stats c)) (\<lambda>t.
           Inr (store_score e k previous rs l t c))))))"

section \<open>Single submission\<close>

definition flash_check :: "env \<Rightarrow> pair_key \<Rightarrow> contract \<Rightarrow> event list res" where
  "flash_check e k c =
     (case gate_read_ledger c k of
        Some gate_seq \<Rightarrow>
          if gate_seq = ledger_sequence e then
            (if unwrap_or (flash_protection_mode c) Warn = Reject then Inl (Err EpochClosed)
             else Inr [Event ''suspicious_same_ledger_submission''
                         [VAddr (fst k), VSym (snd k), VU32 gate_seq]])
          else Inr []
      | None \<Rightarrow> Inr [])"

definition hold_pending ::
    "env \<Rightarrow> address list \<Rightarrow> NormalizedSubmission \<Rightarrow> u64 \<Rightarrow> contract \<Rightarrow> contract op" where
  "hold_pending e signers ns buffer c =
     (let k = (ns_wallet ns, ns_asset_pair ns);
          now = ledger_timestamp e;
          last_submit = get_last_submit_time k (c_limits c);
          cooldown = compute_effective_cooldown (get_pair_cooldown_secs (snd k) (c_limits c)) (c_limits c) in
      if last_submit \<noteq> 0 \<and> now < saturating_add last_submit cooldown
      then Inl (Err RateLimitExceeded)
      else
        bind_res (if service_set (c_auth c) \<noteq> [] \<and> signers \<noteq> [] then Inr (hd signers)
                  else get_service (c_auth c)) (\<lambda>submitted_by.
        (let (t, evs) = record_service_activity e (c_stats c);
             commit_after = saturating_add now buffer;
             pending = \<lparr>ps_score = ns_score ns, ps_benford_flag = ns_benford_flag ns,
               ps_ml_flag = ns_ml_flag ns, ps_submitted_at = now, ps_confidence = ns_confidence ns,
               ps_model_version = ns_model_version ns, ps_timestamp = ns_timestamp ns,
               ps_commit_after = commit_after, ps_submitted_by = submitted_by,
               ps_commitment = ns_commitment ns\<rparr> in
         Inr (c\<lparr>c_limits := set_last_submit_time k now (c_limits c), c_stats := t,
                pending_score := (pending_score c)(k \<mapsto> pending)\<rparr>,
              evs @ [Event ''score_pending'' [VAddr (fst k), VSym (snd k), VU64 commit_after]]))))"

definition hll_first_time :: "env \<Rightarrow> pair_key \<Rightarrow> contract \<Rightarrow> contract" where
  "hll_first_time e k c =
     (if get_score_count k (c_stats c) = 0
      then c\<lparr>c_stats := hll_update e (snd k) (fst k) (c_stats c)\<rparr> else c)"

definition finalize_score_submission ::
    "env \<Rightarrow> address list \<Rightarrow> score_claim \<Rightarrow> bytes option \<Rightarrow> contract \<Rightarrow> contract op" where
  "finalize_score_submission e signers s commitment c =
     (let ns = normalize_submission (sc_wallet s) (sc_asset_pair s) (sc_score s) (sc_benford_flag s)
            (sc_ml_flag s) (sc_timestamp s) (sc_confidence s) (sc_model_version s) commitment;
          k = (sc_wallet s, sc_asset_pair s) in
      bind_res (validate_normalized_submission ns (c_models c)) (\<lambda>_.
      bind_res (flash_check e k c) (\<lambda>flash.
      (let buffer = unwrap_or (finality_buffer_secs c) 0;
           c1 = hll_first_time e k c in
       bind_res
         (if buffer = 0 then
            bind_res (write_score_with_rate_limit e k (risk_score_of ns) c1) (\<lambda>(c2, evs).
              (let (t, resumed) = record_service_activity e (c_stats c2) in
               Inr (c2\<lparr>c_stats := t\<rparr>, evs @ resumed)))
          else hold_pending e signers ns buffer c1) (\<lambda>(c', evs).
         Inr (c', flash @ evs))))))"

definition submit_score ::
    "env \<Rightarrow> address list \<Rightarrow> score_claim \<Rightarrow>
     (ScoreAttestation option \<times> ThresholdAttestation option \<times> bytes option) option \<Rightarrow>
     contract \<Rightarrow> contract op" where
  "submit_score e signers s attestation_input c =
     (if is_score_hook_dispatching c then Inl (HookErr ScoreHookDispatchInProgress)
      else if \<not> has_admin (c_auth c) then Inl (Err NotInitialized)
      else if is_frozen c then Inl (Err ContractPaused)
      else
        bind_res (ensure_asset_pair_bounded (sc_asset_pair s)) (\<lambda>_.
        if is_paused c then Inl (Err ContractPaused)
        else if is_pair_paused (sc_asset_pair s) (c_auth c) then Inl (Err ContractPaused)
        else if \<not> is_epoch_open c then Inl (Err EpochClosed)
        else
          (let (attestation, threshold_attestation, commitment) =
                 (case attestation_input of Some input \<Rightarrow> input | None \<Rightarrow> (None, None, None)) in
           bind_res (ensure_score_commitment_bounded commitment) (\<lambda>_.
           bind_res (authorize_score e signers s attestation threshold_attestation
               (c_auth c) (c_keys c)) (\<lambda>(a, y).
             finalize_score_submission e signers s commitment (c\<lparr>c_auth := a, c_keys := y\<rparr>))))))"

section \<open>What a write changes\<close>

text \<open>The key a claim is about, the commitment an attestation input carries, and the score
  that a claim with a commitment stands for.\<close>

definition claim_key :: "score_claim \<Rightarrow> pair_key" where
  "claim_key s = (sc_wallet s, sc_asset_pair s)"

abbreviation input_commitment ::
    "(ScoreAttestation option \<times> ThresholdAttestation option \<times> bytes option) option \<Rightarrow> bytes option" where
  "input_commitment inp \<equiv> (case inp of Some (_, _, commitment) \<Rightarrow> commitment | None \<Rightarrow> None)"

definition claimed_score :: "score_claim \<Rightarrow> bytes option \<Rightarrow> RiskScore" where
  "claimed_score s commitment =
     \<lparr>rs_score = sc_score s, rs_benford_flag = sc_benford_flag s, rs_ml_flag = sc_ml_flag s,
      rs_timestamp = sc_timestamp s, rs_confidence = sc_confidence s,
      rs_model_version = sc_model_version s, rs_benford_score = 0, rs_ml_score = 0,
      rs_network_score = 0, rs_commitment = commitment\<rparr>"

lemma scores_set_score [simp]: "scores (set_score e k rs s) = (scores s)(k \<mapsto> rs)"
  by (simp add: set_score_def track_score_entry_def reindex_entry_to_back_def
    touch_score_entry_def Let_def)

lemma asset_pairs_welford_update [frame_simps]:
  "asset_pairs (welford_update s k a p f) = asset_pairs f"
  by (simp add: welford_update_def Let_def split: option.splits)

lemma asset_pairs_update_welford [frame_simps]:
  "asset_pairs (update_welford_correlation s k a f) = asset_pairs f"
proof -
  have "asset_pairs (fold (welford_update s k a) ps f) = asset_pairs f" for ps
    by (induction ps arbitrary: f) (simp_all add: frame_simps)
  then show ?thesis
    by (simp add: update_welford_correlation_def)
qed

lemma asset_pairs_refresh [frame_simps]:
  "asset_pairs (refresh_aggregate_cache e s w f) = asset_pairs f"
  by (simp add: refresh_aggregate_cache_def split: sum.splits)

lemma asset_pairs_assign [frame_simps]:
  "asset_pairs (fst (assign_wallet_cluster e s w f)) = asset_pairs f"
  by (simp add: assign_wallet_cluster_def Let_def split: sum.splits)

lemma set_register_pair:
  "set (get_wallet_pairs w (register_pair_for_wallet k f)) =
     set (get_wallet_pairs w f) \<union> (if w = fst k then {snd k} else {})"
  by (auto simp: register_pair_for_wallet_def get_wallet_pairs_def Let_def)

lemma distinct_register_pair:
  "distinct (get_wallet_pairs w f) \<Longrightarrow> distinct (get_wallet_pairs w (register_pair_for_wallet k f))"
  by (auto simp: register_pair_for_wallet_def get_wallet_pairs_def Let_def)

lemma wallet_pairs_cong:
  "asset_pairs f = asset_pairs g \<Longrightarrow> get_wallet_pairs w f = get_wallet_pairs w g"
  by (simp add: get_wallet_pairs_def)

text \<open>The part of the state that readers of scores see: the live score with its rent record, the
  wallet's pair list and the history all receive the score, and no other key does.\<close>

definition records :: "env \<Rightarrow> pair_key \<Rightarrow> RiskScore \<Rightarrow> contract \<Rightarrow> contract \<Rightarrow> bool" where
  "records e k rs c c' \<longleftrightarrow>
     c_store c' = set_score e k rs (c_store c)
     \<and> asset_pairs (c_portfolio c') = asset_pairs (register_pair_for_wallet k (c_portfolio c))
     \<and> c_history c' = push_score_history k rs (c_history c)"

definition valid_risk_score :: "RiskScore \<Rightarrow> bool" where
  "valid_risk_score rs \<longleftrightarrow> rs_score rs \<le> 100 \<and> rs_confidence rs \<le> 100 \<and> rs_timestamp rs \<noteq> 0"

text \<open>The contents of the score storage: every live and historical score is in range, and
  the pair list of a wallet names exactly its scored pairs, each once.\<close>

definition scores_wf :: "contract \<Rightarrow> bool" where
  "scores_wf c \<longleftrightarrow>
     (\<forall>k rs. scores (c_store c) k = Some rs \<longrightarrow> valid_risk_score rs)
     \<and> (\<forall>k. \<forall>rs \<in> set (get_score_history k (c_history c)). valid_risk_score rs)
     \<and> (\<forall>w. distinct (get_wallet_pairs w (c_portfolio c)))
     \<and> (\<forall>w p. p \<in> set (get_wallet_pairs w (c_portfolio c)) \<longleftrightarrow> scores (c_store c) (w, p) \<noteq> None)"

lemma scores_wf_cong:
  "c_store c' = c_store c \<Longrightarrow> c_history c' = c_history c \<Longrightarrow>
   asset_pairs (c_portfolio c') = asset_pairs (c_portfolio c) \<Longrightarrow> scores_wf c' = scores_wf c"
  by (simp add: scores_wf_def get_wallet_pairs_def)

lemma set_push_score_history:
  "set (get_score_history j (push_score_history k rs h)) \<subseteq>
     set (get_score_history j h) \<union> (if j = k then {rs} else {})"
proof (cases "j = k")
  case True
  then show ?thesis
    using set_drop_subset [of _ "get_score_history k h @ [rs]"]
    by (fastforce simp: push_score_history_eq)
qed (simp add: get_score_history_def)

lemma records_scores_wf:
  assumes "records e k rs c c'" "scores_wf c" "valid_risk_score rs"
  shows "scores_wf c'"
proof -
  have pairs: "get_wallet_pairs w (c_portfolio c') =
      get_wallet_pairs w (register_pair_for_wallet k (c_portfolio c))" for w
    using assms(1) by (auto simp: records_def intro: wallet_pairs_cong)
  have "\<forall>j. \<forall>r \<in> set (get_score_history j (c_history c')). valid_risk_score r"
    using assms set_push_score_history [of _ k rs "c_history c"]
    by (fastforce simp: records_def scores_wf_def split: if_splits)
  then show ?thesis
    using assms unfolding scores_wf_def pairs
    by (cases k) (auto simp: records_def set_register_pair distinct_register_pair split: if_splits)
qed

lemma records_history_last:
  "records e k rs c c' \<Longrightarrow> 0 < unat (get_history_max_depth (c_history c)) \<Longrightarrow>
   last (get_score_history k (c_history c')) = rs"
  by (simp add: records_def push_score_history_eq last_drop)

text \<open>The interface the three paths to the score storage share: the rate-limited write, the commit
  of a pending score and an accepted batch entry.  An input \<open>x\<close> names a key and a score,
  and a successful call records that score there.\<close>

locale score_writer =
  fixes put :: "env \<Rightarrow> 'x \<Rightarrow> contract \<Rightarrow> (contract \<times> 'r) res"
    and key_of :: "'x \<Rightarrow> contract \<Rightarrow> pair_key"
    and score_of :: "'x \<Rightarrow> contract \<Rightarrow> RiskScore"
  assumes put_records: "put e x c = Inr (c', r) \<Longrightarrow> records e (key_of x c) (score_of x c) c c'"
begin

lemma put_visible:
  "put e x c = Inr (c', r) \<Longrightarrow> scores (c_store c') = (scores (c_store c))(key_of x c \<mapsto> score_of x c)"
  by (drule put_records) (simp add: records_def)

lemma put_wf:
  "put e x c = Inr (c', r) \<Longrightarrow> scores_wf c \<Longrightarrow> valid_risk_score (score_of x c) \<Longrightarrow> scores_wf c'"
  by (blast dest: put_records intro: records_scores_wf)

lemma put_history:
  "put e x c = Inr (c', r) \<Longrightarrow> 0 < unat (get_history_max_depth (c_history c)) \<Longrightarrow>
   last (get_score_history (key_of x c) (c_history c')) = score_of x c"
  by (blast dest: put_records intro: records_history_last)

lemma put_other_history:
  "put e x c = Inr (c', r) \<Longrightarrow> j \<noteq> key_of x c \<Longrightarrow>
   get_score_history j (c_history c') = get_score_history j (c_history c)"
  by (drule put_records) (simp add: records_def get_score_history_def)

end

lemma store_score_fields:
  "c_store (fst (store_score e k prev rs l t c)) = set_score e k rs (c_store c)"
  "asset_pairs (c_portfolio (fst (store_score e k prev rs l t c))) =
     asset_pairs (register_pair_for_wallet k (c_portfolio c))"
  "c_history (fst (store_score e k prev rs l t c)) = push_score_history k rs (c_history c)"
  "c_limits (fst (store_score e k prev rs l t c)) =
     update_histogram_on_write prev (rs_score rs) (update_historical_max_score k (rs_score rs) l)"
  "pending_score (fst (store_score e k prev rs l t c)) = pending_score c"
  "c_auth (fst (store_score e k prev rs l t c)) = c_auth c"
  "c_keys (fst (store_score e k prev rs l t c)) = c_keys c"
  "c_models (fst (store_score e k prev rs l t c)) = c_models c"
  "c_stats (fst (store_score e k prev rs l t c)) = t"
  "c_verkle (fst (store_score e k prev rs l t c)) = update_verkle_commitment e k rs (c_verkle c)"
  "finality_buffer_secs (fst (store_score e k prev rs l t c)) = finality_buffer_secs c"
  by (simp_all add: store_score_def Let_def case_prod_unfold frame_simps)

lemma write_score_Inr:
  assumes "write_score_with_rate_limit e k rs c = Inr (c', evs)"
  obtains l t where "validate_risk_score rs (c_models c) = Inr ()"
    "admit_write e k (map_option rs_score (scores (c_store c) k)) (rs_score rs) (c_limits c) = Inr l"
    "bump_counters k (scores (c_store c) k = None) rs (c_stats c) = Inr t"
    "(c', evs) = store_score e k (map_option rs_score (scores (c_store c) k)) rs l t c"
  using assms by (auto simp: write_score_with_rate_limit_def Let_def bind_res_Inr_iff split: if_splits)

lemma validate_risk_score_valid:
  "validate_risk_score rs r = Inr u \<Longrightarrow> valid_risk_score rs"
  by (auto simp: validate_risk_score_def valid_risk_score_def not_less split: if_splits)

interpretation single_write: score_writer
  "\<lambda>e (k, rs). write_score_with_rate_limit e k rs" "\<lambda>x c. fst x" "\<lambda>x c. snd x"
proof
  fix e c c' r and x :: "pair_key \<times> RiskScore"
  assume "(case x of (k, rs) \<Rightarrow> write_score_with_rate_limit e k rs) c = Inr (c', r)"
  then have "write_score_with_rate_limit e (fst x) (snd x) c = Inr (c', r)"
    by (simp add: case_prod_unfold)
  then show "records e (fst x) (snd x) c c'"
    by (rule write_score_Inr) (metis fst_conv records_def store_score_fields(1-3))
qed

section \<open>Outcomes of a submission\<close>

lemma normalized_is_claimed:
  "risk_score_of (normalize_submission (sc_wallet s) (sc_asset_pair s) (sc_score s) (sc_benford_flag s)
     (sc_ml_flag s) (sc_timestamp s) (sc_confidence s) (sc_model_version s) commitment)
   = claimed_score s commitment"
  by (simp add: risk_score_of_def normalize_submission_def claimed_score_def)

text \<open>The two validators accept the same scores with the same errors.\<close>

lemma validators_agree:
  "validate_risk_score (risk_score_of ns) r = validate_normalized_submission ns r"
  by (simp add: validate_risk_score_def validate_normalized_submission_def risk_score_of_def)

text \<open>States with the same scores, limits, pending entries and models.\<close>

definition same_data :: "contract \<Rightarrow> contract \<Rightarrow> bool" where
  "same_data c c' \<longleftrightarrow>
     c_store c' = c_store c \<and> c_history c' = c_history c \<and> c_portfolio c' = c_portfolio c
     \<and> c_limits c' = c_limits c \<and> pending_score c' = pending_score c \<and> c_models c' = c_models c
     \<and> finality_buffer_secs c' = finality_buffer_secs c \<and> c_verkle c' = c_verkle c
     \<and> c_embargo c' = c_embargo c \<and> c_delegates c' = c_delegates c"

lemma same_data_updates [simp]:
  "same_data c c" "same_data c (c\<lparr>c_stats := t\<rparr>)" "same_data c (c\<lparr>c_auth := a, c_keys := y\<rparr>)"
  "same_data c (hll_first_time e k c)"
  by (simp_all add: same_data_def hll_first_time_def)

lemma same_data_trans: "same_data c c1 \<Longrightarrow> same_data c1 c2 \<Longrightarrow> same_data c c2"
  by (simp add: same_data_def)

lemma finalize_direct:
  assumes "finalize_score_submission e signers s commitment c = Inr (c', evs)"
    and "unwrap_or (finality_buffer_secs c) 0 = 0"
  obtains c2 evs' where "same_data c2 c'"
    "write_score_with_rate_limit e (claim_key s) (claimed_score s commitment)
       (hll_first_time e (claim_key s) c) = Inr (c2, evs')"
proof -
  obtain c2 evs' where w: "write_score_with_rate_limit e (sc_wallet s, sc_asset_pair s)
      (claimed_score s commitment) (hll_first_time e (sc_wallet s, sc_asset_pair s) c) = Inr (c2, evs')"
    and "c' = c2\<lparr>c_stats := fst (record_service_activity e (c_stats c2))\<rparr>"
    using assms by (auto simp: finalize_score_submission_def Let_def bind_res_Inr_iff
        normalized_is_claimed case_prod_unfold)
  then show thesis
    using that by (simp add: claim_key_def)
qed

lemma finalize_buffered:
  assumes "finalize_score_submission e signers s commitment c = Inr (c', evs)"
    and "unwrap_or (finality_buffer_secs c) 0 = buffer" "buffer \<noteq> 0"
  obtains evs' ns where "risk_score_of ns = claimed_score s commitment"
    "(ns_wallet ns, ns_asset_pair ns) = claim_key s"
    "validate_normalized_submission ns (c_models c) = Inr ()"
    "hold_pending e signers ns buffer (hll_first_time e (claim_key s) c) = Inr (c', evs')"
proof -
  let ?ns = "normalize_submission (sc_wallet s) (sc_asset_pair s) (sc_score s) (sc_benford_flag s)
    (sc_ml_flag s) (sc_timestamp s) (sc_confidence s) (sc_model_version s) commitment"
  obtain evs' where "hold_pending e signers ?ns buffer
      (hll_first_time e (sc_wallet s, sc_asset_pair s) c) = Inr (c', evs')"
    "validate_normalized_submission ?ns (c_models c) = Inr ()"
    using assms by (auto simp: finalize_score_submission_def Let_def bind_res_Inr_iff)
  moreover have "(ns_wallet ?ns, ns_asset_pair ?ns) = claim_key s"
    by (simp add: normalize_submission_def claim_key_def)
  ultimately show thesis
    using that [of ?ns] normalized_is_claimed by (simp add: claim_key_def)
qed

lemma submit_score_Inr:
  assumes "submit_score e signers s inp c = Inr (c', evs)"
  obtains a y where
    "authorize_score e signers s (case inp of Some (att, _, _) \<Rightarrow> att | None \<Rightarrow> None)
       (case inp of Some (_, ta, _) \<Rightarrow> ta | None \<Rightarrow> None) (c_auth c) (c_keys c) = Inr (a, y)"
    "finalize_score_submission e signers s (input_commitment inp) (c\<lparr>c_auth := a, c_keys := y\<rparr>)
       = Inr (c', evs)"
  using assms by (auto simp: submit_score_def Let_def bind_res_Inr_iff split: if_splits option.splits)

lemma write_score_frame:
  assumes "write_score_with_rate_limit e k rs c = Inr (c', evs)"
  shows "pending_score c' = pending_score c" "c_auth c' = c_auth c" "c_models c' = c_models c"
    "finality_buffer_secs c' = finality_buffer_secs c" "c_embargo c' = c_embargo c"
    "c_delegates c' = c_delegates c"
  using assms
  by (auto elim!: write_score_Inr simp: store_score_def Let_def case_prod_unfold)

lemma records_same_data:
  "same_data c c1 \<Longrightarrow> same_data c2 c' \<Longrightarrow> records e k rs c1 c2 \<Longrightarrow> records e k rs c c'"
  by (simp add: same_data_def records_def)

lemma submit_direct:
  assumes "submit_score e signers s inp c = Inr (c', evs)"
    and "unwrap_or (finality_buffer_secs c) 0 = 0"
  shows "records e (claim_key s) (claimed_score s (input_commitment inp)) c c'"
    and "valid_risk_score (claimed_score s (input_commitment inp))"
    and "pending_score c' = pending_score c"
proof -
  let ?rs = "claimed_score s (input_commitment inp)"
  obtain a y where "finalize_score_submission e signers s (input_commitment inp)
      (c\<lparr>c_auth := a, c_keys := y\<rparr>) = Inr (c', evs)"
    using assms(1) by (rule submit_score_Inr)
  moreover define c1 where "c1 = hll_first_time e (claim_key s) (c\<lparr>c_auth := a, c_keys := y\<rparr>)"
  ultimately obtain c2 evs' where c2: "same_data c2 c'"
    and w: "write_score_with_rate_limit e (claim_key s) ?rs c1 = Inr (c2, evs')"
    using assms(2) by (elim finalize_direct) auto
  have c1: "same_data c c1"
    unfolding c1_def by (rule same_data_trans [of _ "c\<lparr>c_auth := a, c_keys := y\<rparr>"]) simp_all
  show "records e (claim_key s) ?rs c c'"
    using single_write.put_records [of e "(claim_key s, ?rs)" c1 c2 evs'] w
    by (auto intro: records_same_data [OF c1 c2])
  show "valid_risk_score ?rs"
    using w by (auto elim: write_score_Inr intro: validate_risk_score_valid)
  show "pending_score c' = pending_score c"
    using c1 c2 write_score_frame(1) [OF w] by (simp add: same_data_def)
qed

text \<open>
  C3: With the finality buffer off, a successful \<^verbatim>\<open>submit_score\<close> is readable at once: for a
  wallet that is not under embargo, a lookup of the key returns exactly the submitted
  fields and commitment, whatever the delegations.  The score is in range, it is the
  newest entry of the key's history, and the scores and histories of every other key and
  the pending entries are untouched.
\<close>

theorem submit_then_lookup:
  assumes ok: "submit_score e signers s inp c = Inr (c', evs)"
    and buffer: "unwrap_or (finality_buffer_secs c) 0 = 0"
    and no_embargo: "\<not> is_embargoed e' (sc_wallet s) m"
    and depth: "0 < get_history_max_depth (c_history c)"
  shows "lookup_score e' m (c_store c') d (claim_key s)
           = Inr (Some (claimed_score s (input_commitment inp))) \<and>
    valid_risk_score (claimed_score s (input_commitment inp)) \<and>
    last (get_score_history (claim_key s) (c_history c')) = claimed_score s (input_commitment inp) \<and>
    pending_score c' = pending_score c \<and>
    (\<forall>k. k \<noteq> claim_key s \<longrightarrow> scores (c_store c') k = scores (c_store c) k \<and>
       get_score_history k (c_history c') = get_score_history k (c_history c))"
proof -
  note rec = submit_direct(1) [OF ok buffer]
  have "scores (c_store c') = (scores (c_store c))(claim_key s \<mapsto> claimed_score s (input_commitment inp))"
    using rec by (simp add: records_def)
  moreover have "\<forall>k. k \<noteq> claim_key s \<longrightarrow>
      get_score_history k (c_history c') = get_score_history k (c_history c)"
    using rec by (simp add: records_def get_score_history_def)
  ultimately show ?thesis
    using submit_direct(2,3) [OF ok buffer] records_history_last [OF rec] depth no_embargo
    by (simp add: lookup_score_def claim_key_def word_less_nat_alt)
qed

text \<open>An initialized contract and the first submission to it.\<close>

definition sample_contract :: contract where
  "sample_contract = empty_contract\<lparr>c_auth := sample_auth\<rparr>"

lemma plus_one_ok:
  fixes n :: "'a::len word option"
  assumes "unwrap_or n 0 \<noteq> - 1"
  shows "plus_one n = Inr (unwrap_or n 0 + 1)"
proof -
  let ?x = "unwrap_or n 0"
  have "unat ?x \<noteq> 2 ^ LENGTH('a) - 1"
    using assms unat_max_word [where 'a = 'a] by (metis word_unat_eq_iff)
  then have "unat ?x + unat (1 :: 'a word) < 2 ^ LENGTH('a)"
    using unat_less_pow [of ?x] by (simp only: unat_1)
  then show ?thesis
    using add_no_overflow_iff [of ?x 1] by (simp add: plus_one_def checked_add_def)
qed

lemma hll_update_frame [frame_simps]:
  "score_count (hll_update e p w t) = score_count t"
  "pair_score_count (hll_update e p w t) = pair_score_count t"
  "total_wallets_scored (hll_update e p w t) = total_wallets_scored t"
  "model_stats (hll_update e p w t) = model_stats t"
  by (simp_all add: hll_update_def Let_def)

lemma bump_counters_fresh:
  assumes "score_count t k = None" "pair_score_count t (snd k) = None" "total_wallets_scored t = None"
    "model_stats t (rs_model_version rs) = None"
  shows "\<exists>t'. bump_counters k b rs t = Inr t'"
  using assms
  by (simp add: bump_counters_def increment_score_count_def increment_pair_score_count_def
    increment_total_wallets_scored_def plus_one_ok update_model_stats_def checked_add_def Let_def)

lemma sample_contract_fields [simp]:
  "c_auth sample_contract = sample_auth" "c_keys sample_contract = empty_keys"
  "c_models sample_contract = empty_models" "c_limits sample_contract = empty_limits"
  "c_store sample_contract = empty_score_store" "c_stats sample_contract = empty_stats"
  "c_history sample_contract = empty_history_store" "c_portfolio sample_contract = empty_portfolio"
  "c_embargo sample_contract = empty_embargoes" "pending_score sample_contract k = None"
  "gate_read_ledger sample_contract k = None" "finality_buffer_secs sample_contract = None"
  "score_hook_dispatching sample_contract = None"
  by (simp_all add: sample_contract_def empty_contract_def)

lemma sample_auth_checks [simp]:
  "has_admin sample_auth" "\<not> unwrap_or (paused sample_auth) False"
  "\<not> unwrap_or (frozen sample_auth) False" "unwrap_or (epoch_open sample_auth) True"
  "\<not> is_pair_paused p sample_auth" "service_set sample_auth = []" "get_service sample_auth = Inr (Addr 2)"
  by (simp_all add: sample_auth_def empty_auth_def has_admin_def is_pair_paused_def get_service_def)

lemma sample_authorize:
  "authorize_score (sample_env 1) [] sample_claim None None sample_auth empty_keys
     = Inr (sample_auth, empty_keys)"
  by (simp add: authorize_score_def authorize_signers_def service_require_auth_def
    require_auth_def empty_keys_def Let_def)

lemma sample_bump:
  assumes "c = hll_first_time e k c0" "c_stats c0 = empty_stats"
  shows "\<exists>t. bump_counters k b rs (c_stats c) = Inr t"
  using assms by (intro bump_counters_fresh) (simp_all add: hll_first_time_def empty_stats_def frame_simps)

lemma fresh_write:
  assumes c: "c_models c = empty_models" "c_limits c = empty_limits" "scores (c_store c) k = None"
    "score_hook_dispatching c = None"
    and bump: "\<exists>t. bump_counters k True rs (c_stats c) = Inr t" and rs: "valid_risk_score rs"
  shows "\<exists>c' evs. write_score_with_rate_limit (sample_env n) k rs c = Inr (c', evs)"
proof -
  obtain t where t: "bump_counters k True rs (c_stats c) = Inr t"
    using bump by blast
  have "\<exists>l. admit_write (sample_env n) k None (rs_score rs) empty_limits = Inr l"
    by (simp add: admit_eval)
  then obtain l where "admit_write (sample_env n) k None (rs_score rs) (c_limits c) = Inr l"
    by (auto simp: c)
  then have "write_score_with_rate_limit (sample_env n) k rs c = Inr (store_score (sample_env n) k None rs l t c)"
    using t rs c by (simp add: write_score_with_rate_limit_def validate_risk_score_def valid_risk_score_def
        validate_model_version_def empty_models_def is_score_hook_dispatching_def linorder_not_less)
  then show ?thesis
    by (metis surj_pair)
qed

lemma sample_write:
  assumes "c = hll_first_time (sample_env 1) (claim_key sample_claim) sample_contract"
  shows "\<exists>c' evs. write_score_with_rate_limit (sample_env 1) (claim_key sample_claim)
           (claimed_score sample_claim None) c = Inr (c', evs)"
  using sample_bump [OF assms] assms
  by (intro fresh_write) (simp_all add: hll_first_time_def empty_score_store_def valid_risk_score_def
      claimed_score_def sample_claim_def)

lemma sample_submit:
  "\<exists>c' evs. submit_score (sample_env 1) [] sample_claim None sample_contract = Inr (c', evs)"
proof -
  let ?c = "sample_contract\<lparr>c_auth := sample_auth, c_keys := empty_keys\<rparr>"
  have c: "?c = sample_contract"
    by (simp add: sample_contract_def empty_contract_def)
  obtain c2 evs where "write_score_with_rate_limit (sample_env 1) (Addr 7, ''XLM'')
      (claimed_score sample_claim None)
      (hll_first_time (sample_env 1) (Addr 7, ''XLM'') sample_contract) = Inr (c2, evs)"
    using sample_write by (auto simp: claim_key_def sample_claim_def)
  then have "\<exists>c' evs. finalize_score_submission (sample_env 1) [] sample_claim None
      sample_contract = Inr (c', evs)"
    unfolding finalize_score_submission_def normalized_is_claimed Let_def
    by (simp add: flash_check_def case_prod_unfold validate_normalized_submission_def
        normalize_submission_def validate_model_version_def empty_models_def sample_claim_def)
  then show ?thesis
    by (simp add: submit_score_def is_score_hook_dispatching_def is_frozen_def is_paused_def
        is_epoch_open_def ensure_asset_pair_bounded_def asset_pair_is_bounded_def
        ensure_score_commitment_bounded_def sample_authorize c MAX_ASSET_PAIR_BYTES_def)
      (simp add: sample_claim_def)
qed

theorem submit_then_lookup_witness:
  "\<exists>c' evs. submit_score (sample_env 1) [] sample_claim None sample_contract = Inr (c', evs) \<and>
     lookup_score (sample_env 2) empty_embargoes (c_store c') (\<lambda>_. None) (claim_key sample_claim)
     = Inr (Some (claimed_score sample_claim None))"
proof -
  obtain c' evs where ok: "submit_score (sample_env 1) [] sample_claim None sample_contract = Inr (c', evs)"
    using sample_submit by blast
  have "\<not> is_embargoed (sample_env 2) w empty_embargoes" for w
    by (simp add: is_embargoed_def empty_embargoes_def)
  moreover have "0 < get_history_max_depth (c_history sample_contract)"
    by (simp add: get_history_max_depth_def empty_history_store_def DEFAULT_HISTORY_MAX_DEPTH_def)
  ultimately show ?thesis
    using submit_then_lookup [OF ok, of "sample_env 2" empty_embargoes "\<lambda>_. None"] ok by auto
qed

end
