(* ===== verification/Finality.thy ===== *)
theory Finality
  imports Submission
begin

text \<open>
  The operations on a score after its submission: the finality buffer with the commit and
  the cancellation of pending scores (\<^verbatim>\<open>lib.rs\<close> 966--1214), the flash protection mode
  (7368--7383), and the deletion of a score and of its history with the audit record
  (9864--9985, 12517--12527).
\<close>

section \<open>Finality buffer\<close>

definition set_finality_buffer :: "env \<Rightarrow> address list \<Rightarrow> u64 \<Rightarrow> contract \<Rightarrow> contract op" where
  "set_finality_buffer e signers secs c =
     (if \<not> has_admin (c_auth c) then Inl (Err NotInitialized)
      else if MAX_FINALITY_BUFFER_SECS < secs then Inl (Err InvalidFinalityBuffer)
      else bind_res (require_admin_auth e signers (c_auth c)) (\<lambda>_.
        Inr (c\<lparr>finality_buffer_secs := Some secs\<rparr>,
             [Event ''finality_buffer_updated'' [VU64 secs]])))"

definition set_flash_protection_mode ::
    "env \<Rightarrow> address list \<Rightarrow> FlashProtectionMode \<Rightarrow> contract \<Rightarrow> contract op" where
  "set_flash_protection_mode e signers mode c =
     admin_guard e signers (c_auth c)
       (Inr (c\<lparr>flash_protection_mode := Some mode\<rparr>,
             [Event ''flash_protection_mode_updated'' [VU32 (if mode = Reject then 1 else 0)]]))"

definition committed_score :: "PendingScoreEntry \<Rightarrow> RiskScore" where
  "committed_score pending =
     \<lparr>rs_score = ps_score pending, rs_benford_flag = ps_benford_flag pending,
      rs_ml_flag = ps_ml_flag pending, rs_timestamp = ps_timestamp pending,
      rs_confidence = ps_confidence pending, rs_model_version = ps_model_version pending,
      rs_benford_score = 0, rs_ml_score = 0, rs_network_score = 0,
      rs_commitment = ps_commitment pending\<rparr>"

definition commit_counters :: "pair_key \<Rightarrow> stats \<Rightarrow> stats res" where
  "commit_counters k t =
     bind_res (increment_score_count k t) (\<lambda>t1.
     bind_res (increment_pair_score_count (snd k) t1) (\<lambda>t2.
       if get_score_count k t2 = 1 then increment_total_wallets_scored t2 else Inr t2))"

definition commit_pending_score :: "env \<Rightarrow> pair_key \<Rightarrow> contract \<Rightarrow> contract op" where
  "commit_pending_score e k c =
     (if is_score_hook_dispatching c then Inl (HookErr ScoreHookDispatchInProgress)
      else case pending_score c k of
        None \<Rightarrow> Inl (Err NoPendingScore)
      | Some pending \<Rightarrow>
          if ledger_timestamp e < ps_commit_after pending then Inl (Err FinalityWindowNotElapsed)
          else
            (let previous = map_option rs_score (scores (c_store c) k);
                 rs = committed_score pending;
                 store = set_score e k rs (c_store c);
                 f1 = register_pair_for_wallet k (c_portfolio c) in
             bind_res (commit_counters k (c_stats c)) (\<lambda>t.
             (let f2 = refresh_aggregate_cache e store (fst k) f1;
                  threshold = get_effective_threshold c;
                  breached = (if threshold \<le> ps_score pending
                    then [Event ''threshold_breached''
                            [VAddr (fst k), VSym (snd k), VU32 (ps_score pending), VU32 threshold]]
                    else []);
                  (m, delta) = emit_score_delta k previous (ps_score pending) (c_monitor c) in
              Inr (c\<lparr>c_store := store, c_history := push_score_history k rs (c_history c),
                     c_portfolio := f2, c_stats := t, c_monitor := m,
                     pending_score := (pending_score c)(k := None)\<rparr>,
                   breached @ delta
                     @ [Event ''score_committed'' [VAddr (fst k), VSym (snd k)]])))))"

text \<open>The two names under which the buffer is also offered as an escrow.\<close>

definition set_escrow_hold_window :: "env \<Rightarrow> address list \<Rightarrow> u64 \<Rightarrow> contract \<Rightarrow> contract op" where
  "set_escrow_hold_window e signers secs c = set_finality_buffer e signers secs c"

definition auto_commit_score :: "env \<Rightarrow> pair_key \<Rightarrow> contract \<Rightarrow> contract op" where
  "auto_commit_score e k c = commit_pending_score e k c"

definition cancel_pending_score ::
    "env \<Rightarrow> address list \<Rightarrow> pair_key \<Rightarrow> contract \<Rightarrow> contract op" where
  "cancel_pending_score e signers k c =
     admin_guard e signers (c_auth c)
       (if pending_score c k = None then Inl (Err NoPendingScore)
        else bind_res (get_admin (c_auth c)) (\<lambda>adm.
          Inr (c\<lparr>pending_score := (pending_score c)(k := None)\<rparr>,
               [Event ''score_pending_cancelled'' [VAddr (fst k), VSym (snd k), VAddr adm]])))"

section \<open>Deletion\<close>

definition deletion_authorization_context ::
    "address list \<Rightarrow> auth_state \<Rightarrow> (address \<times> bool \<times> u32 \<times> u32) res" where
  "deletion_authorization_context signers a =
     bind_res (get_admin a) (\<lambda>adm.
     (let threshold = get_admin_threshold a;
          multisig_enabled = (admin_set a \<noteq> [] \<and> 0 < threshold) in
      Inr (adm, multisig_enabled,
           if multisig_enabled then of_nat (length signers) else 1,
           if multisig_enabled then threshold else 1)))"

definition deletion_event ::
    "string \<Rightarrow> env \<Rightarrow> pair_key \<Rightarrow> address \<times> bool \<times> u32 \<times> u32 \<Rightarrow> bytes \<Rightarrow> bytes \<Rightarrow> contract \<Rightarrow> event" where
  "deletion_event name e k ctx reason category c =
     (case ctx of (adm, multisig_enabled, signer_count, threshold) \<Rightarrow>
        Event name
          [VAddr (fst k), VSym (snd k), VAddr adm, VBool (scores (c_store c) k \<noteq> None),
           VU32 (of_nat (length (get_score_history k (c_history c)))),
           VBytes (sha256 e reason), VBytes (sha256 e category),
           VBool multisig_enabled, VU32 signer_count, VU32 threshold])"

definition histogram_without :: "pair_key \<Rightarrow> contract \<Rightarrow> limits" where
  "histogram_without k c =
     (case scores (c_store c) k of
        Some risk \<Rightarrow> update_histogram_on_clear (rs_score risk) (c_limits c)
      | None \<Rightarrow> c_limits c)"

definition clear_score_history_with_audit ::
    "env \<Rightarrow> address list \<Rightarrow> pair_key \<Rightarrow> bytes \<Rightarrow> bytes \<Rightarrow> contract \<Rightarrow> contract op" where
  "clear_score_history_with_audit e signers k reason category c =
     (if \<not> has_admin (c_auth c) then Inl (Err NotInitialized)
      else
        bind_res (require_deletion_auth e signers (c_auth c)) (\<lambda>_.
        bind_res (deletion_authorization_context signers (c_auth c)) (\<lambda>ctx.
          Inr (c\<lparr>c_limits := histogram_without k c,
                 c_history := clear_score_history k (c_history c)\<rparr>,
               [deletion_event ''score_history_cleared'' e k ctx reason category c]))))"

text \<open>\<^verbatim>\<open>storage::clear_score\<close>: the score, its entry of the wallet's pair list and its rent record.\<close>

definition remove_score :: "pair_key \<Rightarrow> contract \<Rightarrow> contract" where
  "remove_score k c =
     c\<lparr>c_store := remove_score_entry k ((c_store c)\<lparr>scores := (scores (c_store c))(k := None)\<rparr>),
       c_portfolio := remove_pair_for_wallet k (c_portfolio c)\<rparr>"

definition clear_score_with_audit ::
    "env \<Rightarrow> address list \<Rightarrow> pair_key \<Rightarrow> bytes \<Rightarrow> bytes \<Rightarrow> contract \<Rightarrow> contract op" where
  "clear_score_with_audit e signers k reason category c =
     (if is_score_hook_dispatching c then Inl (HookErr ScoreHookDispatchInProgress)
      else if \<not> has_admin (c_auth c) then Inl (Err NotInitialized)
      else
        bind_res (require_deletion_auth e signers (c_auth c)) (\<lambda>_.
        bind_res (deletion_authorization_context signers (c_auth c)) (\<lambda>ctx.
          Inr (remove_score k (c\<lparr>c_limits := histogram_without k c\<rparr>),
               [deletion_event ''score_cleared'' e k ctx reason category c]))))"

definition bytes_of :: "string \<Rightarrow> bytes" where
  "bytes_of = map of_char"

definition clear_score_history_op :: "env \<Rightarrow> address list \<Rightarrow> pair_key \<Rightarrow> contract \<Rightarrow> contract op" where
  "clear_score_history_op e signers k =
     clear_score_history_with_audit e signers k (bytes_of ''unspecified'') (bytes_of ''history-clear'')"

definition clear_score :: "env \<Rightarrow> address list \<Rightarrow> pair_key \<Rightarrow> contract \<Rightarrow> contract op" where
  "clear_score e signers k =
     clear_score_with_audit e signers k (bytes_of ''unspecified'') (bytes_of ''score-clear'')"

section \<open>The histogram counts the live scores\<close>

definition in_bucket :: "nat \<Rightarrow> (pair_key \<Rightarrow> RiskScore option) \<Rightarrow> pair_key set" where
  "in_bucket i S = {k. \<exists>rs. S k = Some rs \<and> bucket_of (rs_score rs) = i}"

text \<open>Bucket by bucket, the stored histogram is the number of keys with a live score there.\<close>

definition histogram_exact :: "contract \<Rightarrow> bool" where
  "histogram_exact c \<longleftrightarrow>
     finite (dom (scores (c_store c))) \<and> length (get_histogram_vec (c_limits c)) = 10 \<and>
     (\<forall>i < 10. unat (get_histogram_vec (c_limits c) ! i) = card (in_bucket i (scores (c_store c))))"

lemma bucket_of_lt [simp]: "bucket_of sc < 10"
proof (cases "100 \<le> sc")
  case False
  then have "unat sc < 100"
    by (simp add: word_le_nat_alt)
  then show ?thesis
    using False by (simp add: bucket_of_def unat_div)
qed (simp add: bucket_of_def)

lemma card_in_bucket:
  assumes "finite (dom S)"
  shows "card (in_bucket i S) = card (in_bucket i (S(k := None))) +
    (case S k of Some rs \<Rightarrow> if bucket_of (rs_score rs) = i then 1 else 0 | None \<Rightarrow> 0)"
proof -
  have "finite (in_bucket i (S(k := None)))"
    by (rule finite_subset [OF _ assms]) (auto simp: in_bucket_def split: if_splits)
  moreover have "in_bucket i S = in_bucket i (S(k := None)) \<union>
      (case S k of Some rs \<Rightarrow> if bucket_of (rs_score rs) = i then {k} else {} | None \<Rightarrow> {})"
    by (auto simp: in_bucket_def split: option.splits if_splits)
  moreover have "k \<notin> in_bucket i (S(k := None))"
    by (simp add: in_bucket_def)
  ultimately show ?thesis
    by (auto split: option.splits)
qed

lemma card_in_bucket_le: "finite (dom S) \<Longrightarrow> card (in_bucket i S) \<le> card (dom S)"
  by (rule card_mono) (auto simp: in_bucket_def)

text \<open>The state without the score of \<open>k\<close>: what both the write and the deletion pass through.\<close>

lemma histogram_take_out:
  assumes "length h = 10" "finite (dom S)" "\<forall>i < 10. unat (h ! i) = card (in_bucket i S)"
    and "S k = Some rs" "i < 10"
  shows "unat (h[bucket_of (rs_score rs) := saturating_sub (bucket_get h (bucket_of (rs_score rs))) 1] ! i)
    = card (in_bucket i (S(k := None)))"
proof (cases "i = bucket_of (rs_score rs)")
  case True
  then show ?thesis
    using assms card_in_bucket [of S i k] by (simp add: bucket_get_def unat_ops)
next
  case False
  then show ?thesis
    using assms card_in_bucket [of S i k] by simp
qed

lemma histogram_put_in:
  assumes "length h = 10" "finite (dom S)" "\<forall>i < 10. unat (h ! i) = card (in_bucket i (S(k := None)))"
    and "card (dom S) < 2 ^ 64 - 1" "i < 10"
  shows "unat (h[bucket_of (rs_score rs) := saturating_add (bucket_get h (bucket_of (rs_score rs))) 1] ! i)
    = card (in_bucket i (S(k \<mapsto> rs)))"
proof -
  have "card (in_bucket j (S(k := None))) \<le> card (dom S)" for j
    using card_in_bucket [OF assms(2), of j k] card_in_bucket_le [OF assms(2), of j] by linarith
  then have lt: "card (in_bucket j (S(k := None))) < 2 ^ 64 - 1" for j
    using assms(4) le_less_trans by blast
  have "card (in_bucket i (S(k \<mapsto> rs))) =
      card (in_bucket i (S(k := None))) + (if bucket_of (rs_score rs) = i then 1 else 0)"
    using card_in_bucket [of "S(k \<mapsto> rs)" i k] assms(2) by simp
  then show ?thesis
    using assms lt [of i] by (cases "i = bucket_of (rs_score rs)") (simp_all add: bucket_get_def unat_ops)
qed

lemma histogram_on_write:
  assumes "histogram_exact c" "card (dom (scores (c_store c))) < 2 ^ 64 - 1"
    and "get_histogram_vec l = get_histogram_vec (c_limits c)"
    and "scores (c_store c') = (scores (c_store c))(k \<mapsto> rs)"
    and "c_limits c' = update_histogram_on_write (map_option rs_score (scores (c_store c) k)) (rs_score rs) l"
  shows "histogram_exact c'"
proof -
  let ?S = "scores (c_store c)" and ?h = "get_histogram_vec (c_limits c)"
  define h1 where "h1 = (case ?S k of Some old \<Rightarrow>
    ?h[bucket_of (rs_score old) := saturating_sub (bucket_get ?h (bucket_of (rs_score old))) 1] | None \<Rightarrow> ?h)"
  have S: "finite (dom ?S)" "length ?h = 10" "\<forall>i < 10. unat (?h ! i) = card (in_bucket i ?S)"
    using assms(1) by (simp_all add: histogram_exact_def)
  have "\<forall>i < 10. unat (h1 ! i) = card (in_bucket i (?S(k := None)))"
  proof (cases "?S k")
    case None
    then have "?S(k := None) = ?S"
      by (simp add: fun_upd_idem)
    then show ?thesis
      using S None by (simp add: h1_def)
  next
    case (Some old)
    then show ?thesis
      using histogram_take_out [OF S(2,1,3) Some] by (simp add: h1_def)
  qed
  moreover have len: "length h1 = 10"
    using S by (simp add: h1_def split: option.splits)
  ultimately have "\<forall>i < 10. unat (h1[bucket_of (rs_score rs) :=
      saturating_add (bucket_get h1 (bucket_of (rs_score rs))) 1] ! i) = card (in_bucket i (?S(k \<mapsto> rs)))"
    using histogram_put_in S(1) assms(2) by blast
  moreover have "get_histogram_vec (c_limits c') =
      h1[bucket_of (rs_score rs) := saturating_add (bucket_get h1 (bucket_of (rs_score rs))) 1]"
    using S assms(3,5) by (cases "?S k") (simp_all add: update_histogram_on_write_def h1_def Let_def
        get_histogram_vec_def [of "_\<lparr>score_histogram := _\<rparr>"])
  ultimately show ?thesis
    using S assms(4) len by (simp add: histogram_exact_def)
qed

lemma histogram_vec_update_max [simp]:
  "get_histogram_vec (update_historical_max_score k sc l) = get_histogram_vec l"
  by (simp add: update_historical_max_score_def get_histogram_vec_def)

lemma write_score_histogram:
  assumes "write_score_with_rate_limit e k rs c = Inr (c', evs)"
    and "histogram_exact c" "card (dom (scores (c_store c))) < 2 ^ 64 - 1"
  shows "histogram_exact c'"
  using assms(1)
proof (rule write_score_Inr)
  fix l t
  assume adm: "admit_write e k (map_option rs_score (scores (c_store c) k)) (rs_score rs) (c_limits c) = Inr l"
    and c': "(c', evs) = store_score e k (map_option rs_score (scores (c_store c) k)) rs l t c"
  have "get_histogram_vec l = get_histogram_vec (c_limits c)"
    using admit_write_config [OF adm] by (simp add: same_config_def get_histogram_vec_def)
  then show ?thesis
    using assms(2,3) store_score_fields(1,4) [of e k "map_option rs_score (scores (c_store c) k)" rs l t c]
    by (intro histogram_on_write [of c "update_historical_max_score k (rs_score rs) l" c' k rs])
      (simp_all flip: c')
qed

lemma scores_remove_score [simp]:
  "scores (c_store (remove_score k c)) = (scores (c_store c))(k := None)"
  "c_limits (remove_score k c) = c_limits c"
  by (simp_all add: remove_score_def remove_score_entry_def)

lemma histogram_without_vec:
  assumes "histogram_exact c"
  shows "length (get_histogram_vec (histogram_without k c)) = 10"
    and "\<forall>i < 10. unat (get_histogram_vec (histogram_without k c) ! i) =
      card (in_bucket i ((scores (c_store c))(k := None)))"
proof -
  let ?S = "scores (c_store c)" and ?h = "get_histogram_vec (c_limits c)"
  have S: "finite (dom ?S)" "length ?h = 10" "\<forall>i < 10. unat (?h ! i) = card (in_bucket i ?S)"
    using assms by (simp_all add: histogram_exact_def)
  have h: "get_histogram_vec (histogram_without k c) = (case ?S k of Some old \<Rightarrow>
      ?h[bucket_of (rs_score old) := saturating_sub (bucket_get ?h (bucket_of (rs_score old))) 1] | None \<Rightarrow> ?h)"
    using S by (cases "?S k") (simp_all add: histogram_without_def update_histogram_on_clear_def Let_def
        get_histogram_vec_def [of "_\<lparr>score_histogram := _\<rparr>"])
  show "length (get_histogram_vec (histogram_without k c)) = 10"
    using S by (simp add: h split: option.splits)
  show "\<forall>i < 10. unat (get_histogram_vec (histogram_without k c) ! i) = card (in_bucket i (?S(k := None)))"
    using S histogram_take_out [OF S(2,1,3)] by (cases "?S k") (simp_all add: h fun_upd_idem)
qed

lemma clear_score_Inr:
  assumes "clear_score_with_audit e signers k reason category c = Inr (c', evs)"
  shows "c' = remove_score k (c\<lparr>c_limits := histogram_without k c\<rparr>)"
  using assms by (auto simp: clear_score_with_audit_def bind_res_Inr_iff split: if_splits)

lemma clear_score_histogram:
  assumes "clear_score_with_audit e signers k reason category c = Inr (c', evs)" "histogram_exact c"
  shows "histogram_exact c'"
  using assms histogram_without_vec [OF assms(2), of k]
  by (simp add: clear_score_Inr [OF assms(1)] histogram_exact_def)

lemma histogram_exact_cong:
  "scores (c_store c') = scores (c_store c) \<Longrightarrow>
   get_histogram_vec (c_limits c') = get_histogram_vec (c_limits c) \<Longrightarrow>
   histogram_exact c' = histogram_exact c"
  by (simp add: histogram_exact_def)

section \<open>Pending scores\<close>

lemma hold_pending_Inr:
  assumes "hold_pending e signers ns buffer c = Inr (c', evs)" "k = (ns_wallet ns, ns_asset_pair ns)"
  shows "c_store c' = c_store c" "c_history c' = c_history c" "c_portfolio c' = c_portfolio c"
    "c_limits c' = set_last_submit_time k (ledger_timestamp e) (c_limits c)"
    "\<exists>pending. pending_score c' = (pending_score c)(k \<mapsto> pending) \<and>
       committed_score pending = risk_score_of ns \<and>
       ps_commit_after pending = saturating_add (ledger_timestamp e) buffer"
  using assms by (auto simp: hold_pending_def Let_def bind_res_Inr_iff case_prod_unfold
      committed_score_def risk_score_of_def split: if_splits)

lemma submit_buffered:
  assumes "submit_score e signers s inp c = Inr (c', evs)"
    and "unwrap_or (finality_buffer_secs c) 0 = b" "b \<noteq> 0"
  shows "c_store c' = c_store c" "c_history c' = c_history c" "c_portfolio c' = c_portfolio c"
    "get_histogram_vec (c_limits c') = get_histogram_vec (c_limits c)"
    "\<exists>pending. pending_score c' = (pending_score c)(claim_key s \<mapsto> pending) \<and>
       committed_score pending = claimed_score s (input_commitment inp) \<and>
       valid_risk_score (committed_score pending) \<and>
       ps_commit_after pending = saturating_add (ledger_timestamp e) b"
proof -
  obtain a y where "finalize_score_submission e signers s (input_commitment inp)
      (c\<lparr>c_auth := a, c_keys := y\<rparr>) = Inr (c', evs)"
    using assms(1) by (rule submit_score_Inr)
  moreover define c1 where "c1 = hll_first_time e (claim_key s) (c\<lparr>c_auth := a, c_keys := y\<rparr>)"
  ultimately obtain evs' ns where ns: "risk_score_of ns = claimed_score s (input_commitment inp)"
    "claim_key s = (ns_wallet ns, ns_asset_pair ns)" "validate_normalized_submission ns (c_models c) = Inr ()"
    and hold: "hold_pending e signers ns b c1 = Inr (c', evs')"
    using assms(2,3) by (elim finalize_buffered [where buffer = b]) auto
  have c1: "same_data c c1"
    unfolding c1_def by (rule same_data_trans [of _ "c\<lparr>c_auth := a, c_keys := y\<rparr>"]) simp_all
  note held = hold_pending_Inr [OF hold ns(2)]
  show "c_store c' = c_store c" "c_history c' = c_history c" "c_portfolio c' = c_portfolio c"
    "get_histogram_vec (c_limits c') = get_histogram_vec (c_limits c)"
    using held(1-4) c1 by (simp_all add: same_data_def get_histogram_vec_def set_last_submit_time_def)
  have "valid_risk_score (risk_score_of ns)"
    using ns(3) by (auto simp flip: validators_agree intro: validate_risk_score_valid)
  then show "\<exists>pending. pending_score c' = (pending_score c)(claim_key s \<mapsto> pending) \<and>
       committed_score pending = claimed_score s (input_commitment inp) \<and>
       valid_risk_score (committed_score pending) \<and>
       ps_commit_after pending = saturating_add (ledger_timestamp e) b"
    using held(5) c1 ns(1) by (auto simp: same_data_def)
qed

lemma commit_pending_Inr:
  assumes "commit_pending_score e k c = Inr (c', evs)"
  obtains pending where "pending_score c k = Some pending" "ps_commit_after pending \<le> ledger_timestamp e"
    "records e k (committed_score pending) c c'" "c_limits c' = c_limits c" "c_verkle c' = c_verkle c"
    "pending_score c' = (pending_score c)(k := None)"
    "score_hook_dispatching c' = score_hook_dispatching c"
  using assms by (auto simp: commit_pending_score_def Let_def bind_res_Inr_iff case_prod_unfold
      records_def frame_simps not_less split: if_splits option.splits)

interpretation pending_commit: score_writer commit_pending_score
  "\<lambda>k c. k" "\<lambda>k c. committed_score (the (pending_score c k))"
  by unfold_locales (auto elim: commit_pending_Inr)

lemma commit_counters_ok:
  assumes "get_score_count k t \<noteq> - 1" "get_pair_score_count (snd k) t \<noteq> - 1"
    "get_total_wallets_scored t \<noteq> - 1"
  shows "\<exists>t'. commit_counters k t = Inr t'"
  using assms
  by (simp add: commit_counters_def increment_score_count_def increment_pair_score_count_def
    increment_total_wallets_scored_def plus_one_ok get_score_count_def get_pair_score_count_def
    get_total_wallets_scored_def)

lemma commit_pending_ok:
  assumes "pending_score c k = Some pending" "ps_commit_after pending \<le> ledger_timestamp e"
    "\<not> is_score_hook_dispatching c" "commit_counters k (c_stats c) = Inr t"
  shows "\<exists>c' evs. commit_pending_score e k c = Inr (c', evs)"
  using assms by (simp add: commit_pending_score_def Let_def case_prod_unfold not_less)

text \<open>
  C4: With a finality buffer of \<open>b\<close> seconds, a successful \<^verbatim>\<open>submit_score\<close> changes no live
  score, and its score cannot be committed by anyone before \<open>b\<close> seconds (capped at the
  largest timestamp) have passed.  From then on, in any state in which the entry is still
  pending, the commit succeeds without any authorization unless a hook is being dispatched
  or a counter is at its maximum; it makes exactly the submitted score live and removes
  the pending entry, so a second commit finds nothing.
\<close>

theorem buffered_score_becomes_final:
  assumes ok: "submit_score e signers s inp c = Inr (c', evs)"
    and buffer: "unwrap_or (finality_buffer_secs c) 0 = b" "b \<noteq> 0"
    and later: "pending_score c2 (claim_key s) = pending_score c' (claim_key s)"
    and ready: "\<not> is_score_hook_dispatching c2" "get_score_count (claim_key s) (c_stats c2) \<noteq> - 1"
      "get_pair_score_count (snd (claim_key s)) (c_stats c2) \<noteq> - 1"
      "get_total_wallets_scored (c_stats c2) \<noteq> - 1"
  shows "scores (c_store c') = scores (c_store c) \<and>
    (if ledger_timestamp e2 < saturating_add (ledger_timestamp e) b
     then commit_pending_score e2 (claim_key s) c2 = Inl (Err FinalityWindowNotElapsed)
     else \<exists>c3 evs'. commit_pending_score e2 (claim_key s) c2 = Inr (c3, evs') \<and>
       scores (c_store c3) = (scores (c_store c2))
         (claim_key s \<mapsto> claimed_score s (input_commitment inp)) \<and>
       (\<forall>e3. commit_pending_score e3 (claim_key s) c3 = Inl (Err NoPendingScore)))"
proof -
  obtain pending where p: "scores (c_store c') = scores (c_store c)"
    "pending_score c' (claim_key s) = Some pending"
    "committed_score pending = claimed_score s (input_commitment inp)"
    "ps_commit_after pending = saturating_add (ledger_timestamp e) b"
    using submit_buffered [OF ok buffer] by auto
  show ?thesis
  proof (cases "ledger_timestamp e2 < saturating_add (ledger_timestamp e) b")
    case True
    then show ?thesis
      using p later ready(1) by (simp add: commit_pending_score_def)
  next
    case False
    obtain t where "commit_counters (claim_key s) (c_stats c2) = Inr t"
      using commit_counters_ok ready(2-4) by blast
    then obtain c3 evs' where c3: "commit_pending_score e2 (claim_key s) c2 = Inr (c3, evs')"
      using commit_pending_ok [of c2 "claim_key s" pending e2 t] p later ready(1) False by (auto simp: not_less)
    then have "pending_score c3 (claim_key s) = None" "score_hook_dispatching c3 = score_hook_dispatching c2"
      by (auto elim: commit_pending_Inr)
    then have "commit_pending_score e3 (claim_key s) c3 = Inl (Err NoPendingScore)" for e3
      using ready(1) by (simp add: commit_pending_score_def is_score_hook_dispatching_def)
    then show ?thesis
      using False c3 p pending_commit.put_visible [OF c3] later by auto
  qed
qed

definition buffered_contract :: contract where
  "buffered_contract = sample_contract\<lparr>finality_buffer_secs := Some 60\<rparr>"

lemma record_activity_frame [frame_simps]:
  "score_count (fst (record_service_activity e t)) = score_count t"
  "pair_score_count (fst (record_service_activity e t)) = pair_score_count t"
  "total_wallets_scored (fst (record_service_activity e t)) = total_wallets_scored t"
  by (simp_all add: record_service_activity_def Let_def)

lemma buffered_contract_eq: "buffered_contract\<lparr>c_auth := sample_auth, c_keys := empty_keys\<rparr> = buffered_contract"
  by (simp add: buffered_contract_def sample_contract_def empty_contract_def)

lemma buffered_hold:
  fixes e ns c
  defines "e \<equiv> sample_env 1" and "c \<equiv> hll_first_time (sample_env 1) (Addr 7, ''XLM'') buffered_contract"
    and "ns \<equiv> normalize_submission (Addr 7) ''XLM'' 40 False True 900 80 1 None"
  shows "\<exists>c' evs. hold_pending e [] ns 60 c = Inr (c', evs) \<and> score_hook_dispatching c' = None \<and>
     score_count (c_stats c') = (\<lambda>_. None) \<and> pair_score_count (c_stats c') = (\<lambda>_. None) \<and>
     total_wallets_scored (c_stats c') = None"
proof -
  have c: "c_auth c = sample_auth" "c_limits c = empty_limits" "score_hook_dispatching c = None"
    "score_count (c_stats c) = (\<lambda>_. None)" "pair_score_count (c_stats c) = (\<lambda>_. None)"
    "total_wallets_scored (c_stats c) = None"
    by (simp_all add: c_def hll_first_time_def buffered_contract_def empty_stats_def frame_simps)
  have "get_last_submit_time k empty_limits = 0" for k
    by (simp add: get_last_submit_time_def empty_limits_def)
  then show ?thesis
    by (simp add: hold_pending_def c Let_def case_prod_unfold frame_simps)
qed

lemma buffered_submit:
  "\<exists>c' evs. submit_score (sample_env 1) [] sample_claim None buffered_contract = Inr (c', evs) \<and>
     score_hook_dispatching c' = None \<and> score_count (c_stats c') = (\<lambda>_. None) \<and>
     pair_score_count (c_stats c') = (\<lambda>_. None) \<and> total_wallets_scored (c_stats c') = None"
proof -
  have b: "c_auth buffered_contract = sample_auth" "c_keys buffered_contract = empty_keys"
    "c_models buffered_contract = empty_models" "gate_read_ledger buffered_contract k = None"
    "finality_buffer_secs buffered_contract = Some 60" "score_hook_dispatching buffered_contract = None" for k
    by (simp_all add: buffered_contract_def)
  have claim: "sc_wallet sample_claim = Addr 7" "sc_asset_pair sample_claim = ''XLM''"
    "sc_score sample_claim = 40" "sc_benford_flag sample_claim = False" "sc_ml_flag sample_claim = True"
    "sc_timestamp sample_claim = 900" "sc_confidence sample_claim = 80" "sc_model_version sample_claim = 1"
    by (simp_all add: sample_claim_def)
  obtain c' evs where h: "hold_pending (sample_env 1) [] (normalize_submission (Addr 7) ''XLM'' 40 False True 900 80 1 None)
      60 (hll_first_time (sample_env 1) (Addr 7, ''XLM'') buffered_contract) = Inr (c', evs)"
    "score_hook_dispatching c' = None" "score_count (c_stats c') = (\<lambda>_. None)"
    "pair_score_count (c_stats c') = (\<lambda>_. None)" "total_wallets_scored (c_stats c') = None"
    using buffered_hold by blast
  have "validate_normalized_submission (normalize_submission (Addr 7) ''XLM'' 40 False True 900 80 1 None)
      empty_models = Inr ()"
    by (simp add: validate_normalized_submission_def normalize_submission_def validate_model_version_def
        empty_models_def)
  then have "finalize_score_submission (sample_env 1) [] sample_claim None buffered_contract = Inr (c', evs)"
    using h(1) by (simp add: finalize_score_submission_def flash_check_def b claim Let_def)
  then have "submit_score (sample_env 1) [] sample_claim None buffered_contract = Inr (c', evs)"
    by (simp add: submit_score_def is_score_hook_dispatching_def is_frozen_def is_paused_def
        is_epoch_open_def ensure_asset_pair_bounded_def asset_pair_is_bounded_def b claim
        ensure_score_commitment_bounded_def sample_authorize buffered_contract_eq MAX_ASSET_PAIR_BYTES_def)
  then show ?thesis
    using h by blast
qed

theorem buffered_score_becomes_final_witness:
  "\<exists>c' evs c3 evs'. submit_score (sample_env 1) [] sample_claim None buffered_contract = Inr (c', evs) \<and>
     commit_pending_score (sample_env 1) (claim_key sample_claim) c' = Inl (Err FinalityWindowNotElapsed) \<and>
     commit_pending_score ((sample_env 2)\<lparr>ledger_timestamp := 1060\<rparr>) (claim_key sample_claim) c'
       = Inr (c3, evs') \<and>
     scores (c_store c3) (claim_key sample_claim) = Some (claimed_score sample_claim None)"
proof -
  obtain c' evs where ok: "submit_score (sample_env 1) [] sample_claim None buffered_contract = Inr (c', evs)"
    and c': "score_hook_dispatching c' = None" "score_count (c_stats c') = (\<lambda>_. None)"
      "pair_score_count (c_stats c') = (\<lambda>_. None)" "total_wallets_scored (c_stats c') = None"
    using buffered_submit by blast
  have "unwrap_or (finality_buffer_secs buffered_contract) 0 = 60"
    by (simp add: buffered_contract_def)
  note final = buffered_score_becomes_final [OF ok this, of c']
  have ready: "\<not> is_score_hook_dispatching c'" "get_score_count k (c_stats c') = 0"
    "get_pair_score_count p (c_stats c') = 0" "get_total_wallets_scored (c_stats c') = 0" for k p
    using c' by (simp_all add: is_score_hook_dispatching_def get_score_count_def
        get_pair_score_count_def get_total_wallets_scored_def)
  show ?thesis
    using final [of "sample_env 1"] final [of "(sample_env 2)\<lparr>ledger_timestamp := 1060\<rparr>"] ok ready
    by (auto simp: saturating_add_def)
qed

end
