(* ===== verification/Batch.thy ===== *)
theory Batch
  imports Submission
begin

text \<open>
  Batch submission (\<^verbatim>\<open>submit_scores_batch\<close>, \<^verbatim>\<open>lib.rs\<close> 1678--1906): the guards of the
  whole call, the checks of an entry with the code each one reports, and the write of an
  accepted entry.
\<close>

type_synonym ScoreSubmission = score_claim

record BatchEntryResult =
  be_index :: u32
  be_accepted :: bool
  be_rejection_code :: u32

record BatchResult =
  br_accepted_count :: u32
  br_rejected_count :: u32
  br_results :: "BatchEntryResult list"

section \<open>One entry\<close>

definition normalize_entry :: "ScoreSubmission \<Rightarrow> NormalizedSubmission" where
  "normalize_entry sub =
     normalize_submission (sc_wallet sub) (sc_asset_pair sub) (sc_score sub) (sc_benford_flag sub)
       (sc_ml_flag sub) (sc_timestamp sub) (sc_confidence sub) (sc_model_version sub) None"

text \<open>The codes a failed check reports; only \<^verbatim>\<open>Error\<close> values reach this point.\<close>

fun failure_code :: "failure \<Rightarrow> u32" where
  "failure_code (Err err) = error_code err"
| "failure_code (HookErr _) = 0"
| "failure_code Trap = 0"

definition BATCH_FLOOR_CODE :: u32 where "BATCH_FLOOR_CODE = 43"

text \<open>The checks of an entry in the order of the loop body: the code of the first one that
  fails, or the limits the write goes on with.\<close>

definition check_entry :: "env \<Rightarrow> ScoreSubmission \<Rightarrow> contract \<Rightarrow> u32 + limits" where
  "check_entry e sub c =
     (let k = claim_key sub; l = c_limits c in
      if \<not> asset_pair_is_bounded (sc_asset_pair sub) then Inl (error_code InvalidAttestation)
      else if is_pair_paused (sc_asset_pair sub) (c_auth c) then Inl (error_code ContractPaused)
      else case validate_normalized_submission (normalize_entry sub) (c_models c) of
        Inl err \<Rightarrow> Inl (failure_code err)
      | Inr _ \<Rightarrow>
          (let last_submit = get_last_submit_time k l;
               cooldown = compute_effective_cooldown (get_pair_cooldown_secs (snd k) l) l in
           if last_submit \<noteq> 0 \<and> ledger_timestamp e < saturating_add last_submit cooldown
           then Inl (error_code RateLimitExceeded)
           else if score_floor_blocks k (sc_score sub) l then Inl BATCH_FLOOR_CODE
           else case admit_velocity e k last_submit
                       (map_option rs_score (scores (c_store c) k)) (sc_score sub) l of
             Inl err \<Rightarrow> Inl (failure_code err)
           | Inr l' \<Rightarrow> Inr l'))"

definition store_entry ::
    "env \<Rightarrow> u32 \<Rightarrow> ScoreSubmission \<Rightarrow> limits \<Rightarrow> stats \<Rightarrow> contract \<Rightarrow> contract \<times> event list" where
  "store_entry e threshold sub l t c =
     (let k = claim_key sub;
          rs = risk_score_of (normalize_entry sub);
          previous = map_option rs_score (scores (c_store c) k);
          l1 = set_last_submit_time k (ledger_timestamp e) l;
          store = set_score e k rs (c_store c);
          f1 = register_pair_for_wallet k (c_portfolio c);
          f2 = refresh_aggregate_cache e store (fst k) f1;
          (m, signals) = risk_signals e k previous rs threshold (c_monitor c);
          provenance = provenance_of e (snd k) (rs_model_version rs) 1 ''batch''
            (c\<lparr>c_limits := l1\<rparr>) in
      (c\<lparr>c_store := store,
         c_history := push_score_history k rs (c_history c),
         c_stats := t,
         submission_provenance := (submission_provenance c)(k \<mapsto> provenance),
         c_limits := update_histogram_on_write previous (rs_score rs)
           (update_historical_max_score k (rs_score rs) l1),
         c_portfolio := f2,
         c_verkle := update_verkle_commitment e k rs (c_verkle c),
         c_monitor := m\<rparr>,
       signals))"

definition write_entry :: "env \<Rightarrow> u32 \<times> ScoreSubmission \<times> limits \<Rightarrow> contract \<Rightarrow> contract op" where
  "write_entry e x c =
     (case x of (threshold, sub, l) \<Rightarrow>
        bind_res (bump_counters (claim_key sub) (scores (c_store c) (claim_key sub) = None)
            (risk_score_of (normalize_entry sub)) (c_stats c)) (\<lambda>t.
          Inr (store_entry e threshold sub l t c)))"

definition batch_entry ::
    "env \<Rightarrow> u32 \<Rightarrow> nat \<Rightarrow> ScoreSubmission \<Rightarrow> contract \<Rightarrow> (contract \<times> BatchEntryResult \<times> event list) res" where
  "batch_entry e threshold i sub c =
     (case check_entry e sub c of
        Inl code \<Rightarrow>
          Inr (c, \<lparr>be_index = of_nat i, be_accepted = False, be_rejection_code = code\<rparr>, [])
      | Inr l \<Rightarrow>
          bind_res (write_entry e (threshold, sub, l) c) (\<lambda>(c', evs).
            Inr (c', \<lparr>be_index = of_nat i, be_accepted = True, be_rejection_code = 0\<rparr>, evs)))"

section \<open>The batch\<close>

fun batch_loop ::
    "env \<Rightarrow> u32 \<Rightarrow> nat \<Rightarrow> ScoreSubmission list \<Rightarrow> contract \<Rightarrow> (contract \<times> BatchEntryResult list \<times> event list) res" where
  "batch_loop e threshold i [] c = Inr (c, [], [])"
| "batch_loop e threshold i (sub # subs) c =
     bind_res (batch_entry e threshold i sub c) (\<lambda>(c1, r, ev1).
     bind_res (batch_loop e threshold (Suc i) subs c1) (\<lambda>(c2, rs, ev2).
       Inr (c2, r # rs, ev1 @ ev2)))"

definition submit_scores_batch ::
    "env \<Rightarrow> ScoreSubmission list \<Rightarrow> contract \<Rightarrow> (contract \<times> BatchResult \<times> event list) res" where
  "submit_scores_batch e submissions c =
     (if is_score_hook_dispatching c then Inl (HookErr ScoreHookDispatchInProgress)
      else
        bind_res (ensure_active c) (\<lambda>_.
        if \<not> is_epoch_open c then Inl (Err EpochClosed)
        else
          bind_res (service_require_auth e (c_auth c)) (\<lambda>_.
          if submissions = [] then Inl (Err EmptyBatch)
          else if MAX_BATCH_SIZE < length submissions then Inl (Err BatchTooLarge)
          else
            bind_res (batch_loop e (get_effective_threshold c) 0 submissions c) (\<lambda>(c', results, evs).
            (let accepted = length (filter be_accepted results);
                 (t, resumed) = (if 0 < accepted then record_service_activity e (c_stats c')
                                 else (c_stats c', [])) in
             Inr (c'\<lparr>c_stats := t\<rparr>,
                  \<lparr>br_accepted_count = of_nat accepted,
                   br_rejected_count = of_nat (length submissions) - of_nat accepted,
                   br_results = results\<rparr>,
                  evs @ resumed))))))"

section \<open>What the batch reports is what it did\<close>

lemma normalize_entry_claimed: "risk_score_of (normalize_entry sub) = claimed_score sub None"
  by (simp add: normalize_entry_def normalized_is_claimed)

lemma store_entry_fields:
  "c_store (fst (store_entry e th sub l t c)) = set_score e (claim_key sub) (claimed_score sub None) (c_store c)"
  "asset_pairs (c_portfolio (fst (store_entry e th sub l t c))) =
     asset_pairs (register_pair_for_wallet (claim_key sub) (c_portfolio c))"
  "c_history (fst (store_entry e th sub l t c)) =
     push_score_history (claim_key sub) (claimed_score sub None) (c_history c)"
  "c_limits (fst (store_entry e th sub l t c)) =
     update_histogram_on_write (map_option rs_score (scores (c_store c) (claim_key sub))) (sc_score sub)
       (update_historical_max_score (claim_key sub) (sc_score sub)
         (set_last_submit_time (claim_key sub) (ledger_timestamp e) l))"
  "pending_score (fst (store_entry e th sub l t c)) = pending_score c"
  "c_models (fst (store_entry e th sub l t c)) = c_models c"
  "c_auth (fst (store_entry e th sub l t c)) = c_auth c"
  by (simp_all add: store_entry_def Let_def case_prod_unfold frame_simps normalize_entry_claimed)
    (simp add: claimed_score_def)

lemma write_entry_Inr:
  assumes "write_entry e (th, sub, l) c = Inr (c', evs)"
  obtains t where "store_entry e th sub l t c = (c', evs)"
  using assms by (auto simp: write_entry_def bind_res_Inr_iff)

interpretation batch_write: score_writer write_entry
  "\<lambda>x c. claim_key (fst (snd x))" "\<lambda>x c. claimed_score (fst (snd x)) None"
proof
  fix e c c' r and x :: "u32 \<times> ScoreSubmission \<times> limits"
  assume "write_entry e x c = Inr (c', r)"
  then show "records e (claim_key (fst (snd x))) (claimed_score (fst (snd x)) None) c c'"
    by (cases x) (auto elim!: write_entry_Inr simp: records_def,
      (metis fst_conv store_entry_fields(1-3))+)
qed

lemma validate_error_code:
  "validate_normalized_submission ns r = Inl err \<Longrightarrow> failure_code err \<noteq> 0"
  by (auto simp: validate_normalized_submission_def validate_model_version_def
      split: if_splits option.splits ModelVersionStatus.splits)

lemma check_entry_code: "check_entry e sub c = Inl code \<Longrightarrow> code \<noteq> 0"
  by (auto simp: check_entry_def Let_def BATCH_FLOOR_CODE_def admit_velocity_def
      dest: validate_error_code split: if_splits sum.splits option.splits)

lemma check_entry_valid: "check_entry e sub c = Inr l \<Longrightarrow> valid_risk_score (claimed_score sub None)"
  by (auto simp: check_entry_def Let_def normalize_entry_claimed [symmetric]
      intro!: validate_risk_score_valid [of _ "c_models c"] simp: validators_agree
      split: if_splits sum.splits)

text \<open>The scores a batch leaves: each accepted entry writes its claim, in order.\<close>

fun apply_accepted ::
    "(ScoreSubmission \<times> BatchEntryResult) list \<Rightarrow> (pair_key \<Rightarrow> RiskScore option) \<Rightarrow> pair_key \<Rightarrow> RiskScore option" where
  "apply_accepted [] S = S"
| "apply_accepted ((sub, r) # rest) S =
     apply_accepted rest (if be_accepted r then S(claim_key sub \<mapsto> claimed_score sub None) else S)"

lemma batch_entry_cases:
  assumes "batch_entry e th i sub c = Inr (c', r, evs)"
  shows "be_index r = of_nat i \<and>
    (if be_accepted r
     then be_rejection_code r = 0 \<and> (\<exists>l. check_entry e sub c = Inr l \<and> write_entry e (th, sub, l) c = Inr (c', evs))
     else be_rejection_code r \<noteq> 0 \<and> c' = c \<and> evs = [])"
  using assms by (auto simp: batch_entry_def bind_res_Inr_iff dest: check_entry_code split: sum.splits)

lemma batch_entry_effect:
  assumes "batch_entry e th i sub c = Inr (c', r, evs)"
  shows "scores (c_store c') = apply_accepted [(sub, r)] (scores (c_store c))"
    "pending_score c' = pending_score c"
proof -
  show "scores (c_store c') = apply_accepted [(sub, r)] (scores (c_store c))"
    using batch_entry_cases [OF assms] batch_write.put_visible [of e "(th, sub, _)" c c' evs]
    by (auto split: if_splits)
  show "pending_score c' = pending_score c"
    using batch_entry_cases [OF assms] store_entry_fields(5)
    by (auto elim!: write_entry_Inr split: if_splits) (metis fst_conv)
qed

text \<open>The interface of a batch: a loop that runs one entry after the other and reports each one at its
  index, where an entry writes the claim it carries exactly when it is accepted.\<close>

locale batch_runner =
  fixes entry :: "nat \<Rightarrow> 'x \<Rightarrow> contract \<Rightarrow> (contract \<times> BatchEntryResult \<times> event list) res"
    and loop :: "nat \<Rightarrow> 'x list \<Rightarrow> contract \<Rightarrow> (contract \<times> BatchEntryResult list \<times> event list) res"
    and claim :: "'x \<Rightarrow> ScoreSubmission"
  assumes loop_Nil: "loop i [] c = Inr (c, [], [])"
    and loop_Cons: "loop i (x # xs) c =
      bind_res (entry i x c) (\<lambda>(c1, r, ev1).
      bind_res (loop (Suc i) xs c1) (\<lambda>(c2, rs, ev2). Inr (c2, r # rs, ev1 @ ev2)))"
    and entry_effect: "entry i x c = Inr (c', r, evs) \<Longrightarrow> be_index r = of_nat i \<and>
      scores (c_store c') = apply_accepted [(claim x, r)] (scores (c_store c)) \<and>
      pending_score c' = pending_score c"
begin

lemma loop_ConsE:
  assumes "loop i (x # xs) c = Inr (c', rs, evs)"
  obtains c1 r ev1 rs' ev2 where "entry i x c = Inr (c1, r, ev1)"
    "loop (Suc i) xs c1 = Inr (c', rs', ev2)" "rs = r # rs'"
  using assms by (auto simp: loop_Cons bind_res_Inr_iff)

lemma loop_effect:
  assumes "loop i xs c = Inr (c', rs, evs)"
  shows "length rs = length xs \<and> (\<forall>j < length xs. be_index (rs ! j) = of_nat (i + j)) \<and>
    scores (c_store c') = apply_accepted (zip (map claim xs) rs) (scores (c_store c)) \<and>
    pending_score c' = pending_score c"
  using assms
proof (induction xs arbitrary: i c rs evs)
  case (Cons x xs)
  from Cons.prems show ?case
  proof (rule loop_ConsE)
    fix c1 r ev1 rs' ev2
    assume entry: "entry i x c = Inr (c1, r, ev1)" and rest: "loop (Suc i) xs c1 = Inr (c', rs', ev2)"
      and rs: "rs = r # rs'"
    show ?thesis
      using Cons.IH [OF rest] entry_effect [OF entry]
      by (auto simp: rs nth_Cons less_Suc_eq_0_disj split: nat.splits if_splits)
  qed
qed (simp add: loop_Nil)

lemma loop_inv:
  assumes "loop i xs c = Inr (c', rs, evs)" "I c"
    and "\<And>i x c c' r evs. entry i x c = Inr (c', r, evs) \<Longrightarrow> I c \<Longrightarrow> I c'"
  shows "I c'"
  using assms(1,2)
proof (induction xs arbitrary: i c rs evs)
  case (Cons x xs)
  then show ?case
    by (auto elim!: loop_ConsE dest: assms(3))
qed (simp add: loop_Nil)

lemma loop_each:
  assumes "loop i xs c = Inr (c', rs, evs)" "I c"
    and "\<And>i x c c' r evs. entry i x c = Inr (c', r, evs) \<Longrightarrow> I c \<Longrightarrow> I c' \<and> Q x r"
  shows "\<forall>j < length xs. Q (xs ! j) (rs ! j)"
  using assms(1,2)
proof (induction xs arbitrary: i c rs evs)
  case (Cons x xs)
  then show ?case
    by (fastforce elim!: loop_ConsE dest: assms(3) simp: less_Suc_eq_0_disj)
qed simp

end

interpretation plain_batch: batch_runner "batch_entry e th" "batch_loop e th" "\<lambda>sub. sub" for e th
proof
  fix i sub c c' r evs
  assume entry: "batch_entry e th i sub c = Inr (c', r, evs)"
  show "be_index r = of_nat i \<and> scores (c_store c') = apply_accepted [(sub, r)] (scores (c_store c)) \<and>
      pending_score c' = pending_score c"
    using batch_entry_cases [OF entry] batch_entry_effect [OF entry] by simp
qed simp_all

lemma batch_codes:
  assumes "batch_loop e th i subs c = Inr (c', rs, evs)"
  shows "\<forall>j < length subs. be_accepted (rs ! j) \<longleftrightarrow> be_rejection_code (rs ! j) = 0"
  using assms
proof (rule plain_batch.loop_each [where I = "\<lambda>_. True" and Q = "\<lambda>_ r. be_accepted r \<longleftrightarrow> be_rejection_code r = 0"])
  fix i sub c c' r evs
  assume "batch_entry e th i sub c = Inr (c', r, evs)"
  then show "True \<and> (be_accepted r \<longleftrightarrow> be_rejection_code r = 0)"
    using batch_entry_cases by (metis (full_types))
qed simp

text \<open>The reported counts are those of the list.\<close>

lemma batch_counts:
  assumes "length rs = n" "n \<le> MAX_BATCH_SIZE"
  shows "unat (of_nat (length (filter be_accepted rs)) :: u32) = length (filter be_accepted rs)"
    "unat (of_nat (length (filter be_accepted rs)) :: u32) +
       unat (of_nat n - of_nat (length (filter be_accepted rs)) :: u32) = n"
proof -
  let ?k = "length (filter be_accepted rs)"
  have le: "?k \<le> n"
    using assms(1) length_filter_le by metis
  have u: "unat (of_nat ?k :: u32) = ?k" "unat (of_nat n :: u32) = n"
    using assms(2) le by (auto simp: MAX_BATCH_SIZE_def intro!: unat_of_nat_small)
  moreover have "unat (of_nat n - of_nat ?k :: u32) = n - ?k"
    using u le by (subst unat_sub) (simp_all add: word_le_nat_alt)
  ultimately show "unat (of_nat ?k :: u32) = ?k" "unat (of_nat ?k :: u32) + unat (of_nat n - of_nat ?k :: u32) = n"
    using le by simp_all
qed

text \<open>
  C5: The result of \<^verbatim>\<open>submit_scores_batch\<close> describes exactly what the call did.  There is one
  entry per submission, in order and with its index; it is accepted if and only if
  its rejection code is zero; the accepted and rejected counts are those of the list and
  add up to the batch size.  The live scores afterwards are the old ones overwritten by
  the accepted claims in order, and no pending entry was created or touched, whatever the
  finality buffer is.
\<close>

theorem batch_result_exact:
  assumes "submit_scores_batch e subs c = Inr (c', r, evs)"
  shows "0 < length subs \<and> length subs \<le> MAX_BATCH_SIZE \<and> length (br_results r) = length subs \<and>
    (\<forall>j < length subs. be_index (br_results r ! j) = of_nat j \<and>
       (be_accepted (br_results r ! j) \<longleftrightarrow> be_rejection_code (br_results r ! j) = 0)) \<and>
    unat (br_accepted_count r) = length (filter be_accepted (br_results r)) \<and>
    unat (br_accepted_count r) + unat (br_rejected_count r) = length subs \<and>
    scores (c_store c') = apply_accepted (zip subs (br_results r)) (scores (c_store c)) \<and>
    pending_score c' = pending_score c"
proof -
  obtain c1 results evs1 where
    loop: "batch_loop e (get_effective_threshold c) 0 subs c = Inr (c1, results, evs1)"
    and subs: "subs \<noteq> []" "length subs \<le> MAX_BATCH_SIZE"
    and r: "r = \<lparr>br_accepted_count = of_nat (length (filter be_accepted results)),
       br_rejected_count = of_nat (length subs) - of_nat (length (filter be_accepted results)),
       br_results = results\<rparr>"
    and c': "c_store c' = c_store c1" "pending_score c' = pending_score c1"
    using assms by (auto simp: submit_scores_batch_def bind_res_Inr_iff Let_def case_prod_unfold not_less
        split: if_splits)
  note eff = plain_batch.loop_effect [OF loop]
  show ?thesis
    using eff batch_codes [OF loop] batch_counts [of results "length subs"] subs c' by (simp add: r)
qed

section \<open>Batches do not see the freeze or the buffer\<close>

definition freeze_and_buffer :: "bool option \<Rightarrow> u64 option \<Rightarrow> contract \<Rightarrow> contract" where
  "freeze_and_buffer x b c = c\<lparr>c_auth := (c_auth c)\<lparr>frozen := x\<rparr>, finality_buffer_secs := b\<rparr>"

lemma check_entry_freeze: "check_entry e sub (freeze_and_buffer x b c) = check_entry e sub c"
  by (simp add: check_entry_def freeze_and_buffer_def is_pair_paused_def Let_def cong: sum.case_cong)

lemma store_entry_freeze:
  "store_entry e th sub l t (freeze_and_buffer x b c) =
     map_prod (freeze_and_buffer x b) id (store_entry e th sub l t c)"
  by (simp add: store_entry_def freeze_and_buffer_def Let_def case_prod_unfold provenance_of_def
      get_service_threshold_def)

lemma batch_entry_freeze:
  "batch_entry e th i sub (freeze_and_buffer x b c) =
     map_sum id (map_prod (freeze_and_buffer x b) id) (batch_entry e th i sub c)"
proof (cases "check_entry e sub c")
  case (Inr l)
  have "c_store (freeze_and_buffer x b c) = c_store c" "c_stats (freeze_and_buffer x b c) = c_stats c"
    by (simp_all add: freeze_and_buffer_def)
  then show ?thesis
    using Inr by (cases "bump_counters (claim_key sub) (scores (c_store c) (claim_key sub) = None)
        (risk_score_of (normalize_entry sub)) (c_stats c)")
      (simp_all add: batch_entry_def check_entry_freeze write_entry_def store_entry_freeze case_prod_unfold)
qed (simp add: batch_entry_def check_entry_freeze)

lemma batch_loop_freeze:
  "batch_loop e th i subs (freeze_and_buffer x b c) =
     map_sum id (map_prod (freeze_and_buffer x b) id) (batch_loop e th i subs c)"
proof (induction subs arbitrary: i c)
  case (Cons sub subs)
  show ?case
  proof (cases "batch_entry e th i sub c")
    case (Inr y)
    obtain c1 r ev1 where "y = (c1, r, ev1)"
      by (cases y)
    then show ?thesis
      using Inr Cons.IH [of "Suc i" c1]
      by (cases "batch_loop e th (Suc i) subs c1") (auto simp: batch_entry_freeze)
  qed (simp add: batch_entry_freeze)
qed simp

text \<open>
  \<^verbatim>\<open>submit_scores_batch\<close> does not depend on the emergency freeze or on the finality buffer:
  freezing or unfreezing the contract and setting the buffer to any value before the call
  changes neither its outcome, its result and events, nor the state it leaves apart
  from these two settings.  The batch entry point therefore writes live scores while
  \<^verbatim>\<open>freeze_contract\<close> is in force and without the review window.
\<close>

theorem batch_ignores_freeze_and_buffer:
  "submit_scores_batch e subs (freeze_and_buffer x b c) =
     map_sum id (map_prod (freeze_and_buffer x b) id) (submit_scores_batch e subs c)"
proof -
  have "is_score_hook_dispatching (freeze_and_buffer x b c) = is_score_hook_dispatching c"
    "ensure_active (freeze_and_buffer x b c) = ensure_active c"
    "is_epoch_open (freeze_and_buffer x b c) = is_epoch_open c"
    "service_require_auth e (c_auth (freeze_and_buffer x b c)) = service_require_auth e (c_auth c)"
    "get_effective_threshold (freeze_and_buffer x b c) = get_effective_threshold c"
    by (simp_all add: freeze_and_buffer_def is_score_hook_dispatching_def ensure_active_def has_admin_def
        is_paused_def is_epoch_open_def service_require_auth_def get_service_def get_effective_threshold_def)
  moreover have "c_stats (freeze_and_buffer x b d) = c_stats d"
    "(freeze_and_buffer x b d)\<lparr>c_stats := t\<rparr> = freeze_and_buffer x b (d\<lparr>c_stats := t\<rparr>)" for d t
    by (simp_all add: freeze_and_buffer_def)
  ultimately show ?thesis
    by (cases "ensure_active c"; cases "service_require_auth e (c_auth c)";
        cases "batch_loop e (get_effective_threshold c) 0 subs c")
      (simp_all add: submit_scores_batch_def batch_loop_freeze Let_def case_prod_unfold)
qed

section \<open>A batch of two\<close>

definition sample_batch :: "ScoreSubmission list" where
  "sample_batch = [sample_claim, sample_claim\<lparr>sc_score := 101\<rparr>]"

lemma batch_entry_ok:
  assumes "check_entry e sub c = Inr l"
    "bump_counters (claim_key sub) (scores (c_store c) (claim_key sub) = None) (claimed_score sub None)
       (c_stats c) = Inr t"
  shows "batch_entry e th i sub c = Inr (fst (store_entry e th sub l t c),
    \<lparr>be_index = of_nat i, be_accepted = True, be_rejection_code = 0\<rparr>, snd (store_entry e th sub l t c))"
  using assms by (simp add: batch_entry_def write_entry_def normalize_entry_claimed case_prod_unfold)

lemma sample_batch_submit:
  "\<exists>c' r evs. submit_scores_batch (sample_env 1) sample_batch sample_contract = Inr (c', r, evs) \<and>
     map be_rejection_code (br_results r) = [0, 4]"
proof -
  let ?e = "sample_env 1" and ?c = sample_contract and ?th = "get_effective_threshold sample_contract"
  have "\<exists>l. check_entry ?e sample_claim ?c = Inr l"
    by (simp add: check_entry_def asset_pair_is_bounded_def validate_normalized_submission_def
        normalize_entry_def normalize_submission_def validate_model_version_def empty_models_def
        sample_claim_def MAX_ASSET_PAIR_BYTES_def admit_eval empty_score_store_def)
  then obtain l where l: "check_entry ?e sample_claim ?c = Inr l" ..
  obtain t where t: "bump_counters (claim_key sample_claim) True (claimed_score sample_claim None)
      (c_stats ?c) = Inr t"
    using bump_counters_fresh [of "c_stats ?c" "claim_key sample_claim" "claimed_score sample_claim None" True]
    by (auto simp: empty_stats_def)
  let ?c1 = "fst (store_entry ?e ?th sample_claim l t ?c)"
  have "check_entry ?e (sample_claim\<lparr>sc_score := 101\<rparr>) ?c1 = Inl 4"
    by (simp add: check_entry_def asset_pair_is_bounded_def validate_normalized_submission_def
        normalize_entry_def normalize_submission_def store_entry_fields
        sample_claim_def MAX_ASSET_PAIR_BYTES_def)
  then have "batch_entry ?e ?th 1 (sample_claim\<lparr>sc_score := 101\<rparr>) ?c1 =
      Inr (?c1, \<lparr>be_index = 1, be_accepted = False, be_rejection_code = 4\<rparr>, [])"
    by (simp add: batch_entry_def)
  then have "\<exists>c1 r1 r2 evs. batch_loop ?e ?th 0 sample_batch ?c = Inr (c1, [r1, r2], evs) \<and>
      be_rejection_code r1 = 0 \<and> be_rejection_code r2 = 4"
    using batch_entry_ok [OF l, of t ?th 0] t by (simp add: sample_batch_def empty_score_store_def)
  then show ?thesis
    by (auto simp: submit_scores_batch_def is_score_hook_dispatching_def ensure_active_def is_paused_def
        is_epoch_open_def service_require_auth_def require_auth_def Let_def case_prod_unfold
        MAX_BATCH_SIZE_def) (simp_all add: sample_batch_def)
qed

lemma all_less_two: "(\<forall>j < 2. P j) \<longleftrightarrow> P 0 \<and> P (1 :: nat)"
  by (auto simp: less_2_cases_iff)

theorem batch_result_exact_witness:
  "\<exists>c' r evs. submit_scores_batch (sample_env 1) sample_batch sample_contract = Inr (c', r, evs) \<and>
     br_accepted_count r = 1 \<and> br_rejected_count r = 1 \<and>
     scores (c_store c') = [claim_key sample_claim \<mapsto> claimed_score sample_claim None]"
proof -
  obtain c' r evs where ok: "submit_scores_batch (sample_env 1) sample_batch sample_contract = Inr (c', r, evs)"
    and codes: "map be_rejection_code (br_results r) = [0, 4]"
    using sample_batch_submit by (elim exE conjE)
  then obtain r1 r2 where rs: "br_results r = [r1, r2]" "be_rejection_code r1 = 0" "be_rejection_code r2 = 4"
    by auto
  note exact = batch_result_exact [OF ok]
  have "length sample_batch = 2"
    by (simp add: sample_batch_def)
  then have acc: "be_accepted r1" "\<not> be_accepted r2"
    using exact rs by (auto simp: all_less_two)
  then have "unat (br_accepted_count r) = 1" "unat (br_rejected_count r) = 1"
    using exact rs by (auto simp: sample_batch_def)
  then show ?thesis
    using ok exact rs acc by (auto simp: sample_batch_def empty_score_store_def word_unat_eq_iff)
qed

end
