(* ===== verification/Merkle.thy ===== *)
theory Merkle
  imports Batch
begin

text \<open>
  Attested batch submission (\<^verbatim>\<open>lib.rs\<close> 2007--2264 and 13373--13592): the Merkle leaf of a
  submission, the walk of an inclusion proof, the checks of an entry, and the whole call.
  The tree itself is built off the chain; here it is a datatype whose leaves are
  submissions, so that the walk can be related to the root it ends at.
\<close>

record BatchAttestation =
  ba_merkle_root :: bytes
  ba_signature :: bytes

record ScoreSubmissionWithProof =
  sp_submission :: ScoreSubmission
  sp_proof :: "bytes list"
  sp_proof_flags :: u32

definition MAX_MERKLE_PROOF_DEPTH :: nat where "MAX_MERKLE_PROOF_DEPTH = 30"

section \<open>Leaves and proofs\<close>

definition compute_merkle_leaf :: "env \<Rightarrow> ScoreSubmission \<Rightarrow> bytes res" where
  "compute_merkle_leaf e submission =
     bind_res (compute_commitment e submission (replicate 32 0) 0) (\<lambda>commitment.
       Inr (sha256 e (0 # commitment)))"

definition hash_internal_node :: "env \<Rightarrow> bytes \<Rightarrow> bytes \<Rightarrow> bool \<Rightarrow> bytes" where
  "hash_internal_node e current sibling sibling_on_left =
     sha256 e (1 # (if sibling_on_left then sibling @ current else current @ sibling))"

fun merkle_walk :: "env \<Rightarrow> u32 \<Rightarrow> nat \<Rightarrow> bytes \<Rightarrow> bytes list \<Rightarrow> bytes" where
  "merkle_walk e proof_flags i current [] = current"
| "merkle_walk e proof_flags i current (sibling # proof) =
     merkle_walk e proof_flags (Suc i)
       (hash_internal_node e current sibling (and (drop_bit i proof_flags) 1 = 1)) proof"

definition verify_merkle_proof :: "env \<Rightarrow> bytes \<Rightarrow> bytes list \<Rightarrow> u32 \<Rightarrow> bytes \<Rightarrow> bool" where
  "verify_merkle_proof e leaf proof proof_flags root =
     (if MAX_MERKLE_PROOF_DEPTH < length proof then False
      else merkle_walk e proof_flags 0 leaf proof = root)"

section \<open>One attested entry\<close>

text \<open>The checks in the order of the loop body.  With version checking on, the branch of an
  active version ends with the code zero and without accepting the entry.\<close>

definition version_code :: "u32 \<Rightarrow> models \<Rightarrow> u32" where
  "version_code v r =
     (if v \<notin> set (all_model_versions r) then error_code ModelVersionNotRegistered
      else case get_model_version_status v r of
        Some Active \<Rightarrow> 0
      | Some Proposed \<Rightarrow> error_code ModelVersionNotReady
      | Some Deprecated \<Rightarrow> error_code ModelVersionDeprecated
      | None \<Rightarrow> error_code ModelVersionNotRegistered)"

definition check_attested :: "env \<Rightarrow> bytes \<Rightarrow> ScoreSubmissionWithProof \<Rightarrow> contract \<Rightarrow> u32 + limits" where
  "check_attested e root entry c =
     (let sub = sp_submission entry; k = claim_key sub; l = c_limits c in
      if \<not> asset_pair_is_bounded (sc_asset_pair sub) then Inl (error_code InvalidAttestation)
      else case compute_merkle_leaf e sub of
        Inl _ \<Rightarrow> Inl (error_code InvalidAttestation)
      | Inr leaf \<Rightarrow>
          if \<not> verify_merkle_proof e leaf (sp_proof entry) (sp_proof_flags entry) root
          then Inl (error_code InvalidAttestation)
          else if 100 < sc_score sub then Inl (error_code InvalidScore)
          else if 100 < sc_confidence sub then Inl (error_code InvalidConfidence)
          else if sc_timestamp sub = 0 then Inl (error_code InvalidTimestamp)
          else if all_model_versions (c_models c) \<noteq> []
          then Inl (version_code (sc_model_version sub) (c_models c))
          else
            (let last_submit = get_last_submit_time k l;
                 cooldown = compute_effective_cooldown (get_pair_cooldown_secs (snd k) l) l in
             if last_submit \<noteq> 0 \<and> ledger_timestamp e < saturating_add last_submit cooldown
             then Inl (error_code RateLimitExceeded)
             else case admit_velocity e k last_submit
                         (map_option rs_score (scores (c_store c) k)) (sc_score sub) l of
               Inl err \<Rightarrow> Inl (failure_code err)
             | Inr l' \<Rightarrow> Inr l'))"

definition attested_counters :: "pair_key \<Rightarrow> bool \<Rightarrow> stats \<Rightarrow> stats res" where
  "attested_counters k is_new t =
     bind_res (increment_score_count k t) (\<lambda>t1.
     bind_res (increment_pair_score_count (snd k) t1) (\<lambda>t2.
       if is_new then increment_total_wallets_scored t2 else Inr t2))"

definition write_attested ::
    "env \<Rightarrow> u32 \<times> ScoreSubmission \<times> limits \<Rightarrow> contract \<Rightarrow> contract op" where
  "write_attested e x c =
     (case x of (threshold, sub, l) \<Rightarrow>
       (let k = claim_key sub; rs = claimed_score sub None in
        bind_res (attested_counters k (scores (c_store c) k = None) (c_stats c)) (\<lambda>t.
          (let store = set_score e k rs (c_store c);
               f = register_pair_for_wallet k (c_portfolio c);
               breached = (if threshold \<le> rs_score rs
                 then [Event ''threshold_breached''
                         [VAddr (fst k), VSym (snd k), VU32 (rs_score rs), VU32 threshold]]
                 else []) in
           Inr (c\<lparr>c_limits := set_last_submit_time k (ledger_timestamp e) l,
                  c_store := store,
                  c_history := push_score_history k rs (c_history c),
                  c_stats := t,
                  c_portfolio := refresh_aggregate_cache e store (fst k) f\<rparr>,
                breached @ [score_submitted k rs])))))"

definition attested_entry ::
    "env \<Rightarrow> bytes \<Rightarrow> u32 \<Rightarrow> nat \<Rightarrow> ScoreSubmissionWithProof \<Rightarrow> contract \<Rightarrow>
     (contract \<times> BatchEntryResult \<times> event list) res" where
  "attested_entry e root threshold i entry c =
     (case check_attested e root entry c of
        Inl code \<Rightarrow>
          Inr (c, \<lparr>be_index = of_nat i, be_accepted = False, be_rejection_code = code\<rparr>, [])
      | Inr l \<Rightarrow>
          bind_res (write_attested e (threshold, sp_submission entry, l) c) (\<lambda>(c', evs).
            Inr (c', \<lparr>be_index = of_nat i, be_accepted = True, be_rejection_code = 0\<rparr>, evs)))"

fun attested_loop ::
    "env \<Rightarrow> bytes \<Rightarrow> u32 \<Rightarrow> nat \<Rightarrow> ScoreSubmissionWithProof list \<Rightarrow> contract \<Rightarrow>
     (contract \<times> BatchEntryResult list \<times> event list) res" where
  "attested_loop e root threshold i [] c = Inr (c, [], [])"
| "attested_loop e root threshold i (entry # entries) c =
     bind_res (attested_entry e root threshold i entry c) (\<lambda>(c1, r, ev1).
     bind_res (attested_loop e root threshold (Suc i) entries c1) (\<lambda>(c2, rs, ev2).
       Inr (c2, r # rs, ev1 @ ev2)))"

section \<open>The attested batch\<close>

definition submit_scores_batch_attested ::
    "env \<Rightarrow> address list \<Rightarrow> ScoreSubmissionWithProof list \<Rightarrow> BatchAttestation \<Rightarrow> contract \<Rightarrow>
     (contract \<times> BatchResult \<times> event list) res" where
  "submit_scores_batch_attested e signers submissions attestation c =
     (if is_score_hook_dispatching c then Inl (HookErr ScoreHookDispatchInProgress)
      else if \<not> has_admin (c_auth c) then Inl (Err NotInitialized)
      else if is_paused c then Inl (Err ContractPaused)
      else if \<not> is_epoch_open c then Inl (Err EpochClosed)
      else if service_pubkey (c_keys c) = None then Inl (Err ServicePubkeyNotSet)
      else
        bind_res (require_service_signers_auth e signers (c_auth c)) (\<lambda>expiring.
        if submissions = [] then Inl (Err EmptyBatch)
        else if MAX_BATCH_SIZE < length submissions then Inl (Err BatchTooLarge)
        else
          bind_res (verify_signature e (sha256 e (ba_merkle_root attestation))
              (ba_signature attestation) (c_keys c)) (\<lambda>y.
          bind_res (attested_loop e (ba_merkle_root attestation) (get_risk_threshold (c_monitor c)) 0
              submissions (c\<lparr>c_keys := y\<rparr>)) (\<lambda>(c', results, evs).
            (let accepted = length (filter be_accepted results) in
             Inr (c'\<lparr>last_global_submission_time := Some (ledger_timestamp e)\<rparr>,
                  \<lparr>br_accepted_count = of_nat accepted,
                   br_rejected_count = of_nat (length submissions) - of_nat accepted,
                   br_results = results\<rparr>,
                  expiring @ evs @
                  [Event ''batch_attested'' [VU32 (of_nat accepted),
                     VU32 (of_nat (length submissions) - of_nat accepted),
                     VBytes (ba_merkle_root attestation)]]))))))"

section \<open>The tree behind a root\<close>

datatype batch_tree = Leaf ScoreSubmission | Node batch_tree batch_tree

abbreviation leaf_preimage :: "env \<Rightarrow> ScoreSubmission \<Rightarrow> bytes" where
  "leaf_preimage e s \<equiv> commitment_preimage e s (replicate 32 0) 0"

abbreviation leaf_message :: "env \<Rightarrow> ScoreSubmission \<Rightarrow> bytes" where
  "leaf_message e s \<equiv> 0 # sha256 e (leaf_preimage e s)"

primrec tree_leaves :: "batch_tree \<Rightarrow> ScoreSubmission list" where
  "tree_leaves (Leaf s) = [s]"
| "tree_leaves (Node l r) = tree_leaves l @ tree_leaves r"

primrec tree_root :: "env \<Rightarrow> batch_tree \<Rightarrow> bytes" where
  "tree_root e (Leaf s) = sha256 e (leaf_message e s)"
| "tree_root e (Node l r) = sha256 e (1 # tree_root e l @ tree_root e r)"

text \<open>The messages that are hashed to build the root of a tree, and to check one entry.\<close>

primrec tree_messages :: "env \<Rightarrow> batch_tree \<Rightarrow> bytes set" where
  "tree_messages e (Leaf s) = {leaf_preimage e s, leaf_message e s}"
| "tree_messages e (Node l r) =
     insert (1 # tree_root e l @ tree_root e r) (tree_messages e l \<union> tree_messages e r)"

fun walk_messages :: "env \<Rightarrow> u32 \<Rightarrow> nat \<Rightarrow> bytes \<Rightarrow> bytes list \<Rightarrow> bytes set" where
  "walk_messages e flags i current [] = {}"
| "walk_messages e flags i current (sibling # ps) =
     (let left = (and (drop_bit i flags) 1 = 1) in
      insert (1 # (if left then sibling @ current else current @ sibling))
        (walk_messages e flags (Suc i) (hash_internal_node e current sibling left) ps))"

definition entry_messages :: "env \<Rightarrow> ScoreSubmissionWithProof \<Rightarrow> bytes set" where
  "entry_messages e entry =
     (let s = sp_submission entry in
      {leaf_preimage e s, leaf_message e s} \<union>
      walk_messages e (sp_proof_flags entry) 0 (sha256 e (leaf_message e s)) (sp_proof entry))"

lemma walk_snoc:
  "merkle_walk e flags i current (ps @ [s]) =
     hash_internal_node e (merkle_walk e flags i current ps) s (and (drop_bit (i + length ps) flags) 1 = 1)"
  "walk_messages e flags i current (ps @ [s]) =
     insert (1 # (if and (drop_bit (i + length ps) flags) 1 = 1
                  then s @ merkle_walk e flags i current ps
                  else merkle_walk e flags i current ps @ s))
       (walk_messages e flags i current ps)"
  by (induction ps arbitrary: i current) (simp_all add: Let_def insert_commute)

lemma tree_root_message: "\<exists>m \<in> tree_messages e t. tree_root e t = sha256 e m"
  by (cases t) auto

lemma length_walk:
  "(\<And>m. length (sha256 e m) = 32) \<Longrightarrow> length current = 32 \<Longrightarrow> length (merkle_walk e flags i current ps) = 32"
  by (induction ps arbitrary: i current) (simp_all add: hash_internal_node_def)

lemma length_tree_root: "(\<And>m. length (sha256 e m) = 32) \<Longrightarrow> length (tree_root e t) = 32"
  by (cases t) simp_all

text \<open>A walk that starts at a leaf message and ends at the root of a tree passes only through
  nodes of the tree, or two of the hashed messages collide.\<close>

lemma walk_sound:
  assumes digest: "\<And>m. length (sha256 e m) = 32"
    and siblings: "\<forall>s \<in> set ps. length s = 32"
    and free: "inj_on (sha256 e) (insert (0 # c) (walk_messages e flags 0 (sha256 e (0 # c)) ps) \<union> tree_messages e t)"
    and root: "merkle_walk e flags 0 (sha256 e (0 # c)) ps = tree_root e t"
  shows "\<exists>s \<in> set (tree_leaves t). sha256 e (leaf_preimage e s) = c"
  using siblings free root
proof (induction ps arbitrary: t rule: rev_induct)
  case Nil
  then obtain m where m: "m \<in> tree_messages e t" "sha256 e (0 # c) = sha256 e m" "m = (case t of
      Leaf s \<Rightarrow> leaf_message e s | Node l r \<Rightarrow> 1 # tree_root e l @ tree_root e r)"
    by (cases t) auto
  then have "0 # c = m"
    using Nil.prems(2) by (auto simp: inj_on_def)
  then show ?case
    using m(3) by (cases t) auto
next
  case (snoc s ps)
  let ?left = "and (drop_bit (length ps) flags) 1 = 1"
  let ?cur = "merkle_walk e flags 0 (sha256 e (0 # c)) ps"
  let ?m = "1 # (if ?left then s @ ?cur else ?cur @ s)"
  have m: "?m \<in> walk_messages e flags 0 (sha256 e (0 # c)) (ps @ [s])"
    using walk_snoc(2) [of e flags 0 "sha256 e (0 # c)" ps s] by simp
  have eq: "sha256 e ?m = tree_root e t"
    using snoc.prems(3) walk_snoc(1) [of e flags 0 "sha256 e (0 # c)" ps s]
    by (simp add: hash_internal_node_def)
  have len: "length ?cur = 32" "length (tree_root e l) = 32" "length (tree_root e r) = 32" for l r
    using length_walk [of e] length_tree_root [of e] digest by simp_all
  show ?case
  proof (cases t)
    case (Leaf x)
    have "?m = leaf_message e x"
      by (rule inj_onD [OF snoc.prems(2)])
        (use eq m in \<open>simp_all only: Leaf tree_root.simps tree_messages.simps Un_iff insert_iff simp_thms\<close>)
    then show ?thesis
      by simp
  next
    case (Node l r)
    have "?m = 1 # tree_root e l @ tree_root e r"
      by (rule inj_onD [OF snoc.prems(2)])
        (use eq m in \<open>simp_all only: Node tree_root.simps tree_messages.simps Un_iff insert_iff simp_thms\<close>)
    then have "?cur = tree_root e l \<or> ?cur = tree_root e r"
      using len snoc.prems(1) by (auto split: if_splits)
    then obtain u where u: "?cur = tree_root e u" "u = l \<or> u = r"
      by blast
    have "inj_on (sha256 e) (insert (0 # c) (walk_messages e flags 0 (sha256 e (0 # c)) ps) \<union> tree_messages e u)"
      using u(2) by (intro inj_on_subset [OF snoc.prems(2)]) (auto simp: Node walk_snoc(2))
    then show ?thesis
      using snoc.IH [OF _ _ u(1)] snoc.prems(1) u(2) by (auto simp: Node)
  qed
qed

section \<open>Every leaf has a proof\<close>

text \<open>The proofs of a tree, leaf by leaf: the siblings from the leaf upwards and, for each of them,
  whether it is the left one.\<close>

primrec tree_proofs :: "env \<Rightarrow> batch_tree \<Rightarrow> (ScoreSubmission \<times> bytes list \<times> bool list) list" where
  "tree_proofs e (Leaf s) = [(s, [], [])]"
| "tree_proofs e (Node l r) =
     map (\<lambda>(s, ps, bs). (s, ps @ [tree_root e r], bs @ [False])) (tree_proofs e l) @
     map (\<lambda>(s, ps, bs). (s, ps @ [tree_root e l], bs @ [True])) (tree_proofs e r)"

definition flags_of :: "bool list \<Rightarrow> u32" where
  "flags_of bs = horner_sum of_bool 2 bs"

lemma flag_bit: "and (drop_bit i flags) 1 = 1 \<longleftrightarrow> bit flags i" for flags :: u32
  by (simp add: and_one_eq bit_iff_odd_drop_bit odd_iff_mod_2_eq_one)

lemma bit_flags_of: "length bs \<le> 32 \<Longrightarrow> i < length bs \<Longrightarrow> bit (flags_of bs) i = bs ! i"
  by (simp add: flags_of_def bit_horner_sum_bit_word_iff)

lemma tree_proofs_leaves: "map fst (tree_proofs e t) = tree_leaves t"
  by (induction t) (simp_all add: case_prod_unfold comp_def)

lemma tree_proofs_length: "(s, ps, bs) \<in> set (tree_proofs e t) \<Longrightarrow> length ps = length bs"
  by (induction t arbitrary: ps bs) auto

lemma walk_of_tree_proof:
  assumes "(s, ps, bs) \<in> set (tree_proofs e t)" "\<forall>i < length bs. bit flags i = bs ! i"
  shows "merkle_walk e flags 0 (sha256 e (leaf_message e s)) ps = tree_root e t"
  using assms
proof (induction t arbitrary: ps bs)
  case (Node l r)
  then obtain qs cs d u v where sub: "(s, qs, cs) \<in> set (tree_proofs e u)" "bs = cs @ [d]"
      "ps = qs @ [tree_root e v]" "u = l \<and> v = r \<and> \<not> d \<or> u = r \<and> v = l \<and> d"
    by auto
  have "bit flags (length cs) = d" "\<forall>i < length cs. bit flags i = cs ! i"
    using Node.prems(2) by (auto simp: sub(2) nth_append less_Suc_eq)
  moreover from this have "merkle_walk e flags 0 (sha256 e (leaf_message e s)) qs = tree_root e u"
    using Node.IH sub(1,4) by blast
  ultimately show ?case
    using sub(4) tree_proofs_length [OF sub(1)]
    by (auto simp: sub(2,3) walk_snoc(1) hash_internal_node_def flag_bit)
qed simp

text \<open>
  Inclusion proofs are complete: the proofs of a tree list exactly its leaves in order, and each
  of them, with its sides packed into the flag word, is accepted against the root of the
  tree, as long as the tree is no deeper than the limit of thirty levels.
\<close>

theorem merkle_proof_roundtrip:
  "map fst (tree_proofs e t) = tree_leaves t \<and>
   (\<forall>(s, ps, bs) \<in> set (tree_proofs e t). length ps \<le> MAX_MERKLE_PROOF_DEPTH \<and> asset_pair_is_bounded (sc_asset_pair s) \<longrightarrow>
      (\<exists>leaf. compute_merkle_leaf e s = Inr leaf \<and> verify_merkle_proof e leaf ps (flags_of bs) (tree_root e t)))"
proof -
  have "\<exists>leaf. compute_merkle_leaf e s = Inr leaf \<and> verify_merkle_proof e leaf ps (flags_of bs) (tree_root e t)"
    if "(s, ps, bs) \<in> set (tree_proofs e t)" "length ps \<le> MAX_MERKLE_PROOF_DEPTH"
      "asset_pair_is_bounded (sc_asset_pair s)" for s ps bs
  proof -
    have "length ps = length bs"
      using that(1) by (rule tree_proofs_length)
    then have "merkle_walk e (flags_of bs) 0 (sha256 e (leaf_message e s)) ps = tree_root e t"
      using walk_of_tree_proof [OF that(1)] that(2) bit_flags_of by (simp add: MAX_MERKLE_PROOF_DEPTH_def)
    then show ?thesis
      using that(2,3) by (simp add: compute_merkle_leaf_def compute_commitment_def verify_merkle_proof_def
          asset_pair_is_bounded_def MAX_ASSET_PAIR_BYTES_def)
  qed
  then show ?thesis
    using tree_proofs_leaves by blast
qed

section \<open>What an attested batch did\<close>

lemma write_attested_Inr:
  assumes "write_attested e (th, sub, l) c = Inr (c', evs)"
  shows "records e (claim_key sub) (claimed_score sub None) c c'" "pending_score c' = pending_score c"
    "c_models c' = c_models c"
  using assms by (auto simp: write_attested_def Let_def bind_res_Inr_iff records_def frame_simps)

interpretation attested_write: score_writer write_attested
  "\<lambda>x c. claim_key (fst (snd x))" "\<lambda>x c. claimed_score (fst (snd x)) None"
proof
  fix e c c' r and x :: "u32 \<times> ScoreSubmission \<times> limits"
  assume "write_attested e x c = Inr (c', r)"
  then show "records e (claim_key (fst (snd x))) (claimed_score (fst (snd x)) None) c c'"
    by (cases x) (auto dest: write_attested_Inr)
qed

lemma attested_entry_cases:
  assumes "attested_entry e root th i x c = Inr (c', r, evs)"
  shows "be_index r = of_nat i \<and> c_models c' = c_models c \<and>
    (if be_accepted r
     then be_rejection_code r = 0 \<and> (\<exists>l. check_attested e root x c = Inr l \<and>
       write_attested e (th, sp_submission x, l) c = Inr (c', evs))
     else check_attested e root x c = Inl (be_rejection_code r) \<and> c' = c)"
  using assms by (auto simp: attested_entry_def bind_res_Inr_iff dest: write_attested_Inr(3) split: sum.splits)

interpretation attested_batch: batch_runner "attested_entry e root th" "attested_loop e root th" sp_submission
  for e root th
proof
  fix i x c c' r evs
  assume entry: "attested_entry e root th i x c = Inr (c', r, evs)"
  have "scores (c_store c') = apply_accepted [(sp_submission x, r)] (scores (c_store c))"
    using attested_entry_cases [OF entry] attested_write.put_visible [of e "(th, sp_submission x, _)" c c' evs]
    by (auto split: if_splits)
  then show "be_index r = of_nat i \<and>
      scores (c_store c') = apply_accepted [(sp_submission x, r)] (scores (c_store c)) \<and>
      pending_score c' = pending_score c"
    using attested_entry_cases [OF entry] by (auto dest: write_attested_Inr(2) split: if_splits)
qed simp_all

lemma check_attested_Inr:
  assumes "check_attested e root x c = Inr l"
  shows "merkle_walk e (sp_proof_flags x) 0 (sha256 e (leaf_message e (sp_submission x))) (sp_proof x) = root"
    "valid_risk_score (claimed_score (sp_submission x) None)" "all_model_versions (c_models c) = []"
  using assms
  by (auto simp: check_attested_def Let_def compute_merkle_leaf_def compute_commitment_def
      verify_merkle_proof_def valid_risk_score_def claimed_score_def linorder_not_less bind_res_Inr_iff
      split: if_splits sum.splits)

lemma attested_Inr:
  assumes "submit_scores_batch_attested e signers subs att c = Inr (c', r, evs)"
  obtains y c1 evs1 where
    "verify_signature e (sha256 e (ba_merkle_root att)) (ba_signature att) (c_keys c) = Inr y"
    "attested_loop e (ba_merkle_root att) (get_risk_threshold (c_monitor c)) 0 subs (c\<lparr>c_keys := y\<rparr>)
       = Inr (c1, br_results r, evs1)"
    "same_data c1 c'" "length subs \<le> MAX_BATCH_SIZE"
    "br_accepted_count r = of_nat (length (filter be_accepted (br_results r)))"
    "br_rejected_count r = of_nat (length subs) - br_accepted_count r"
  using assms by (auto simp: submit_scores_batch_attested_def bind_res_Inr_iff Let_def case_prod_unfold
      not_less same_data_def split: if_splits)

text \<open>What the check of an entry against a root relies on: digests and siblings have 32 bytes, the
  text forms of addresses and pairs are distinct, and the messages at hand do not collide.\<close>

definition sound_host :: "env \<Rightarrow> ScoreSubmissionWithProof list \<Rightarrow> batch_tree \<Rightarrow> bool" where
  "sound_host e subs t \<longleftrightarrow>
     (\<forall>m. length (sha256 e m) = 32) \<and>
     (\<forall>x \<in> set subs. \<forall>s \<in> set (sp_proof x). length s = 32) \<and>
     address_host e (sc_wallet ` (sp_submission ` set subs \<union> set (tree_leaves t))) \<and>
     (\<forall>s \<in> sp_submission ` set subs \<union> set (tree_leaves t). valid_pair (sc_asset_pair s)) \<and>
     inj_on (sha256 e) ((\<Union>x \<in> set subs. entry_messages e x) \<union> tree_messages e t)"

lemma leaf_preimage_message: "s \<in> set (tree_leaves t) \<Longrightarrow> leaf_preimage e s \<in> tree_messages e t"
  by (induction t) auto

lemma address_host_subset: "address_host e ws \<Longrightarrow> vs \<subseteq> ws \<Longrightarrow> address_host e vs"
  by (auto simp: address_host_def intro: inj_on_subset)

lemma verified_entry_in_tree:
  assumes host: "sound_host e subs t" and x: "x \<in> set subs"
    and root: "merkle_walk e (sp_proof_flags x) 0 (sha256 e (leaf_message e (sp_submission x))) (sp_proof x)
      = tree_root e t"
  shows "sp_submission x \<in> set (tree_leaves t)"
proof -
  let ?s = "sp_submission x"
  have msgs: "entry_messages e x \<subseteq> (\<Union>x \<in> set subs. entry_messages e x)"
    using x by blast
  have inj: "inj_on (sha256 e) ((\<Union>x \<in> set subs. entry_messages e x) \<union> tree_messages e t)"
    and names: "address_host e (sc_wallet ` (sp_submission ` set subs \<union> set (tree_leaves t)))"
    and pairs: "\<forall>s \<in> sp_submission ` set subs \<union> set (tree_leaves t). valid_pair (sc_asset_pair s)"
    using host unfolding sound_host_def by blast+
  have "inj_on (sha256 e) (insert (leaf_message e ?s) (walk_messages e (sp_proof_flags x) 0
      (sha256 e (leaf_message e ?s)) (sp_proof x)) \<union> tree_messages e t)"
    using msgs by (intro inj_on_subset [OF inj]) (auto simp: entry_messages_def Let_def)
  then obtain s where s: "s \<in> set (tree_leaves t)" "sha256 e (leaf_preimage e s) = sha256 e (leaf_preimage e ?s)"
    using walk_sound [of e "sp_proof x" "sha256 e (leaf_preimage e ?s)" "sp_proof_flags x" t] host x root
    unfolding sound_host_def by blast
  have "leaf_preimage e ?s \<in> entry_messages e x"
    by (simp add: entry_messages_def Let_def)
  then have "leaf_preimage e ?s \<in> (\<Union>x \<in> set subs. entry_messages e x) \<union> tree_messages e t"
    using msgs by blast
  moreover have "leaf_preimage e s \<in> (\<Union>x \<in> set subs. entry_messages e x) \<union> tree_messages e t"
    using leaf_preimage_message [OF s(1), of e] by blast
  ultimately have "leaf_preimage e s = leaf_preimage e ?s"
    using inj_onD [OF inj s(2)] by blast
  moreover have "address_host e {sc_wallet s, sc_wallet ?s}"
    using names x s(1) by (elim address_host_subset) blast
  ultimately have "s = ?s"
    using preimage_inject [of e s ?s "replicate 32 0" "replicate 32 0" 0 0] pairs x s(1) by blast
  then show ?thesis
    using s(1) by simp
qed

text \<open>
  C19: An attested batch writes only what the service signed.  If the attested root is the root of a
  tree of submissions and the messages hashed on the way do not collide, then the root
  was signed by a current, unrevoked service key, every accepted entry is a leaf of that
  tree, and the live scores afterwards are the old ones overwritten by the accepted
  leaves in order.  Leaves and inner nodes are hashed under different markers, so a proof
  that is too short or too long for the tree is not accepted.
\<close>

theorem attested_batch_sound:
  assumes ok: "submit_scores_batch_attested e signers subs att c = Inr (c', r, evs)"
    and root: "ba_merkle_root att = tree_root e t"
    and host: "sound_host e subs t"
  shows "(\<exists>recovered key.
      secp256k1_recover e (sha256 e (tree_root e t)) (take 64 (ba_signature att)) (ucast (ba_signature att ! 64))
        = Some recovered \<and> pubkeys_match recovered key \<and>
      \<not> is_key_revoked_at e key (ledger_timestamp e) (c_keys c) \<and> current_service_key e (c_keys c) key) \<and>
    (\<forall>j < length subs. be_accepted (br_results r ! j) \<longrightarrow> sp_submission (subs ! j) \<in> set (tree_leaves t)) \<and>
    scores (c_store c') = apply_accepted (zip (map sp_submission subs) (br_results r)) (scores (c_store c))"
  using ok
proof (rule attested_Inr)
  fix y c1 evs1
  assume sig: "verify_signature e (sha256 e (ba_merkle_root att)) (ba_signature att) (c_keys c) = Inr y"
    and loop: "attested_loop e (ba_merkle_root att) (get_risk_threshold (c_monitor c)) 0 subs (c\<lparr>c_keys := y\<rparr>)
      = Inr (c1, br_results r, evs1)" and c': "same_data c1 c'"
  have "\<forall>j < length subs. be_accepted (br_results r ! j) \<longrightarrow>
      merkle_walk e (sp_proof_flags (subs ! j)) 0 (sha256 e (leaf_message e (sp_submission (subs ! j))))
        (sp_proof (subs ! j)) = tree_root e t"
    by (rule attested_batch.loop_each [OF loop, where I = "\<lambda>_. True" and Q = "\<lambda>x r. be_accepted r \<longrightarrow>
        merkle_walk e (sp_proof_flags x) 0 (sha256 e (leaf_message e (sp_submission x))) (sp_proof x)
          = tree_root e t"])
      (auto dest!: attested_entry_cases check_attested_Inr(1) simp: root)
  then have "\<forall>j < length subs. be_accepted (br_results r ! j) \<longrightarrow> sp_submission (subs ! j) \<in> set (tree_leaves t)"
    using verified_entry_in_tree [OF host] by simp
  moreover have "scores (c_store c') = apply_accepted (zip (map sp_submission subs) (br_results r)) (scores (c_store c))"
    using attested_batch.loop_effect [OF loop] c' by (simp add: same_data_def)
  ultimately show ?thesis
    using service_key_of_signature [OF sig] by (simp add: root)
qed

text \<open>
  An attested batch accepts nothing once the model registry is in use: with any registered version
  every entry is rejected and the scores stay as they are, and an entry of an active
  version that passes all checks before is reported with the code zero, which elsewhere
  means acceptance.
\<close>

theorem attested_batch_stuck_with_registry:
  assumes ok: "submit_scores_batch_attested e signers subs att c = Inr (c', r, evs)"
    and registry: "all_model_versions (c_models c) \<noteq> []"
  shows "br_accepted_count r = 0 \<and> (\<forall>j < length subs. \<not> be_accepted (br_results r ! j)) \<and>
    scores (c_store c') = scores (c_store c) \<and>
    (\<forall>j < length subs. be_rejection_code (br_results r ! j) = 0 \<longrightarrow>
       get_model_version_status (sc_model_version (sp_submission (subs ! j))) (c_models c) = Some Active)"
  using ok
proof (rule attested_Inr)
  fix y c1 evs1
  let ?c = "c\<lparr>c_keys := y\<rparr>"
  assume loop: "attested_loop e (ba_merkle_root att) (get_risk_threshold (c_monitor c)) 0 subs ?c
      = Inr (c1, br_results r, evs1)" and c': "same_data c1 c'"
    and count: "br_accepted_count r = of_nat (length (filter be_accepted (br_results r)))"
  have each: "\<forall>j < length subs. \<not> be_accepted (br_results r ! j) \<and> (be_rejection_code (br_results r ! j) = 0 \<longrightarrow>
       get_model_version_status (sc_model_version (sp_submission (subs ! j))) (c_models c) = Some Active)"
  proof (rule attested_batch.loop_each [OF loop, where I = "\<lambda>d. c_models d = c_models c"])
    fix i x d d' r evs
    assume entry: "attested_entry e (ba_merkle_root att) (get_risk_threshold (c_monitor c)) i x d = Inr (d', r, evs)"
      and d: "c_models d = c_models c"
    have "\<not> be_accepted r"
      using attested_entry_cases [OF entry] d registry by (auto dest!: check_attested_Inr(3))
    moreover have "get_model_version_status (sc_model_version (sp_submission x)) (c_models c) = Some Active"
      if "check_attested e (ba_merkle_root att) x d = Inl 0"
      using that d registry
      by (auto simp: check_attested_def Let_def version_code_def split: if_splits sum.splits option.splits
          ModelVersionStatus.splits)
    ultimately show "c_models d' = c_models c \<and> (\<not> be_accepted r \<and> (be_rejection_code r = 0 \<longrightarrow>
        get_model_version_status (sc_model_version (sp_submission x)) (c_models c) = Some Active))"
      using attested_entry_cases [OF entry] d by auto
  qed simp
  have len: "length (br_results r) = length subs"
    using attested_batch.loop_effect [OF loop] by simp
  then have none: "filter be_accepted (br_results r) = []"
    using each by (auto simp: filter_empty_conv in_set_conv_nth)
  have "c_store c1 = c_store c"
    by (rule attested_batch.loop_inv [OF loop, where I = "\<lambda>d. c_store d = c_store c \<and> c_models d = c_models c",
          THEN conjunct1])
      (use registry in \<open>auto dest!: attested_entry_cases check_attested_Inr(3) split: if_splits\<close>)
  then show ?thesis
    using each none count c' by (simp add: same_data_def)
qed

section \<open>A batch of one leaf out of two\<close>

definition sample_merkle_env :: env where
  "sample_merkle_env = sample_sig_env\<lparr>sha256 := (\<lambda>m. of_nat (length m) # sum_list m # replicate 30 0)\<rparr>"

definition sample_tree :: batch_tree where
  "sample_tree = Node (Leaf sample_claim) (Leaf (sample_claim\<lparr>sc_score := 41\<rparr>))"

definition sample_entry :: ScoreSubmissionWithProof where
  "sample_entry = \<lparr>sp_submission = sample_claim,
     sp_proof = [tree_root sample_merkle_env (Leaf (sample_claim\<lparr>sc_score := 41\<rparr>))], sp_proof_flags = 0\<rparr>"

definition sample_root_attestation :: BatchAttestation where
  "sample_root_attestation =
     \<lparr>ba_merkle_root = tree_root sample_merkle_env sample_tree, ba_signature = replicate 65 0\<rparr>"

lemma score_bytes: "sum_list (u32_le 41) = 1 + sum_list (u32_le 40)"
  by code_simp

lemma sample_preimages:
  "length (leaf_preimage sample_merkle_env sample_claim) = 211"
  "length (leaf_preimage sample_merkle_env (sample_claim\<lparr>sc_score := 41\<rparr>)) = 211"
  "sum_list (leaf_preimage sample_merkle_env (sample_claim\<lparr>sc_score := 41\<rparr>)) =
     1 + sum_list (leaf_preimage sample_merkle_env sample_claim)"
  by (simp_all add: commitment_preimage_def sample_merkle_env_def sample_sig_env_def sample_env_def
      sample_claim_def score_bytes)

lemma sample_sha: "sha256 sample_merkle_env m = of_nat (length m) # sum_list m # replicate 30 0"
  by (simp add: sample_merkle_env_def)

lemma five_messages:
  assumes "length p = 211" "length q = 211" "length a = 33" "length b = 33" "length n = 65"
    "sum_list q = 1 + sum_list p" "sum_list b = 1 + sum_list a"
  shows "inj_on (sha256 sample_merkle_env) {p, q, a, b, n}"
  using assms by (auto simp: inj_on_def sample_sha)

lemma sample_messages:
  "entry_messages sample_merkle_env sample_entry \<union> tree_messages sample_merkle_env sample_tree =
     {leaf_preimage sample_merkle_env sample_claim,
      leaf_preimage sample_merkle_env (sample_claim\<lparr>sc_score := 41\<rparr>),
      leaf_message sample_merkle_env sample_claim,
      leaf_message sample_merkle_env (sample_claim\<lparr>sc_score := 41\<rparr>),
      1 # sha256 sample_merkle_env (leaf_message sample_merkle_env sample_claim) @
        sha256 sample_merkle_env (leaf_message sample_merkle_env (sample_claim\<lparr>sc_score := 41\<rparr>))}"
  by (auto simp: entry_messages_def sample_entry_def sample_tree_def Let_def)

lemma sample_host: "sound_host sample_merkle_env [sample_entry] sample_tree"
proof -
  have "inj_on (sha256 sample_merkle_env)
      (entry_messages sample_merkle_env sample_entry \<union> tree_messages sample_merkle_env sample_tree)"
    unfolding sample_messages by (rule five_messages) (simp_all add: sample_preimages sample_sha)
  moreover have "address_host sample_merkle_env {Addr 7}"
    by (simp add: address_host_def sample_merkle_env_def sample_sig_env_def sample_env_def)
  moreover have "sc_wallet ` (sp_submission ` set [sample_entry] \<union> set (tree_leaves sample_tree)) = {Addr 7}"
    "sp_submission ` set [sample_entry] \<union> set (tree_leaves sample_tree) = {sample_claim, sample_claim\<lparr>sc_score := 41\<rparr>}"
    by (auto simp: sample_entry_def sample_tree_def sample_claim_def)
  moreover have "\<forall>s \<in> set (sp_proof sample_entry). length s = 32"
    by (simp add: sample_entry_def sample_sha)
  ultimately show ?thesis
    by (simp add: sound_host_def sample_sha) (simp add: sample_claim_def valid_pair_def)
qed

lemma merkle_checks:
  "compute_merkle_leaf sample_merkle_env sample_claim =
     Inr (sha256 sample_merkle_env (leaf_message sample_merkle_env sample_claim))"
  "verify_merkle_proof sample_merkle_env
      (sha256 sample_merkle_env (leaf_message sample_merkle_env sample_claim))
      [tree_root sample_merkle_env (Leaf (sample_claim\<lparr>sc_score := 41\<rparr>))] 0
      (tree_root sample_merkle_env sample_tree)"
proof -
  show "compute_merkle_leaf sample_merkle_env sample_claim =
      Inr (sha256 sample_merkle_env (leaf_message sample_merkle_env sample_claim))"
    by (simp add: compute_merkle_leaf_def compute_commitment_def) (simp add: sample_claim_def)
qed (simp add: verify_merkle_proof_def sample_tree_def hash_internal_node_def MAX_MERKLE_PROOF_DEPTH_def)

lemma sample_attested_entry:
  assumes "c_store c = empty_score_store" "c_stats c = empty_stats" "c_limits c = empty_limits"
    "c_models c = empty_models"
  shows "\<exists>c' evs. attested_entry sample_merkle_env (tree_root sample_merkle_env sample_tree) th 0 sample_entry c =
    Inr (c', \<lparr>be_index = 0, be_accepted = True, be_rejection_code = 0\<rparr>, evs)"
proof -
  have "\<exists>l. check_attested sample_merkle_env (tree_root sample_merkle_env sample_tree) sample_entry c = Inr l"
    using assms merkle_checks by (simp add: check_attested_def Let_def sample_entry_def asset_pair_is_bounded_def
        MAX_ASSET_PAIR_BYTES_def empty_models_def admit_eval empty_score_store_def)
      (simp add: sample_claim_def)
  then obtain l where l: "check_attested sample_merkle_env (tree_root sample_merkle_env sample_tree) sample_entry c = Inr l" ..
  have "\<exists>t. attested_counters (claim_key sample_claim) True (c_stats c) = Inr t"
    by (simp add: attested_counters_def increment_score_count_def increment_pair_score_count_def
        increment_total_wallets_scored_def plus_one_ok empty_stats_def assms(2))
  then obtain t where "attested_counters (claim_key sample_claim) True (c_stats c) = Inr t" ..
  then have "\<exists>c' evs. write_attested sample_merkle_env (th, sample_claim, l) c = Inr (c', evs)"
    by (simp add: write_attested_def Let_def assms(1) empty_score_store_def)
  moreover have "sp_submission sample_entry = sample_claim"
    by (simp add: sample_entry_def)
  ultimately show ?thesis
    using l by (auto simp: attested_entry_def)
qed

lemma sample_attested_call:
  assumes "c_auth c = sample_auth" "c_keys c = sample_keys" "score_hook_dispatching c = None"
    "attested_loop sample_merkle_env (tree_root sample_merkle_env sample_tree) (get_risk_threshold (c_monitor c)) 0
       [sample_entry] (c\<lparr>c_keys := sample_keys\<rparr>) = Inr (c1, rs, evs1)"
  shows "\<exists>c' r evs. submit_scores_batch_attested sample_merkle_env [] [sample_entry] sample_root_attestation c
    = Inr (c', r, evs) \<and> br_results r = rs"
proof -
  have "verify_signature sample_merkle_env d (replicate 65 0) sample_keys = Inr sample_keys" for d
    by (simp add: verify_signature_def promote_service_key_def check_signature_def is_key_revoked_at_def
        sample_keys_def empty_keys_def sample_merkle_env_def sample_sig_env_def pubkeys_match_def Let_def)
  moreover have "require_service_signers_auth sample_merkle_env [] sample_auth = Inr []"
    by (simp add: require_service_signers_auth_def require_auth_def Let_def sample_merkle_env_def
        sample_sig_env_def sample_env_def)
  moreover have "service_pubkey sample_keys \<noteq> None"
    by (simp add: sample_keys_def)
  ultimately show ?thesis
    using assms by (simp add: submit_scores_batch_attested_def is_score_hook_dispatching_def is_paused_def
        is_epoch_open_def sample_root_attestation_def MAX_BATCH_SIZE_def Let_def case_prod_unfold
        del: attested_loop.simps)
qed

theorem merkle_proof_roundtrip_witness:
  "\<exists>leaf. compute_merkle_leaf sample_merkle_env sample_claim = Inr leaf \<and>
     verify_merkle_proof sample_merkle_env leaf (sp_proof sample_entry) 0 (tree_root sample_merkle_env sample_tree)"
proof -
  have mem: "(sample_claim, sp_proof sample_entry, [False]) \<in> set (tree_proofs sample_merkle_env sample_tree)"
    by (simp add: sample_tree_def sample_entry_def)
  have "length (sp_proof sample_entry) \<le> MAX_MERKLE_PROOF_DEPTH" "asset_pair_is_bounded (sc_asset_pair sample_claim)"
    by (simp_all add: sample_entry_def MAX_MERKLE_PROOF_DEPTH_def asset_pair_is_bounded_def
        MAX_ASSET_PAIR_BYTES_def sample_claim_def)
  then show ?thesis
    using merkle_proof_roundtrip [THEN conjunct2, THEN bspec, OF mem] by (simp add: flags_of_def)
qed

theorem attested_batch_sound_witness:
  "\<exists>c' r evs. submit_scores_batch_attested sample_merkle_env [] [sample_entry] sample_root_attestation
       (sample_contract\<lparr>c_keys := sample_keys\<rparr>) = Inr (c', r, evs) \<and>
     scores (c_store c') = [claim_key sample_claim \<mapsto> claimed_score sample_claim None]"
proof -
  let ?c = "sample_contract\<lparr>c_keys := sample_keys\<rparr>"
  obtain c1 evs1 where "attested_entry sample_merkle_env (tree_root sample_merkle_env sample_tree)
      (get_risk_threshold (c_monitor ?c)) 0 sample_entry ?c
      = Inr (c1, \<lparr>be_index = 0, be_accepted = True, be_rejection_code = 0\<rparr>, evs1)"
    using sample_attested_entry [of ?c "get_risk_threshold (c_monitor ?c)"] by auto
  then obtain c' r evs where ok: "submit_scores_batch_attested sample_merkle_env [] [sample_entry]
      sample_root_attestation ?c = Inr (c', r, evs)"
    and r: "br_results r = [\<lparr>be_index = 0, be_accepted = True, be_rejection_code = 0\<rparr>]"
    using sample_attested_call [of ?c] by auto
  then show ?thesis
    using attested_batch_sound [OF ok _ sample_host]
    by (simp add: sample_root_attestation_def sample_entry_def empty_score_store_def)
qed

theorem attested_batch_stuck_with_registry_witness:
  "\<exists>c' r evs. submit_scores_batch_attested sample_merkle_env [] [sample_entry] sample_root_attestation
       (sample_contract\<lparr>c_models := empty_models\<lparr>all_model_versions := [1]\<rparr>, c_keys := sample_keys\<rparr>)
       = Inr (c', r, evs) \<and> br_accepted_count r = 0 \<and> be_rejection_code (br_results r ! 0) = 0"
proof -
  let ?c = "sample_contract\<lparr>c_models := empty_models\<lparr>all_model_versions := [1]\<rparr>, c_keys := sample_keys\<rparr>"
  have "check_attested sample_merkle_env (tree_root sample_merkle_env sample_tree) sample_entry ?c = Inl 0"
    using merkle_checks by (simp add: check_attested_def Let_def sample_entry_def asset_pair_is_bounded_def
        MAX_ASSET_PAIR_BYTES_def version_code_def get_model_version_status_def empty_models_def)
      (simp add: sample_claim_def)
  then obtain c' r evs where ok: "submit_scores_batch_attested sample_merkle_env [] [sample_entry]
      sample_root_attestation ?c = Inr (c', r, evs)"
    and r: "br_results r = [\<lparr>be_index = 0, be_accepted = False, be_rejection_code = 0\<rparr>]"
    using sample_attested_call [of ?c] by (auto simp: attested_entry_def)
  then show ?thesis
    using attested_batch_stuck_with_registry [OF ok] by simp
qed

end
