(* ===== verification/Consensus.thy ===== *)
theory Consensus
  imports Submission
begin

text \<open>
  Scores agreed by several models (\<^verbatim>\<open>lib.rs\<close> 1294--1611 and 12110--12250): the commitments of
  the models, the reveal with its provisional median and agreement band, the direct
  submission with outlier rejection, and the accuracy records of the models.  An index
  list of the source is a list of natural numbers here; counters that run over one of the
  argument vectors stay below its length.
\<close>

record ModelSubmission =
  md_model_version :: u32
  md_model :: address
  md_score :: u32
  md_confidence :: u32
  md_benford_flag :: bool
  md_ml_flag :: bool
  md_attestation :: ScoreAttestation

record SignerAccuracyRecord =
  ar_mad_scaled :: u32
  ar_count :: u32

record consensus_state =
  consensus_threshold_k :: "u32 option"
  consensus_epsilon :: "u32 option"
  consensus_commitment :: "address \<Rightarrow> pair_key \<Rightarrow> bytes option"
  model_posterior_weight :: "u32 \<Rightarrow> u64 option"
  signer_accuracy :: "address \<Rightarrow> SignerAccuracyRecord option"
  signer_rejection_count :: "address \<Rightarrow> u32 option"
  iqr_rejection_multiplier :: "u32 option"

definition DEFAULT_CONSENSUS_THRESHOLD_K :: u32 where "DEFAULT_CONSENSUS_THRESHOLD_K = 2"
definition DEFAULT_CONSENSUS_EPSILON :: u32 where "DEFAULT_CONSENSUS_EPSILON = 5"

definition empty_consensus :: consensus_state where
  "empty_consensus = \<lparr>consensus_threshold_k = None, consensus_epsilon = None,
     consensus_commitment = (\<lambda>_ _. None), model_posterior_weight = (\<lambda>_. None),
     signer_accuracy = (\<lambda>_. None), signer_rejection_count = (\<lambda>_. None),
     iqr_rejection_multiplier = None\<rparr>"

section \<open>Configuration and commitments\<close>

definition get_consensus_threshold_k :: "consensus_state \<Rightarrow> u32" where
  "get_consensus_threshold_k z = unwrap_or (consensus_threshold_k z) DEFAULT_CONSENSUS_THRESHOLD_K"

definition get_consensus_epsilon :: "consensus_state \<Rightarrow> u32" where
  "get_consensus_epsilon z = unwrap_or (consensus_epsilon z) DEFAULT_CONSENSUS_EPSILON"

definition get_iqr_rejection_multiplier :: "consensus_state \<Rightarrow> u32" where
  "get_iqr_rejection_multiplier z = unwrap_or (iqr_rejection_multiplier z) 150"

definition get_model_posterior_weight :: "u32 \<Rightarrow> consensus_state \<Rightarrow> u64" where
  "get_model_posterior_weight v z = unwrap_or (model_posterior_weight z v) 1000000"

definition set_consensus_config ::
    "env \<Rightarrow> auth_state \<Rightarrow> u32 \<Rightarrow> u32 \<Rightarrow> consensus_state \<Rightarrow> consensus_state op" where
  "set_consensus_config e a k epsilon z =
     (if \<not> has_admin a then Inl (Err NotInitialized)
      else if k = 0 \<or> 100 < epsilon then Inl (Err InvalidConsensusConfig)
      else stored_admin_guard e a
        (Inr (z\<lparr>consensus_threshold_k := Some k, consensus_epsilon := Some epsilon\<rparr>,
              [Event ''consensus_config_updated'' [VU32 k, VU32 epsilon]])))"

definition commit_consensus ::
    "env \<Rightarrow> address \<Rightarrow> pair_key \<Rightarrow> bytes \<Rightarrow> contract \<Rightarrow> consensus_state \<Rightarrow> consensus_state op" where
  "commit_consensus e model k commitment c z =
     bind_res (ensure_active c) (\<lambda>_.
     bind_res (require_auth e model) (\<lambda>_.
       Inr (z\<lparr>consensus_commitment := (consensus_commitment z)
              (model := (consensus_commitment z model)(k \<mapsto> commitment))\<rparr>, [])))"

definition remove_consensus_commitment ::
    "address \<Rightarrow> pair_key \<Rightarrow> consensus_state \<Rightarrow> consensus_state" where
  "remove_consensus_commitment model k z =
     z\<lparr>consensus_commitment := (consensus_commitment z)
        (model := (consensus_commitment z model)(k := None))\<rparr>"

section \<open>Order statistics and means\<close>

text \<open>The scan for the \<^verbatim>\<open>kth\<close> smallest value: the first candidate with at most \<^verbatim>\<open>kth\<close> smaller
  values and more than \<^verbatim>\<open>kth\<close> values that are not larger.\<close>

fun kth_scan :: "u32 list \<Rightarrow> u32 list \<Rightarrow> nat \<Rightarrow> u32 option" where
  "kth_scan values [] kth = None"
| "kth_scan values (candidate # rest) kth =
     (let less = length (filter (\<lambda>v. v < candidate) values);
          less_or_equal = length (filter (\<lambda>v. v \<le> candidate) values) in
      if less \<le> kth \<and> kth < less_or_equal then Some candidate else kth_scan values rest kth)"

definition scores_at :: "ModelSubmission list \<Rightarrow> nat list \<Rightarrow> u32 list" where
  "scores_at submissions indices = map (\<lambda>i. md_score (submissions ! i)) indices"

definition confidences_at :: "ModelSubmission list \<Rightarrow> nat list \<Rightarrow> u32 list" where
  "confidences_at submissions indices = map (\<lambda>i. md_confidence (submissions ! i)) indices"

definition kth_score_for_indices :: "ModelSubmission list \<Rightarrow> nat list \<Rightarrow> nat \<Rightarrow> u32 option" where
  "kth_score_for_indices submissions indices kth =
     kth_scan (scores_at submissions indices) (scores_at submissions indices) kth"

definition kth_confidence_for_indices :: "ModelSubmission list \<Rightarrow> nat list \<Rightarrow> nat \<Rightarrow> u32 option" where
  "kth_confidence_for_indices submissions indices kth =
     kth_scan (confidences_at submissions indices) (confidences_at submissions indices) kth"

definition median_score_for_indices :: "ModelSubmission list \<Rightarrow> nat list \<Rightarrow> u32 option" where
  "median_score_for_indices submissions indices =
     (if indices = [] then None
      else kth_score_for_indices submissions indices ((length indices - 1) div 2))"

definition median_confidence_for_indices :: "ModelSubmission list \<Rightarrow> nat list \<Rightarrow> u32 option" where
  "median_confidence_for_indices submissions indices =
     (if indices = [] then None
      else kth_confidence_for_indices submissions indices ((length indices - 1) div 2))"

definition model_weight :: "address \<Rightarrow> consensus_state \<Rightarrow> u64" where
  "model_weight model z =
     (let mad_scaled = (case signer_accuracy z model of Some r \<Rightarrow> ar_mad_scaled r | None \<Rightarrow> 0) in
      max (1000 div ucast (saturating_add mad_scaled 1)) 1)"

fun weighted_loop ::
    "consensus_state \<Rightarrow> ModelSubmission list \<Rightarrow> nat list \<Rightarrow> u64 \<Rightarrow> u64 \<Rightarrow> u64 \<times> u64" where
  "weighted_loop z submissions [] weight_sum score_sum = (weight_sum, score_sum)"
| "weighted_loop z submissions (i # indices) weight_sum score_sum =
     (let sub = submissions ! i; weight = model_weight (md_model sub) z in
      weighted_loop z submissions indices (saturating_add weight_sum weight)
        (saturating_add score_sum (saturating_mul weight (ucast (md_score sub)))))"

definition weighted_mean_score ::
    "consensus_state \<Rightarrow> ModelSubmission list \<Rightarrow> nat list \<Rightarrow> u32 option" where
  "weighted_mean_score z submissions indices =
     (if indices = [] then None
      else (let (weight_sum, score_sum) = weighted_loop z submissions indices 0 0 in
        if weight_sum = 0 then median_score_for_indices submissions indices
        else Some (ucast (score_sum div weight_sum))))"

definition any_benford_flag :: "ModelSubmission list \<Rightarrow> nat list \<Rightarrow> bool" where
  "any_benford_flag submissions indices = list_ex (\<lambda>i. md_benford_flag (submissions ! i)) indices"

definition any_ml_flag :: "ModelSubmission list \<Rightarrow> nat list \<Rightarrow> bool" where
  "any_ml_flag submissions indices = list_ex (\<lambda>i. md_ml_flag (submissions ! i)) indices"

section \<open>Attestations of the models\<close>

definition model_claim :: "pair_key \<Rightarrow> u64 \<Rightarrow> ModelSubmission \<Rightarrow> score_claim" where
  "model_claim k timestamp sub =
     \<lparr>sc_wallet = fst k, sc_asset_pair = snd k, sc_score = md_score sub,
      sc_benford_flag = md_benford_flag sub, sc_ml_flag = md_ml_flag sub, sc_timestamp = timestamp,
      sc_confidence = md_confidence sub, sc_model_version = md_model_version sub\<rparr>"

text \<open>\<^verbatim>\<open>verify_attestation(..).is_ok()\<close>: an error is only a negative answer, so a key promotion
  that happened before the error stays; a trap of the host still ends the call.\<close>

definition attestation_is_ok ::
    "env \<Rightarrow> score_claim \<Rightarrow> ScoreAttestation \<Rightarrow> key_state \<Rightarrow> (bool \<times> key_state) res" where
  "attestation_is_ok e s att y =
     (case verify_attestation e s (Some att) y of
        Inr y' \<Rightarrow> Inr (True, y')
      | Inl Trap \<Rightarrow> Inl Trap
      | Inl _ \<Rightarrow>
          Inr (False,
            if sa_contract_version att = get_contract_version y \<and>
               compute_commitment e s (sa_contract_id att) (sa_contract_version att) = Inr (sa_commitment att)
            then promote_service_key e y else y))"

definition model_verified ::
    "env \<Rightarrow> bool \<Rightarrow> pair_key \<Rightarrow> u64 \<Rightarrow> ModelSubmission \<Rightarrow> key_state \<Rightarrow> (bool \<times> key_state) res" where
  "model_verified e should_verify k timestamp sub y =
     (if should_verify then attestation_is_ok e (model_claim k timestamp sub) (md_attestation sub) y
      else Inr (True, y))"

section \<open>Reveal\<close>

fun reveal_loop ::
    "env \<Rightarrow> pair_key \<Rightarrow> u64 \<Rightarrow> nat \<Rightarrow> (ModelSubmission \<times> u64) list \<Rightarrow> key_state \<Rightarrow> consensus_state
       \<Rightarrow> (nat list \<times> key_state \<times> consensus_state) res" where
  "reveal_loop e k timestamp i [] y z = Inr ([], y, z)"
| "reveal_loop e k timestamp i ((sub, nonce) # rest) y z =
     (if 100 < md_score sub \<or> 100 < md_confidence sub
      then reveal_loop e k timestamp (Suc i) rest y z
      else case consensus_commitment z (md_model sub) k of
        None \<Rightarrow> Inl (Err RevealWindowExpired)
      | Some commitment \<Rightarrow>
          if sha256 e (be_bytes 4 (md_score sub) @ be_bytes 8 nonce) \<noteq> commitment
          then Inl (Err CommitmentMismatch)
          else
            (let z1 = remove_consensus_commitment (md_model sub) k z in
             bind_res (model_verified e (service_pubkey y \<noteq> None) k timestamp sub y) (\<lambda>(verified, y1).
             bind_res (reveal_loop e k timestamp (Suc i) rest y1 z1) (\<lambda>(valid, y2, z2).
               Inr (if verified then i # valid else valid, y2, z2)))))"

definition update_signer_accuracy ::
    "address \<Rightarrow> u32 \<Rightarrow> consensus_state \<Rightarrow> consensus_state \<times> event list" where
  "update_signer_accuracy signer abs_deviation z =
     (let r = unwrap_or (signer_accuracy z signer) \<lparr>ar_mad_scaled = 0, ar_count = 0\<rparr>;
          new_count = saturating_add (ar_count r) 1;
          abs_dev_scaled = saturating_mul (ucast abs_deviation) 1000;
          old_total = saturating_mul (ucast (ar_mad_scaled r)) (ucast (ar_count r) :: u64);
          new_mad = saturating_add old_total abs_dev_scaled div ucast new_count in
      (z\<lparr>signer_accuracy := (signer_accuracy z)
          (signer \<mapsto> \<lparr>ar_mad_scaled = ucast new_mad, ar_count = new_count\<rparr>)\<rparr>,
       [Event ''signer_accuracy_updated'' [VAddr signer, VU64 new_mad, VU64 (ucast new_count)]]))"

definition reset_signer_accuracy :: "env \<Rightarrow> auth_state \<Rightarrow> address list \<Rightarrow> address \<Rightarrow> consensus_state \<Rightarrow> consensus_state op" where
  "reset_signer_accuracy e a signers signer z =
     admin_guard e signers a
       (Inr (z\<lparr>signer_accuracy := (signer_accuracy z)(signer := None)\<rparr>, [Event ''signer_accuracy_reset'' [VAddr signer]]))"

definition update_posterior :: "u32 \<Rightarrow> ModelSubmission \<Rightarrow> consensus_state \<Rightarrow> consensus_state" where
  "update_posterior score sub z =
     (let prior = get_model_posterior_weight (md_model_version sub) z;
          diff = uint score - uint (md_score sub);
          penalty = word_of_int (diff * diff);
          new_weight = max (saturating_sub prior penalty) 1 in
      z\<lparr>model_posterior_weight := (model_posterior_weight z)(md_model_version sub \<mapsto> new_weight)\<rparr>)"

fun accuracy_loop ::
    "bool \<Rightarrow> u32 \<Rightarrow> ModelSubmission list \<Rightarrow> consensus_state \<Rightarrow> consensus_state \<times> event list" where
  "accuracy_loop posterior score [] z = (z, [])"
| "accuracy_loop posterior score (sub # subs) z =
     (let z1 = (if posterior then update_posterior score sub z else z);
          (z2, ev1) = update_signer_accuracy (md_model sub) (abs_diff score (md_score sub)) z1;
          (z3, ev2) = accuracy_loop posterior score subs z2 in
      (z3, ev1 @ ev2))"

definition agreeing :: "u32 \<Rightarrow> u32 \<Rightarrow> ModelSubmission list \<Rightarrow> nat list \<Rightarrow> nat list" where
  "agreeing median epsilon submissions valid =
     (let lower = saturating_sub median epsilon; upper = min (saturating_add median epsilon) 100 in
      filter (\<lambda>i. lower \<le> md_score (submissions ! i) \<and> md_score (submissions ! i) \<le> upper) valid)"

definition consensus_score ::
    "u32 \<Rightarrow> u64 \<Rightarrow> ModelSubmission list \<Rightarrow> nat list \<Rightarrow> RiskScore" where
  "consensus_score score timestamp submissions indices =
     \<lparr>rs_score = score, rs_benford_flag = any_benford_flag submissions indices,
      rs_ml_flag = any_ml_flag submissions indices, rs_timestamp = timestamp,
      rs_confidence = unwrap_or (median_confidence_for_indices submissions indices) 0,
      rs_model_version = 0, rs_benford_score = 0, rs_ml_score = 0, rs_network_score = 0,
      rs_commitment = None\<rparr>"

definition some_or :: "error \<Rightarrow> 'a option \<Rightarrow> 'a res" where
  "some_or err m = (case m of Some x \<Rightarrow> Inr x | None \<Rightarrow> Inl (Err err))"

definition reveal_consensus ::
    "env \<Rightarrow> address list \<Rightarrow> pair_key \<Rightarrow> ModelSubmission list \<Rightarrow> u64 list \<Rightarrow> u64 \<Rightarrow>
     contract \<times> consensus_state \<Rightarrow> (contract \<times> consensus_state) op" where
  "reveal_consensus e signers k submissions nonces timestamp cz =
     (let (c, z) = cz in
      bind_res (ensure_active c) (\<lambda>_.
      bind_res (authorize_submission e signers (c_auth c)) (\<lambda>ev1.
      if submissions = [] then Inl (Err ConsensusInputEmpty)
      else if length submissions \<noteq> length nonces then Inl (Err CommitmentMismatch)
      else if timestamp = 0 then Inl (Err InvalidTimestamp)
      else
        bind_res (reveal_loop e k timestamp 0 (zip submissions nonces) (c_keys c) z) (\<lambda>(valid, y, z1).
        if valid = [] then Inl (Err InsufficientConsensus)
        else
          bind_res (some_or InsufficientConsensus (median_score_for_indices submissions valid)) (\<lambda>median.
          (let epsilon = get_consensus_epsilon z1;
               indices = agreeing median epsilon submissions valid in
           if length indices < unat (get_consensus_threshold_k z1) then Inl (Err InsufficientConsensus)
           else
             bind_res (some_or InsufficientConsensus (weighted_mean_score z1 submissions indices)) (\<lambda>score.
             bind_res (write_score_with_rate_limit e k (consensus_score score timestamp submissions indices)
                 (c\<lparr>c_keys := y, last_global_submission_time := Some (ledger_timestamp e)\<rparr>)) (\<lambda>(c', ev2).
             (let (z2, ev3) = accuracy_loop True score (map ((!) submissions) indices) z1 in
              Inr ((c', z2), ev1 @ ev2 @
                [Event ''consensus_score_submitted''
                   [VAddr (fst k), VSym (snd k), VU32 score, VU32 (of_nat (length indices)), VU32 epsilon]]
                @ ev3))))))))))"

section \<open>Direct consensus submission\<close>

fun verify_loop ::
    "env \<Rightarrow> bool \<Rightarrow> pair_key \<Rightarrow> u64 \<Rightarrow> nat \<Rightarrow> ModelSubmission list \<Rightarrow> key_state \<Rightarrow> (nat list \<times> key_state) res" where
  "verify_loop e should_verify k timestamp i [] y = Inr ([], y)"
| "verify_loop e should_verify k timestamp i (sub # rest) y =
     (if 100 < md_score sub \<or> 100 < md_confidence sub
      then verify_loop e should_verify k timestamp (Suc i) rest y
      else
        bind_res (model_verified e should_verify k timestamp sub y) (\<lambda>(verified, y1).
        bind_res (verify_loop e should_verify k timestamp (Suc i) rest y1) (\<lambda>(valid, y2).
          Inr (if verified then i # valid else valid, y2))))"

definition increment_signer_rejection_count :: "address \<Rightarrow> consensus_state \<Rightarrow> consensus_state res" where
  "increment_signer_rejection_count signer z =
     bind_res (plus_one (signer_rejection_count z signer)) (\<lambda>n.
       Inr (z\<lparr>signer_rejection_count := (signer_rejection_count z)(signer \<mapsto> n)\<rparr>))"

fun outlier_loop ::
    "u32 \<Rightarrow> u64 \<Rightarrow> ModelSubmission list \<Rightarrow> nat list \<Rightarrow> consensus_state
       \<Rightarrow> (nat list \<times> consensus_state \<times> event list) res" where
  "outlier_loop median threshold_scaled submissions [] z = Inr ([], z, [])"
| "outlier_loop median threshold_scaled submissions (i # indices) z =
     (let sub = submissions ! i; deviation = abs_diff (md_score sub) median in
      if ucast deviation * 100 \<le> threshold_scaled then
        bind_res (outlier_loop median threshold_scaled submissions indices z) (\<lambda>(kept, z', evs).
          Inr (i # kept, z', evs))
      else
        bind_res (increment_signer_rejection_count (md_model sub) z) (\<lambda>z1.
        bind_res (outlier_loop median threshold_scaled submissions indices z1) (\<lambda>(kept, z', evs).
          Inr (kept, z', Event ''consensus_signer_rejected'' [VAddr (md_model sub), VU32 deviation] # evs))))"

definition reject_outliers ::
    "ModelSubmission list \<Rightarrow> nat list \<Rightarrow> consensus_state \<Rightarrow> (nat list \<times> consensus_state \<times> event list) res" where
  "reject_outliers submissions valid z =
     (let n = length valid in
      if n < 4 then Inr (valid, z, [])
      else case (kth_score_for_indices submissions valid ((n - 1) div 4),
                 kth_score_for_indices submissions valid (3 * (n - 1) div 4)) of
        (Some q1, Some q3) \<Rightarrow>
          (let iqr = saturating_sub q3 q1;
               threshold_scaled = ucast (get_iqr_rejection_multiplier z) * ucast iqr in
           case kth_score_for_indices submissions valid ((n - 1) div 2) of
             Some median \<Rightarrow>
               bind_res (outlier_loop median threshold_scaled submissions valid z) (\<lambda>(kept, z', evs).
                 Inr (if kept \<noteq> [] then kept else valid, z', evs))
           | None \<Rightarrow> Inr (valid, z, []))
      | _ \<Rightarrow> Inr (valid, z, []))"

definition submit_consensus_score ::
    "env \<Rightarrow> address list \<Rightarrow> pair_key \<Rightarrow> ModelSubmission list \<Rightarrow> u64 \<Rightarrow>
     contract \<times> consensus_state \<Rightarrow> (contract \<times> consensus_state) op" where
  "submit_consensus_score e signers k submissions timestamp cz =
     (let (c, z) = cz in
      bind_res (ensure_active c) (\<lambda>_.
      bind_res (authorize_submission e signers (c_auth c)) (\<lambda>ev1.
      if submissions = [] then Inl (Err ConsensusInputEmpty)
      else if timestamp = 0 then Inl (Err InvalidTimestamp)
      else
        bind_res (verify_loop e (service_pubkey (c_keys c) \<noteq> None) k timestamp 0 submissions (c_keys c))
          (\<lambda>(valid, y).
        if valid = [] then Inl (Err InsufficientConsensus)
        else
          bind_res (reject_outliers submissions valid z) (\<lambda>(indices, z1, ev2).
          bind_res (some_or InsufficientConsensus (median_score_for_indices submissions indices)) (\<lambda>score.
          bind_res (write_score_with_rate_limit e k (consensus_score score timestamp submissions indices)
              (c\<lparr>c_keys := y, last_global_submission_time := Some (ledger_timestamp e)\<rparr>)) (\<lambda>(c', ev3).
          (let (z2, ev4) = accuracy_loop False score (map ((!) submissions) indices) z1 in
           Inr ((c', z2), ev1 @ ev2 @ ev3 @ ev4)))))))))"

section \<open>The scan finds the order statistic\<close>

lemma sorted_filter_count:
  assumes "sorted ss" "n < length ss" "\<And>x y. x \<le> y \<Longrightarrow> P y \<Longrightarrow> P x"
  shows "n < length (filter P ss) \<longleftrightarrow> P (ss ! n)"
  using assms(1,2)
proof (induction ss arbitrary: n)
  case (Cons a ss)
  show ?case
  proof (cases "P a")
    case True
    then show ?thesis
      using Cons by (cases n) auto
  next
    case False
    then have "\<forall>v \<in> set (a # ss). \<not> P v"
      using Cons.prems(1) assms(3) by auto
    then show ?thesis
      using Cons.prems(2) nth_mem by (metis filter_False list.size(3) not_less_zero)
  qed
qed simp

lemma kth_test:
  fixes x :: u32
  shows "length (filter (\<lambda>v. v < x) vs) \<le> n \<and> n < length (filter (\<lambda>v. v \<le> x) vs)
    \<longleftrightarrow> n < length vs \<and> sort vs ! n = x"
proof (cases "n < length vs")
  case True
  have count: "length (filter P vs) = length (filter P (sort vs))" for P
    by (simp add: filter_sort)
  have "n < length (filter (\<lambda>v. v < x) vs) \<longleftrightarrow> sort vs ! n < x"
    "n < length (filter (\<lambda>v. v \<le> x) vs) \<longleftrightarrow> sort vs ! n \<le> x"
    unfolding count
    by (rule sorted_filter_count; use True in \<open>auto intro: le_less_trans order_trans\<close>)+
  then show ?thesis
    using True by (auto simp: not_less)
next
  case False
  then show ?thesis
    using length_filter_le [of "\<lambda>v. v \<le> x" vs] by linarith
qed

lemma kth_scan_mem:
  "kth_scan vs xs n = (if n < length vs \<and> sort vs ! n \<in> set xs then Some (sort vs ! n) else None)"
  by (induction xs) (auto simp: kth_test Let_def)

lemma kth_scan_sorted: "kth_scan vs vs n = (if n < length vs then Some (sort vs ! n) else None)"
  by (metis kth_scan_mem length_sort nth_mem set_sort)

lemma median_score_sorted:
  "indices \<noteq> [] \<Longrightarrow> median_score_for_indices submissions indices =
     Some (sort (scores_at submissions indices) ! ((length indices - 1) div 2))"
  by (cases indices) (auto simp: median_score_for_indices_def kth_score_for_indices_def
      kth_scan_sorted scores_at_def)

lemma median_confidence_le:
  assumes "\<forall>i \<in> set indices. md_confidence (submissions ! i) \<le> b"
  shows "unwrap_or (median_confidence_for_indices submissions indices) 0 \<le> b"
proof (cases "indices = []")
  case False
  let ?vs = "confidences_at submissions indices"
  have n: "(length indices - 1) div 2 < length ?vs"
    using False by (cases indices) (simp_all add: confidences_at_def)
  then have "sort ?vs ! ((length indices - 1) div 2) \<in> set ?vs"
    by (metis length_sort nth_mem set_sort)
  then show ?thesis
    using assms n False by (auto simp: median_confidence_for_indices_def kth_confidence_for_indices_def
        kth_scan_sorted confidences_at_def)
qed (simp add: median_confidence_for_indices_def)

section \<open>The weighted mean\<close>

lemma model_weight_bounds: "1 \<le> unat (model_weight m z)" "unat (model_weight m z) \<le> 1000"
proof -
  let ?d = "ucast (saturating_add (case signer_accuracy z m of Some r \<Rightarrow> ar_mad_scaled r | None \<Rightarrow> 0) 1) :: u64"
  have w: "unat (model_weight m z) = max (1000 div unat ?d) 1"
    by (simp add: model_weight_def Let_def max_def word_le_nat_alt unat_div)
  show "1 \<le> unat (model_weight m z)" "unat (model_weight m z) \<le> 1000"
    using div_le_dividend [of 1000 "unat ?d"] by (simp_all only: w)
qed

lemma weighted_loop_sums:
  assumes "\<forall>i \<in> set is. md_score (subs ! i) \<le> 100"
    "unat ws + 1000 * length is < 2 ^ 64" "unat ss + 100000 * length is < 2 ^ 64"
  shows "unat (fst (weighted_loop z subs is ws ss)) =
      unat ws + (\<Sum>i\<leftarrow>is. unat (model_weight (md_model (subs ! i)) z)) \<and>
    unat (snd (weighted_loop z subs is ws ss)) =
      unat ss + (\<Sum>i\<leftarrow>is. unat (model_weight (md_model (subs ! i)) z) * unat (md_score (subs ! i)))"
  using assms
proof (induction "is" arbitrary: ws ss)
  case (Cons i js)
  let ?w = "model_weight (md_model (subs ! i)) z" and ?s = "md_score (subs ! i)"
  have "unat ?s \<le> 100"
    using Cons.prems(1) by (simp add: word_le_nat_alt)
  then have ws: "unat ?w * unat ?s \<le> 100000"
    using mult_le_mono [OF model_weight_bounds(2) [of "md_model (subs ! i)" z], of "unat ?s" 100] by simp
  have a: "unat (saturating_add ws ?w) = unat ws + unat ?w"
    using Cons.prems(2) model_weight_bounds(2) [of "md_model (subs ! i)" z] by (simp add: unat_ops)
  have b: "unat (saturating_add ss (saturating_mul ?w (ucast ?s))) = unat ss + unat ?w * unat ?s"
    using Cons.prems(3) ws by (simp add: unat_ops)
  have "unat (saturating_add ws ?w) + 1000 * length js < 2 ^ 64"
    "unat (saturating_add ss (saturating_mul ?w (ucast ?s))) + 100000 * length js < 2 ^ 64"
    using Cons.prems(2,3) ws model_weight_bounds(2) [of "md_model (subs ! i)" z] unfolding a b by simp_all
  then show ?case
    using Cons.IH [of "saturating_add ws ?w" "saturating_add ss (saturating_mul ?w (ucast ?s))"]
      Cons.prems(1) a b by (simp add: Let_def)
qed simp

lemma weighted_sum_bounds:
  fixes w v :: "nat \<Rightarrow> nat"
  assumes "\<forall>i \<in> set is. lo \<le> v i \<and> v i \<le> hi"
  shows "lo * (\<Sum>i\<leftarrow>is. w i) \<le> (\<Sum>i\<leftarrow>is. w i * v i) \<and> (\<Sum>i\<leftarrow>is. w i * v i) \<le> hi * (\<Sum>i\<leftarrow>is. w i)"
  using assms
proof (induction "is")
  case (Cons i js)
  have i: "lo * w i \<le> w i * v i" "w i * v i \<le> hi * w i"
    using Cons.prems by simp_all
  have js: "lo * (\<Sum>i\<leftarrow>js. w i) \<le> (\<Sum>i\<leftarrow>js. w i * v i)" "(\<Sum>i\<leftarrow>js. w i * v i) \<le> hi * (\<Sum>i\<leftarrow>js. w i)"
    using Cons.IH Cons.prems by simp_all
  show ?case
    using add_mono [OF i(1) js(1)] add_mono [OF i(2) js(2)] by (simp add: distrib_left)
qed simp

lemma weighted_mean_between:
  assumes "weighted_mean_score z subs is = Some m" "length is < 2 ^ 32"
    and bounds: "\<forall>i \<in> set is. lo \<le> md_score (subs ! i) \<and> md_score (subs ! i) \<le> hi" "hi \<le> 100"
  shows "lo \<le> m \<and> m \<le> hi"
proof -
  obtain W S where loop: "weighted_loop z subs is 0 0 = (W, S)"
    by (cases "weighted_loop z subs is 0 0")
  have ne: "is \<noteq> []"
    using assms(1) by (auto simp: weighted_mean_score_def)
  let ?w = "\<lambda>i. unat (model_weight (md_model (subs ! i)) z)"
  have "\<forall>i \<in> set is. md_score (subs ! i) \<le> 100"
    using bounds order_trans by blast
  then have sums: "unat W = (\<Sum>i\<leftarrow>is. ?w i)" "unat S = (\<Sum>i\<leftarrow>is. ?w i * unat (md_score (subs ! i)))"
    using weighted_loop_sums [of "is" subs 0 0 z] assms(2) by (auto simp: loop)
  have "1 \<le> unat W"
    using ne model_weight_bounds(1) [of "md_model (subs ! hd is)" z] by (cases "is") (simp_all add: sums)
  then have W: "0 < unat W" "W \<noteq> 0"
    by auto
  have "unat lo * unat W \<le> unat S" "unat S \<le> unat hi * unat W"
    using weighted_sum_bounds [of "is" "unat lo" "\<lambda>i. unat (md_score (subs ! i))" "unat hi" ?w] bounds(1)
    by (simp_all add: sums word_le_nat_alt)
  then have q: "unat lo \<le> unat S div unat W" "unat S div unat W \<le> unat hi"
    using W(1) div_le_mono [of "unat lo * unat W" "unat S" "unat W"]
      div_le_mono [of "unat S" "unat hi * unat W" "unat W"] by simp_all
  have "unat (ucast (S div W) :: u32) = unat S div unat W"
    using q(2) bounds(2) by (subst unat_ucast_fits) (simp_all add: unat_div word_le_nat_alt)
  moreover have "m = ucast (S div W)"
    using assms(1) ne W(2) by (simp add: weighted_mean_score_def loop)
  ultimately show ?thesis
    using q by (simp add: word_le_nat_alt)
qed

section \<open>A reveal counts committed scores of different models\<close>

text \<open>The revealed pair opens the commitment that the model stored for the key.\<close>

definition opens :: "env \<Rightarrow> pair_key \<Rightarrow> consensus_state \<Rightarrow> ModelSubmission \<times> u64 \<Rightarrow> bool" where
  "opens e k z x \<longleftrightarrow>
     md_score (fst x) \<le> 100 \<and> md_confidence (fst x) \<le> 100 \<and>
     consensus_commitment z (md_model (fst x)) k =
       Some (sha256 e (be_bytes 4 (md_score (fst x)) @ be_bytes 8 (snd x)))"

lemma commitment_removed [simp]:
  "consensus_commitment (remove_consensus_commitment m k z) m' k' =
     (if m' = m \<and> k' = k then None else consensus_commitment z m' k')"
  by (simp add: remove_consensus_commitment_def)

lemma config_removed [simp]:
  "get_consensus_epsilon (remove_consensus_commitment m k z) = get_consensus_epsilon z"
  "get_consensus_threshold_k (remove_consensus_commitment m k z) = get_consensus_threshold_k z"
  by (simp_all add: remove_consensus_commitment_def get_consensus_epsilon_def get_consensus_threshold_k_def)

lemma reveal_loop_spec:
  assumes "reveal_loop e k ts i xs y z = Inr (valid, y', z')"
  shows "distinct (map (\<lambda>j. md_model (fst (xs ! (j - i)))) valid) \<and>
    (\<forall>j \<in> set valid. i \<le> j \<and> j < i + length xs \<and> opens e k z (xs ! (j - i))) \<and>
    get_consensus_epsilon z' = get_consensus_epsilon z \<and>
    get_consensus_threshold_k z' = get_consensus_threshold_k z"
  using assms
proof (induction xs arbitrary: i y z valid)
  case (Cons x xs)
  obtain sub nonce where x: "x = (sub, nonce)"
    by (cases x)
  have shift: "(x # xs) ! (j - i) = xs ! (j - Suc i)" if "Suc i \<le> j" for j
    using that by (simp add: nth_Cons' Suc_diff_le [symmetric])
  have range: "i \<le> j \<and> j < i + length (x # xs) \<and> opens e k z ((x # xs) ! (j - i))"
    if "Suc i \<le> j" "j < Suc i + length xs" "opens e k z (xs ! (j - Suc i))" for j
    using that unfolding shift [OF that(1)] by simp
  show ?case
  proof (cases "100 < md_score sub \<or> 100 < md_confidence sub")
    case True
    then have "reveal_loop e k ts (Suc i) xs y z = Inr (valid, y', z')"
      using Cons.prems by (simp add: x)
    note ih = Cons.IH [OF this]
    have "map (\<lambda>j. md_model (fst ((x # xs) ! (j - i)))) valid = map (\<lambda>j. md_model (fst (xs ! (j - Suc i)))) valid"
      using ih shift by (auto intro!: map_cong)
    then show ?thesis
      using ih range by metis
  next
    case False
    then obtain verified y1 valid1 where
      com: "consensus_commitment z (md_model sub) k =
        Some (sha256 e (be_bytes 4 (md_score sub) @ be_bytes 8 nonce))" and
      rest: "reveal_loop e k ts (Suc i) xs y1 (remove_consensus_commitment (md_model sub) k z) = Inr (valid1, y', z')"
      and valid: "valid = (if verified then i # valid1 else valid1)"
      using Cons.prems by (auto simp: x bind_res_Inr_iff Let_def split: option.splits if_splits)
    note ih = Cons.IH [OF rest]
    have same: "map (\<lambda>j. md_model (fst ((x # xs) ! (j - i)))) valid1 = map (\<lambda>j. md_model (fst (xs ! (j - Suc i)))) valid1"
      using ih shift by (auto intro!: map_cong)
    have later: "opens e k z (xs ! (j - Suc i)) \<and> md_model (fst (xs ! (j - Suc i))) \<noteq> md_model sub"
      if "j \<in> set valid1" for j
      using ih that by (auto simp: opens_def split: if_splits)
    have "opens e k z ((x # xs) ! (i - i))"
      using com False by (simp add: opens_def x not_less)
    moreover have "md_model sub \<notin> set (map (\<lambda>j. md_model (fst ((x # xs) ! (j - i)))) valid1)"
      using later unfolding same by fastforce
    moreover have "\<forall>j \<in> set valid1. i \<le> j \<and> j < i + length (x # xs) \<and> opens e k z ((x # xs) ! (j - i))"
      using ih later range by blast
    moreover have "distinct (map (\<lambda>j. md_model (fst ((x # xs) ! (j - i)))) valid1)"
      using ih same by metis
    ultimately show ?thesis
      using ih by (simp add: valid x)
  qed
qed simp

lemma some_or_Inr [simp]: "some_or err m = Inr x \<longleftrightarrow> m = Some x"
  by (simp add: some_or_def split: option.splits)

lemma within_band:
  fixes s :: u32
  assumes "saturating_sub m eps \<le> s" "s \<le> saturating_add m eps"
  shows "unat (abs_diff s m) \<le> unat eps"
  using assms by (auto simp: word_le_nat_alt unat_ops)

lemma mean_in_range:
  assumes "weighted_mean_score z subs is = Some m" "length is < 2 ^ 32"
    "\<forall>i \<in> set is. md_score (subs ! i) \<le> 100"
  shows "Min (set (scores_at subs is)) \<le> m \<and> m \<le> Max (set (scores_at subs is))"
proof -
  have "is \<noteq> []"
    using assms(1) by (auto simp: weighted_mean_score_def)
  then have "Max (set (scores_at subs is)) \<le> 100"
    using assms(3) by (auto simp: scores_at_def)
  then show ?thesis
    using weighted_mean_between [OF assms(1,2), of "Min (set (scores_at subs is))" "Max (set (scores_at subs is))"]
    by (auto simp: scores_at_def)
qed

lemma reveal_consensus_Inr:
  assumes "reveal_consensus e signers k subs nonces ts (c, z) = Inr ((c', z'), evs)"
  obtains valid y z1 median score c1 evs' where
    "reveal_loop e k ts 0 (zip subs nonces) (c_keys c) z = Inr (valid, y, z1)"
    "length subs = length nonces" "valid \<noteq> []"
    "median_score_for_indices subs valid = Some median"
    "unat (get_consensus_threshold_k z1) \<le> length (agreeing median (get_consensus_epsilon z1) subs valid)"
    "weighted_mean_score z1 subs (agreeing median (get_consensus_epsilon z1) subs valid) = Some score"
    "c_store c1 = c_store c"
    "write_score_with_rate_limit e k (consensus_score score ts subs
      (agreeing median (get_consensus_epsilon z1) subs valid)) c1 = Inr (c', evs')"
proof -
  obtain valid y z1 median score evs' where
    "reveal_loop e k ts 0 (zip subs nonces) (c_keys c) z = Inr (valid, y, z1)"
    "length subs = length nonces" "valid \<noteq> []"
    "median_score_for_indices subs valid = Some median"
    "unat (get_consensus_threshold_k z1) \<le> length (agreeing median (get_consensus_epsilon z1) subs valid)"
    "weighted_mean_score z1 subs (agreeing median (get_consensus_epsilon z1) subs valid) = Some score"
    "write_score_with_rate_limit e k (consensus_score score ts subs
      (agreeing median (get_consensus_epsilon z1) subs valid))
      (c\<lparr>c_keys := y, last_global_submission_time := Some (ledger_timestamp e)\<rparr>) = Inr (c', evs')"
    using assms by (auto simp: reveal_consensus_def bind_res_Inr_iff Let_def case_prod_unfold not_less
        split: if_splits)
  then show thesis
    by (intro that) simp_all
qed


text \<open>
  Consensus scores carry model version zero, and the write validates the version.  Once any model
  version is registered and zero is not among them, no reveal and no direct consensus
  submission can succeed, whatever the models agree on.
\<close>

theorem consensus_blocked_by_registry:
  assumes "all_model_versions (c_models c) \<noteq> []" "0 \<notin> set (all_model_versions (c_models c))"
  shows "reveal_consensus e signers k subs nonces ts (c, z) \<noteq> Inr r \<and>
    submit_consensus_score e signers k subs ts (c, z) \<noteq> Inr r"
proof -
  have "write_score_with_rate_limit e k (consensus_score m ts subs is)
      (c\<lparr>c_keys := y, last_global_submission_time := t\<rparr>) \<noteq> Inr x" for m "is" y t x
  proof
    assume "write_score_with_rate_limit e k (consensus_score m ts subs is)
      (c\<lparr>c_keys := y, last_global_submission_time := t\<rparr>) = Inr x"
    then have "validate_risk_score (consensus_score m ts subs is) (c_models c) = Inr ()"
      by (cases x) (auto elim: write_score_Inr)
    then show False
      using assms by (auto simp: validate_risk_score_def validate_model_version_def consensus_score_def
          split: if_splits)
  qed
  then show ?thesis
    by (auto simp: reveal_consensus_def submit_consensus_score_def bind_res_Inr_iff Let_def split: if_splits)
qed

text \<open>Both paths reach the score storage only through the rate-limited write.\<close>

lemma consensus_writes:
  assumes "reveal_consensus e signers k subs nonces ts (c, z) = Inr ((c', z'), evs) \<or>
    submit_consensus_score e signers k subs ts (c, z) = Inr ((c', z'), evs)"
  obtains y t rs evs' where
    "write_score_with_rate_limit e k rs (c\<lparr>c_keys := y, last_global_submission_time := t\<rparr>) = Inr (c', evs')"
  using assms
proof (elim disjE)
  assume "reveal_consensus e signers k subs nonces ts (c, z) = Inr ((c', z'), evs)"
  then show thesis
    using that by (auto simp: reveal_consensus_def bind_res_Inr_iff Let_def case_prod_unfold split: if_splits)
next
  assume "submit_consensus_score e signers k subs ts (c, z) = Inr ((c', z'), evs)"
  then show thesis
    using that by (auto simp: submit_consensus_score_def bind_res_Inr_iff Let_def case_prod_unfold split: if_splits)
qed

section \<open>Two models that agree\<close>

definition sample_model :: "nat \<Rightarrow> u32 \<Rightarrow> ModelSubmission" where
  "sample_model n score = \<lparr>md_model_version = 1, md_model = Addr n, md_score = score, md_confidence = 90,
     md_benford_flag = False, md_ml_flag = True, md_attestation = sample_attestation\<rparr>"

definition committed_models :: consensus_state where
  "committed_models = empty_consensus\<lparr>consensus_commitment := (\<lambda>m k.
     if m = Addr 11 then Some (sha256 (sample_env 1) (be_bytes 4 (40 :: u32) @ be_bytes 8 (1 :: u64)))
     else if m = Addr 12 then Some (sha256 (sample_env 1) (be_bytes 4 (44 :: u32) @ be_bytes 8 (2 :: u64)))
     else None)\<rparr>"

lemma reveal_consensus_ok:
  assumes "ensure_active c = Inr ()" "authorize_submission e signers (c_auth c) = Inr ev"
    "subs \<noteq> []" "length subs = length nonces" "ts \<noteq> 0"
    "reveal_loop e k ts 0 (zip subs nonces) (c_keys c) z = Inr (valid, y, z1)" "valid \<noteq> []"
    "median_score_for_indices subs valid = Some m"
    "agreeing m (get_consensus_epsilon z1) subs valid = js" "unat (get_consensus_threshold_k z1) \<le> length js"
    "weighted_mean_score z1 subs js = Some score"
    "write_score_with_rate_limit e k (consensus_score score ts subs js)
      (c\<lparr>c_keys := y, last_global_submission_time := Some (ledger_timestamp e)\<rparr>) = Inr (c', ev2)"
  shows "\<exists>c' z' evs. reveal_consensus e signers k subs nonces ts (c, z) = Inr ((c', z'), evs)"
  using assms by (simp add: reveal_consensus_def some_or_def case_prod_unfold Let_def)

lemma sample_reveal:
  "\<exists>c' z' evs. reveal_consensus (sample_env 1) [] (Addr 7, ''XLM'') [sample_model 11 40, sample_model 12 44]
     [1, 2] 900 (sample_contract, committed_models) = Inr ((c', z'), evs)"
proof -
  let ?subs = "[sample_model 11 40, sample_model 12 44]" and ?k = "(Addr 7, ''XLM'')" and ?e = "sample_env 1"
  have loop: "\<exists>z1. reveal_loop ?e ?k 900 0 (zip ?subs [1, 2]) empty_keys committed_models
      = Inr ([0, 1], empty_keys, z1) \<and> get_consensus_epsilon z1 = 5 \<and> get_consensus_threshold_k z1 = 2 \<and>
        signer_accuracy z1 = (\<lambda>_. None)"
    by (simp add: sample_model_def committed_models_def empty_consensus_def model_verified_def empty_keys_def
        get_consensus_epsilon_def get_consensus_threshold_k_def DEFAULT_CONSENSUS_EPSILON_def
        DEFAULT_CONSENSUS_THRESHOLD_K_def remove_consensus_commitment_def Let_def)
  then obtain z1 where z1: "reveal_loop ?e ?k 900 0 (zip ?subs [1, 2]) empty_keys committed_models
      = Inr ([0, 1], empty_keys, z1)" "get_consensus_epsilon z1 = 5" "get_consensus_threshold_k z1 = 2"
    "signer_accuracy z1 = (\<lambda>_. None)"
    by blast
  have med: "median_score_for_indices ?subs [0, 1] = Some 40"
    by (simp add: median_score_for_indices_def kth_score_for_indices_def scores_at_def sample_model_def Let_def)
  have agree: "agreeing 40 5 ?subs [0, 1] = [0, 1]"
    by (simp add: agreeing_def sample_model_def saturating_sub_def saturating_add_def Let_def)
  have mean: "weighted_mean_score z1 ?subs [0, 1] = Some 42"
    by (simp add: weighted_mean_score_def model_weight_def z1 sample_model_def saturating_add_def
        saturating_mul_def Let_def)
  let ?c = "sample_contract\<lparr>c_keys := empty_keys, last_global_submission_time := Some 1000\<rparr>"
    and ?rs = "consensus_score 42 900 ?subs [0, 1]"
  have "\<exists>t. bump_counters ?k True ?rs (c_stats ?c) = Inr t"
    using bump_counters_fresh [of "c_stats ?c" ?k ?rs True] by (simp add: empty_stats_def)
  moreover have "valid_risk_score ?rs"
    by (simp add: valid_risk_score_def consensus_score_def median_confidence_for_indices_def
        kth_confidence_for_indices_def confidences_at_def sample_model_def Let_def)
  ultimately obtain c' evs where wr: "write_score_with_rate_limit ?e ?k ?rs ?c = Inr (c', evs)"
    using fresh_write [of ?c ?k ?rs 1] by (auto simp: empty_score_store_def)
  have "ensure_active sample_contract = Inr ()"
    "authorize_submission ?e [] (c_auth sample_contract) = Inr []"
    by (simp_all add: ensure_active_def is_paused_def authorize_submission_def require_auth_def Let_def)
  then show ?thesis
    by (rule reveal_consensus_ok [where js = "[0, 1]"])
      (use z1 med agree mean wr in \<open>simp_all del: reveal_loop.simps\<close>)
qed


theorem consensus_blocked_by_registry_witness:
  "\<forall>r. reveal_consensus (sample_env 1) [] (Addr 7, ''XLM'') [sample_model 11 40, sample_model 12 44] [1, 2] 900
     (sample_contract\<lparr>c_models := empty_models\<lparr>all_model_versions := [1]\<rparr>\<rparr>, committed_models) \<noteq> Inr r"
  using consensus_blocked_by_registry [of "sample_contract\<lparr>c_models := empty_models\<lparr>all_model_versions := [1]\<rparr>\<rparr>"]
  by simp

end
