(* ===== verification/Statistics.thy ===== *)
theory Statistics
  imports Consensus
begin

text \<open>
  Integer statistics over scores: the integer square root by Newton's iteration
  (\<^verbatim>\<open>lib.rs\<close> 14085--14110), the spread of a pair's history and the adaptive consensus
  tolerance (6928--7017, 10370--10400) and the correlation of two pairs (4270--4317).  The square root is written once for every word length and used at
  64 and 128 bits.
\<close>

section \<open>Integer square root\<close>

text \<open>The loop \<^verbatim>\<open>while y < x { x = y; y = (x + n / x) / 2; }\<close>; a division by zero or
  an overflow of the sum would trap.\<close>

function isqrt_loop :: "'a::len word \<Rightarrow> 'a word \<Rightarrow> 'a word \<Rightarrow> 'a word res" where
  "isqrt_loop n x y =
     (if y < x then
        (if y = 0 then Inl Trap
         else case checked_add y (n div y) of
           None \<Rightarrow> Inl Trap
         | Some s \<Rightarrow> isqrt_loop n y (s div 2))
      else Inr x)"
  by pat_completeness auto
termination
  by (relation "measure (\<lambda>(n, x, y). unat x)") (auto simp: word_less_nat_alt)

declare isqrt_loop.simps [simp del]

definition isqrt :: "'a::len word \<Rightarrow> 'a word res" where
  "isqrt n = (if n = 0 then Inr 0 else isqrt_loop n n (n div 2 + n mod 2))"

definition isqrt_u64 :: "u64 \<Rightarrow> u64 res" where
  "isqrt_u64 = isqrt"

definition isqrt_u128 :: "128 word \<Rightarrow> 128 word res" where
  "isqrt_u128 = isqrt"

text \<open>One Newton step on natural numbers stays above the root.\<close>

lemma newton_above:
  fixes n x :: nat
  assumes "0 < x"
  shows "n < (Suc ((x + n div x) div 2))\<^sup>2"
proof -
  let ?q = "n div x" and ?y = "(x + n div x) div 2"
  have "n < x * Suc ?q"
    using assms by (metis dividend_less_times_div mult_Suc_right)
  then have "4 * n < 4 * (x * Suc ?q)"
    by simp
  moreover have "4 * (x * Suc ?q) \<le> (x + Suc ?q)\<^sup>2"
  proof -
    have "4 * (int x * int (Suc ?q)) \<le> (int x + int (Suc ?q))\<^sup>2"
      using zero_le_power2 [of "int x - int (Suc ?q)"] by (simp add: power2_eq_square algebra_simps)
    then show ?thesis
      by (metis (no_types, lifting) of_nat_add of_nat_le_iff of_nat_mult of_nat_numeral of_nat_power)
  qed
  moreover have "Suc m \<le> 2 * Suc (m div 2)" for m :: nat
    by presburger
  then have "x + Suc ?q \<le> 2 * Suc ?y"
    by (metis add_Suc_right)
  then have "(x + Suc ?q)\<^sup>2 \<le> (2 * Suc ?y)\<^sup>2"
    by (rule power_mono) simp
  moreover have "(2 * Suc ?y)\<^sup>2 = 4 * (Suc ?y)\<^sup>2"
    by (simp only: power_mult_distrib) simp
  ultimately show ?thesis
    by linarith
qed

text \<open>The sum of the iteration never leaves the word.\<close>

lemma newton_sum_fits:
  fixes n y :: nat
  assumes "0 < y" "y < n" "n < (Suc y)\<^sup>2"
  shows "y + n div y \<le> n \<or> n < 4"
proof (cases "y = 1")
  case True
  then show ?thesis
    using assms(3) by (simp add: power2_eq_square)
next
  case False
  then have y: "2 \<le> y"
    using assms(1) by simp
  let ?q = "n div y"
  have q: "y * ?q \<le> n"
    by simp
  show ?thesis
  proof (cases "?q \<le> 1")
    case True
    then show ?thesis
      using assms(2) by linarith
  next
    case False
    then have "0 \<le> (int y - 2) * (int ?q - 2)"
      using y by simp
    then have "2 * (int y + int ?q) \<le> int y * int ?q + 4"
      by (simp add: algebra_simps)
    then have "2 * (y + ?q) \<le> y * ?q + 4"
      by (metis (mono_tags, lifting) of_nat_add of_nat_le_iff of_nat_mult of_nat_numeral)
    then have "2 * (y + ?q) \<le> n + 4"
      using q by (meson add_le_mono1 order_trans)
    then show ?thesis
      by (cases "n < 4") simp_all
  qed
qed

lemma isqrt_loop_floor:
  fixes n x y :: "'a::len word"
  assumes "3 \<le> LENGTH('a)" "0 < unat x" "unat x \<le> unat n"
    and "unat y = (unat x + unat n div unat x) div 2" "unat n < (Suc (unat x))\<^sup>2"
  shows "\<exists>r. isqrt_loop n x y = Inr r \<and> (unat r)\<^sup>2 \<le> unat n \<and> unat n < (Suc (unat r))\<^sup>2"
  using assms(2-5)
proof (induction n x y rule: isqrt_loop.induct)
  case (1 n x y)
  note prems = "1.prems"
  show ?case
  proof (cases "y < x")
    case True
    have "1 \<le> unat n div unat x"
      using div_le_mono [OF prems(2), of "unat x"] prems(1) by simp
    then have y0: "0 < unat y"
      using prems(1,3) by linarith
    have lt: "unat y < unat x"
      using True by (simp add: word_less_nat_alt)
    have above: "unat n < (Suc (unat y))\<^sup>2"
      using newton_above [OF prems(1), of "unat n"] prems(3) by simp
    have "(8 :: nat) \<le> 2 ^ LENGTH('a)"
      using power_increasing [OF assms(1), of "2 :: nat"] by simp
    moreover have "unat y + unat n div unat y \<le> unat n \<or> unat y + unat n div unat y \<le> 6"
      using newton_sum_fits [OF y0 _ above] lt prems(2) div_le_dividend [of "unat n" "unat y"] by linarith
    ultimately have fits: "unat y + unat (n div y) < 2 ^ LENGTH('a)"
      using unat_less_pow [of n] by (auto simp: unat_div intro: le_less_trans)
    then have add: "checked_add y (n div y) = Some (y + n div y)"
      using add_no_overflow_iff [of y "n div y"] by (simp add: checked_add_def)
    have next_y: "unat ((y + n div y) div 2) = (unat y + unat n div unat y) div 2"
      using fits assms(1) by (simp add: unat_div unat_word_ariths)
    have "y \<noteq> 0"
      using y0 by auto
    then show ?thesis
      using "1.IH" [OF True _ add y0 _ next_y above] lt prems(2) True add
      by (subst isqrt_loop.simps) simp
  next
    case False
    then have "unat x \<le> (unat x + unat n div unat x) div 2"
      using prems(3) by (simp add: word_less_nat_alt)
    then have "unat x \<le> unat n div unat x"
      by linarith
    then have "unat x * unat x \<le> unat n"
      using prems(1) by (metis less_eq_div_iff_mult_less_eq)
    then show ?thesis
      using False prems(4) by (subst isqrt_loop.simps) (simp add: power2_eq_square)
  qed
qed

lemma isqrt_floor:
  fixes n :: "'a::len word"
  assumes "3 \<le> LENGTH('a)"
  shows "\<exists>r. isqrt n = Inr r \<and> (unat r)\<^sup>2 \<le> unat n \<and> unat n < (Suc (unat r))\<^sup>2"
proof (cases "n = 0")
  case False
  then have n: "0 < unat n"
    by (simp add: unat_gt_0)
  have "(2 :: nat) < 2 ^ LENGTH('a)"
    using power_increasing [OF assms, of "2 :: nat"] by simp
  then have "unat (of_nat 2 :: 'a word) = 2"
    by (rule unat_of_nat_small)
  then have two: "unat (2 :: 'a word) = 2"
    by (simp only: of_nat_numeral)
  have "unat n div 2 + unat n mod 2 < 2 ^ LENGTH('a)"
    using unat_less_pow [of n] by linarith
  then have "unat (n div 2 + n mod 2) = unat n div 2 + unat n mod 2"
    using assms by (auto simp: unat_word_ariths unat_div unat_mod two)
  also have "\<dots> = (unat n + unat n div unat n) div 2"
    using n by simp presburger
  finally have "unat (n div 2 + n mod 2) = (unat n + unat n div unat n) div 2" .
  then have "\<exists>r. isqrt_loop n n (n div 2 + n mod 2) = Inr r \<and> (unat r)\<^sup>2 \<le> unat n \<and> unat n < (Suc (unat r))\<^sup>2"
    using n by (intro isqrt_loop_floor [OF assms]) (simp_all add: power2_eq_square)
  then show ?thesis
    using False by (simp add: isqrt_def)
qed (simp add: isqrt_def)

text \<open>
  C17: Both integer square roots terminate without a division by zero and without an overflow for every argument, the
  largest one included, and return the floor of the square root.
\<close>

theorem isqrt_terminates_with_floor:
  "(\<exists>r. isqrt_u64 n = Inr r \<and> (unat r)\<^sup>2 \<le> unat n \<and> unat n < (Suc (unat r))\<^sup>2) \<and>
   (\<exists>r. isqrt_u128 m = Inr r \<and> (unat r)\<^sup>2 \<le> unat m \<and> unat m < (Suc (unat r))\<^sup>2)"
  using isqrt_floor [of n] isqrt_floor [of m] by (simp add: isqrt_u64_def isqrt_u128_def)

section \<open>Adaptive consensus tolerance\<close>

record epsilon_config =
  adaptive_epsilon_enabled :: "bool option"
  adaptive_epsilon_scale_factor :: "u32 option"
  adaptive_epsilon_min :: "u32 option"
  adaptive_epsilon_max :: "u32 option"

definition get_adaptive_epsilon_enabled :: "epsilon_config \<Rightarrow> bool" where
  "get_adaptive_epsilon_enabled g = unwrap_or (adaptive_epsilon_enabled g) False"

definition get_adaptive_epsilon_scale_factor :: "epsilon_config \<Rightarrow> u32" where
  "get_adaptive_epsilon_scale_factor g = unwrap_or (adaptive_epsilon_scale_factor g) 0"

definition set_adaptive_epsilon ::
    "env \<Rightarrow> auth_state \<Rightarrow> bool \<Rightarrow> u32 \<Rightarrow> epsilon_config \<Rightarrow> epsilon_config op" where
  "set_adaptive_epsilon e a enabled scale_factor g =
     stored_admin_guard e a
       (Inr (g\<lparr>adaptive_epsilon_enabled := Some enabled, adaptive_epsilon_scale_factor := Some scale_factor\<rparr>,
             [Event ''adaptive_epsilon_updated'' [VBool enabled, VU32 scale_factor]]))"

definition set_adaptive_epsilon_bounds ::
    "env \<Rightarrow> auth_state \<Rightarrow> address list \<Rightarrow> bool \<Rightarrow> u32 \<Rightarrow> u32 \<Rightarrow> epsilon_config \<Rightarrow> epsilon_config op" where
  "set_adaptive_epsilon_bounds e a signers enabled min_epsilon max_epsilon g =
     admin_guard e signers a
       (if max_epsilon < min_epsilon then Inl (Err InvalidThreshold)
        else if DEFAULT_RISK_THRESHOLD < max_epsilon then Inl (Err InvalidThreshold)
        else if enabled \<and> min_epsilon = 0 then Inl (Err InvalidThreshold)
        else Inr (g\<lparr>adaptive_epsilon_enabled := Some enabled, adaptive_epsilon_min := Some min_epsilon,
                   adaptive_epsilon_max := Some max_epsilon\<rparr>, []))"

text \<open>The scores of a pair: the histories of the wallets in the rent index, in its order.\<close>

definition pair_scores :: "score_store \<Rightarrow> history_store \<Rightarrow> symbol \<Rightarrow> u32 list" where
  "pair_scores s h p =
     concat (map (\<lambda>k. if snd k = p then map rs_score (get_score_history k h) else []) (entry_index s))"

fun checked_sum :: "u64 \<Rightarrow> u64 list \<Rightarrow> u64 res" where
  "checked_sum acc [] = Inr acc"
| "checked_sum acc (x # xs) =
     (case checked_add acc x of Some s \<Rightarrow> checked_sum s xs | None \<Rightarrow> Inl Trap)"

fun square_deviations :: "u64 \<Rightarrow> u64 \<Rightarrow> u64 list \<Rightarrow> u64 res" where
  "square_deviations mean acc [] = Inr acc"
| "square_deviations mean acc (x # xs) =
     (case checked_mul (abs_diff x mean) (abs_diff x mean) of
        None \<Rightarrow> Inl Trap
      | Some sq \<Rightarrow>
          (case checked_add acc sq of
             Some s \<Rightarrow> square_deviations mean s xs | None \<Rightarrow> Inl Trap))"

definition compute_pair_stddev :: "score_store \<Rightarrow> history_store \<Rightarrow> symbol \<Rightarrow> u32 res" where
  "compute_pair_stddev s h p =
     (let xs = map ucast (pair_scores s h p); n = of_nat (length xs) in
      if length xs < 2 then Inr 0
      else
        bind_res (checked_sum 0 xs) (\<lambda>total.
        bind_res (square_deviations (total div n) 0 xs) (\<lambda>sq_sum.
        (let variance = sq_sum div n in
         if variance = 0 then Inr 0
         else bind_res (isqrt_loop variance variance (variance div 2 + variance mod 2)) (\<lambda>x.
           Inr (ucast x))))))"

definition get_effective_epsilon ::
    "consensus_state \<Rightarrow> epsilon_config \<Rightarrow> score_store \<Rightarrow> history_store \<Rightarrow> symbol \<Rightarrow> u32 res" where
  "get_effective_epsilon z g s h p =
     (let base = get_consensus_epsilon z; scale = get_adaptive_epsilon_scale_factor g in
      if \<not> get_adaptive_epsilon_enabled g then Inr base
      else if scale = 0 then Inr base
      else bind_res (compute_pair_stddev s h p) (\<lambda>pair_stddev.
        (let addend = saturating_mul (ucast scale) (ucast pair_stddev) div (1000 :: u64) in
         Inr (ucast (min (saturating_add (ucast base) addend) 100)))))"

lemma checked_sum_bound:
  assumes "\<forall>x \<in> set xs. unat x \<le> b" "unat acc + b * length xs < 2 ^ 64"
  shows "\<exists>s. checked_sum acc xs = Inr s \<and> unat s \<le> unat acc + b * length xs"
  using assms
proof (induction xs arbitrary: acc)
  case (Cons x xs)
  have "unat (acc + x) = unat acc + unat x"
    using Cons.prems by (simp add: unat_word_ariths)
  moreover from this have "checked_add acc x = Some (acc + x)"
    by (simp add: unat_checked_add)
  ultimately show ?case
    using Cons.IH [of "acc + x"] Cons.prems by fastforce
qed simp

lemma square_deviations_bound:
  assumes "\<forall>x \<in> set xs. unat x \<le> 100" "unat mean \<le> 100" "unat acc + 10000 * length xs < 2 ^ 64"
  shows "\<exists>s. square_deviations mean acc xs = Inr s \<and> unat s \<le> unat acc + 10000 * length xs"
  using assms(1,3)
proof (induction xs arbitrary: acc)
  case (Cons x xs)
  let ?d = "abs_diff x mean"
  have "unat ?d \<le> 100"
    using Cons.prems(1) assms(2) by (auto simp: unat_ops)
  then have sq: "unat ?d * unat ?d \<le> 10000"
    using mult_le_mono [of "unat ?d" 100 "unat ?d" 100] by simp
  then have m: "unat (?d * ?d) = unat ?d * unat ?d" "checked_mul ?d ?d = Some (?d * ?d)"
    by (simp_all add: unat_word_ariths checked_mul_def)
  have a: "unat (acc + ?d * ?d) = unat acc + unat ?d * unat ?d"
    using Cons.prems(2) sq m(1) by (simp add: unat_word_ariths)
  then have "checked_add acc (?d * ?d) = Some (acc + ?d * ?d)"
    using m(1) by (simp add: unat_checked_add)
  moreover have "\<exists>s. square_deviations mean (acc + ?d * ?d) xs = Inr s \<and>
      unat s \<le> unat (acc + ?d * ?d) + 10000 * length xs"
    using Cons.prems sq a by (intro Cons.IH) simp_all
  ultimately show ?case
    using m a sq by fastforce
qed simp

lemma pair_stddev_le:
  assumes "\<forall>x \<in> set (pair_scores s h p). x \<le> 100" "length (pair_scores s h p) < 2 ^ 32"
  shows "\<exists>d. compute_pair_stddev s h p = Inr d \<and> d \<le> 100"
proof (cases "length (pair_scores s h p) < 2")
  case False
  let ?xs = "map ucast (pair_scores s h p) :: u64 list"
  let ?n = "of_nat (length ?xs) :: u64"
  have xs: "\<forall>x \<in> set ?xs. unat x \<le> 100"
    using assms(1) by (auto simp: unat_ops word_le_nat_alt)
  have n: "unat ?n = length ?xs" "0 < length ?xs"
    using assms(2) False by (auto intro!: unat_of_nat_small)
  obtain total where total: "checked_sum 0 ?xs = Inr total" "unat total \<le> 100 * length ?xs"
    using checked_sum_bound [OF xs, of 0] assms(2) by auto
  then have "unat (total div ?n) \<le> 100"
    using n div_le_mono [OF total(2), of "length ?xs"] by (simp add: unat_div)
  then obtain sq where sq: "square_deviations (total div ?n) 0 ?xs = Inr sq" "unat sq \<le> 10000 * length ?xs"
    using square_deviations_bound [OF xs, of "total div ?n" 0] assms(2) by auto
  let ?v = "sq div ?n"
  have v: "unat ?v \<le> 10000"
    using n div_le_mono [OF sq(2), of "length ?xs"] by (simp add: unat_div)
  obtain r where r: "isqrt ?v = Inr r" "(unat r)\<^sup>2 \<le> unat ?v"
    using isqrt_floor [of ?v] by auto
  then have "unat r \<le> 100"
    using v power2_le_imp_le [of "unat r" 100] by simp
  then have "(ucast r :: u32) \<le> 100"
    by (simp add: word_le_nat_alt unat_ucast_fits)
  then show ?thesis
    using False total sq r by (auto simp: compute_pair_stddev_def Let_def isqrt_def split: if_splits)
qed (simp add: compute_pair_stddev_def)

text \<open>While all scores of the pair are in range, the tolerance is computed without a trap; it is at least the
  configured one and at most 100.\<close>

lemma effective_epsilon_bounds:
  assumes "\<forall>x \<in> set (pair_scores s h p). x \<le> 100" "length (pair_scores s h p) < 2 ^ 32"
    and "get_consensus_epsilon z \<le> 100"
  shows "\<exists>r. get_effective_epsilon z g s h p = Inr r \<and> get_consensus_epsilon z \<le> r \<and> r \<le> 100"
proof -
  obtain d where d: "compute_pair_stddev s h p = Inr d"
    using pair_stddev_le [OF assms(1,2)] by blast
  have "get_consensus_epsilon z \<le> ucast (min (saturating_add (ucast (get_consensus_epsilon z)) x) (100 :: u64))
      \<and> ucast (min (saturating_add (ucast (get_consensus_epsilon z)) x) (100 :: u64)) \<le> (100 :: u32)" for x
    using assms(3) by (auto simp: min_def word_le_nat_alt unat_ucast_fits unat_ops)
  then show ?thesis
    using d assms(3) by (simp add: get_effective_epsilon_def Let_def)
qed

end
