(* ===== verification/Gate.thy ===== *)
theory Gate
  imports Submission
begin

text \<open>
  The risk gate that other contracts query before they act (\<^verbatim>\<open>lib.rs\<close> 4853--4866, 5108--5398 and
  5469--5559, \<^verbatim>\<open>storage.rs\<close> 1402--1455, 2245--2251 and 3127--3197): its settings, the read
  quota of a consumer, and the decision.  The secondary contract that answers while this one is paused
  is not part of the sources; it is a parameter that gives the score it returns, or a
  failure that traps the call.
\<close>

record ConsumerReadQuota =
  cq_capacity :: u32
  cq_refill_rate :: u32
  cq_tokens :: u32
  cq_last_refill :: u64

text \<open>\<^verbatim>\<open>gate_open\<close> is one ledger key that two accessors read: as the enforcement mode and as the
  open flag.\<close>

record gate_state =
  consumer_read_quota :: "address \<Rightarrow> ConsumerReadQuota option"
  gate_callers :: "address list option"
  gate_open :: "bool option"
  global_min_confidence :: "u32 option"
  failover_contract :: "address option"
  gate_query_fee :: "int option"

type_synonym secondary = "address \<Rightarrow> pair_key \<Rightarrow> RiskScore option res"

type_synonym gated = "contract \<times> gate_state"

definition FAILOVER_STALENESS_WINDOW :: u64 where "FAILOVER_STALENESS_WINDOW = 3600"

definition empty_gate :: gate_state where
  "empty_gate = \<lparr>consumer_read_quota = (\<lambda>_. None), gate_callers = None, gate_open = None,
     global_min_confidence = None, failover_contract = None, gate_query_fee = None\<rparr>"

section \<open>Settings\<close>

definition get_gate_callers :: "gate_state \<Rightarrow> address list" where
  "get_gate_callers g = unwrap_or (gate_callers g) []"

definition get_gate_open :: "gate_state \<Rightarrow> bool" where
  "get_gate_open g = unwrap_or (gate_open g) True"

definition get_gate_enforcement_mode :: "gate_state \<Rightarrow> bool" where
  "get_gate_enforcement_mode g = unwrap_or (gate_open g) False"

definition get_global_min_confidence :: "gate_state \<Rightarrow> u32" where
  "get_global_min_confidence g = unwrap_or (global_min_confidence g) 0"

definition get_gate_query_fee :: "gate_state \<Rightarrow> int" where
  "get_gate_query_fee g = unwrap_or (gate_query_fee g) 0"

definition set_global_min_confidence :: "env \<Rightarrow> auth_state \<Rightarrow> u32 \<Rightarrow> gate_state \<Rightarrow> gate_state op" where
  "set_global_min_confidence e a min_confidence g =
     (if \<not> has_admin a then Inl (Err NotInitialized)
      else if 100 < min_confidence then Inl (Err InvalidConfidence)
      else stored_admin_guard e a (Inr (g\<lparr>global_min_confidence := Some min_confidence\<rparr>, [])))"

definition set_gate_query_fee :: "env \<Rightarrow> auth_state \<Rightarrow> int \<Rightarrow> gate_state \<Rightarrow> gate_state op" where
  "set_gate_query_fee e a amount g =
     stored_admin_guard e a (Inr (g\<lparr>gate_query_fee := Some amount\<rparr>, []))"

definition set_gate_callers ::
    "env \<Rightarrow> auth_state \<Rightarrow> address list \<Rightarrow> address list \<Rightarrow> gate_state \<Rightarrow> gate_state op" where
  "set_gate_callers e a signers callers g =
     admin_guard e signers a (Inr (g\<lparr>gate_callers := Some callers\<rparr>, []))"

definition set_gate_enforcement_mode ::
    "env \<Rightarrow> auth_state \<Rightarrow> address list \<Rightarrow> bool \<Rightarrow> gate_state \<Rightarrow> gate_state op" where
  "set_gate_enforcement_mode e a signers strict g =
     admin_guard e signers a (Inr (g\<lparr>gate_open := Some strict\<rparr>, []))"

definition set_failover_contract ::
    "env \<Rightarrow> auth_state \<Rightarrow> address list \<Rightarrow> address \<Rightarrow> gate_state \<Rightarrow> gate_state op" where
  "set_failover_contract e a signers contract_id g =
     admin_guard e signers a (Inr (g\<lparr>failover_contract := Some contract_id\<rparr>, []))"

definition set_consumer_read_quota ::
    "env \<Rightarrow> auth_state \<Rightarrow> address list \<Rightarrow> address \<Rightarrow> u32 \<Rightarrow> u32 \<Rightarrow> gate_state \<Rightarrow> gate_state op" where
  "set_consumer_read_quota e a signers consumer capacity refill_rate g =
     (if \<not> has_admin a then Inl (Err NotInitialized)
      else if capacity = 0 then Inl (Err InvalidThreshold)
      else admin_guard e signers a
        (let quota = \<lparr>cq_capacity = capacity, cq_refill_rate = refill_rate, cq_tokens = capacity,
               cq_last_refill = ledger_timestamp e\<rparr> in
         Inr (g\<lparr>consumer_read_quota := (consumer_read_quota g)(consumer \<mapsto> quota)\<rparr>, [])))"

definition clear_consumer_read_quota ::
    "env \<Rightarrow> auth_state \<Rightarrow> address list \<Rightarrow> address \<Rightarrow> gate_state \<Rightarrow> gate_state op" where
  "clear_consumer_read_quota e a signers consumer g =
     admin_guard e signers a
       (Inr (g\<lparr>consumer_read_quota := (consumer_read_quota g)(consumer := None)\<rparr>, []))"

section \<open>Read quotas\<close>

definition refilled_consumer_quota_tokens :: "ConsumerReadQuota \<Rightarrow> u64 \<Rightarrow> u32" where
  "refilled_consumer_quota_tokens quota now =
     (if cq_capacity quota = 0 \<or> cq_refill_rate quota = 0 then min (cq_tokens quota) (cq_capacity quota)
      else
        (let elapsed = saturating_sub now (cq_last_refill quota);
             missing = saturating_sub (cq_capacity quota) (cq_tokens quota);
             added = min (saturating_mul (ucast elapsed) (ucast (cq_refill_rate quota)) :: 128 word) (ucast missing) in
         min (saturating_add (cq_tokens quota) (ucast added)) (cq_capacity quota)))"

definition remaining_consumer_read_quota :: "env \<Rightarrow> address \<Rightarrow> gate_state \<Rightarrow> u32" where
  "remaining_consumer_read_quota e consumer g =
     (case consumer_read_quota g consumer of
        None \<Rightarrow> 0
      | Some quota \<Rightarrow> refilled_consumer_quota_tokens quota (ledger_timestamp e))"

definition consume_consumer_read_quota :: "env \<Rightarrow> address \<Rightarrow> gate_state \<Rightarrow> bool \<times> gate_state" where
  "consume_consumer_read_quota e consumer g =
     (case consumer_read_quota g consumer of
        None \<Rightarrow> (True, g)
      | Some quota \<Rightarrow>
          (let tokens = refilled_consumer_quota_tokens quota (ledger_timestamp e) in
           if tokens = 0 then (False, g)
           else (True, g\<lparr>consumer_read_quota := (consumer_read_quota g)(consumer \<mapsto>
                   quota\<lparr>cq_tokens := saturating_sub tokens 1, cq_last_refill := ledger_timestamp e\<rparr>)\<rparr>)))"

section \<open>The decision\<close>

definition get_score_opt :: "pair_key \<Rightarrow> contract \<Rightarrow> RiskScore option" where
  "get_score_opt k c = (if asset_pair_is_bounded (snd k) then scores (c_store c) k else None)"

definition gate_passes :: "u32 \<Rightarrow> u32 \<Rightarrow> RiskScore \<Rightarrow> bool" where
  "gate_passes gate_threshold effective_floor risk =
     (rs_score risk < gate_threshold \<and> effective_floor \<le> rs_confidence risk)"

text \<open>The answer of the paused contract: that of the secondary, if its score is fresh.\<close>

definition gate_failover ::
    "secondary \<Rightarrow> env \<Rightarrow> pair_key \<Rightarrow> u32 \<Rightarrow> u32 \<Rightarrow> gate_state \<Rightarrow> (bool \<times> event list) res" where
  "gate_failover sec e k gate_threshold min_confidence g =
     (case failover_contract g of
        None \<Rightarrow> Inr (False, [])
      | Some secondary_id \<Rightarrow>
          bind_res (sec secondary_id k) (\<lambda>secondary_score.
            case secondary_score of
              None \<Rightarrow> Inr (False, [])
            | Some score \<Rightarrow>
                if saturating_sub (ledger_timestamp e) (rs_timestamp score) \<le> FAILOVER_STALENESS_WINDOW
                then Inr (gate_passes gate_threshold
                            (max min_confidence (get_global_min_confidence g)) score,
                          [Event ''failover_triggered'' [VAddr (fst k), VSym (snd k)]])
                else Inr (False, [])))"

definition gate_decision :: "env \<Rightarrow> pair_key \<Rightarrow> u32 \<Rightarrow> u32 \<Rightarrow> contract \<Rightarrow> gate_state \<Rightarrow> bool" where
  "gate_decision e k gate_threshold min_confidence c g =
     (if is_embargoed e (fst k) (c_embargo c) then False
      else if get_risk_band_state k (c_monitor c) then False
      else
        (let effective_floor = max min_confidence (get_global_min_confidence g) in
         case scores (c_store c) k of
           Some risk \<Rightarrow> gate_passes gate_threshold effective_floor risk
         | None \<Rightarrow>
             (case c_delegates c (fst k) of
                None \<Rightarrow> False
              | Some custodian \<Rightarrow>
                  (case scores (c_store c) (custodian, snd k) of
                     None \<Rightarrow> False
                   | Some risk \<Rightarrow> gate_passes gate_threshold effective_floor risk))))"

definition query_risk_gate_for_consumer ::
    "secondary \<Rightarrow> env \<Rightarrow> address \<Rightarrow> pair_key \<Rightarrow> u32 \<Rightarrow> u32 \<Rightarrow> bool \<Rightarrow> gated \<Rightarrow> (gated \<times> bool \<times> event list) res" where
  "query_risk_gate_for_consumer sec e consumer k gate_threshold min_confidence metered s =
     (case s of (c, g) \<Rightarrow>
      if \<not> asset_pair_is_bounded (snd k) then Inr ((c, g), False, [])
      else
        (let (t, silence) = check_service_silence e (c_stats c);
             c1 = c\<lparr>c_stats := t\<rparr> in
         if get_gate_enforcement_mode g \<and> consumer \<notin> set (get_gate_callers g)
         then Inr ((c1, g), False, silence)
         else
           (let (granted, g1) = (if metered then consume_consumer_read_quota e consumer g else (True, g)) in
            if \<not> granted then Inr ((c1, g1), False, silence)
            else if 100 < gate_threshold \<or> 100 < min_confidence then Inr ((c1, g1), False, silence)
            else if is_paused c1 then
              bind_res (gate_failover sec e k gate_threshold min_confidence g1) (\<lambda>(passed, evs).
                Inr ((c1, g1), passed, silence @ evs))
            else Inr ((c1, g1), gate_decision e k gate_threshold min_confidence c1 g1, silence))))"

definition query_risk_gate_with_confidence ::
    "secondary \<Rightarrow> env \<Rightarrow> pair_key \<Rightarrow> u32 \<Rightarrow> u32 \<Rightarrow> gated \<Rightarrow> (gated \<times> bool \<times> event list) res" where
  "query_risk_gate_with_confidence sec e k gate_threshold min_confidence s =
     query_risk_gate_for_consumer sec e (current_contract e) k gate_threshold min_confidence False s"

definition query_risk_gate ::
    "secondary \<Rightarrow> env \<Rightarrow> pair_key \<Rightarrow> u32 \<Rightarrow> gated \<Rightarrow> (gated \<times> bool \<times> event list) res" where
  "query_risk_gate sec e k gate_threshold s =
     (case s of (c, g) \<Rightarrow>
      if \<not> asset_pair_is_bounded (snd k) then Inr ((c, g), False, [])
      else query_risk_gate_with_confidence sec e k gate_threshold 0
        (c\<lparr>gate_read_ledger := (gate_read_ledger c)(k \<mapsto> ledger_sequence e)\<rparr>, g))"

definition query_risk_gate_metered ::
    "secondary \<Rightarrow> env \<Rightarrow> address \<Rightarrow> pair_key \<Rightarrow> u32 \<Rightarrow> gated \<Rightarrow> (gated \<times> bool \<times> event list) res" where
  "query_risk_gate_metered sec e consumer k gate_threshold s =
     bind_res (require_auth e consumer) (\<lambda>_.
       query_risk_gate_for_consumer sec e consumer k gate_threshold 0 True s)"

section \<open>The gate fails closed\<close>

lemma check_service_silence_frame:
  "is_paused (c\<lparr>c_stats := t\<rparr>) = is_paused c"
  "gate_decision e k th mc (c\<lparr>c_stats := t\<rparr>) g = gate_decision e k th mc c g"
  by (simp_all add: is_paused_def gate_decision_def cong: option.case_cong)

lemma consume_quota_frame:
  assumes "consume_consumer_read_quota e consumer g = (ok, g')"
  shows "get_global_min_confidence g' = get_global_min_confidence g"
    "failover_contract g' = failover_contract g"
  using assms by (auto simp: consume_consumer_read_quota_def get_global_min_confidence_def Let_def
      split: option.splits if_splits)

text \<open>The record a positive answer rests on: the secondary's fresh score while the contract is
  paused, else the wallet's own score, else that of its custodian.\<close>

definition backs_gate :: "secondary \<Rightarrow> env \<Rightarrow> pair_key \<Rightarrow> contract \<Rightarrow> gate_state \<Rightarrow> RiskScore \<Rightarrow> bool" where
  "backs_gate sec e k c g risk \<longleftrightarrow>
     (if is_paused c
      then \<exists>sid. failover_contract g = Some sid \<and> sec sid k = Inr (Some risk) \<and>
        saturating_sub (ledger_timestamp e) (rs_timestamp risk) \<le> FAILOVER_STALENESS_WINDOW
      else \<not> is_embargoed e (fst k) (c_embargo c) \<and> \<not> get_risk_band_state k (c_monitor c) \<and>
        (scores (c_store c) k = Some risk \<or>
         scores (c_store c) k = None \<and>
           (\<exists>custodian. c_delegates c (fst k) = Some custodian \<and> scores (c_store c) (custodian, snd k) = Some risk)))"

lemma gate_decision_iff:
  "gate_decision e k th mc c g \<longleftrightarrow>
     \<not> is_embargoed e (fst k) (c_embargo c) \<and> \<not> get_risk_band_state k (c_monitor c) \<and>
     (\<exists>risk. gate_passes th (max mc (get_global_min_confidence g)) risk \<and>
        (scores (c_store c) k = Some risk \<or>
         scores (c_store c) k = None \<and>
           (\<exists>custodian. c_delegates c (fst k) = Some custodian \<and> scores (c_store c) (custodian, snd k) = Some risk)))"
  by (auto simp: gate_decision_def Let_def split: option.splits)

lemma gate_failover_pass:
  "gate_failover sec e k th mc g = Inr (True, evs) \<longleftrightarrow>
     evs = [Event ''failover_triggered'' [VAddr (fst k), VSym (snd k)]] \<and>
     (\<exists>sid risk. failover_contract g = Some sid \<and> sec sid k = Inr (Some risk) \<and>
        saturating_sub (ledger_timestamp e) (rs_timestamp risk) \<le> FAILOVER_STALENESS_WINDOW \<and>
        gate_passes th (max mc (get_global_min_confidence g)) risk)"
  by (auto simp: gate_failover_def bind_res_Inr_iff split: option.splits)

definition gate_answers :: "secondary \<Rightarrow> env \<Rightarrow> pair_key \<Rightarrow> u32 \<Rightarrow> u32 \<Rightarrow> contract \<Rightarrow> gate_state \<Rightarrow> bool" where
  "gate_answers sec e k th mc c g \<longleftrightarrow> th \<le> 100 \<and> mc \<le> 100 \<and>
     (\<exists>risk. gate_passes th (max mc (get_global_min_confidence g)) risk \<and> backs_gate sec e k c g risk)"

text \<open>What an accepted query left behind, and that this does not depend on the two limits.\<close>

definition gate_trace :: "env \<Rightarrow> address \<Rightarrow> pair_key \<Rightarrow> bool \<Rightarrow> gated \<Rightarrow> (gated \<times> event list) option" where
  "gate_trace e consumer k metered s =
     (let c = fst s; g = snd s; (t, silence) = check_service_silence e (c_stats c);
          (granted, g1) = (if metered then consume_consumer_read_quota e consumer g else (True, g)) in
      if asset_pair_is_bounded (snd k) \<and> (get_gate_enforcement_mode g \<longrightarrow> consumer \<in> set (get_gate_callers g))
        \<and> granted
      then Some ((c\<lparr>c_stats := t\<rparr>, g1),
        silence @ (if is_paused c then [Event ''failover_triggered'' [VAddr (fst k), VSym (snd k)]] else []))
      else None)"

lemma query_pass_iff:
  "query_risk_gate_for_consumer sec e consumer k th mc metered (c, g) = Inr (s', True, evs) \<longleftrightarrow>
     gate_trace e consumer k metered (c, g) = Some (s', evs) \<and> gate_answers sec e k th mc c g"
proof -
  obtain t silence where t: "check_service_silence e (c_stats c) = (t, silence)"
    by (cases "check_service_silence e (c_stats c)")
  obtain granted g1 where g1: "(if metered then consume_consumer_read_quota e consumer g else (True, g)) = (granted, g1)"
    by (cases "if metered then consume_consumer_read_quota e consumer g else (True, g)")
  have eq: "get_global_min_confidence g1 = get_global_min_confidence g" "failover_contract g1 = failover_contract g"
    using g1 consume_quota_frame by (auto split: if_splits)
  show ?thesis
    unfolding query_risk_gate_for_consumer_def gate_trace_def gate_answers_def backs_gate_def
    by (cases "is_paused c") (auto simp: t g1 Let_def eq bind_res_Inr_iff gate_failover_pass gate_decision_iff
        ex_bool_eq check_service_silence_frame linorder_not_less split: if_splits)
qed

lemma gate_passes_mono:
  "gate_passes th fl risk \<Longrightarrow> th \<le> th' \<Longrightarrow> fl' \<le> fl \<Longrightarrow> gate_passes th' fl' risk"
  by (auto simp: gate_passes_def)

text \<open>
  C20: A positive answer of the gate rests on a low score.  Whatever the entry point, the limits are at
  most 100, a caller of the strict gate is on the list, and there is a score below the
  threshold with at least the larger of the requested and the global confidence: the
  wallet's own, or its custodian's where it has none, for a wallet neither under embargo
  nor in the risk band; or, while the contract is paused, a score of the secondary that is
  no more than an hour old.  Every other situation gives a negative answer.
  The answer stays positive, with the same state and events, when the threshold is raised or
  the confidence lowered.
\<close>

theorem risk_gate_pass:
  assumes "query_risk_gate_for_consumer sec e consumer k th mc metered (c, g) = Inr (s', True, evs)"
  shows "th \<le> 100 \<and> mc \<le> 100 \<and> (get_gate_enforcement_mode g \<longrightarrow> consumer \<in> set (get_gate_callers g)) \<and>
    (\<exists>risk. rs_score risk < th \<and> mc \<le> rs_confidence risk \<and> get_global_min_confidence g \<le> rs_confidence risk \<and>
       backs_gate sec e k c g risk) \<and>
    (\<forall>th' mc'. th \<le> th' \<and> th' \<le> 100 \<and> mc' \<le> mc \<longrightarrow>
       query_risk_gate_for_consumer sec e consumer k th' mc' metered (c, g) = Inr (s', True, evs))"
proof -
  have trace: "gate_trace e consumer k metered (c, g) = Some (s', evs)" and ans: "gate_answers sec e k th mc c g"
    using assms by (simp_all add: query_pass_iff)
  have "gate_answers sec e k th' mc' c g" if "th \<le> th'" "th' \<le> 100" "mc' \<le> mc" for th' mc'
  proof -
    have "max mc' (get_global_min_confidence g) \<le> max mc (get_global_min_confidence g)" "mc' \<le> 100"
      using that(3) ans max.mono [OF that(3) order_refl] by (auto simp: gate_answers_def)
    then show ?thesis
      using ans that(1,2) gate_passes_mono unfolding gate_answers_def by blast
  qed
  moreover have "get_gate_enforcement_mode g \<longrightarrow> consumer \<in> set (get_gate_callers g)"
    using trace by (simp add: gate_trace_def Let_def case_prod_unfold split: if_splits)
  ultimately show ?thesis
    using ans trace by (auto simp: query_pass_iff gate_answers_def gate_passes_def)
qed

lemma bind_res_total: "bind_res m (\<lambda>x. Inr (f x)) = Inl err \<longleftrightarrow> m = Inl err"
  by (cases m) auto

text \<open>
  A query fails only in the failover: it returns an answer unless the contract is paused, a
  secondary is set, the query passed the checks before, and the call of the secondary fails;
  then it fails in the same way.  The documentation promises that the gate never
  panics.
\<close>

theorem risk_gate_fails_with_secondary:
  "query_risk_gate_with_confidence sec e k th mc (c, g) = Inl err \<longleftrightarrow>
     asset_pair_is_bounded (snd k) \<and> th \<le> 100 \<and> mc \<le> 100 \<and> is_paused c \<and>
     (get_gate_enforcement_mode g \<longrightarrow> current_contract e \<in> set (get_gate_callers g)) \<and>
     (\<exists>sid. failover_contract g = Some sid \<and> sec sid k = Inl err)"
  (is "?l = ?r")
proof -
  have "gate_failover sec e k th mc g = Inl err \<longleftrightarrow> (\<exists>sid. failover_contract g = Some sid \<and> sec sid k = Inl err)"
    by (auto simp: gate_failover_def bind_res_def split: option.splits sum.splits)
  then show ?thesis
    by (auto simp: query_risk_gate_with_confidence_def query_risk_gate_for_consumer_def Let_def case_prod_unfold
        check_service_silence_frame linorder_not_less bind_res_total)
qed

section \<open>A read quota bounds the positive answers\<close>

text \<open>The interface of a bucket that refills with time: what is available never grows by more than
  the rate, and each grant takes one unit of it.\<close>

locale refilling_bucket =
  fixes clock :: "'t \<Rightarrow> nat"
    and available :: "'s \<Rightarrow> 't \<Rightarrow> nat"
    and spend :: "'t \<Rightarrow> 's \<Rightarrow> bool \<times> 's"
    and rate :: nat
    and configured :: "'s \<Rightarrow> bool"
  assumes refill: "configured s \<Longrightarrow> clock t \<le> clock t' \<Longrightarrow>
      available s t' \<le> available s t + rate * (clock t' - clock t)"
    and granted: "configured s \<Longrightarrow> spend t s = (True, s') \<Longrightarrow> Suc (available s' t) \<le> available s t"
    and refused: "spend t s = (False, s') \<Longrightarrow> s' = s"
    and keeps: "configured s \<Longrightarrow> spend t s = (b, s') \<Longrightarrow> configured s'"
begin

lemma spend_potential:
  assumes "configured s" "spend t s = (b, s')" "clock t0 \<le> clock t" "clock t \<le> clock T"
  shows "(if b then 1 else 0) + (available s' t + rate * (clock T - clock t)) \<le> available s t0 + rate * (clock T - clock t0)"
proof -
  have "(if b then 1 else 0) + available s' t \<le> available s t"
    using granted [OF assms(1), of t s'] refused [of t s s'] assms(2) by (cases b) auto
  moreover have "available s t \<le> available s t0 + rate * (clock t - clock t0)"
    using refill [OF assms(1,3)] .
  moreover have "rate * (clock t - clock t0) + rate * (clock T - clock t) = rate * (clock T - clock t0)"
    using assms(3,4) by (simp flip: distrib_left)
  ultimately show ?thesis
    by linarith
qed

end

lemma unat_min: "unat (min a b) = min (unat a) (unat b)" for a b :: "'a::len word"
  by (simp add: min_def word_le_nat_alt)

lemma min_refill: "C \<le> M \<Longrightarrow> T \<le> M \<Longrightarrow> min (min (T + min X (C - T)) M) C = min C (T + X)" for C :: nat
  by (auto simp: min_def)

lemma unat_refilled:
  "unat (refilled_consumer_quota_tokens q now) =
     min (unat (cq_capacity q)) (unat (cq_tokens q) + unat (cq_refill_rate q) * (unat now - unat (cq_last_refill q)))"
proof (cases "cq_capacity q = 0 \<or> cq_refill_rate q = 0")
  case True
  then show ?thesis
    by (auto simp: refilled_consumer_quota_tokens_def unat_min min.commute)
next
  case False
  let ?elapsed = "saturating_sub now (cq_last_refill q)" and ?missing = "saturating_sub (cq_capacity q) (cq_tokens q)"
  let ?product = "saturating_mul (ucast ?elapsed) (ucast (cq_refill_rate q)) :: 128 word"
  have "unat ?elapsed * unat (cq_refill_rate q) < 2 ^ 64 * 2 ^ 32"
    using unat_less_pow [of ?elapsed] unat_less_pow [of "cq_refill_rate q"] by (intro mult_strict_mono) auto
  then have product: "unat ?product = unat ?elapsed * unat (cq_refill_rate q)"
    by (simp add: unat_ops)
  define added where "added = (ucast (min ?product (ucast ?missing) :: 128 word) :: u32)"
  have min: "unat (min ?product (ucast ?missing) :: 128 word) = min (unat ?elapsed * unat (cq_refill_rate q)) (unat ?missing)"
    by (simp add: unat_min product unat_ucast_up)
  then have "unat added = min (unat ?elapsed * unat (cq_refill_rate q)) (unat ?missing)"
    using unat_less_pow [of ?missing] unfolding added_def by (subst unat_ucast_fits) simp_all
  then have added: "unat added = min (unat (cq_refill_rate q) * (unat now - unat (cq_last_refill q)))
      (unat (cq_capacity q) - unat (cq_tokens q))"
    by (simp add: unat_saturating_sub mult.commute)
  have "refilled_consumer_quota_tokens q now = min (saturating_add (cq_tokens q) added) (cq_capacity q)"
    using False by (simp add: refilled_consumer_quota_tokens_def Let_def added_def)
  then show ?thesis
    using unat_le_max [of "cq_tokens q"] unat_le_max [of "cq_capacity q"]
    by (simp only: unat_min unat_saturating_add added min_refill)
qed

text \<open>The quota of a consumer with a given refill rate is such a bucket.\<close>

definition refills_at :: "address \<Rightarrow> nat \<Rightarrow> gate_state \<Rightarrow> bool" where
  "refills_at consumer r g \<longleftrightarrow> (\<exists>q. consumer_read_quota g consumer = Some q \<and> unat (cq_refill_rate q) = r)"

interpretation quota: refilling_bucket "\<lambda>e. unat (ledger_timestamp e)"
  "\<lambda>g e. unat (remaining_consumer_read_quota e consumer g)" "\<lambda>e. consume_consumer_read_quota e consumer" r
  "refills_at consumer r" for consumer r
proof
  fix g g' b and e e' :: env
  assume conf: "refills_at consumer r g"
  then obtain q where q: "consumer_read_quota g consumer = Some q" "unat (cq_refill_rate q) = r"
    by (auto simp: refills_at_def)
  let ?t = "unat (ledger_timestamp e)" and ?t' = "unat (ledger_timestamp e')"
  {
    assume "?t \<le> ?t'"
    then have "?t' - unat (cq_last_refill q) \<le> (?t - unat (cq_last_refill q)) + (?t' - ?t)"
      by linarith
    then have "r * (?t' - unat (cq_last_refill q)) \<le> r * (?t - unat (cq_last_refill q)) + r * (?t' - ?t)"
      by (metis distrib_left mult_le_mono2)
    then show "unat (remaining_consumer_read_quota e' consumer g)
        \<le> unat (remaining_consumer_read_quota e consumer g) + r * (?t' - ?t)"
      by (simp add: remaining_consumer_read_quota_def q unat_refilled)
  next
    assume "consume_consumer_read_quota e consumer g = (True, g')"
    then have "refilled_consumer_quota_tokens q (ledger_timestamp e) \<noteq> 0"
      and "consumer_read_quota g' consumer = Some (q\<lparr>cq_tokens :=
        saturating_sub (refilled_consumer_quota_tokens q (ledger_timestamp e)) 1, cq_last_refill := ledger_timestamp e\<rparr>)"
      by (auto simp: consume_consumer_read_quota_def q Let_def split: if_splits)
    then show "Suc (unat (remaining_consumer_read_quota e consumer g')) \<le> unat (remaining_consumer_read_quota e consumer g)"
      by (simp add: remaining_consumer_read_quota_def q unat_saturating_sub unat_refilled unat_gt_0 [symmetric])
  next
    assume "consume_consumer_read_quota e consumer g = (b, g')"
    then show "refills_at consumer r g'"
      using q by (auto simp: consume_consumer_read_quota_def refills_at_def Let_def split: if_splits)
  }
qed (auto simp: consume_consumer_read_quota_def Let_def split: option.splits if_splits)

lemma metered_query_spends:
  assumes "query_risk_gate_metered sec e consumer k th (c, g) = Inr ((c', g'), passed, evs)"
  shows "g' = g \<and> \<not> passed \<or> (\<exists>b. consume_consumer_read_quota e consumer g = (b, g') \<and> (passed \<longrightarrow> b))"
  using assms
  by (auto simp: query_risk_gate_metered_def query_risk_gate_for_consumer_def bind_res_Inr_iff Let_def
      case_prod_unfold split: if_splits; metis prod.collapse)

text \<open>The positive answers to a sequence of metered queries of one consumer; a query that fails
  changes nothing.\<close>

fun metered_passes :: "secondary \<Rightarrow> address \<Rightarrow> (env \<times> pair_key \<times> u32) list \<Rightarrow> gated \<Rightarrow> nat" where
  "metered_passes sec consumer [] s = 0"
| "metered_passes sec consumer ((e, k, th) # qs) s =
     (case query_risk_gate_metered sec e consumer k th s of
        Inl _ \<Rightarrow> metered_passes sec consumer qs s
      | Inr (s', passed, _) \<Rightarrow> (if passed then 1 else 0) + metered_passes sec consumer qs s')"

abbreviation query_time :: "env \<times> pair_key \<times> u32 \<Rightarrow> nat" where
  "query_time q \<equiv> unat (ledger_timestamp (fst q))"

lemma metered_passes_potential:
  fixes e0 eT :: env
  assumes "refills_at consumer r g" "sorted (map query_time qs)"
    "\<forall>q \<in> set qs. unat (ledger_timestamp e0) \<le> query_time q \<and> query_time q \<le> unat (ledger_timestamp eT)"
    "unat (ledger_timestamp e0) \<le> unat (ledger_timestamp eT)"
  shows "metered_passes sec consumer qs (c, g) \<le> unat (remaining_consumer_read_quota e0 consumer g) +
    r * (unat (ledger_timestamp eT) - unat (ledger_timestamp e0))"
  using assms
proof (induction qs arbitrary: c g e0)
  case (Cons q qs)
  obtain e k th where q: "q = (e, k, th)"
    by (cases q)
  show ?case
  proof (cases "query_risk_gate_metered sec e consumer k th (c, g)")
    case (Inl err)
    then show ?thesis
      using Cons.IH [of g e0 c] Cons.prems by (simp add: q)
  next
    case (Inr y)
    then obtain c' g' passed evs where y: "query_risk_gate_metered sec e consumer k th (c, g) = Inr ((c', g'), passed, evs)"
      by (cases y) auto
    show ?thesis
      using metered_query_spends [OF y]
    proof (elim disjE exE conjE)
      assume "g' = g" "\<not> passed"
      then show ?thesis
        using Cons.IH [of g e0 c'] Cons.prems y by (simp add: q)
    next
      fix b
      assume spend: "consume_consumer_read_quota e consumer g = (b, g')" and b: "passed \<longrightarrow> b"
      have "metered_passes sec consumer qs (c', g') \<le> unat (remaining_consumer_read_quota e consumer g') +
          r * (unat (ledger_timestamp eT) - unat (ledger_timestamp e))"
        using Cons.IH [of g' e c'] Cons.prems quota.keeps [OF Cons.prems(1) spend] by (auto simp: q)
      then show ?thesis
        using quota.spend_potential [OF Cons.prems(1) spend, of e0 eT] Cons.prems b y by (auto simp: q)
    qed
  qed
qed simp

text \<open>
  C21: A read quota bounds what a consumer can learn: of any metered queries made in order between two
  ledger times, for whatever keys and thresholds, at most the capacity of the quota plus
  its refill rate times the elapsed seconds are answered positively.
\<close>

theorem metered_quota_bound:
  fixes e0 eT :: env
  assumes "consumer_read_quota g consumer = Some q" "sorted (map query_time qs)"
    "\<forall>x \<in> set qs. unat (ledger_timestamp e0) \<le> query_time x \<and> query_time x \<le> unat (ledger_timestamp eT)"
    "ledger_timestamp e0 \<le> ledger_timestamp eT"
  shows "metered_passes sec consumer qs (c, g) \<le> unat (cq_capacity q) +
    unat (cq_refill_rate q) * (unat (ledger_timestamp eT) - unat (ledger_timestamp e0))"
proof -
  have "refills_at consumer (unat (cq_refill_rate q)) g"
    using assms(1) by (simp add: refills_at_def)
  moreover have "unat (remaining_consumer_read_quota e0 consumer g) \<le> unat (cq_capacity q)"
    by (simp add: remaining_consumer_read_quota_def assms(1) unat_refilled)
  ultimately show ?thesis
    using metered_passes_potential [of consumer _ g qs e0 eT sec c] assms(2-4) by (fastforce simp: word_le_nat_alt)
qed

section \<open>A read of the gate and a write in the same ledger\<close>

lemma submit_flash:
  assumes "submit_score e signers s inp c = Inr x"
  shows "\<exists>evs. flash_check e (claim_key s) c = Inr evs"
proof -
  obtain c' evs where "submit_score e signers s inp c = Inr (c', evs)"
    using assms by (cases x) auto
  then obtain a y where "finalize_score_submission e signers s (input_commitment inp)
      (c\<lparr>c_auth := a, c_keys := y\<rparr>) = Inr (c', evs)"
    by (rule submit_score_Inr)
  then obtain evs' where "flash_check e (claim_key s) (c\<lparr>c_auth := a, c_keys := y\<rparr>) = Inr evs'"
    by (auto simp: finalize_score_submission_def Let_def bind_res_Inr_iff claim_key_def)
  then show ?thesis
    by (auto simp: flash_check_def split: option.splits if_splits)
qed

text \<open>
  In the rejecting mode a key that was read through \<^verbatim>\<open>query_risk_gate\<close> cannot be written by a
  submission in the same ledger: every such \<^verbatim>\<open>submit_score\<close> fails, whoever signs it.  The same
  decision read through \<^verbatim>\<open>query_risk_gate_with_confidence\<close> leaves no mark, so it
  does not stop the write.
\<close>

theorem gate_read_blocks_submission:
  assumes read: "query_risk_gate sec e k th (c, g) = Inr ((c', g'), passed, evs)"
    and bounded: "asset_pair_is_bounded (snd k)" and reject: "flash_protection_mode c = Some Reject"
    and s: "claim_key s = k" and ledger: "ledger_sequence (e' :: env) = ledger_sequence e"
  shows "(\<forall>signers inp x. submit_score e' signers s inp c' \<noteq> Inr x) \<and>
    (\<forall>mc c'' g'' p evs'. query_risk_gate_with_confidence sec e k th mc (c, g) = Inr ((c'', g''), p, evs') \<longrightarrow>
       gate_read_ledger c'' = gate_read_ledger c)"
proof -
  have "gate_read_ledger c' k = Some (ledger_sequence e)" "flash_protection_mode c' = Some Reject"
    using read bounded reject
    by (auto simp: query_risk_gate_def query_risk_gate_with_confidence_def query_risk_gate_for_consumer_def
        bind_res_Inr_iff Let_def case_prod_unfold split: if_splits)
  then have "flash_check e' (claim_key s) c' = Inl (Err EpochClosed)"
    by (simp add: flash_check_def s ledger)
  moreover have "gate_read_ledger c'' = gate_read_ledger c"
    if "query_risk_gate_with_confidence sec e k th mc (c, g) = Inr ((c'', g''), p, evs')" for mc c'' g'' p evs'
    using that by (auto simp: query_risk_gate_with_confidence_def query_risk_gate_for_consumer_def
        bind_res_Inr_iff Let_def case_prod_unfold split: if_splits)
  ultimately show ?thesis
    using submit_flash by fastforce
qed

section \<open>Queries of a fresh contract\<close>

definition sample_secondary :: secondary where
  "sample_secondary _ k = Inr (Some \<lparr>rs_score = 20, rs_benford_flag = False, rs_ml_flag = False,
     rs_timestamp = 900, rs_confidence = 90, rs_model_version = 1, rs_benford_score = 0, rs_ml_score = 0,
     rs_network_score = 0, rs_commitment = None\<rparr>)"

definition sample_gated :: gated where
  "sample_gated = (sample_contract\<lparr>c_auth := sample_auth\<lparr>paused := Some True\<rparr>,
     flash_protection_mode := Some Reject\<rparr>,
     empty_gate\<lparr>failover_contract := Some (Addr 9), consumer_read_quota := [Addr 5 \<mapsto>
       \<lparr>cq_capacity = 1, cq_refill_rate = 0, cq_tokens = 1, cq_last_refill = 0\<rparr>]\<rparr>)"

lemma sample_gate_answers:
  "gate_answers sample_secondary (sample_env n) k 50 0 (fst sample_gated) (snd sample_gated)"
proof -
  let ?r = "\<lparr>rs_score = 20, rs_benford_flag = False, rs_ml_flag = False, rs_timestamp = 900, rs_confidence = 90,
    rs_model_version = 1, rs_benford_score = 0, rs_ml_score = 0, rs_network_score = 0, rs_commitment = None\<rparr>"
  have "backs_gate sample_secondary (sample_env n) k (fst sample_gated) (snd sample_gated) ?r"
    by (simp add: backs_gate_def sample_gated_def is_paused_def sample_secondary_def
        FAILOVER_STALENESS_WINDOW_def sample_env_def saturating_sub_def)
  moreover have "gate_passes 50 (max 0 (get_global_min_confidence (snd sample_gated))) ?r"
    by (simp add: gate_passes_def sample_gated_def get_global_min_confidence_def empty_gate_def)
  ultimately show ?thesis
    by (auto simp: gate_answers_def)
qed

lemma sample_gate_pass:
  assumes "length (snd k) \<le> 9"
  shows "\<exists>g' evs. query_risk_gate_for_consumer sample_secondary (sample_env n) (Addr 5) k 50 0 m sample_gated
    = Inr ((fst sample_gated, g'), True, evs)"
proof -
  have "get_last_service_activity (c_stats (fst sample_gated)) = 0"
    "is_silent_alert_emitted (c_stats (fst sample_gated)) = False"
    by (simp_all add: sample_gated_def empty_stats_def get_last_service_activity_def is_silent_alert_emitted_def)
  then have "check_service_silence (sample_env n) (c_stats (fst sample_gated)) = (c_stats (fst sample_gated), [])"
    by (simp add: check_service_silence_def)
  moreover have "\<not> get_gate_enforcement_mode (snd sample_gated)"
    by (simp add: sample_gated_def get_gate_enforcement_mode_def empty_gate_def)
  moreover have "\<exists>g1. (if m then consume_consumer_read_quota (sample_env n) (Addr 5) (snd sample_gated)
      else (True, snd sample_gated)) = (True, g1)"
    by (simp add: sample_gated_def consume_consumer_read_quota_def refilled_consumer_quota_tokens_def)
  ultimately have "\<exists>g' evs. gate_trace (sample_env n) (Addr 5) k m (fst sample_gated, snd sample_gated)
      = Some ((fst sample_gated, g'), evs)"
    using assms by (auto simp: gate_trace_def Let_def asset_pair_is_bounded_def MAX_ASSET_PAIR_BYTES_def
        simp del: prod.collapse)
  then show ?thesis
    using sample_gate_answers [of n k] query_pass_iff [of sample_secondary "sample_env n" "Addr 5" k 50 0 m
        "fst sample_gated" "snd sample_gated"] by auto
qed

theorem risk_gate_pass_witness:
  "\<exists>s' evs. query_risk_gate_for_consumer sample_secondary (sample_env 1) (Addr 5) (Addr 7, ''XLM'') 50 0 True
       sample_gated = Inr (s', True, evs) \<and>
     query_risk_gate_for_consumer sample_secondary (sample_env 1) (Addr 5) (Addr 7, ''XLM'') 60 0 True
       sample_gated = Inr (s', True, evs)"
proof -
  obtain g' evs where ok: "query_risk_gate_for_consumer sample_secondary (sample_env 1) (Addr 5) (Addr 7, ''XLM'')
      50 0 True (fst sample_gated, snd sample_gated) = Inr ((fst sample_gated, g'), True, evs)"
    using sample_gate_pass [of "(Addr 7, ''XLM'')" 1 True] by auto
  then show ?thesis
    using risk_gate_pass [OF ok] by (auto simp: word_le_nat_alt)
qed

theorem risk_gate_fails_with_secondary_witness:
  "query_risk_gate_with_confidence (\<lambda>_ _. Inl Trap) (sample_env 1) (Addr 7, ''XLM'') 50 0 sample_gated = Inl Trap"
  using risk_gate_fails_with_secondary [of "\<lambda>_ _. Inl Trap" "sample_env 1" "(Addr 7, ''XLM'')" 50 0
      "fst sample_gated" "snd sample_gated" Trap]
  by (simp add: sample_gated_def is_paused_def asset_pair_is_bounded_def MAX_ASSET_PAIR_BYTES_def
      get_gate_enforcement_mode_def empty_gate_def)

theorem metered_quota_bound_witness:
  "metered_passes sample_secondary (Addr 5) [(sample_env 1, (Addr 7, ''XLM''), 50), (sample_env 2, (Addr 7, ''XLM''), 50)]
     sample_gated \<le> 1"
  using metered_quota_bound [of "snd sample_gated" "Addr 5" _
      "[(sample_env 1, (Addr 7, ''XLM''), 50), (sample_env 2, (Addr 7, ''XLM''), 50)]" "sample_env 1" "sample_env 2"
      sample_secondary "fst sample_gated"]
  by (simp add: sample_gated_def sample_env_def)

theorem gate_read_blocks_submission_witness:
  "\<exists>c' g' p evs. query_risk_gate sample_secondary (sample_env 1) (claim_key sample_claim) 50
       (sample_contract\<lparr>flash_protection_mode := Some Reject\<rparr>, empty_gate) = Inr ((c', g'), p, evs) \<and>
     (\<forall>signers inp x. submit_score (sample_env 1) signers sample_claim inp c' \<noteq> Inr x)"
proof -
  let ?c = "sample_contract\<lparr>flash_protection_mode := Some Reject\<rparr>"
  have bounded: "asset_pair_is_bounded (snd (claim_key sample_claim))"
    by (simp add: asset_pair_is_bounded_def MAX_ASSET_PAIR_BYTES_def claim_key_def sample_claim_def)
  then obtain c' g' p evs where read: "query_risk_gate sample_secondary (sample_env 1) (claim_key sample_claim) 50
      (?c, empty_gate) = Inr ((c', g'), p, evs)"
    by (simp add: query_risk_gate_def query_risk_gate_with_confidence_def query_risk_gate_for_consumer_def
        get_gate_enforcement_mode_def empty_gate_def is_paused_def Let_def case_prod_unfold)
  then show ?thesis
    using gate_read_blocks_submission [OF read bounded _ refl, of "sample_env 1"] by auto
qed

end
