(* ===== verification/Contagion.thy ===== *)
theory Contagion
  imports Submission
begin

text \<open>
  The counterparty graph and the propagation of scores along it (\<^verbatim>\<open>lib.rs\<close> 13441--13543,
  \<^verbatim>\<open>storage.rs\<close> 1572--1655).  Links are kept in both directions; a propagation raises the
  score of every counterparty of an anchor.
\<close>

type_synonym links = "pair_key \<Rightarrow> address list option"

definition MAX_COUNTERPARTY_LINKS_PER_WALLET :: nat where "MAX_COUNTERPARTY_LINKS_PER_WALLET = 50"

section \<open>Operations\<close>

definition get_counterparties :: "pair_key \<Rightarrow> links \<Rightarrow> address list" where
  "get_counterparties k g = unwrap_or (g k) []"

definition get_contagion_depth :: "pair_key \<Rightarrow> links \<Rightarrow> nat" where
  "get_contagion_depth k g = length (get_counterparties k g)"

text \<open>One direction of a link, as the storage adds and removes it.\<close>

definition add_direction :: "address \<Rightarrow> address \<Rightarrow> symbol \<Rightarrow> links \<Rightarrow> links res" where
  "add_direction a b p g =
     (let links_a = get_counterparties (a, p) g in
      if b \<in> set links_a then Inr g
      else if MAX_COUNTERPARTY_LINKS_PER_WALLET \<le> length links_a then Inl (Err ServiceSetFull)
      else Inr (g((a, p) \<mapsto> links_a @ [b])))"

definition remove_direction :: "address \<Rightarrow> address \<Rightarrow> symbol \<Rightarrow> links \<Rightarrow> links" where
  "remove_direction a b p g =
     (let links_a = get_counterparties (a, p) g in
      if b \<in> set links_a
      then (let rest = remove1 b links_a in g((a, p) := if rest = [] then None else Some rest))
      else g)"

definition add_counterparty_link :: "address \<Rightarrow> address \<Rightarrow> symbol \<Rightarrow> links \<Rightarrow> links op" where
  "add_counterparty_link wallet_a wallet_b asset_pair g =
     (if wallet_a = wallet_b then Inl (Err CounterpartyLinkFull)
      else
        bind_res (add_direction wallet_a wallet_b asset_pair g) (\<lambda>g1.
        bind_res (add_direction wallet_b wallet_a asset_pair g1) (\<lambda>g2.
          Inr (g2, [Event ''counterparty_link_added'' [VAddr wallet_a, VAddr wallet_b, VSym asset_pair]]))))"

definition remove_counterparty_link :: "address \<Rightarrow> address \<Rightarrow> symbol \<Rightarrow> links \<Rightarrow> links op" where
  "remove_counterparty_link wallet_a wallet_b asset_pair g =
     (let g1 = remove_direction wallet_a wallet_b asset_pair g;
          g2 = remove_direction wallet_b wallet_a asset_pair g1 in
      if wallet_b \<notin> set (get_counterparties (wallet_a, asset_pair) g)
        \<and> wallet_a \<notin> set (get_counterparties (wallet_b, asset_pair) g1)
      then Inl (Err CounterpartyLinkFull)
      else Inr (g2, [Event ''counterparty_link_removed'' [VAddr wallet_a, VAddr wallet_b, VSym asset_pair]]))"

text \<open>The record a wallet without a score starts from.\<close>

definition blank_score :: "env \<Rightarrow> RiskScore" where
  "blank_score e = \<lparr>rs_score = 0, rs_benford_flag = False, rs_ml_flag = False,
     rs_timestamp = ledger_timestamp e, rs_confidence = 0, rs_model_version = 0, rs_benford_score = 0,
     rs_ml_score = 0, rs_network_score = 0, rs_commitment = None\<rparr>"

definition boosted :: "env \<Rightarrow> u32 \<Rightarrow> RiskScore option \<Rightarrow> RiskScore" where
  "boosted e boost old =
     (let r = unwrap_or old (blank_score e) in r\<lparr>rs_score := min (saturating_add (rs_score r) boost) 100\<rparr>)"

fun contagion_loop ::
    "env \<Rightarrow> address \<Rightarrow> symbol \<Rightarrow> u32 \<Rightarrow> address list \<Rightarrow> contract \<Rightarrow> contract \<times> nat \<times> event list" where
  "contagion_loop e anchor p boost [] c = (c, 0, [])"
| "contagion_loop e anchor p boost (cw # cws) c =
     (let old = unwrap_or (scores (c_store c) (cw, p)) (blank_score e);
          updated = boosted e boost (scores (c_store c) (cw, p)) in
      if rs_score updated \<noteq> rs_score old
      then
        (let (c', affected, evs) = contagion_loop e anchor p boost cws
               (c\<lparr>c_store := set_score e (cw, p) updated (c_store c)\<rparr>) in
         (c', Suc affected,
          Event ''contagion_propagated'' [VAddr anchor, VSym p, VAddr cw, VU32 (rs_score old), VU32 (rs_score updated)]
          # evs))
      else contagion_loop e anchor p boost cws c)"

definition propagate_contagion ::
    "env \<Rightarrow> address \<Rightarrow> symbol \<Rightarrow> u32 \<Rightarrow> links \<Rightarrow> contract \<Rightarrow> contract \<times> nat \<times> event list" where
  "propagate_contagion e anchor asset_pair boost g c =
     (if is_score_hook_dispatching c then (c, 0, [])
      else contagion_loop e anchor asset_pair boost (get_counterparties (anchor, asset_pair) g) c)"

section \<open>Links stay symmetric and bounded\<close>

inductive link_step :: "links \<Rightarrow> links \<Rightarrow> bool" for g where
  add: "add_counterparty_link a b p g = Inr (g', evs) \<Longrightarrow> link_step g g'"
| remove: "remove_counterparty_link a b p g = Inr (g', evs) \<Longrightarrow> link_step g g'"

inductive link_reachable :: "links \<Rightarrow> bool" where
  start: "link_reachable (\<lambda>_. None)"
| step: "link_reachable g \<Longrightarrow> link_step g g' \<Longrightarrow> link_reachable g'"

inductive_cases link_stepE: "link_step g g'"

definition links_wf :: "links \<Rightarrow> bool" where
  "links_wf g \<longleftrightarrow>
     (\<forall>a b p. b \<in> set (get_counterparties (a, p) g) \<longleftrightarrow> a \<in> set (get_counterparties (b, p) g)) \<and>
     (\<forall>a p. a \<notin> set (get_counterparties (a, p) g)) \<and>
     (\<forall>k. distinct (get_counterparties k g) \<and> length (get_counterparties k g) \<le> MAX_COUNTERPARTY_LINKS_PER_WALLET)"

lemma counterparties_upd [simp]:
  "get_counterparties k (g(j := v)) = (if k = j then unwrap_or v [] else get_counterparties k g)"
  by (simp add: get_counterparties_def)

lemma add_direction_Inr:
  assumes "add_direction a b p g = Inr g'"
  shows "get_counterparties k g' =
    (if k = (a, p) \<and> b \<notin> set (get_counterparties k g) then get_counterparties k g @ [b] else get_counterparties k g)"
    "k = (a, p) \<and> b \<notin> set (get_counterparties k g) \<longrightarrow> length (get_counterparties k g) < MAX_COUNTERPARTY_LINKS_PER_WALLET"
  using assms by (auto simp: add_direction_def Let_def split: if_splits)

lemma remove_direction_links:
  "get_counterparties k (remove_direction a b p g) =
    (if k = (a, p) then remove1 b (get_counterparties k g) else get_counterparties k g)"
  by (auto simp: remove_direction_def Let_def remove1_idem)

lemma links_wfD:
  assumes "links_wf g"
  shows "distinct (get_counterparties k g)" "length (get_counterparties k g) \<le> MAX_COUNTERPARTY_LINKS_PER_WALLET"
  using assms unfolding links_wf_def by blast+

lemma add_link_wf:
  assumes "add_counterparty_link a b p g = Inr (g', evs)" "links_wf g"
  shows "links_wf g'"
proof -
  obtain g1 where ne: "a \<noteq> b" and g1: "add_direction a b p g = Inr g1" and g': "add_direction b a p g1 = Inr g'"
    using assms(1) by (auto simp: add_counterparty_link_def bind_res_Inr_iff split: if_splits)
  have links: "get_counterparties k g' =
      (if k = (a, p) \<and> b \<notin> set (get_counterparties k g) then get_counterparties k g @ [b]
       else if k = (b, p) \<and> a \<notin> set (get_counterparties k g) then get_counterparties k g @ [a]
       else get_counterparties k g)" for k
    using add_direction_Inr(1) [OF g1, of k] add_direction_Inr(1) [OF g', of k] ne by auto
  have "distinct (get_counterparties k g') \<and> length (get_counterparties k g') \<le> MAX_COUNTERPARTY_LINKS_PER_WALLET" for k
    using links [of k] add_direction_Inr [OF g1, of k] add_direction_Inr(2) [OF g', of k] links_wfD [OF assms(2), of k] ne
    by (cases "k = (a, p)"; cases "k = (b, p)") auto
  moreover have mem: "y \<in> set (get_counterparties (x, q) g') \<longleftrightarrow>
      y \<in> set (get_counterparties (x, q) g) \<or> q = p \<and> (x = a \<and> y = b \<or> x = b \<and> y = a)" for x y q
    using links [of "(x, q)"] ne by (cases "(x, q) = (a, p)"; cases "(x, q) = (b, p)") auto
  ultimately show ?thesis
    using assms(2) ne unfolding links_wf_def mem by blast
qed

lemma remove_link_wf:
  assumes "remove_counterparty_link a b p g = Inr (g', evs)" "links_wf g"
  shows "links_wf g'"
proof -
  have links: "get_counterparties k g' =
      (if k = (b, p) then remove1 a (if k = (a, p) then remove1 b (get_counterparties k g) else get_counterparties k g)
       else if k = (a, p) then remove1 b (get_counterparties k g) else get_counterparties k g)" for k
    using assms(1) by (auto simp: remove_counterparty_link_def Let_def remove_direction_links split: if_splits)
  have "distinct (get_counterparties k g') \<and> length (get_counterparties k g') \<le> MAX_COUNTERPARTY_LINKS_PER_WALLET" for k
    using links_wfD [OF assms(2), of k] by (auto simp: links length_remove1)
  moreover have mem: "y \<in> set (get_counterparties (x, q) g') \<longleftrightarrow>
      y \<in> set (get_counterparties (x, q) g) \<and> \<not> (q = p \<and> (x = a \<and> y = b \<or> x = b \<and> y = a))" for x y q
    using links [of "(x, q)"] links_wfD(1) [OF assms(2)]
    by (cases "(x, q) = (a, p)"; cases "(x, q) = (b, p)") auto
  ultimately show ?thesis
    using assms(2) unfolding links_wf_def mem by blast
qed

lemma link_reachable_wf: "link_reachable g \<Longrightarrow> links_wf g"
proof (induction rule: link_reachable.induct)
  case start
  show ?case
    by (simp add: links_wf_def get_counterparties_def)
next
  case (step g g')
  from step(2,3) show ?case
    by (auto elim!: link_stepE intro: add_link_wf remove_link_wf)
qed

text \<open>
  In every reachable state the counterparty graph is symmetric, has no loops and no
  repeated links, and no wallet has more than fifty links for a pair.
\<close>

theorem counterparty_graph_symmetric:
  assumes "link_reachable g"
  shows "(\<forall>a b p. b \<in> set (get_counterparties (a, p) g) \<longleftrightarrow> a \<in> set (get_counterparties (b, p) g)) \<and>
    (\<forall>a p. a \<notin> set (get_counterparties (a, p) g)) \<and>
    (\<forall>k. distinct (get_counterparties k g) \<and> get_contagion_depth k g \<le> MAX_COUNTERPARTY_LINKS_PER_WALLET)"
  using link_reachable_wf [OF assms] unfolding links_wf_def get_contagion_depth_def .

theorem counterparty_graph_symmetric_witness:
  "\<exists>g. link_reachable g \<and> get_counterparties (Addr 1, ''XLM'') g = [Addr 2] \<and>
     Addr 1 \<in> set (get_counterparties (Addr 2, ''XLM'') g)"
proof -
  let ?g = "[(Addr 1, ''XLM'') \<mapsto> [Addr 2], (Addr 2, ''XLM'') \<mapsto> [Addr 1]]"
  have "\<exists>evs. add_counterparty_link (Addr 1) (Addr 2) ''XLM'' (\<lambda>_. None) = Inr (?g, evs)"
    by (simp add: add_counterparty_link_def add_direction_def get_counterparties_def Let_def
        MAX_COUNTERPARTY_LINKS_PER_WALLET_def)
  then have reach: "link_reachable ?g"
    using link_reachable.step [OF link_reachable.start] link_step.add by blast
  then show ?thesis
    using counterparty_graph_symmetric [OF reach] by (intro exI [of _ ?g]) (simp add: get_counterparties_def)
qed

section \<open>Anyone can raise any score\<close>

lemma contagion_loop_ConsE:
  assumes "contagion_loop e anchor p boost (cw # cws) c = (c', n, evs)"
  obtains n' evs' where "contagion_loop e anchor p boost cws
    (if rs_score (boosted e boost (scores (c_store c) (cw, p))) \<noteq> rs_score (unwrap_or (scores (c_store c) (cw, p)) (blank_score e))
     then c\<lparr>c_store := set_score e (cw, p) (boosted e boost (scores (c_store c) (cw, p))) (c_store c)\<rparr> else c)
    = (c', n', evs')"
  using assms by (auto simp: Let_def case_prod_unfold prod_eq_iff split: if_splits)

lemma contagion_frame:
  "contagion_loop e anchor p boost cws c = (c', n, evs) \<Longrightarrow>
   c_portfolio c' = c_portfolio c \<and> c_history c' = c_history c"
proof (induction cws arbitrary: c n evs)
  case (Cons cw cws)
  from Cons.prems show ?case
    by (rule contagion_loop_ConsE) (auto dest!: Cons.IH split: if_splits)
qed simp

text \<open>A propagation raises exactly the scores of the counterparties, each by the boost up to 100.\<close>

lemma contagion_scores:
  assumes "distinct cws" "contagion_loop e anchor p boost cws c = (c', n, evs)"
  shows "scores (c_store c') k =
    (if snd k = p \<and> fst k \<in> set cws \<and>
       rs_score (boosted e boost (scores (c_store c) k)) \<noteq> rs_score (unwrap_or (scores (c_store c) k) (blank_score e))
     then Some (boosted e boost (scores (c_store c) k)) else scores (c_store c) k)"
  using assms
proof (induction cws arbitrary: c n evs)
  case (Cons cw cws)
  from Cons.prems(2) show ?case
  proof (rule contagion_loop_ConsE)
    let ?up = "boosted e boost (scores (c_store c) (cw, p))"
    fix n' evs'
    assume rest: "contagion_loop e anchor p boost cws
      (if rs_score ?up \<noteq> rs_score (unwrap_or (scores (c_store c) (cw, p)) (blank_score e))
       then c\<lparr>c_store := set_score e (cw, p) ?up (c_store c)\<rparr> else c) = (c', n', evs')"
    show ?thesis
      using Cons.IH [OF _ rest] Cons.prems(1) by (cases k) (auto split: if_splits)
  qed
qed simp

lemma boosted_full: "rs_score (boosted e 100 old) = 100"
proof -
  have "100 \<le> saturating_add r 100" for r :: u32
    by (simp add: word_le_nat_alt unat_saturating_add)
  then show ?thesis
    by (simp add: boosted_def Let_def min_absorb2)
qed

lemma add_link_room:
  assumes "a \<noteq> b" "get_contagion_depth (a, p) g < MAX_COUNTERPARTY_LINKS_PER_WALLET"
    "get_contagion_depth (b, p) g < MAX_COUNTERPARTY_LINKS_PER_WALLET"
  shows "\<exists>g' evs. add_counterparty_link a b p g = Inr (g', evs) \<and> b \<in> set (get_counterparties (a, p) g')"
  using assms by (auto simp: add_counterparty_link_def add_direction_def get_contagion_depth_def Let_def)

text \<open>
  The propagation of scores needs no authority.  In every state of the contract that is not
  inside a hook, initialized or not, paused or frozen, and in an environment that carries no
  authorization at all, two wallets with room for a link can be linked, and a propagation
  then sets the second one's score to 100.  If it had no score before, it now has a live
  score that its pair list does not name and that was never put into its history.
\<close>

theorem anyone_raises_a_score:
  assumes "\<not> is_score_hook_dispatching c" "a \<noteq> b" "links_wf g" "\<forall>x. \<not> authorized e x"
    "get_contagion_depth (a, p) g < MAX_COUNTERPARTY_LINKS_PER_WALLET"
    "get_contagion_depth (b, p) g < MAX_COUNTERPARTY_LINKS_PER_WALLET"
  shows "\<exists>g' evs c' n evs'. add_counterparty_link a b p g = Inr (g', evs) \<and>
    propagate_contagion e a p 100 g' c = (c', n, evs') \<and>
    map_option rs_score (scores (c_store c') (b, p)) = Some 100 \<and>
    (scores (c_store c) (b, p) = None \<and> scores_wf c \<longrightarrow> p \<notin> set (get_wallet_pairs b (c_portfolio c'))) \<and>
    get_score_history (b, p) (c_history c') = get_score_history (b, p) (c_history c)"
proof -
  obtain g' evs where g': "add_counterparty_link a b p g = Inr (g', evs)" "b \<in> set (get_counterparties (a, p) g')"
    using add_link_room [OF assms(2,5,6)] by blast
  obtain c' n evs' where propagated: "propagate_contagion e a p 100 g' c = (c', n, evs')"
    by (cases "propagate_contagion e a p 100 g' c")
  then have loop: "contagion_loop e a p 100 (get_counterparties (a, p) g') c = (c', n, evs')"
    using assms(1) by (simp add: propagate_contagion_def)
  have "distinct (get_counterparties (a, p) g')"
    using add_link_wf [OF g'(1) assms(3)] by (rule links_wfD)
  then have "map_option rs_score (scores (c_store c') (b, p)) = Some 100"
    using contagion_scores [OF _ loop, of "(b, p)"] g'(2) boosted_full [of e "scores (c_store c) (b, p)"]
    by (cases "scores (c_store c) (b, p)") (auto simp: blank_score_def)
  moreover have "c_portfolio c' = c_portfolio c" "c_history c' = c_history c"
    using contagion_frame [OF loop] by simp_all
  ultimately show ?thesis
    using g'(1) propagated by (auto simp: scores_wf_def)
qed

theorem anyone_raises_a_score_witness:
  "\<exists>g' evs c' n evs'. add_counterparty_link (Addr 1) (Addr 2) ''XLM'' (\<lambda>_. None) = Inr (g', evs) \<and>
     propagate_contagion ((sample_env 1)\<lparr>authorized := \<lambda>_. False\<rparr>) (Addr 1) ''XLM'' 100 g' empty_contract = (c', n, evs') \<and>
     map_option rs_score (scores (c_store c') (Addr 2, ''XLM'')) = Some 100"
proof -
  have "links_wf (\<lambda>_. None)"
    by (simp add: links_wf_def get_counterparties_def)
  then show ?thesis
    using anyone_raises_a_score [of empty_contract "Addr 1" "Addr 2" "\<lambda>_. None"
        "(sample_env 1)\<lparr>authorized := \<lambda>_. False\<rparr>" "''XLM''"]
    by (auto simp: is_score_hook_dispatching_def empty_contract_def get_contagion_depth_def get_counterparties_def
        MAX_COUNTERPARTY_LINKS_PER_WALLET_def)
qed

end
