(* ===== verification/Token.thy ===== *)
theory Token
  imports Ledger_Types
begin

text \<open>
  The interface of the token contracts that the score contract moves: a transfer as a parameter of the operations
  that call it, the documented behaviour it is used with, and a ledger of balances that has this
  behaviour.
\<close>

text \<open>\<^verbatim>\<open>i128\<close> values are integers; the saturating operations clamp to the range of the type.\<close>

definition i128_clamp :: "int \<Rightarrow> int" where
  "i128_clamp x = max (- (2 ^ 127)) (min (2 ^ 127 - 1) x)"

lemma i128_clamp_id [simp]: "- (2 ^ 127) \<le> n \<Longrightarrow> n < 2 ^ 127 \<Longrightarrow> i128_clamp n = n"
  by (simp add: i128_clamp_def)

type_synonym 'k token_transfer = "address \<Rightarrow> address \<Rightarrow> address \<Rightarrow> int \<Rightarrow> 'k \<Rightarrow> 'k res"

text \<open>What the contract relies on of a token: a transfer succeeds exactly when the amount is not negative and the
  sender holds it, and moves it from the sender to the receiver.\<close>

definition token_laws :: "'k token_transfer \<Rightarrow> ('k \<Rightarrow> address \<Rightarrow> address \<Rightarrow> int) \<Rightarrow> bool" where
  "token_laws transfer balance \<longleftrightarrow>
     (\<forall>token from to amount tok.
        ((\<exists>tok'. transfer token from to amount tok = Inr tok') \<longleftrightarrow> 0 \<le> amount \<and> amount \<le> balance tok token from) \<and>
        (\<forall>tok'. transfer token from to amount tok = Inr tok' \<longrightarrow>
           (\<forall>t h. balance tok' t h = balance tok t h - (if t = token \<and> h = from then amount else 0)
              + (if t = token \<and> h = to then amount else 0))))"

lemma token_moved:
  assumes "token_laws transfer balance" "transfer token from to n tok = Inr tok'"
  shows "balance tok' t h = balance tok t h - (if t = token \<and> h = from then n else 0)
    + (if t = token \<and> h = to then n else 0)"
  using assms unfolding token_laws_def by blast

text \<open>A ledger of balances that keeps the laws.\<close>

definition sample_transfer :: "(address \<Rightarrow> address \<Rightarrow> int) token_transfer" where
  "sample_transfer token src dst n bal =
     (if 0 \<le> n \<and> n \<le> bal token src
      then Inr (\<lambda>t h. bal t h - (if t = token \<and> h = src then n else 0) + (if t = token \<and> h = dst then n else 0))
      else Inl Trap)"

lemma sample_transfer_laws: "token_laws sample_transfer (\<lambda>bal. bal)"
  by (simp add: token_laws_def sample_transfer_def)

end
