(* ===== verification/Dispute.thy ===== *)
theory Dispute
  imports Submission Bounded_Index Token
begin

text \<open>
  Bonded disputes of scores and the withdrawal of fees (\<^verbatim>\<open>lib.rs\<close> 7020--7038, 8810--9064 and
  10530--10659, \<^verbatim>\<open>storage.rs\<close> 1459--1485, 2018--2096, 2275--2277 and 2533--2585).  The fee token
  is another contract: its transfer is a parameter that moves an amount of a token
  between two holders in the state of the tokens, or fails.
\<close>

abbreviation "InvalidRevealWindow \<equiv> InvalidThreshold"
abbreviation "FeeRecipientNotSet \<equiv> FeeTokenNotSet"
abbreviation "FeeRecipientMismatch \<equiv> Unauthorized"

record ScoreDispute =
  sd_challenger :: address
  sd_bond :: int
  sd_deadline :: u64
  sd_challenged_score :: u32

record dispute_state =
  fee_token :: "address option"
  fee_recipient :: "address option"
  withdrawal_lock :: "bool option"
  disputes :: "pair_key \<Rightarrow> ScoreDispute option"
  dispute_index :: "pair_key list"
  dispute_commit :: "address \<times> pair_key \<Rightarrow> bytes option"
  dispute_commit_time :: "address \<times> pair_key \<Rightarrow> u64 option"
  reveal_window_secs :: "u64 option"

definition MAX_DISPUTE_BOND_PREIMAGE_BYTES :: nat where "MAX_DISPUTE_BOND_PREIMAGE_BYTES = 80"
definition MAX_DISPUTE_BOND_SALT_BYTES :: nat where "MAX_DISPUTE_BOND_SALT_BYTES = 64"
definition DISPUTE_CHALLENGE_PERIOD_SECS :: u64 where "DISPUTE_CHALLENGE_PERIOD_SECS = 604800"
definition DISPUTE_BONUS_PCT :: int where "DISPUTE_BONUS_PCT = 10"
definition MAX_OPEN_DISPUTES :: nat where "MAX_OPEN_DISPUTES = 100"
definition MAX_DISPUTES_PER_ACTOR :: nat where "MAX_DISPUTES_PER_ACTOR = 5"
definition MAX_REVEAL_WINDOW_SECS :: u64 where "MAX_REVEAL_WINDOW_SECS = 604800"

definition empty_disputes :: dispute_state where
  "empty_disputes = \<lparr>fee_token = None, fee_recipient = None, withdrawal_lock = None,
     disputes = (\<lambda>_. None), dispute_index = [], dispute_commit = (\<lambda>_. None),
     dispute_commit_time = (\<lambda>_. None), reveal_window_secs = None\<rparr>"

section \<open>Settings\<close>

definition get_reveal_window_secs :: "dispute_state \<Rightarrow> u64" where
  "get_reveal_window_secs d = unwrap_or (reveal_window_secs d) 3600"

definition set_reveal_window :: "env \<Rightarrow> auth_state \<Rightarrow> u64 \<Rightarrow> dispute_state \<Rightarrow> dispute_state op" where
  "set_reveal_window e a secs d =
     (if \<not> has_admin a then Inl (Err NotInitialized)
      else if MAX_REVEAL_WINDOW_SECS < secs then Inl (Err InvalidRevealWindow)
      else stored_admin_guard e a (Inr (d\<lparr>reveal_window_secs := Some secs\<rparr>, [])))"

definition set_fee_token :: "env \<Rightarrow> auth_state \<Rightarrow> address \<Rightarrow> dispute_state \<Rightarrow> dispute_state op" where
  "set_fee_token e a token d =
     stored_admin_guard e a (Inr (d\<lparr>fee_token := Some token\<rparr>, [Event ''fee_token_set'' [VAddr token]]))"

definition set_fee_recipient ::
    "env \<Rightarrow> auth_state \<Rightarrow> address list \<Rightarrow> address \<Rightarrow> dispute_state \<Rightarrow> dispute_state op" where
  "set_fee_recipient e a signers recipient d =
     admin_guard e signers a
       (Inr (d\<lparr>fee_recipient := Some recipient\<rparr>, [Event ''fee_recipient_set'' [VAddr recipient]]))"

section \<open>The index of open disputes\<close>

definition add_to_dispute_index :: "pair_key \<Rightarrow> dispute_state \<Rightarrow> bool \<times> dispute_state" where
  "add_to_dispute_index k d =
     (if k \<in> set (dispute_index d) then (True, d)
      else if MAX_OPEN_DISPUTES \<le> length (dispute_index d) then (False, d)
      else (True, d\<lparr>dispute_index := dispute_index d @ [k]\<rparr>))"

definition remove_from_dispute_index :: "pair_key \<Rightarrow> dispute_state \<Rightarrow> dispute_state" where
  "remove_from_dispute_index k d =
     (if k \<in> set (dispute_index d) then d\<lparr>dispute_index := remove1 k (dispute_index d)\<rparr> else d)"

interpretation disputes: bounded_index dispute_index add_to_dispute_index remove_from_dispute_index MAX_OPEN_DISPUTES
  by standard (auto simp: add_to_dispute_index_def remove_from_dispute_index_def remove1_idem)

definition get_open_disputes :: "dispute_state \<Rightarrow> (address \<times> symbol \<times> u64) list" where
  "get_open_disputes d =
     List.map_filter (\<lambda>k. map_option (\<lambda>x. (fst k, snd k, sd_deadline x)) (disputes d k)) (dispute_index d)"

fun actor_disputes :: "address \<Rightarrow> dispute_state \<Rightarrow> pair_key list \<Rightarrow> nat" where
  "actor_disputes challenger d [] = 0"
| "actor_disputes challenger d (k # index) =
     (case disputes d k of
        Some x \<Rightarrow> (if sd_challenger x = challenger then Suc (actor_disputes challenger d index)
                  else actor_disputes challenger d index)
      | None \<Rightarrow> actor_disputes challenger d index)"

section \<open>Opening and settling\<close>

definition remove_dispute_commit :: "address \<times> pair_key \<Rightarrow> dispute_state \<Rightarrow> dispute_state" where
  "remove_dispute_commit j d =
     d\<lparr>dispute_commit := (dispute_commit d)(j := None), dispute_commit_time := (dispute_commit_time d)(j := None)\<rparr>"

definition remove_dispute :: "pair_key \<Rightarrow> dispute_state \<Rightarrow> dispute_state" where
  "remove_dispute k d = d\<lparr>disputes := (disputes d)(k := None)\<rparr>"

definition commit_dispute_bond ::
    "env \<Rightarrow> auth_state \<Rightarrow> address \<Rightarrow> pair_key \<Rightarrow> bytes \<Rightarrow> dispute_state \<Rightarrow> dispute_state op" where
  "commit_dispute_bond e a challenger k bond_amount_salt d =
     (if \<not> has_admin a then Inl (Err NotInitialized)
      else
        bind_res (ensure_asset_pair_bounded (snd k)) (\<lambda>_.
        if MAX_DISPUTE_BOND_PREIMAGE_BYTES < length bond_amount_salt then Inl (Err InvalidAttestation)
        else
          bind_res (require_auth e challenger) (\<lambda>_.
            Inr (d\<lparr>dispute_commit := (dispute_commit d)((challenger, k) \<mapsto> sha256 e bond_amount_salt),
                   dispute_commit_time := (dispute_commit_time d)((challenger, k) \<mapsto> ledger_timestamp e)\<rparr>, []))))"

text \<open>The checks of the sealed bond: a commitment of the challenger, in time, that the bond and the
  salt open.\<close>

definition check_dispute_reveal ::
    "env \<Rightarrow> address \<Rightarrow> pair_key \<Rightarrow> int \<Rightarrow> bytes \<Rightarrow> dispute_state \<Rightarrow> unit res" where
  "check_dispute_reveal e challenger k bond bond_salt d =
     (case dispute_commit d (challenger, k) of
        None \<Rightarrow> Inl (Err RevealWindowExpired)
      | Some commitment \<Rightarrow>
          if saturating_add (unwrap_or (dispute_commit_time d (challenger, k)) 0) (get_reveal_window_secs d)
               < ledger_timestamp e
          then Inl (Err RevealWindowExpired)
          else if sha256 e (le_bytes 16 (word_of_int bond :: 128 word) @ bond_salt) \<noteq> commitment
          then Inl (Err CommitmentMismatch)
          else Inr ())"

definition open_score_dispute ::
    "'k token_transfer \<Rightarrow> env \<Rightarrow> address \<Rightarrow> pair_key \<Rightarrow> int \<Rightarrow> bytes \<Rightarrow> contract \<Rightarrow> dispute_state \<times> 'k \<Rightarrow>
     (dispute_state \<times> 'k) op" where
  "open_score_dispute transfer e challenger k bond bond_salt c s =
     (case s of (d, tok) \<Rightarrow>
      bind_res (ensure_active c) (\<lambda>_.
      bind_res (ensure_asset_pair_bounded (snd k)) (\<lambda>_.
      if MAX_DISPUTE_BOND_SALT_BYTES < length bond_salt then Inl (Err InvalidAttestation)
      else if bond \<le> 0 then Inl (Err InvalidDisputeBond)
      else case fee_token d of
        None \<Rightarrow> Inl (Err FeeTokenNotSet)
      | Some token \<Rightarrow>
          bind_res (require_auth e challenger) (\<lambda>_.
          bind_res (check_dispute_reveal e challenger k bond bond_salt d) (\<lambda>_.
          (let d1 = remove_dispute_commit (challenger, k) d in
           if disputes d1 k \<noteq> None then Inl (Err DisputeAlreadyOpen)
           else if MAX_DISPUTES_PER_ACTOR \<le> actor_disputes challenger d1 (dispute_index d1)
           then Inl (Err ActorDisputeLimitExceeded)
           else
             (let (added, d2) = add_to_dispute_index k d1 in
              if \<not> added then Inl (Err DisputeAlreadyOpen)
              else
                bind_res (transfer token challenger (current_contract e) bond tok) (\<lambda>tok'.
                (let deadline = saturating_add (ledger_timestamp e) DISPUTE_CHALLENGE_PERIOD_SECS;
                     challenged = unwrap_or (map_option rs_score (scores (c_store c) k)) 0;
                     dispute = \<lparr>sd_challenger = challenger, sd_bond = bond, sd_deadline = deadline,
                       sd_challenged_score = challenged\<rparr> in
                 Inr ((d2\<lparr>disputes := (disputes d2)(k \<mapsto> dispute)\<rparr>, tok'),
                      [Event ''dispute_opened'' [VAddr (fst k), VSym (snd k), VInt bond, VU64 deadline]]))))))))))"

definition close_dispute :: "pair_key \<Rightarrow> dispute_state \<Rightarrow> dispute_state" where
  "close_dispute k d = remove_from_dispute_index k (remove_dispute k d)"

text \<open>The score that an admin writes in place of a disputed one.\<close>

definition corrected_score :: "env \<Rightarrow> u32 \<Rightarrow> RiskScore" where
  "corrected_score e score = \<lparr>rs_score = score, rs_benford_flag = False, rs_ml_flag = False,
     rs_timestamp = ledger_timestamp e, rs_confidence = 100, rs_model_version = 0, rs_benford_score = 0,
     rs_ml_score = 0, rs_network_score = 0, rs_commitment = None\<rparr>"

definition write_correction :: "env \<Rightarrow> pair_key \<times> RiskScore \<Rightarrow> contract \<Rightarrow> contract op" where
  "write_correction e x c =
     (case x of (k, rs) \<Rightarrow>
      bind_res (increment_score_count k (c_stats c)) (\<lambda>t1.
      bind_res (increment_pair_score_count (snd k) t1) (\<lambda>t2.
        (let store = set_score e k rs (c_store c);
             f = register_pair_for_wallet k (c_portfolio c) in
         Inr (c\<lparr>c_store := store, c_history := push_score_history k rs (c_history c), c_stats := t2,
                c_portfolio := refresh_aggregate_cache e store (fst k) f\<rparr>,
              [score_submitted k rs])))))"

definition resolve_dispute_admin ::
    "'k token_transfer \<Rightarrow> env \<Rightarrow> address list \<Rightarrow> pair_key \<Rightarrow> u32 \<Rightarrow> contract \<times> dispute_state \<times> 'k \<Rightarrow>
     (contract \<times> dispute_state \<times> 'k) op" where
  "resolve_dispute_admin transfer e signers k corrected s =
     (case s of (c, d, tok) \<Rightarrow>
      if is_score_hook_dispatching c then Inl (HookErr ScoreHookDispatchInProgress)
      else if \<not> has_admin (c_auth c) then Inl (Err NotInitialized)
      else if is_paused c then Inl (Err ContractPaused)
      else
        bind_res (require_admin_auth e signers (c_auth c)) (\<lambda>_.
        if 100 < corrected then Inl (Err InvalidScore)
        else case disputes d k of
          None \<Rightarrow> Inl (Err DisputeNotFound)
        | Some dispute \<Rightarrow>
            (case fee_token d of
               None \<Rightarrow> Inl (Err FeeTokenNotSet)
             | Some token \<Rightarrow>
                 bind_res (write_correction e (k, corrected_score e corrected) c) (\<lambda>(c', evs).
                 bind_res (transfer token (current_contract e) (sd_challenger dispute) (sd_bond dispute) tok) (\<lambda>tok'.
                   Inr ((c', close_dispute k d, tok'),
                        evs @ [Event ''dispute_resolved'' [VAddr (sd_challenger dispute), VSym (snd k),
                          VU32 corrected, VInt (sd_bond dispute)]]))))))"

definition timeout_bonus :: "ScoreDispute \<Rightarrow> int" where
  "timeout_bonus dispute = i128_clamp (sd_bond dispute * DISPUTE_BONUS_PCT) div 100"

definition resolve_dispute_timeout ::
    "'k token_transfer \<Rightarrow> env \<Rightarrow> auth_state \<Rightarrow> pair_key \<Rightarrow> dispute_state \<times> 'k \<Rightarrow> (dispute_state \<times> 'k) op" where
  "resolve_dispute_timeout transfer e a k s =
     (case s of (d, tok) \<Rightarrow>
      if \<not> has_admin a then Inl (Err NotInitialized)
      else case disputes d k of
        None \<Rightarrow> Inl (Err DisputeNotFound)
      | Some dispute \<Rightarrow>
          if ledger_timestamp e \<le> sd_deadline dispute then Inl (Err DisputeNotYetTimedOut)
          else case fee_token d of
            None \<Rightarrow> Inl (Err FeeTokenNotSet)
          | Some token \<Rightarrow>
              (let bonus = timeout_bonus dispute;
                   payout = i128_clamp (sd_bond dispute + bonus) in
               bind_res (transfer token (current_contract e) (sd_challenger dispute) payout tok) (\<lambda>tok'.
                 Inr ((close_dispute k d, tok'),
                      [Event ''dispute_timed_out'' [VAddr (sd_challenger dispute), VSym (snd k),
                         VInt (sd_bond dispute), VInt bonus]]))))"

definition withdraw_fees ::
    "'k token_transfer \<Rightarrow> env \<Rightarrow> address list \<Rightarrow> address \<Rightarrow> int \<Rightarrow> contract \<Rightarrow> dispute_state \<times> 'k \<Rightarrow>
     (dispute_state \<times> 'k) op" where
  "withdraw_fees transfer e signers recipient amount c s =
     (case s of (d, tok) \<Rightarrow>
      if \<not> has_admin (c_auth c) then Inl (Err NotInitialized)
      else if is_paused c then Inl (Err ContractPaused)
      else
        bind_res (require_admin_auth e signers (c_auth c)) (\<lambda>_.
        bind_res (get_admin (c_auth c)) (\<lambda>adm.
        if amount = 0 then Inl (Err InvalidScore)
        else case fee_token d of
          None \<Rightarrow> Inl (Err FeeTokenNotSet)
        | Some token \<Rightarrow>
            (case fee_recipient d of
               None \<Rightarrow> Inl (Err FeeRecipientNotSet)
             | Some registered \<Rightarrow>
                 if recipient \<noteq> registered then Inl (Err FeeRecipientMismatch)
                 else
                   bind_res (require_auth e recipient) (\<lambda>_.
                   if unwrap_or (withdrawal_lock d) False then Inl (Err ContractPaused)
                   else
                     bind_res (transfer token (current_contract e) recipient amount tok) (\<lambda>tok'.
                       Inr ((d\<lparr>withdrawal_lock := None\<rparr>, tok'),
                            [Event ''fee_withdrawn'' [VAddr adm, VAddr recipient, VAddr token, VInt amount]])))))))"

section \<open>The index lists the open disputes\<close>

inductive dispute_step :: "'k token_transfer \<Rightarrow> dispute_state \<times> 'k \<Rightarrow> dispute_state \<times> 'k \<Rightarrow> bool"
  for transfer s where
  window: "set_reveal_window e a secs (fst s) = Inr (d', evs) \<Longrightarrow> dispute_step transfer s (d', snd s)"
| token: "set_fee_token e a token (fst s) = Inr (d', evs) \<Longrightarrow> dispute_step transfer s (d', snd s)"
| recipient: "set_fee_recipient e a signers r (fst s) = Inr (d', evs) \<Longrightarrow> dispute_step transfer s (d', snd s)"
| commit: "commit_dispute_bond e a challenger k bs (fst s) = Inr (d', evs) \<Longrightarrow> dispute_step transfer s (d', snd s)"
| opened: "open_score_dispute transfer e challenger k bond salt c s = Inr (s', evs) \<Longrightarrow> dispute_step transfer s s'"
| resolved: "resolve_dispute_admin transfer e signers k corrected (c, s) = Inr ((c', s'), evs) \<Longrightarrow>
    dispute_step transfer s s'"
| timed_out: "resolve_dispute_timeout transfer e a k s = Inr (s', evs) \<Longrightarrow> dispute_step transfer s s'"
| withdrawn: "withdraw_fees transfer e signers r amount c s = Inr (s', evs) \<Longrightarrow> dispute_step transfer s s'"

inductive dispute_reachable :: "'k token_transfer \<Rightarrow> dispute_state \<times> 'k \<Rightarrow> bool" for transfer where
  start: "dispute_reachable transfer (empty_disputes, tok)"
| step: "dispute_reachable transfer s \<Longrightarrow> dispute_step transfer s s' \<Longrightarrow> dispute_reachable transfer s'"
| tokens: "dispute_reachable transfer (d, tok) \<Longrightarrow> dispute_reachable transfer (d, tok')"

definition disputes_wf :: "dispute_state \<Rightarrow> bool" where
  "disputes_wf d \<longleftrightarrow>
     distinct (dispute_index d) \<and> length (dispute_index d) \<le> MAX_OPEN_DISPUTES \<and>
     set (dispute_index d) = dom (disputes d) \<and>
     (\<forall>k x. disputes d k = Some x \<longrightarrow> 0 < sd_bond x) \<and>
     (\<forall>a. actor_disputes a d (dispute_index d) \<le> MAX_DISPUTES_PER_ACTOR)"

lemma actor_disputes_cong:
  "(\<And>k. k \<in> set ix \<Longrightarrow> disputes d k = disputes d' k) \<Longrightarrow> actor_disputes a d ix = actor_disputes a d' ix"
  by (induction ix) (auto split: option.splits)

lemma actor_disputes_append:
  "actor_disputes a d (xs @ ys) = actor_disputes a d xs + actor_disputes a d ys"
  by (induction xs) (auto split: option.splits)

lemma actor_disputes_remove1: "actor_disputes a d (remove1 k ix) \<le> actor_disputes a d ix"
  by (induction ix) (auto split: option.splits)

lemma remove_dispute_commit_frame [simp]:
  "disputes (remove_dispute_commit j d) = disputes d" "dispute_index (remove_dispute_commit j d) = dispute_index d"
  by (simp_all add: remove_dispute_commit_def)

lemma disputes_wf_cong:
  "disputes d' = disputes d \<Longrightarrow> dispute_index d' = dispute_index d \<Longrightarrow> disputes_wf d \<Longrightarrow> disputes_wf d'"
  using actor_disputes_cong [of "dispute_index d" d' d] by (simp add: disputes_wf_def)

text \<open>What a successful opening did.\<close>

lemma open_dispute_Inr:
  assumes "open_score_dispute transfer e challenger k bond salt c (d, tok) = Inr ((d', tok'), evs)"
  obtains token x where "fee_token d = Some token" "0 < bond" "authorized e challenger"
    "check_dispute_reveal e challenger k bond salt d = Inr ()" "disputes d k = None"
    "actor_disputes challenger d (dispute_index d) < MAX_DISPUTES_PER_ACTOR"
    "fst (add_to_dispute_index k d)" "dispute_index d' = dispute_index (snd (add_to_dispute_index k d))"
    "disputes d' = (disputes d)(k \<mapsto> x)" "sd_challenger x = challenger" "sd_bond x = bond"
    "sd_deadline x = saturating_add (ledger_timestamp e) DISPUTE_CHALLENGE_PERIOD_SECS" "fee_token d' = fee_token d"
    "transfer token challenger (current_contract e) bond tok = Inr tok'"
proof -
  have frame: "actor_disputes a (remove_dispute_commit j d) ix = actor_disputes a d ix" for a j ix
    by (rule actor_disputes_cong) (simp add: remove_dispute_commit_def)
  have index: "fst (add_to_dispute_index k (remove_dispute_commit j d)) = fst (add_to_dispute_index k d)"
    "dispute_index (snd (add_to_dispute_index k (remove_dispute_commit j d))) = dispute_index (snd (add_to_dispute_index k d))"
    "disputes (snd (add_to_dispute_index k (remove_dispute_commit j d))) = disputes d"
    "fee_token (snd (add_to_dispute_index k (remove_dispute_commit j d))) = fee_token d" for j
    by (simp_all add: add_to_dispute_index_def remove_dispute_commit_def)
  show thesis
    using assms that
    by (auto simp: open_score_dispute_def bind_res_Inr_iff Let_def case_prod_unfold frame index not_le
        split: if_splits option.splits)
qed

lemma open_index:
  assumes "disputes_wf d" "disputes d k = None" "fst (add_to_dispute_index k d)"
  shows "dispute_index (snd (add_to_dispute_index k d)) = dispute_index d @ [k]" "k \<notin> set (dispute_index d)"
    "length (dispute_index d) < MAX_OPEN_DISPUTES"
proof -
  show k: "k \<notin> set (dispute_index d)"
    using assms(1,2) by (auto simp: disputes_wf_def)
  then show "length (dispute_index d) < MAX_OPEN_DISPUTES"
    using assms(3) disputes.add_reports by blast
  with k show "dispute_index (snd (add_to_dispute_index k d)) = dispute_index d @ [k]"
    by (simp add: disputes.add_appends)
qed

lemma open_dispute_wf:
  assumes "open_score_dispute transfer e challenger k bond salt c (d, tok) = Inr ((d', tok'), evs)" "disputes_wf d"
  shows "disputes_wf d'"
  using assms(1)
proof (rule open_dispute_Inr)
  fix token x
  assume x: "disputes d' = (disputes d)(k \<mapsto> x)" "sd_challenger x = challenger" "sd_bond x = bond" "0 < bond"
    and new: "disputes d k = None" "fst (add_to_dispute_index k d)"
    and index: "dispute_index d' = dispute_index (snd (add_to_dispute_index k d))"
    and few: "actor_disputes challenger d (dispute_index d) < MAX_DISPUTES_PER_ACTOR"
  note ix = open_index [OF assms(2) new]
  have "actor_disputes a d' (dispute_index d) = actor_disputes a d (dispute_index d)" for a
    using ix(2) by (intro actor_disputes_cong) (auto simp: x(1))
  then have "actor_disputes a d' (dispute_index d') =
      actor_disputes a d (dispute_index d) + (if a = challenger then 1 else 0)" for a
    by (simp add: index ix(1) actor_disputes_append x)
  then show ?thesis
    using assms(2) ix few x by (auto simp: disputes_wf_def index)
qed

lemma close_dispute_index: "dispute_index (close_dispute k d) = remove1 k (dispute_index d)"
  by (simp add: close_dispute_def disputes.remove_first) (simp add: remove_dispute_def)

lemma close_dispute_disputes [simp]: "disputes (close_dispute k d) = (disputes d)(k := None)"
  by (simp add: close_dispute_def remove_from_dispute_index_def remove_dispute_def)

lemma close_dispute_wf:
  assumes "disputes_wf d"
  shows "disputes_wf (close_dispute k d)"
proof -
  have dist: "distinct (dispute_index d)"
    using assms by (simp add: disputes_wf_def)
  have "actor_disputes a (close_dispute k d) (remove1 k (dispute_index d)) = actor_disputes a d (remove1 k (dispute_index d))" for a
    using dist by (intro actor_disputes_cong) auto
  then have "actor_disputes a (close_dispute k d) (dispute_index (close_dispute k d)) \<le> actor_disputes a d (dispute_index d)" for a
    using actor_disputes_remove1 by (simp add: close_dispute_index)
  then show ?thesis
    using assms dist order_trans by (fastforce simp: disputes_wf_def close_dispute_index length_remove1 split: if_splits)
qed

lemma resolve_admin_Inr:
  assumes "resolve_dispute_admin transfer e signers k corrected (c, d, tok) = Inr ((c', d', tok'), evs)"
  obtains x token evs' where "disputes d k = Some x" "fee_token d = Some token" "corrected \<le> 100"
    "d' = close_dispute k d" "transfer token (current_contract e) (sd_challenger x) (sd_bond x) tok = Inr tok'"
    "write_correction e (k, corrected_score e corrected) c = Inr (c', evs')"
  using assms by (auto simp: resolve_dispute_admin_def bind_res_Inr_iff case_prod_unfold linorder_not_less
      split: if_splits option.splits)

lemma timeout_Inr:
  assumes "resolve_dispute_timeout transfer e a k (d, tok) = Inr ((d', tok'), evs)"
  obtains x token where "disputes d k = Some x" "fee_token d = Some token" "sd_deadline x < ledger_timestamp e"
    "d' = close_dispute k d"
    "transfer token (current_contract e) (sd_challenger x) (i128_clamp (sd_bond x + timeout_bonus x)) tok = Inr tok'"
  using assms by (auto simp: resolve_dispute_timeout_def bind_res_Inr_iff Let_def linorder_not_le
      split: if_splits option.splits)

lemma withdraw_Inr:
  assumes "withdraw_fees transfer e signers r amount c (d, tok) = Inr ((d', tok'), evs)"
  obtains token where "fee_token d = Some token" "fee_recipient d = Some r" "disputes d' = disputes d"
    "dispute_index d' = dispute_index d" "transfer token (current_contract e) r amount tok = Inr tok'"
  using assms by (auto simp: withdraw_fees_def bind_res_Inr_iff split: if_splits option.splits)

lemma settings_frame:
  "set_reveal_window e a secs d = Inr (d', evs) \<Longrightarrow> disputes d' = disputes d \<and> dispute_index d' = dispute_index d"
  "set_fee_token e a token d = Inr (d', evs) \<Longrightarrow> disputes d' = disputes d \<and> dispute_index d' = dispute_index d"
  "set_fee_recipient e a signers r d = Inr (d', evs) \<Longrightarrow> disputes d' = disputes d \<and> dispute_index d' = dispute_index d"
  "commit_dispute_bond e a challenger k bs d = Inr (d', evs) \<Longrightarrow> disputes d' = disputes d \<and> dispute_index d' = dispute_index d"
  by (auto simp: set_reveal_window_def set_fee_token_def set_fee_recipient_def commit_dispute_bond_def
      admin_guard_def stored_admin_guard_def bind_res_Inr_iff split: if_splits)

lemma dispute_step_wf:
  assumes "dispute_step transfer s s'" "disputes_wf (fst s)"
  shows "disputes_wf (fst s')"
  using assms
proof (cases rule: dispute_step.cases)
  case (opened e challenger k bond salt c evs)
  then show ?thesis
    using assms(2) by (cases s; cases s') (auto intro: open_dispute_wf)
next
  case (resolved e signers k corrected c c' evs)
  then show ?thesis
    using assms(2) by (cases s; cases s') (auto elim!: resolve_admin_Inr intro: close_dispute_wf)
next
  case (timed_out e a k evs)
  then show ?thesis
    using assms(2) by (cases s; cases s') (auto elim!: timeout_Inr intro: close_dispute_wf)
next
  case (withdrawn e signers r amount c evs)
  then show ?thesis
    using assms(2) by (cases s; cases s') (auto elim!: withdraw_Inr intro: disputes_wf_cong)
qed (auto dest!: settings_frame intro: disputes_wf_cong)

lemma dispute_reachable_wf: "dispute_reachable transfer s \<Longrightarrow> disputes_wf (fst s)"
proof (induction rule: dispute_reachable.induct)
  case (start tok)
  show ?case
    by (simp add: disputes_wf_def empty_disputes_def)
qed (auto dest: dispute_step_wf)

lemma card_actor_disputes:
  "distinct ix \<Longrightarrow> card {k \<in> set ix. \<exists>x. disputes d k = Some x \<and> sd_challenger x = a} = actor_disputes a d ix"
proof (induction ix)
  case (Cons k ix)
  have "{j \<in> set (k # ix). \<exists>x. disputes d j = Some x \<and> sd_challenger x = a} =
      (if \<exists>x. disputes d k = Some x \<and> sd_challenger x = a then insert k else id)
        {j \<in> set ix. \<exists>x. disputes d j = Some x \<and> sd_challenger x = a}"
    by auto
  then show ?case
    using Cons by (auto split: option.splits)
qed simp

lemma length_map_filter: "\<forall>k \<in> set ix. f k \<noteq> None \<Longrightarrow> length (List.map_filter f ix) = length ix"
  by (induction ix) (auto simp: List.map_filter_simps)


section \<open>Who pays the bonus\<close>

definition bond_of :: "dispute_state \<Rightarrow> pair_key \<Rightarrow> int" where
  "bond_of d k = (case disputes d k of Some x \<Rightarrow> sd_bond x | None \<Rightarrow> 0)"

definition total_bonds :: "dispute_state \<Rightarrow> int" where
  "total_bonds d = sum_list (map (bond_of d) (dispute_index d))"

lemma total_bonds_cong:
  "disputes d' = disputes d \<Longrightarrow> dispute_index d' = dispute_index d \<Longrightarrow> total_bonds d' = total_bonds d"
  by (simp add: total_bonds_def bond_of_def [abs_def])

lemma total_bonds_open:
  assumes "open_score_dispute transfer e challenger k bond salt c (d, tok) = Inr ((d', tok'), evs)" "disputes_wf d"
  shows "total_bonds d' = total_bonds d + bond"
  using assms(1)
proof (rule open_dispute_Inr)
  fix token x
  assume x: "disputes d' = (disputes d)(k \<mapsto> x)" "sd_bond x = bond"
    and new: "disputes d k = None" "fst (add_to_dispute_index k d)"
    and index: "dispute_index d' = dispute_index (snd (add_to_dispute_index k d))"
  note ix = open_index [OF assms(2) new]
  have "sum_list (map (bond_of d') (dispute_index d)) = sum_list (map (bond_of d) (dispute_index d))"
    using ix(2) by (intro arg_cong [where f = sum_list] map_cong) (auto simp: bond_of_def x(1))
  moreover have "bond_of d' k = bond"
    by (simp add: bond_of_def x)
  ultimately show ?thesis
    by (simp add: total_bonds_def index ix(1))
qed

lemma total_bonds_close:
  assumes "disputes_wf d" "disputes d k = Some x"
  shows "total_bonds (close_dispute k d) = total_bonds d - sd_bond x"
proof -
  have k: "k \<in> set (dispute_index d)" "distinct (dispute_index d)"
    using assms by (auto simp: disputes_wf_def)
  have "sum_list (map (bond_of (close_dispute k d)) (remove1 k (dispute_index d))) =
      sum_list (map (bond_of d) (remove1 k (dispute_index d)))"
    using k(2) by (intro arg_cong [where f = sum_list] map_cong) (auto simp: bond_of_def)
  moreover have "sum_list (map (bond_of d) (dispute_index d)) = bond_of d k + sum_list (map (bond_of d) (remove1 k (dispute_index d)))"
    using sum_list_map_remove1 [OF k(1), of "bond_of d"] .
  ultimately show ?thesis
    by (simp add: total_bonds_def close_dispute_index bond_of_def assms(2))
qed

text \<open>What the contract holds of the fee token beyond the bonds it owes.\<close>

definition surplus :: "('k \<Rightarrow> address \<Rightarrow> address \<Rightarrow> int) \<Rightarrow> env \<Rightarrow> address \<Rightarrow> dispute_state \<times> 'k \<Rightarrow> int" where
  "surplus balance e token s = balance (snd s) token (current_contract e) - total_bonds (fst s)"

lemma payout_value:
  assumes "0 < sd_bond x" "sd_bond x < 2 ^ 100"
  shows "i128_clamp (sd_bond x + timeout_bonus x) = sd_bond x + sd_bond x div 10"
proof -
  have "timeout_bonus x = sd_bond x div 10"
    using assms by (simp add: timeout_bonus_def i128_clamp_def DISPUTE_BONUS_PCT_def)
  then show ?thesis
    using assms by (simp add: i128_clamp_def)
qed

lemma surplus_moved:
  assumes "token_laws transfer balance" "transfer token src dst n tok = Inr tok'"
  shows "surplus balance e token (d', tok') = surplus balance e token (d, tok) - (total_bonds d' - total_bonds d)
    - (if src = current_contract e then n else 0) + (if dst = current_contract e then n else 0)"
  using token_moved [OF assms, of token "current_contract e"] by (auto simp: surplus_def)

lemma surplus_open:
  assumes "token_laws transfer balance" "disputes_wf d" "fee_token d = Some token" "challenger \<noteq> current_contract e"
    and ok: "open_score_dispute transfer e challenger j bond salt c (d, tok) = Inr ((d', tok'), evs)"
  shows "surplus balance e token (d', tok') = surplus balance e token (d, tok)"
proof -
  from ok have "transfer token challenger (current_contract e) bond tok = Inr tok'"
    by (rule open_dispute_Inr) (simp add: assms(3))
  from surplus_moved [OF assms(1) this, of e d' d] show ?thesis
    using total_bonds_open [OF ok assms(2)] assms(4) by simp
qed

lemma surplus_pay:
  assumes "token_laws transfer balance" "disputes_wf d" "disputes d k = Some x" "sd_challenger x \<noteq> current_contract e"
    "transfer token (current_contract e) (sd_challenger x) n tok = Inr tok'"
  shows "surplus balance e token (close_dispute k d, tok') = surplus balance e token (d, tok) + sd_bond x - n"
  using surplus_moved [OF assms(1) assms(5), of e "close_dispute k d" d] total_bonds_close [OF assms(2,3)] assms(4)
  by simp

lemma surplus_withdraw:
  assumes "token_laws transfer balance" "fee_token d = Some token" "r \<noteq> current_contract e"
    and ok: "withdraw_fees transfer e signers r amount c (d, tok) = Inr ((d', tok'), evs)"
  shows "surplus balance e token (d', tok') = surplus balance e token (d, tok) - amount"
proof -
  from ok have "disputes d' = disputes d" "dispute_index d' = dispute_index d"
    and paid: "transfer token (current_contract e) r amount tok = Inr tok'"
    by (auto elim!: withdraw_Inr simp: assms(2))
  then show ?thesis
    using surplus_moved [OF assms(1) paid, of e d' d] total_bonds_cong [of d' d] assms(3) by simp
qed

text \<open>
  The bonds of open disputes are not kept apart.  With the documented behaviour of the fee token,
  opening a dispute and its resolution by the admins leave what the contract holds beyond
  the open bonds unchanged, but a settlement after the deadline lowers it by the bonus and a
  withdrawal by the whole amount, with no check that it is there: from a contract that
  holds exactly the open bonds, a timeout settlement with a bond of at least ten leaves
  less than the remaining challengers are owed.
\<close>

theorem timeout_bonus_from_other_bonds:
  assumes "token_laws transfer balance" "disputes_wf d" "fee_token d = Some token"
    and foreign: "challenger \<noteq> current_contract e" "r \<noteq> current_contract e"
      "\<forall>x. disputes d k = Some x \<longrightarrow> sd_challenger x \<noteq> current_contract e \<and> sd_bond x < 2 ^ 100"
  shows "(\<forall>s' evs. open_score_dispute transfer e challenger j bond salt c (d, tok) = Inr (s', evs) \<longrightarrow>
      surplus balance e token s' = surplus balance e token (d, tok)) \<and>
    (\<forall>c' s' evs. resolve_dispute_admin transfer e signers k corrected (c, d, tok) = Inr ((c', s'), evs) \<longrightarrow>
      surplus balance e token s' = surplus balance e token (d, tok)) \<and>
    (\<forall>s' evs. withdraw_fees transfer e signers r amount c (d, tok) = Inr (s', evs) \<longrightarrow>
      surplus balance e token s' = surplus balance e token (d, tok) - amount) \<and>
    (\<forall>s' evs. resolve_dispute_timeout transfer e a k (d, tok) = Inr (s', evs) \<longrightarrow>
      (\<exists>x. disputes d k = Some x \<and>
         surplus balance e token s' = surplus balance e token (d, tok) - sd_bond x div 10 \<and>
         (surplus balance e token (d, tok) = 0 \<and> 10 \<le> sd_bond x \<longrightarrow> surplus balance e token s' < 0)))"
proof (intro conjI allI impI)
  fix s' evs
  assume "open_score_dispute transfer e challenger j bond salt c (d, tok) = Inr (s', evs)"
  then show "surplus balance e token s' = surplus balance e token (d, tok)"
    using surplus_open [OF assms(1,2,3) foreign(1)] by (cases s') blast
next
  fix c' s' evs
  assume ok: "resolve_dispute_admin transfer e signers k corrected (c, d, tok) = Inr ((c', s'), evs)"
  obtain d' tok' where s': "s' = (d', tok')"
    by (cases s')
  from ok [unfolded s'] obtain x where x: "disputes d k = Some x" "d' = close_dispute k d"
    "transfer token (current_contract e) (sd_challenger x) (sd_bond x) tok = Inr tok'"
    by (rule resolve_admin_Inr) (auto simp: assms(3))
  show "surplus balance e token s' = surplus balance e token (d, tok)"
    using surplus_pay [OF assms(1,2) x(1) _ x(3)] foreign(3) x(1,2) by (simp add: s')
next
  fix s' evs
  assume "withdraw_fees transfer e signers r amount c (d, tok) = Inr (s', evs)"
  then show "surplus balance e token s' = surplus balance e token (d, tok) - amount"
    using surplus_withdraw [OF assms(1,3) foreign(2)] by (cases s') blast
next
  fix s' evs
  assume ok: "resolve_dispute_timeout transfer e a k (d, tok) = Inr (s', evs)"
  obtain d' tok' where s': "s' = (d', tok')"
    by (cases s')
  from ok [unfolded s'] obtain x where x: "disputes d k = Some x" "d' = close_dispute k d"
    "transfer token (current_contract e) (sd_challenger x) (i128_clamp (sd_bond x + timeout_bonus x)) tok = Inr tok'"
    by (rule timeout_Inr) (auto simp: assms(3))
  have "0 < sd_bond x"
    using assms(2) x(1) unfolding disputes_wf_def by blast
  then have "surplus balance e token s' = surplus balance e token (d, tok) - sd_bond x div 10"
    using surplus_pay [OF assms(1,2) x(1) _ x(3)] foreign(3) x(1,2) payout_value [of x] by (simp add: s')
  then show "\<exists>x. disputes d k = Some x \<and>
       surplus balance e token s' = surplus balance e token (d, tok) - sd_bond x div 10 \<and>
       (surplus balance e token (d, tok) = 0 \<and> 10 \<le> sd_bond x \<longrightarrow> surplus balance e token s' < 0)"
    using x(1) by auto
qed

section \<open>Two bonds of twenty\<close>

definition sample_bonded :: "pair_key list \<Rightarrow> dispute_state" where
  "sample_bonded ks = empty_disputes\<lparr>fee_token := Some (Addr 8),
     disputes := map_of (map (\<lambda>k. (k, \<lparr>sd_challenger = Addr 5, sd_bond = 20, sd_deadline = 605800,
       sd_challenged_score = 0\<rparr>)) ks),
     dispute_index := ks\<rparr>"

lemma sample_bonded_wf: "disputes_wf (sample_bonded [(Addr 7, ''XLM''), (Addr 9, ''XLM'')])"
  by (auto simp: disputes_wf_def sample_bonded_def MAX_OPEN_DISPUTES_def MAX_DISPUTES_PER_ACTOR_def split: if_splits)

lemma sample_opened: "dispute_reachable sample_transfer (sample_bonded [(Addr 7, ''XLM'')], tok)"
proof -
  let ?k = "(Addr 7, ''XLM'')" and ?salt = "[1]" and ?tok = "\<lambda>t h. if h = Addr 5 then 20 else 0"
  let ?pre = "le_bytes 16 (word_of_int 20 :: 128 word) @ ?salt"
  let ?d1 = "empty_disputes\<lparr>fee_token := Some (Addr 8)\<rparr>"
  let ?d2 = "?d1\<lparr>dispute_commit := [(Addr 5, ?k) \<mapsto> sha256 (sample_env 1) ?pre],
    dispute_commit_time := [(Addr 5, ?k) \<mapsto> 1000]\<rparr>"
  have "dispute_reachable sample_transfer (empty_disputes, ?tok)"
    by (rule dispute_reachable.start)
  moreover have "set_fee_token (sample_env 1) sample_auth (Addr 8) empty_disputes
      = Inr (?d1, [Event ''fee_token_set'' [VAddr (Addr 8)]])"
    by (simp add: set_fee_token_def)
  ultimately have "dispute_reachable sample_transfer (?d1, ?tok)"
    using dispute_reachable.step dispute_step.token by fastforce
  moreover have "commit_dispute_bond (sample_env 1) sample_auth (Addr 5) ?k ?pre ?d1 = Inr (?d2, [])"
    by (simp add: commit_dispute_bond_def ensure_asset_pair_bounded_def asset_pair_is_bounded_def
        MAX_ASSET_PAIR_BYTES_def MAX_DISPUTE_BOND_PREIMAGE_BYTES_def require_auth_def sample_env_def empty_disputes_def)
  ultimately have "dispute_reachable sample_transfer (?d2, ?tok)"
    using dispute_reachable.step dispute_step.commit by fastforce
  moreover have "check_dispute_reveal (sample_env 1) (Addr 5) ?k 20 ?salt ?d2 = Inr ()"
    by (simp add: check_dispute_reveal_def sample_env_def saturating_add_def get_reveal_window_secs_def
        empty_disputes_def del: le_bytes.simps)
  then have "\<exists>tok' evs. open_score_dispute sample_transfer (sample_env 1) (Addr 5) ?k 20 ?salt sample_contract (?d2, ?tok)
      = Inr ((sample_bonded [?k], tok'), evs)"
    by (simp add: open_score_dispute_def ensure_active_def is_score_hook_dispatching_def is_paused_def
        ensure_asset_pair_bounded_def asset_pair_is_bounded_def MAX_ASSET_PAIR_BYTES_def MAX_DISPUTE_BOND_SALT_BYTES_def
        require_auth_def Let_def remove_dispute_commit_def sample_env_def add_to_dispute_index_def MAX_OPEN_DISPUTES_def
        MAX_DISPUTES_PER_ACTOR_def sample_transfer_def saturating_add_def DISPUTE_CHALLENGE_PERIOD_SECS_def
        empty_score_store_def empty_disputes_def sample_bonded_def del: le_bytes.simps)
  ultimately show ?thesis
    using dispute_reachable.step dispute_step.opened dispute_reachable.tokens by fast
qed


theorem timeout_bonus_from_other_bonds_witness:
  "\<exists>s' evs. let late = (sample_env 2)\<lparr>ledger_timestamp := 605801\<rparr>;
       s = (sample_bonded [(Addr 7, ''XLM''), (Addr 9, ''XLM'')], \<lambda>_ h. if h = Addr 0 then 40 else 0) in
     surplus (\<lambda>bal. bal) late (Addr 8) s = 0 \<and>
     resolve_dispute_timeout sample_transfer late sample_auth (Addr 7, ''XLM'') s = Inr (s', evs) \<and>
     surplus (\<lambda>bal. bal) late (Addr 8) s' < 0"
proof -
  let ?late = "(sample_env 2)\<lparr>ledger_timestamp := 605801\<rparr>"
  let ?ks = "[(Addr 7, ''XLM''), (Addr 9, ''XLM'')]" and ?tok = "\<lambda>_ h. if h = Addr 0 then 40 else 0 :: int"
  have token: "fee_token (sample_bonded ?ks) = Some (Addr 8)"
    by (simp add: sample_bonded_def)
  have zero: "surplus (\<lambda>bal. bal) ?late (Addr 8) (sample_bonded ?ks, ?tok) = 0"
    by (simp add: surplus_def total_bonds_def bond_of_def sample_bonded_def sample_env_def)
  obtain s' evs where ok: "resolve_dispute_timeout sample_transfer ?late sample_auth (Addr 7, ''XLM'') (sample_bonded ?ks, ?tok)
      = Inr (s', evs)"
    by (simp add: resolve_dispute_timeout_def sample_bonded_def sample_env_def Let_def timeout_bonus_def i128_clamp_def
        DISPUTE_BONUS_PCT_def sample_transfer_def)
  have bond: "\<forall>x. disputes (sample_bonded ?ks) (Addr 7, ''XLM'') = Some x \<longrightarrow>
      sd_challenger x \<noteq> current_contract ?late \<and> sd_bond x < 2 ^ 100 \<and> 10 \<le> sd_bond x"
    by (simp add: sample_bonded_def sample_env_def)
  have "surplus (\<lambda>bal. bal) ?late (Addr 8) s' < 0"
    using timeout_bonus_from_other_bonds [OF sample_transfer_laws sample_bonded_wf token, of "Addr 5" ?late "Addr 6"
        "(Addr 7, ''XLM'')", THEN conjunct2, THEN conjunct2, THEN conjunct2, rule_format, OF _ _ _ ok] bond zero
    by (auto simp: sample_env_def)
  with ok zero show ?thesis
    unfolding Let_def by blast
qed

end
