(* ===== verification/Settings.thy ===== *)
theory Settings
  imports Submission
begin

text \<open>
  The settings of the admins that take effect at once: thresholds of the risk monitor, cooldowns and
  caps of the write admission with their one-shot overrides, the watchlist, signer tiers, the
  adaptive threshold, the heartbeat and the oracle registry (\<^verbatim>\<open>lib.rs\<close> 3083--3179, 4135--4146,
  4252--4294, 4511--4550, 6065--6082, 6341--6410, 8005--8290, 8429--8547, 9293--9757,
  10045--10248, 10417--10446 and 13655--13735, with their accessors in \<^verbatim>\<open>storage.rs\<close>).
\<close>

abbreviation "InvalidPercentile \<equiv> InvalidThreshold"

record RateLimitOverrideEntry =
  ro_admin :: address
  ro_wallet :: address
  ro_asset_pair :: symbol
  ro_timestamp :: u64
  ro_justification_hash :: bytes

record TierBounds =
  tier_min_score :: u32
  tier_max_score :: u32

record settings =
  watchlist :: "address \<Rightarrow> bool option"
  adaptive_threshold_target_pct :: "u32 option"
  adaptive_threshold_min_value :: "u32 option"
  adaptive_threshold_max_value :: "u32 option"
  dp_epsilon :: "u32 option"
  signer_tier :: "address \<Rightarrow> TierBounds option"
  rate_limit_override_log :: "RateLimitOverrideEntry list"
  momentum_window :: "u64 option"
  momentum_alert_threshold :: "u32 option"
  pair_correlation :: "symbol \<times> symbol \<Rightarrow> 32 word option"
  registered_oracle :: "symbol \<Rightarrow> address option"
  oracle_last_updated :: "symbol \<Rightarrow> u64 option"
  oracle_staleness_threshold :: "u64 option"

definition empty_settings :: settings where
  "empty_settings = \<lparr>watchlist = (\<lambda>_. None), adaptive_threshold_target_pct = None,
     adaptive_threshold_min_value = None, adaptive_threshold_max_value = None, dp_epsilon = None,
     signer_tier = (\<lambda>_. None), rate_limit_override_log = [], momentum_window = None,
     momentum_alert_threshold = None, pair_correlation = (\<lambda>_. None), registered_oracle = (\<lambda>_. None),
     oracle_last_updated = (\<lambda>_. None), oracle_staleness_threshold = None\<rparr>"

definition MIN_SCORE_FLOOR_HWM :: u32 where "MIN_SCORE_FLOOR_HWM = 50"
definition MAX_SCORE_FLOOR_HWM :: u32 where "MAX_SCORE_FLOOR_HWM = 100"
definition MAX_RATE_LIMIT_OVERRIDE_LOG :: nat where "MAX_RATE_LIMIT_OVERRIDE_LOG = 100"
definition DEFAULT_ORACLE_STALENESS_THRESHOLD_SECS :: u64 where
  "DEFAULT_ORACLE_STALENESS_THRESHOLD_SECS = 3600"

section \<open>Risk monitor\<close>

definition set_escalation_threshold :: "env \<Rightarrow> auth_state \<Rightarrow> address list \<Rightarrow> u32 \<Rightarrow> monitor \<Rightarrow> monitor op" where
  "set_escalation_threshold e a signers n m =
     (if \<not> has_admin a then Inl (Err NotInitialized)
      else if \<not> (MIN_ESCALATION_THRESHOLD \<le> n \<and> n \<le> MAX_ESCALATION_THRESHOLD) then Inl (Err InvalidThreshold)
      else admin_guard e signers a
        (Inr (m\<lparr>escalation_threshold := Some n\<rparr>,
              [Event ''escalation_threshold_updated'' [VU32 (get_escalation_threshold m), VU32 n]])))"

definition clear_breach_count :: "pair_key \<Rightarrow> monitor \<Rightarrow> monitor" where
  "clear_breach_count k m = m\<lparr>breach_count := (breach_count m)(k := None)\<rparr>"

definition reset_breach_count :: "env \<Rightarrow> auth_state \<Rightarrow> address list \<Rightarrow> pair_key \<Rightarrow> monitor \<Rightarrow> monitor op" where
  "reset_breach_count e a signers k m = admin_guard e signers a (Inr (clear_breach_count k m, []))"

definition reset_breach_counter :: "env \<Rightarrow> auth_state \<Rightarrow> address list \<Rightarrow> pair_key \<Rightarrow> monitor \<Rightarrow> monitor op" where
  "reset_breach_counter e a signers k m =
     admin_guard e signers a
       (bind_res (get_admin a) (\<lambda>adm.
          Inr (clear_breach_count k m, [Event ''breach_counter_reset'' [VAddr (fst k), VSym (snd k), VAddr adm]])))"

definition set_jump_threshold :: "env \<Rightarrow> auth_state \<Rightarrow> address list \<Rightarrow> u32 \<Rightarrow> monitor \<Rightarrow> monitor op" where
  "set_jump_threshold e a signers threshold m =
     (if \<not> has_admin a then Inl (Err NotInitialized)
      else if threshold = 0 \<or> 99 < threshold then Inl (Err InvalidThreshold)
      else admin_guard e signers a
        (Inr (m\<lparr>jump_threshold := Some threshold\<rparr>, [Event ''jump_threshold_updated'' [VU32 threshold]])))"

definition set_hysteresis_margin :: "env \<Rightarrow> auth_state \<Rightarrow> u32 \<Rightarrow> monitor \<Rightarrow> monitor op" where
  "set_hysteresis_margin e a margin m =
     (if \<not> has_admin a then Inl (Err NotInitialized)
      else if MAX_HYSTERESIS_MARGIN < margin then Inl (Err InvalidHysteresisMargin)
      else if get_risk_threshold m \<le> margin then Inl (Err InvalidHysteresisMargin)
      else stored_admin_guard e a
        (Inr (m\<lparr>hysteresis_margin := Some margin\<rparr>,
              [Event ''hysteresis_margin_updated'' [VU32 (get_hysteresis_margin m), VU32 margin]])))"

definition set_pair_asset_class ::
    "env \<Rightarrow> auth_state \<Rightarrow> address list \<Rightarrow> symbol \<Rightarrow> symbol \<Rightarrow> monitor \<Rightarrow> monitor op" where
  "set_pair_asset_class e a signers p cls m =
     admin_guard e signers a
       (Inr (m\<lparr>pair_asset_class := (pair_asset_class m)(p \<mapsto> cls)\<rparr>,
             [Event ''pair_asset_class_updated'' [VSym p, VSym cls]]))"

definition set_asset_class_policy ::
    "env \<Rightarrow> auth_state \<Rightarrow> address list \<Rightarrow> symbol \<Rightarrow> u32 \<Rightarrow> monitor \<Rightarrow> monitor op" where
  "set_asset_class_policy e a signers cls threshold m =
     (if \<not> has_admin a then Inl (Err NotInitialized)
      else if 100 < threshold then Inl (Err InvalidScore)
      else admin_guard e signers a
        (Inr (m\<lparr>asset_class_risk_threshold := (asset_class_risk_threshold m)(cls \<mapsto> threshold)\<rparr>,
              [Event ''asset_class_policy_updated'' [VSym cls, VU32 threshold]])))"

section \<open>Write admission\<close>

definition set_cooldown :: "env \<Rightarrow> auth_state \<Rightarrow> address list \<Rightarrow> u64 \<Rightarrow> limits \<Rightarrow> limits op" where
  "set_cooldown e a signers secs l =
     (if \<not> has_admin a then Inl (Err NotInitialized)
      else if \<not> (MIN_COOLDOWN_SECS \<le> secs \<and> secs \<le> MAX_COOLDOWN_SECS) then Inl (Err InvalidCooldown)
      else admin_guard e signers a
        (Inr (l\<lparr>cooldown_secs := Some secs\<rparr>, [Event ''cooldown_updated'' [VU64 secs]])))"

definition set_pair_cooldown :: "env \<Rightarrow> auth_state \<Rightarrow> address list \<Rightarrow> symbol \<Rightarrow> u64 \<Rightarrow> limits \<Rightarrow> limits op" where
  "set_pair_cooldown e a signers p secs l =
     (if \<not> has_admin a then Inl (Err NotInitialized)
      else if \<not> (MIN_COOLDOWN_SECS \<le> secs \<and> secs \<le> MAX_COOLDOWN_SECS) then Inl (Err InvalidCooldown)
      else admin_guard e signers a
        (Inr (l\<lparr>pair_cooldown := (pair_cooldown l)(p \<mapsto> secs)\<rparr>,
              [Event ''pair_cooldown_updated'' [VSym p, VU64 secs]])))"

definition clear_pair_cooldown :: "env \<Rightarrow> auth_state \<Rightarrow> address list \<Rightarrow> symbol \<Rightarrow> limits \<Rightarrow> limits op" where
  "clear_pair_cooldown e a signers p l =
     admin_guard e signers a
       (Inr (l\<lparr>pair_cooldown := (pair_cooldown l)(p := None)\<rparr>,
             [Event ''pair_cooldown_updated'' [VSym p, VU64 (get_cooldown_secs l)]]))"

definition set_adaptive_rate_limit ::
    "env \<Rightarrow> auth_state \<Rightarrow> address list \<Rightarrow> bool \<Rightarrow> u32 \<Rightarrow> limits \<Rightarrow> limits op" where
  "set_adaptive_rate_limit e a signers enabled scale l =
     admin_guard e signers a
       (Inr (l\<lparr>adaptive_rate_limit := Some \<lparr>ar_enabled = enabled, ar_variance_scale = scale\<rparr>\<rparr>,
             [Event ''adaptive_rate_limit_updated'' [VBool enabled, VU32 scale]]))"

definition set_burst_capacity :: "env \<Rightarrow> auth_state \<Rightarrow> u32 \<Rightarrow> limits \<Rightarrow> limits op" where
  "set_burst_capacity e a capacity l =
     stored_admin_guard e a (Inr (l\<lparr>burst_capacity := Some capacity\<rparr>, []))"

definition set_score_velocity_cap ::
    "env \<Rightarrow> auth_state \<Rightarrow> address list \<Rightarrow> bool \<Rightarrow> u32 \<Rightarrow> limits \<Rightarrow> limits op" where
  "set_score_velocity_cap e a signers enabled points l =
     admin_guard e signers a
       (Inr (l\<lparr>velocity_cap_enabled := Some enabled, velocity_cap_points_per_hour := Some points\<rparr>,
             [Event ''score_velocity_cap_set'' [VBool enabled, VU32 points]]))"

definition override_score_velocity_cap ::
    "env \<Rightarrow> auth_state \<Rightarrow> address list \<Rightarrow> pair_key \<Rightarrow> limits \<Rightarrow> limits op" where
  "override_score_velocity_cap e a signers k l =
     admin_guard e signers a
       (bind_res (get_admin a) (\<lambda>adm.
          Inr (set_velocity_cap_override k l,
               [Event ''velocity_cap_overridden'' [VAddr adm, VAddr (fst k), VSym (snd k)]])))"

definition set_score_floor_policy ::
    "env \<Rightarrow> auth_state \<Rightarrow> address list \<Rightarrow> bool \<Rightarrow> u32 \<Rightarrow> u32 \<Rightarrow> limits \<Rightarrow> limits op" where
  "set_score_floor_policy e a signers enabled high_water_mark floor_value l =
     (if \<not> has_admin a then Inl (Err NotInitialized)
      else if \<not> (MIN_SCORE_FLOOR_HWM \<le> high_water_mark \<and> high_water_mark \<le> MAX_SCORE_FLOOR_HWM)
        \<or> high_water_mark \<le> floor_value
      then Inl (Err InvalidThreshold)
      else admin_guard e signers a
        (Inr (l\<lparr>score_floor_config := Some (enabled, high_water_mark, floor_value)\<rparr>,
              [Event ''score_floor_policy_updated'' [VBool enabled, VU32 high_water_mark, VU32 floor_value]])))"

definition clear_historical_max_score :: "pair_key \<Rightarrow> limits \<Rightarrow> limits" where
  "clear_historical_max_score k l = l\<lparr>historical_max_score := (historical_max_score l)(k := None)\<rparr>"

definition override_score_floor :: "env \<Rightarrow> auth_state \<Rightarrow> address list \<Rightarrow> pair_key \<Rightarrow> limits \<Rightarrow> limits op" where
  "override_score_floor e a signers k l =
     admin_guard e signers a
       (bind_res (get_admin a) (\<lambda>adm.
          Inr (clear_historical_max_score k l,
               [Event ''score_floor_overridden'' [VAddr adm, VAddr (fst k), VSym (snd k)]])))"

definition append_rate_limit_override_log :: "RateLimitOverrideEntry \<Rightarrow> settings \<Rightarrow> settings" where
  "append_rate_limit_override_log entry s =
     (let log = rate_limit_override_log s;
          kept = (if MAX_RATE_LIMIT_OVERRIDE_LOG \<le> length log then tl log else log) in
      s\<lparr>rate_limit_override_log := kept @ [entry]\<rparr>)"

definition override_rate_limit ::
    "env \<Rightarrow> auth_state \<Rightarrow> address list \<Rightarrow> pair_key \<Rightarrow> bytes \<Rightarrow> limits \<times> settings \<Rightarrow> (limits \<times> settings) op" where
  "override_rate_limit e a signers k justification x =
     admin_guard e signers a
       (bind_res (get_admin a) (\<lambda>adm.
          Inr ((clear_last_submit_time k (fst x),
                append_rate_limit_override_log
                  \<lparr>ro_admin = adm, ro_wallet = fst k, ro_asset_pair = snd k, ro_timestamp = ledger_timestamp e,
                   ro_justification_hash = sha256 e justification\<rparr> (snd x)),
               [Event ''rate_limit_overridden'' [VAddr adm, VAddr (fst k), VSym (snd k)]])))"

definition batch_override_rate_limit ::
    "env \<Rightarrow> auth_state \<Rightarrow> address list \<Rightarrow> pair_key list \<Rightarrow> limits \<Rightarrow> (limits \<times> nat \<times> event list) res" where
  "batch_override_rate_limit e a signers entries l =
     (if \<not> has_admin a then Inl (Err NotInitialized)
      else if MAX_BATCH_SIZE < length entries then Inl (Err BatchTooLarge)
      else admin_guard e signers a
        (bind_res (get_admin a) (\<lambda>adm.
           Inr (fold clear_last_submit_time entries l, length entries,
                map (\<lambda>k. Event ''rate_limit_overridden'' [VAddr adm, VAddr (fst k), VSym (snd k)]) entries))))"

section \<open>Watchlist and signer tiers\<close>

definition is_watchlisted :: "address \<Rightarrow> settings \<Rightarrow> bool" where
  "is_watchlisted w s = unwrap_or (watchlist s w) False"

definition store_watchlist :: "address \<Rightarrow> bool \<Rightarrow> settings \<Rightarrow> settings" where
  "store_watchlist w flagged s = s\<lparr>watchlist := (watchlist s)(w := if flagged then Some True else None)\<rparr>"

definition set_watchlist :: "env \<Rightarrow> auth_state \<Rightarrow> address list \<Rightarrow> address \<Rightarrow> bool \<Rightarrow> settings \<Rightarrow> settings op" where
  "set_watchlist e a signers w flagged s =
     admin_guard e signers a
       (Inr (store_watchlist w flagged s, [Event ''watchlist_updated'' [VAddr w, VBool flagged]]))"

fun watchlist_each :: "bool \<Rightarrow> address list \<Rightarrow> settings \<Rightarrow> settings \<times> event list" where
  "watchlist_each flagged [] s = (s, [])"
| "watchlist_each flagged (w # ws) s =
     (if is_watchlisted w s \<noteq> flagged then
        (let (s', evs) = watchlist_each flagged ws (store_watchlist w flagged s) in
         (s', Event ''watchlist_updated'' [VAddr w, VBool flagged] # evs))
      else watchlist_each flagged ws s)"

definition batch_add_to_watchlist ::
    "env \<Rightarrow> auth_state \<Rightarrow> address list \<Rightarrow> address list \<Rightarrow> settings \<Rightarrow> settings op" where
  "batch_add_to_watchlist e a signers wallets s =
     (if \<not> has_admin a then Inl (Err NotInitialized)
      else if MAX_BATCH_SIZE < length wallets then Inl (Err BatchTooLarge)
      else admin_guard e signers a (Inr (watchlist_each True wallets s)))"

definition batch_remove_from_watchlist ::
    "env \<Rightarrow> auth_state \<Rightarrow> address list \<Rightarrow> address list \<Rightarrow> settings \<Rightarrow> settings op" where
  "batch_remove_from_watchlist e a signers wallets s =
     (if \<not> has_admin a then Inl (Err NotInitialized)
      else if MAX_BATCH_SIZE < length wallets then Inl (Err BatchTooLarge)
      else admin_guard e signers a (Inr (watchlist_each False wallets s)))"

definition get_signer_tier :: "address \<Rightarrow> settings \<Rightarrow> u32 \<times> u32" where
  "get_signer_tier signer s =
     (let bounds = unwrap_or (signer_tier s signer) \<lparr>tier_min_score = 0, tier_max_score = 100\<rparr> in
      (tier_min_score bounds, tier_max_score bounds))"

definition set_signer_tier_bounds :: "address \<Rightarrow> u32 \<Rightarrow> u32 \<Rightarrow> settings \<Rightarrow> settings" where
  "set_signer_tier_bounds signer lo hi s =
     s\<lparr>signer_tier := (signer_tier s)(signer \<mapsto> \<lparr>tier_min_score = lo, tier_max_score = hi\<rparr>)\<rparr>"

definition set_signer_tier ::
    "env \<Rightarrow> auth_state \<Rightarrow> address list \<Rightarrow> address \<Rightarrow> u32 \<Rightarrow> u32 \<Rightarrow> settings \<Rightarrow> settings op" where
  "set_signer_tier e a signers signer lo hi s =
     (if \<not> has_admin a then Inl (Err NotInitialized)
      else if 100 < lo \<or> 100 < hi \<or> hi < lo then Inl (Err InvalidScore)
      else admin_guard e signers a (Inr (set_signer_tier_bounds signer lo hi s, [])))"

fun tier_each :: "address list \<Rightarrow> (address \<times> u32 \<times> u32) list \<Rightarrow> settings \<Rightarrow> settings op" where
  "tier_each members [] s = Inr (s, [])"
| "tier_each members ((signer, lo, hi) # entries) s =
     (if hi < lo then Inl (Err InvalidThreshold)
      else if signer \<notin> set members then Inl (Err SignerNotInSet)
      else bind_res (tier_each members entries (set_signer_tier_bounds signer lo hi s)) (\<lambda>(s', evs).
        Inr (s', Event ''signer_tier_updated'' [VAddr signer, VU32 lo, VU32 hi] # evs)))"

definition bulk_set_signer_tier ::
    "env \<Rightarrow> auth_state \<Rightarrow> address list \<Rightarrow> (address \<times> u32 \<times> u32) list \<Rightarrow> settings \<Rightarrow> settings op" where
  "bulk_set_signer_tier e a signers entries s =
     (if \<not> has_admin a then Inl (Err NotInitialized)
      else if MAX_BATCH_SIZE < length entries then Inl (Err BatchTooLarge)
      else admin_guard e signers a (tier_each (service_set a) entries s))"

section \<open>Adaptive threshold\<close>

definition get_adaptive_threshold_min_value :: "settings \<Rightarrow> u32" where
  "get_adaptive_threshold_min_value s = unwrap_or (adaptive_threshold_min_value s) 0"

definition get_adaptive_threshold_max_value :: "settings \<Rightarrow> u32" where
  "get_adaptive_threshold_max_value s = unwrap_or (adaptive_threshold_max_value s) 100"

definition enable_adaptive_threshold ::
    "env \<Rightarrow> address list \<Rightarrow> u32 \<Rightarrow> u32 \<Rightarrow> u32 \<Rightarrow> contract \<times> settings \<Rightarrow> (contract \<times> settings) op" where
  "enable_adaptive_threshold e signers target lo hi x =
     (case x of (c, s) \<Rightarrow>
      if \<not> has_admin (c_auth c) then Inl (Err NotInitialized)
      else if \<not> (50 \<le> target \<and> target \<le> 99) then Inl (Err InvalidPercentile)
      else if hi < lo then Inl (Err InvalidThreshold)
      else admin_guard e signers (c_auth c)
        (Inr ((c\<lparr>adaptive_threshold_enabled := Some True\<rparr>,
               s\<lparr>adaptive_threshold_target_pct := Some target, adaptive_threshold_min_value := Some lo,
                 adaptive_threshold_max_value := Some hi\<rparr>), [])))"

definition disable_adaptive_threshold :: "env \<Rightarrow> address list \<Rightarrow> contract \<Rightarrow> contract op" where
  "disable_adaptive_threshold e signers c =
     admin_guard e signers (c_auth c) (Inr (c\<lparr>adaptive_threshold_enabled := Some False\<rparr>, []))"

definition recompute_adaptive_threshold :: "contract \<times> settings \<Rightarrow> contract \<times> u32 \<times> event list" where
  "recompute_adaptive_threshold x =
     (case x of (c, s) \<Rightarrow>
      (let lo = get_adaptive_threshold_min_value s;
           new = min (max lo lo) (get_adaptive_threshold_max_value s) in
       if new \<noteq> unwrap_or (last_computed_threshold c) 0
       then (c\<lparr>last_computed_threshold := Some new\<rparr>, new, [Event ''adaptive_threshold_updated'' [VU32 new]])
       else (c, new, [])))"

section \<open>Heartbeat, privacy, correlation, momentum and oracles\<close>

definition set_heartbeat_alert_threshold :: "env \<Rightarrow> auth_state \<Rightarrow> address list \<Rightarrow> u64 \<Rightarrow> stats \<Rightarrow> stats op" where
  "set_heartbeat_alert_threshold e a signers secs t =
     admin_guard e signers a
       (Inr (t\<lparr>heartbeat_alert_threshold := Some secs\<rparr>, [Event ''heartbeat_threshold_updated'' [VU64 secs]]))"

definition ping_heartbeat :: "env \<Rightarrow> auth_state \<Rightarrow> stats \<Rightarrow> stats op" where
  "ping_heartbeat e a t =
     (if \<not> has_admin a then Inl (Err NotInitialized)
      else bind_res (get_service a) (\<lambda>service.
        bind_res (require_auth e service) (\<lambda>_. Inr (record_service_activity e t))))"

definition set_privacy_epsilon :: "env \<Rightarrow> auth_state \<Rightarrow> address list \<Rightarrow> u32 \<Rightarrow> settings \<Rightarrow> settings op" where
  "set_privacy_epsilon e a signers epsilon_bps s = admin_guard e signers a (Inr (s\<lparr>dp_epsilon := Some epsilon_bps\<rparr>, []))"

definition get_pair_correlation :: "symbol \<Rightarrow> symbol \<Rightarrow> settings \<Rightarrow> 32 word" where
  "get_pair_correlation p q s = unwrap_or (pair_correlation s (p, q)) 0"

definition set_pair_correlation ::
    "env \<Rightarrow> auth_state \<Rightarrow> symbol \<Rightarrow> symbol \<Rightarrow> 32 word \<Rightarrow> settings \<Rightarrow> settings op" where
  "set_pair_correlation e a p q corr s =
     stored_admin_guard e a (Inr (s\<lparr>pair_correlation := (pair_correlation s)((p, q) \<mapsto> corr)\<rparr>, []))"

definition set_momentum_window :: "env \<Rightarrow> auth_state \<Rightarrow> u64 \<Rightarrow> settings \<Rightarrow> settings op" where
  "set_momentum_window e a secs s = stored_admin_guard e a (Inr (s\<lparr>momentum_window := Some secs\<rparr>, []))"

definition set_momentum_alert_threshold :: "env \<Rightarrow> auth_state \<Rightarrow> u32 \<Rightarrow> settings \<Rightarrow> settings op" where
  "set_momentum_alert_threshold e a threshold s =
     stored_admin_guard e a (Inr (s\<lparr>momentum_alert_threshold := Some threshold\<rparr>, []))"

definition register_oracle ::
    "env \<Rightarrow> auth_state \<Rightarrow> address list \<Rightarrow> symbol \<Rightarrow> address \<Rightarrow> settings \<Rightarrow> settings op" where
  "register_oracle e a signers p oracle s =
     admin_guard e signers a
       (Inr (s\<lparr>registered_oracle := (registered_oracle s)(p \<mapsto> oracle)\<rparr>,
             [Event ''oracle_registered'' [VSym p, VAddr oracle]]))"

definition remove_oracle :: "env \<Rightarrow> auth_state \<Rightarrow> address list \<Rightarrow> symbol \<Rightarrow> settings \<Rightarrow> settings op" where
  "remove_oracle e a signers p s =
     admin_guard e signers a
       (Inr (s\<lparr>registered_oracle := (registered_oracle s)(p := None),
               oracle_last_updated := (oracle_last_updated s)(p := None)\<rparr>,
             [Event ''oracle_removed'' [VSym p]]))"

definition get_oracle_staleness_threshold :: "settings \<Rightarrow> u64" where
  "get_oracle_staleness_threshold s =
     unwrap_or (oracle_staleness_threshold s) DEFAULT_ORACLE_STALENESS_THRESHOLD_SECS"

definition set_oracle_staleness_threshold ::
    "env \<Rightarrow> auth_state \<Rightarrow> address list \<Rightarrow> u64 \<Rightarrow> settings \<Rightarrow> settings op" where
  "set_oracle_staleness_threshold e a signers secs s =
     (if \<not> has_admin a then Inl (Err NotInitialized)
      else if secs = 0 then Inl (Err InvalidStalenessWindow)
      else admin_guard e signers a
        (Inr (s\<lparr>oracle_staleness_threshold := Some secs\<rparr>,
              [Event ''oracle_staleness_threshold_updated'' [VU64 secs]])))"

section \<open>Steps\<close>

inductive monitor_setting :: "env \<Rightarrow> auth_state \<Rightarrow> monitor \<Rightarrow> monitor \<Rightarrow> bool" for e a m where
  "set_escalation_threshold e a signers n m = Inr (m', evs) \<Longrightarrow> monitor_setting e a m m'"
| "reset_breach_count e a signers k m = Inr (m', evs) \<Longrightarrow> monitor_setting e a m m'"
| "reset_breach_counter e a signers k m = Inr (m', evs) \<Longrightarrow> monitor_setting e a m m'"
| "set_jump_threshold e a signers n m = Inr (m', evs) \<Longrightarrow> monitor_setting e a m m'"
| "set_hysteresis_margin e a n m = Inr (m', evs) \<Longrightarrow> monitor_setting e a m m'"
| "set_pair_asset_class e a signers p cls m = Inr (m', evs) \<Longrightarrow> monitor_setting e a m m'"
| "set_asset_class_policy e a signers cls n m = Inr (m', evs) \<Longrightarrow> monitor_setting e a m m'"

inductive limit_setting :: "env \<Rightarrow> auth_state \<Rightarrow> limits \<Rightarrow> limits \<Rightarrow> bool" for e a l where
  "set_cooldown e a signers secs l = Inr (l', evs) \<Longrightarrow> limit_setting e a l l'"
| "set_pair_cooldown e a signers p secs l = Inr (l', evs) \<Longrightarrow> limit_setting e a l l'"
| "clear_pair_cooldown e a signers p l = Inr (l', evs) \<Longrightarrow> limit_setting e a l l'"
| "set_adaptive_rate_limit e a signers enabled scale l = Inr (l', evs) \<Longrightarrow> limit_setting e a l l'"
| "set_burst_capacity e a capacity l = Inr (l', evs) \<Longrightarrow> limit_setting e a l l'"
| "set_score_velocity_cap e a signers enabled points l = Inr (l', evs) \<Longrightarrow> limit_setting e a l l'"
| "override_score_velocity_cap e a signers k l = Inr (l', evs) \<Longrightarrow> limit_setting e a l l'"
| "set_score_floor_policy e a signers enabled hwm fv l = Inr (l', evs) \<Longrightarrow> limit_setting e a l l'"
| "override_score_floor e a signers k l = Inr (l', evs) \<Longrightarrow> limit_setting e a l l'"
| "override_rate_limit e a signers k j (l, s) = Inr ((l', s'), evs) \<Longrightarrow> limit_setting e a l l'"
| "batch_override_rate_limit e a signers ks l = Inr (l', n, evs) \<Longrightarrow> limit_setting e a l l'"

text \<open>A setting changes one part of the contract, and a list of own values that the score path does
  not read.\<close>

inductive setting_step :: "env \<Rightarrow> contract \<Rightarrow> contract \<Rightarrow> bool" for e c where
  monitor: "monitor_setting e (c_auth c) (c_monitor c) m \<Longrightarrow> setting_step e c (c\<lparr>c_monitor := m\<rparr>)"
| limits: "limit_setting e (c_auth c) (c_limits c) l \<Longrightarrow> setting_step e c (c\<lparr>c_limits := l\<rparr>)"
| enable: "enable_adaptive_threshold e signers t lo hi (c, s) = Inr ((c', s'), evs) \<Longrightarrow> setting_step e c c'"
| disable: "disable_adaptive_threshold e signers c = Inr (c', evs) \<Longrightarrow> setting_step e c c'"
| recompute: "recompute_adaptive_threshold (c, s) = (c', n, evs) \<Longrightarrow> setting_step e c c'"
| heartbeat: "set_heartbeat_alert_threshold e (c_auth c) signers secs (c_stats c) = Inr (t, evs) \<Longrightarrow>
    setting_step e c (c\<lparr>c_stats := t\<rparr>)"
| ping: "ping_heartbeat e (c_auth c) (c_stats c) = Inr (t, evs) \<Longrightarrow> setting_step e c (c\<lparr>c_stats := t\<rparr>)"

section \<open>Bounds of the configuration\<close>

definition monitor_bounds :: "monitor \<Rightarrow> bool" where
  "monitor_bounds m \<longleftrightarrow> get_risk_threshold m \<le> 100 \<and>
     MIN_ESCALATION_THRESHOLD \<le> get_escalation_threshold m \<and> get_escalation_threshold m \<le> MAX_ESCALATION_THRESHOLD \<and>
     get_hysteresis_margin m \<le> MAX_HYSTERESIS_MARGIN \<and> 0 < get_jump_threshold m \<and> get_jump_threshold m \<le> 99 \<and>
     (\<forall>cls t. asset_class_risk_threshold m cls = Some t \<longrightarrow> t \<le> 100)"

definition cooldown_ok :: "u64 \<Rightarrow> bool" where
  "cooldown_ok secs \<longleftrightarrow> MIN_COOLDOWN_SECS \<le> secs \<and> secs \<le> MAX_COOLDOWN_SECS"

definition limits_bounds :: "limits \<Rightarrow> bool" where
  "limits_bounds l \<longleftrightarrow> cooldown_ok (get_cooldown_secs l) \<and> (\<forall>p. cooldown_ok (get_pair_cooldown_secs p l)) \<and>
     (let policy = get_score_floor_policy l in
      MIN_SCORE_FLOOR_HWM \<le> fp_high_water_mark policy \<and> fp_high_water_mark policy \<le> MAX_SCORE_FLOOR_HWM \<and>
      fp_floor_value policy < fp_high_water_mark policy)"

lemma effective_threshold_le:
  "monitor_bounds m \<Longrightarrow> get_effective_risk_threshold p m \<le> 100"
  by (auto simp: monitor_bounds_def get_effective_risk_threshold_def split: option.splits)

lemma empty_bounds: "monitor_bounds empty_monitor" "limits_bounds empty_limits"
  by (simp_all add: monitor_bounds_def limits_bounds_def empty_monitor_def empty_limits_def store_defs cooldown_ok_def
      get_cooldown_secs_def get_pair_cooldown_secs_def get_score_floor_policy_def DEFAULT_RISK_THRESHOLD_def
      DEFAULT_JUMP_THRESHOLD_def DEFAULT_ESCALATION_THRESHOLD_def MIN_ESCALATION_THRESHOLD_def
      MAX_ESCALATION_THRESHOLD_def MAX_HYSTERESIS_MARGIN_def DEFAULT_COOLDOWN_SECS_def MIN_COOLDOWN_SECS_def
      MAX_COOLDOWN_SECS_def DEFAULT_SCORE_FLOOR_HWM_def DEFAULT_SCORE_FLOOR_MIN_def MIN_SCORE_FLOOR_HWM_def
      MAX_SCORE_FLOOR_HWM_def)

lemmas monitor_setting_defs = set_escalation_threshold_def reset_breach_count_def reset_breach_counter_def
  set_jump_threshold_def set_hysteresis_margin_def set_pair_asset_class_def set_asset_class_policy_def
  clear_breach_count_def

lemma monitor_setting_bounds:
  assumes "monitor_setting e a m m'" "monitor_bounds m"
  shows "monitor_bounds m'"
  using assms
  by (cases rule: monitor_setting.cases)
    (auto simp: monitor_setting_defs monitor_bounds_def get_risk_threshold_def get_jump_threshold_def
      get_hysteresis_margin_def get_escalation_threshold_def bind_res_Inr_iff word_gt_0 dest!: guard_InrD(1,2)
      split: if_splits)

lemmas limit_setting_defs = set_cooldown_def set_pair_cooldown_def clear_pair_cooldown_def set_adaptive_rate_limit_def
  set_burst_capacity_def set_score_velocity_cap_def override_score_velocity_cap_def set_score_floor_policy_def
  override_score_floor_def override_rate_limit_def batch_override_rate_limit_def clear_historical_max_score_def
  clear_last_submit_time_def set_velocity_cap_override_def

lemma fold_clear_last_submit_time [simp]:
  "cooldown_secs (fold clear_last_submit_time ks l) = cooldown_secs l"
  "pair_cooldown (fold clear_last_submit_time ks l) = pair_cooldown l"
  "score_floor_config (fold clear_last_submit_time ks l) = score_floor_config l"
  "score_histogram (fold clear_last_submit_time ks l) = score_histogram l"
  by (induction ks arbitrary: l) (simp_all add: clear_last_submit_time_def)

lemma limits_bounds_iff:
  "limits_bounds l \<longleftrightarrow> (\<forall>secs. cooldown_secs l = Some secs \<longrightarrow> cooldown_ok secs) \<and>
     (\<forall>p secs. pair_cooldown l p = Some secs \<longrightarrow> cooldown_ok secs) \<and>
     (\<forall>b hwm fv. score_floor_config l = Some (b, hwm, fv) \<longrightarrow>
        MIN_SCORE_FLOOR_HWM \<le> hwm \<and> hwm \<le> MAX_SCORE_FLOOR_HWM \<and> fv < hwm)" (is "_ \<longleftrightarrow> ?g \<and> ?p \<and> ?f")
proof -
  have default: "cooldown_ok DEFAULT_COOLDOWN_SECS"
    by (simp add: cooldown_ok_def DEFAULT_COOLDOWN_SECS_def MIN_COOLDOWN_SECS_def MAX_COOLDOWN_SECS_def)
  have "cooldown_ok (get_cooldown_secs l) \<longleftrightarrow> ?g"
    using default by (cases "cooldown_secs l") (simp_all add: get_cooldown_secs_def)
  moreover have "(\<forall>p. cooldown_ok (get_pair_cooldown_secs p l)) \<longleftrightarrow> ?p" if "cooldown_ok (get_cooldown_secs l)"
    using that by (auto simp: get_pair_cooldown_secs_def unwrap_or_def split: option.splits)
  moreover have "(let policy = get_score_floor_policy l in
      MIN_SCORE_FLOOR_HWM \<le> fp_high_water_mark policy \<and> fp_high_water_mark policy \<le> MAX_SCORE_FLOOR_HWM \<and>
      fp_floor_value policy < fp_high_water_mark policy) \<longleftrightarrow> ?f"
    by (auto simp: get_score_floor_policy_def DEFAULT_SCORE_FLOOR_HWM_def DEFAULT_SCORE_FLOOR_MIN_def
        MIN_SCORE_FLOOR_HWM_def MAX_SCORE_FLOOR_HWM_def split: option.splits)
  ultimately show ?thesis
    unfolding limits_bounds_def by blast
qed

lemma limit_setting_bounds:
  assumes "limit_setting e a l l'" "limits_bounds l"
  shows "limits_bounds l'"
  using assms
  by (cases rule: limit_setting.cases)
    (auto simp: limit_setting_defs limits_bounds_iff cooldown_ok_def bind_res_Inr_iff dest!: guard_InrD(1,2)
      split: if_splits)

text \<open>The part of a contract that only the settings and the governance change.\<close>

definition same_configuration :: "contract \<Rightarrow> contract \<Rightarrow> bool" where
  "same_configuration c c' \<longleftrightarrow>
     risk_threshold (c_monitor c') = risk_threshold (c_monitor c) \<and>
     escalation_threshold (c_monitor c') = escalation_threshold (c_monitor c) \<and>
     hysteresis_margin (c_monitor c') = hysteresis_margin (c_monitor c) \<and>
     jump_threshold (c_monitor c') = jump_threshold (c_monitor c) \<and>
     asset_class_risk_threshold (c_monitor c') = asset_class_risk_threshold (c_monitor c) \<and>
     cooldown_secs (c_limits c') = cooldown_secs (c_limits c) \<and>
     pair_cooldown (c_limits c') = pair_cooldown (c_limits c) \<and>
     score_floor_config (c_limits c') = score_floor_config (c_limits c) \<and>
     history_max_depth (c_history c') = history_max_depth (c_history c)"

definition configuration_bounds :: "contract \<Rightarrow> bool" where
  "configuration_bounds c \<longleftrightarrow> monitor_bounds (c_monitor c) \<and> limits_bounds (c_limits c) \<and>
     0 < get_history_max_depth (c_history c) \<and> get_history_max_depth (c_history c) \<le> MAX_HISTORY_DEPTH"

lemma configuration_bounds_cong:
  assumes "same_configuration c c'" "configuration_bounds c"
  shows "configuration_bounds c'"
  using assms unfolding same_configuration_def configuration_bounds_def limits_bounds_iff monitor_bounds_def
    get_risk_threshold_def get_escalation_threshold_def get_hysteresis_margin_def get_jump_threshold_def
    get_history_max_depth_def by (elim conjE) (simp only: simp_thms)

lemma setting_step_bounds:
  assumes "setting_step e c c'" "configuration_bounds c"
  shows "configuration_bounds c'"
  using assms(1)
proof (cases rule: setting_step.cases)
  case (monitor m)
  then show ?thesis
    using assms(2) monitor_setting_bounds by (auto simp: configuration_bounds_def)
next
  case (limits l)
  then show ?thesis
    using assms(2) limit_setting_bounds by (auto simp: configuration_bounds_def)
next
  case (recompute s n evs)
  then show ?thesis
    using assms(2) by (auto simp: configuration_bounds_def recompute_adaptive_threshold_def Let_def split: if_splits)
qed (use assms(2) in \<open>auto simp: configuration_bounds_def enable_adaptive_threshold_def disable_adaptive_threshold_def
    dest!: guard_InrD(1) split: if_splits\<close>)

end
