(* ===== verification/Governance.thy ===== *)
theory Governance
  imports Settings
begin

text \<open>
  Changes behind a time lock: upgrades of the contract code, proposed parameter changes with their
  veto window, and the staged changes of single settings and of the policy bundle (\<^verbatim>\<open>lib.rs\<close>
  3777--3914, 7534--7934, 8317--8346 and 9117--9146, \<^verbatim>\<open>parameter_governance.rs\<close>, \<^verbatim>\<open>storage.rs\<close>
  777--924, 2952--2962 and 3087--3123).  The sources name two accessors of the staleness window
  and two bounds of it that they do not define; these are a parameter here.
\<close>

abbreviation "ParameterProposalNotFound \<equiv> ScoreNotFound"
abbreviation "ParameterProposalNotReady \<equiv> UpgradeNotReady"
abbreviation "ParameterProposalVetoPeriodEnded \<equiv> QuorumFailureWindowNotElapsed"
abbreviation "ParameterProposalExpired \<equiv> RevealWindowExpired"
abbreviation "TooManyPendingParameterProposals \<equiv> ServiceSetFull"
abbreviation "ParameterProposalAlreadyExecuted \<equiv> AlreadyInitialized"
abbreviation "ParameterProposalVetoed \<equiv> DisputeAlreadyOpen"
abbreviation "InvalidParameterKey \<equiv> InvalidThreshold"
abbreviation "InvalidParameterValue \<equiv> InvalidScore"
abbreviation "InvalidParameterTimeLock \<equiv> InvalidUpgradeDelay"

record UpgradeProposal =
  up_new_wasm_hash :: bytes
  up_proposed_at :: u64
  up_executable_after :: u64
  up_proposed_by :: address

record ParameterProposal =
  pp_param_key :: symbol
  pp_new_value :: bytes
  pp_proposer :: address
  pp_proposed_at :: u64
  pp_time_lock_secs :: u64

datatype ParameterProposalStatus = Pending | Executed | Vetoed | Expired

record ParameterProposalRecord =
  pr_proposal :: ParameterProposal
  pr_status :: ParameterProposalStatus

datatype ParamValue = U32 u32 | U64 u64

record ParamChangeProposal =
  pc_new_value :: ParamValue
  pc_proposed_at :: u64
  pc_apply_after :: u64

record PolicyBundle =
  pb_risk_threshold :: u32
  pb_cooldown_secs :: u64

record PolicyBundleProposal =
  bp_bundle :: PolicyBundle
  bp_proposed_at :: u64
  bp_apply_after :: u64

text \<open>\<open>contract_wasm\<close> is the code the host runs for the contract.\<close>

record governance =
  contract_wasm :: bytes
  pending_upgrade :: "UpgradeProposal option"
  upgrade_delay :: "u64 option"
  parameter_proposal_next_id :: "u64 option"
  parameter_proposal :: "u64 \<Rightarrow> ParameterProposalRecord option"
  pending_parameter_proposal_ids :: "u64 list"
  pending_param_change :: "symbol \<Rightarrow> ParamChangeProposal option"
  pending_policy_bundle :: "PolicyBundleProposal option"
  staleness_window :: "u64 option"

type_synonym governed = "contract \<times> governance"

record staleness_access =
  sa_min :: u64
  sa_max :: u64
  sa_get :: "governance \<Rightarrow> u64"
  sa_set :: "u64 \<Rightarrow> governance \<Rightarrow> governance"

definition empty_governance :: governance where
  "empty_governance = \<lparr>contract_wasm = [], pending_upgrade = None, upgrade_delay = None,
     parameter_proposal_next_id = None, parameter_proposal = (\<lambda>_. None), pending_parameter_proposal_ids = [],
     pending_param_change = (\<lambda>_. None), pending_policy_bundle = None, staleness_window = None\<rparr>"

definition MIN_UPGRADE_DELAY_SECS :: u64 where "MIN_UPGRADE_DELAY_SECS = 172800"
definition MAX_UPGRADE_DELAY_SECS :: u64 where "MAX_UPGRADE_DELAY_SECS = 1209600"
definition DEFAULT_UPGRADE_DELAY_SECS :: u64 where "DEFAULT_UPGRADE_DELAY_SECS = 172800"
definition MAX_PENDING_PARAMETER_PROPOSALS :: nat where "MAX_PENDING_PARAMETER_PROPOSALS = 10"
definition DEFAULT_PARAM_CHANGE_DELAY_SECS :: u64 where "DEFAULT_PARAM_CHANGE_DELAY_SECS = 86400"
definition DEFAULT_STALENESS_WINDOW_SECS :: u64 where "DEFAULT_STALENESS_WINDOW_SECS = 604800"

section \<open>Upgrades\<close>

definition get_upgrade_delay :: "governance \<Rightarrow> u64" where
  "get_upgrade_delay g = unwrap_or (upgrade_delay g) DEFAULT_UPGRADE_DELAY_SECS"

fun add_approvals :: "u32 \<Rightarrow> address list \<Rightarrow> address list \<Rightarrow> address list \<times> event list" where
  "add_approvals threshold [] approvals = (approvals, [])"
| "add_approvals threshold (s # signers) approvals =
     (if s \<in> set approvals then add_approvals threshold signers approvals
      else
        (let (approvals', evs) = add_approvals threshold signers (approvals @ [s]) in
         (approvals', Event ''upgrade_approval_added''
            [VAddr s, VU32 (of_nat (Suc (length approvals))), VU32 threshold] # evs)))"

definition store_upgrade ::
    "env \<Rightarrow> address \<Rightarrow> bytes \<Rightarrow> auth_state \<times> governance \<Rightarrow> (auth_state \<times> governance) \<times> event list" where
  "store_upgrade e adm new_wasm_hash s =
     (case s of (a, g) \<Rightarrow>
      (let executable_after = saturating_add (ledger_timestamp e) (get_upgrade_delay g);
           proposal = \<lparr>up_new_wasm_hash = new_wasm_hash, up_proposed_at = ledger_timestamp e,
             up_executable_after = executable_after, up_proposed_by = adm\<rparr>;
           (a1, evs) = append_governance_action e 6 ''upg_prop'' new_wasm_hash a in
       ((update_audit_root e ''upg_prop'' adm new_wasm_hash a1, g\<lparr>pending_upgrade := Some proposal\<rparr>),
        evs @ [Event ''upgrade_proposed'' [VBytes new_wasm_hash, VU64 executable_after]])))"

definition propose_upgrade ::
    "env \<Rightarrow> address list \<Rightarrow> bytes \<Rightarrow> auth_state \<times> governance \<Rightarrow> (auth_state \<times> governance) op" where
  "propose_upgrade e signers new_wasm_hash s =
     (case s of (a, g) \<Rightarrow>
      if \<not> has_admin a then Inl (Err NotInitialized)
      else
        bind_res (require_policy_auth e UpgradeGovernance signers a) (\<lambda>_.
        bind_res (get_admin a) (\<lambda>adm.
        if pending_upgrade g \<noteq> None then Inl (Err UpgradeAlreadyPending)
        else
          (let threshold = get_admin_threshold a in
           if admin_set a \<noteq> [] \<and> 0 < threshold then
             (let (approvals, evs) = add_approvals threshold signers (upgrade_approvals a) in
              if length approvals < unat threshold then Inr ((a\<lparr>upgrade_approvals := approvals\<rparr>, g), evs)
              else (let (s', evs') = store_upgrade e adm new_wasm_hash (a\<lparr>upgrade_approvals := []\<rparr>, g) in
                    Inr (s', evs @ evs')))
           else Inr (store_upgrade e adm new_wasm_hash (a, g))))))"

definition execute_upgrade :: "env \<Rightarrow> address list \<Rightarrow> auth_state \<Rightarrow> governance \<Rightarrow> governance op" where
  "execute_upgrade e signers a g =
     (if \<not> has_admin a then Inl (Err NotInitialized)
      else
        bind_res (require_policy_auth e UpgradeGovernance signers a) (\<lambda>_.
        case pending_upgrade g of
          None \<Rightarrow> Inl (Err NoPendingUpgrade)
        | Some proposal \<Rightarrow>
            if ledger_timestamp e < up_executable_after proposal then Inl (Err UpgradeNotReady)
            else Inr (g\<lparr>contract_wasm := up_new_wasm_hash proposal, pending_upgrade := None\<rparr>,
                      [Event ''upgrade_executed'' [VBytes (up_new_wasm_hash proposal)]])))"

definition veto_upgrade :: "env \<Rightarrow> address list \<Rightarrow> auth_state \<Rightarrow> governance \<Rightarrow> governance op" where
  "veto_upgrade e signers a g =
     (if \<not> has_admin a then Inl (Err NotInitialized)
      else
        bind_res (require_policy_auth e UpgradeGovernance signers a) (\<lambda>_.
        bind_res (get_admin a) (\<lambda>adm.
        if pending_upgrade g = None then Inl (Err NoPendingUpgrade)
        else Inr (g\<lparr>pending_upgrade := None\<rparr>, [Event ''upgrade_vetoed'' [VAddr adm]]))))"

section \<open>Staged changes of single settings\<close>

definition stage_param_change :: "env \<Rightarrow> symbol \<Rightarrow> ParamValue \<Rightarrow> governance \<Rightarrow> governance op" where
  "stage_param_change e key v g =
     (if pending_param_change g key \<noteq> None then Inl (Err ParamChangeAlreadyPending)
      else
        (let apply_after = saturating_add (ledger_timestamp e) DEFAULT_PARAM_CHANGE_DELAY_SECS in
         Inr (g\<lparr>pending_param_change := (pending_param_change g)(key \<mapsto>
                \<lparr>pc_new_value = v, pc_proposed_at = ledger_timestamp e, pc_apply_after = apply_after\<rparr>)\<rparr>,
              [Event ''param_change_proposed'' [VSym key, VU64 apply_after]])))"

definition set_risk_threshold :: "env \<Rightarrow> address list \<Rightarrow> u32 \<Rightarrow> auth_state \<Rightarrow> governance \<Rightarrow> governance op" where
  "set_risk_threshold e signers threshold a g =
     (if \<not> has_admin a then Inl (Err NotInitialized)
      else if 100 < threshold then Inl (Err InvalidScore)
      else admin_guard e signers a (stage_param_change e ''risk_thr'' (U32 threshold) g))"

definition set_history_max_depth :: "env \<Rightarrow> address list \<Rightarrow> u32 \<Rightarrow> auth_state \<Rightarrow> governance \<Rightarrow> governance op" where
  "set_history_max_depth e signers depth a g =
     (if \<not> has_admin a then Inl (Err NotInitialized)
      else if depth = 0 \<or> MAX_HISTORY_DEPTH < depth then Inl (Err InvalidHistoryDepth)
      else admin_guard e signers a (stage_param_change e ''hist_dep'' (U32 depth) g))"

definition set_upgrade_delay :: "env \<Rightarrow> address list \<Rightarrow> u64 \<Rightarrow> auth_state \<Rightarrow> governance \<Rightarrow> governance op" where
  "set_upgrade_delay e signers delay a g =
     (if \<not> has_admin a then Inl (Err NotInitialized)
      else if \<not> (MIN_UPGRADE_DELAY_SECS \<le> delay \<and> delay \<le> MAX_UPGRADE_DELAY_SECS) then Inl (Err InvalidUpgradeDelay)
      else admin_guard e signers a (stage_param_change e ''upg_dly'' (U64 delay) g))"

definition set_staleness_window :: "env \<Rightarrow> address list \<Rightarrow> u64 \<Rightarrow> auth_state \<Rightarrow> governance \<Rightarrow> governance op" where
  "set_staleness_window e signers secs a g =
     (if \<not> has_admin a then Inl (Err NotInitialized)
      else if secs = 0 then Inl (Err InvalidStalenessWindow)
      else admin_guard e signers a (stage_param_change e ''stale_w'' (U64 secs) g))"

definition get_staleness_window :: "governance \<Rightarrow> u64" where
  "get_staleness_window g = unwrap_or (staleness_window g) DEFAULT_STALENESS_WINDOW_SECS"

definition with_risk_threshold :: "u32 \<Rightarrow> contract \<Rightarrow> contract" where
  "with_risk_threshold n c = c\<lparr>c_monitor := (c_monitor c)\<lparr>risk_threshold := Some n\<rparr>\<rparr>"

definition with_history_max_depth :: "u32 \<Rightarrow> contract \<Rightarrow> contract" where
  "with_history_max_depth n c = c\<lparr>c_history := (c_history c)\<lparr>history_max_depth := Some n\<rparr>\<rparr>"

definition with_cooldown_secs :: "u64 \<Rightarrow> contract \<Rightarrow> contract" where
  "with_cooldown_secs n c = c\<lparr>c_limits := (c_limits c)\<lparr>cooldown_secs := Some n\<rparr>\<rparr>"

definition apply_param_change :: "env \<Rightarrow> symbol \<Rightarrow> governed \<Rightarrow> governed op" where
  "apply_param_change e key s =
     (case s of (c, g) \<Rightarrow>
      case pending_param_change g key of
        None \<Rightarrow> Inl (Err NoPendingUpgrade)
      | Some p \<Rightarrow>
          if ledger_timestamp e < pc_apply_after p then Inl (Err UpgradeNotReady)
          else
            (let g' = g\<lparr>pending_param_change := (pending_param_change g)(key := None)\<rparr> in
             case pc_new_value p of
               U32 v \<Rightarrow>
                 if key = ''risk_thr'' then Inr ((with_risk_threshold v c, g'), [])
                 else if key = ''hist_dep'' then Inr ((with_history_max_depth v c, g'), [])
                 else Inl (Err InvalidParameterKey)
             | U64 v \<Rightarrow>
                 if key = ''upg_dly'' then Inr ((c, g'\<lparr>upgrade_delay := Some v\<rparr>), [])
                 else if key = ''stale_w'' then Inr ((c, g'\<lparr>staleness_window := Some v\<rparr>), [])
                 else Inl (Err InvalidParameterKey)))"

definition propose_policy_bundle ::
    "env \<Rightarrow> address list \<Rightarrow> u32 \<Rightarrow> u64 \<Rightarrow> auth_state \<Rightarrow> governance \<Rightarrow> governance op" where
  "propose_policy_bundle e signers threshold secs a g =
     (if \<not> has_admin a then Inl (Err NotInitialized)
      else if 100 < threshold then Inl (Err InvalidScore)
      else if \<not> (MIN_COOLDOWN_SECS \<le> secs \<and> secs \<le> MAX_COOLDOWN_SECS) then Inl (Err InvalidCooldown)
      else admin_guard e signers a
        (if pending_policy_bundle g \<noteq> None then Inl (Err ParamChangeAlreadyPending)
         else
           (let apply_after = saturating_add (ledger_timestamp e) DEFAULT_PARAM_CHANGE_DELAY_SECS in
            Inr (g\<lparr>pending_policy_bundle := Some \<lparr>bp_bundle = \<lparr>pb_risk_threshold = threshold,
                     pb_cooldown_secs = secs\<rparr>, bp_proposed_at = ledger_timestamp e, bp_apply_after = apply_after\<rparr>\<rparr>,
                 [Event ''policy_bundle_proposed'' [VU32 threshold, VU64 secs, VU64 apply_after]]))))"

definition apply_policy_bundle :: "env \<Rightarrow> governed \<Rightarrow> governed op" where
  "apply_policy_bundle e s =
     (case s of (c, g) \<Rightarrow>
      case pending_policy_bundle g of
        None \<Rightarrow> Inl (Err NoPendingUpgrade)
      | Some p \<Rightarrow>
          if ledger_timestamp e < bp_apply_after p then Inl (Err UpgradeNotReady)
          else
            (let b = bp_bundle p in
             Inr ((with_cooldown_secs (pb_cooldown_secs b) (with_risk_threshold (pb_risk_threshold b) c),
                   g\<lparr>pending_policy_bundle := None\<rparr>),
                  [Event ''policy_bundle_applied'' [VU32 (pb_risk_threshold b), VU64 (pb_cooldown_secs b)]])))"

section \<open>Values of governed parameters\<close>

record ParamBounds =
  bounds_key :: symbol
  bounds_min :: u64
  bounds_max :: u64

definition bounds_registry :: "staleness_access \<Rightarrow> ParamBounds list" where
  "bounds_registry sa =
     [\<lparr>bounds_key = ''cooldown'', bounds_min = MIN_COOLDOWN_SECS, bounds_max = MAX_COOLDOWN_SECS\<rparr>,
      \<lparr>bounds_key = ''hist_dep'', bounds_min = 1, bounds_max = ucast MAX_HISTORY_DEPTH\<rparr>,
      \<lparr>bounds_key = ''decay_rt'', bounds_min = 0, bounds_max = MAX_DECAY_LAMBDA_NUM\<rparr>,
      \<lparr>bounds_key = ''vel_cap'', bounds_min = 0, bounds_max = ucast (- 1 :: u32)\<rparr>,
      \<lparr>bounds_key = ''upg_dlay'', bounds_min = MIN_UPGRADE_DELAY_SECS, bounds_max = MAX_UPGRADE_DELAY_SECS\<rparr>,
      \<lparr>bounds_key = ''stale_win'', bounds_min = sa_min sa, bounds_max = sa_max sa\<rparr>]"

definition get_parameter_bounds :: "staleness_access \<Rightarrow> symbol \<Rightarrow> ParamBounds option" where
  "get_parameter_bounds sa key = List.find (\<lambda>entry. bounds_key entry = key) (bounds_registry sa)"

definition from_be_bytes :: "bytes \<Rightarrow> 'a::len word" where
  "from_be_bytes bs = of_nat (nat_of_le (rev bs))"

definition read_u64 :: "bytes \<Rightarrow> u64 res" where
  "read_u64 bs = (if length bs \<noteq> 8 then Inl (Err InvalidParameterValue) else Inr (from_be_bytes bs))"

definition read_u32 :: "bytes \<Rightarrow> nat \<Rightarrow> u32 res" where
  "read_u32 bs i =
     (if length bs < i + 4 then Inl (Err InvalidParameterValue) else Inr (from_be_bytes (take 4 (drop i bs))))"

definition in_bounds :: "ParamBounds \<Rightarrow> u64 \<Rightarrow> bool" where
  "in_bounds b x \<longleftrightarrow> bounds_min b \<le> x \<and> x \<le> bounds_max b"

definition validate_cross_parameter_constraints ::
    "staleness_access \<Rightarrow> symbol \<Rightarrow> bytes \<Rightarrow> governed \<Rightarrow> unit res" where
  "validate_cross_parameter_constraints sa key v s =
     (case s of (c, g) \<Rightarrow>
      bind_res
        (if key = ''cooldown'' then
           bind_res (read_u64 v) (\<lambda>secs. if sa_get sa g < secs then Inl (Err InvalidCooldown) else Inr ())
         else Inr ()) (\<lambda>_.
      if key = ''stale_win'' then
        bind_res (read_u64 v) (\<lambda>secs.
          if secs < get_cooldown_secs (c_limits c) then Inl (Err InvalidParameterValue) else Inr ())
      else Inr ()))"

definition validate_decay_rate :: "bytes \<Rightarrow> unit res" where
  "validate_decay_rate v =
     (if length v \<noteq> 8 then Inl (Err InvalidParameterValue)
      else
        bind_res (read_u32 v 0) (\<lambda>numerator.
        bind_res (read_u32 v 4) (\<lambda>denominator.
        if denominator = 0 then Inl (Err InvalidThreshold)
        else case checked_mul (ucast numerator :: u64) MAX_DECAY_LAMBDA_DEN of
          None \<Rightarrow> Inl (Err InvalidThreshold)
        | Some x \<Rightarrow>
            if saturating_mul MAX_DECAY_LAMBDA_NUM (ucast denominator) < x then Inl (Err InvalidThreshold)
            else Inr ())))"

definition validate_velocity_cap :: "bytes \<Rightarrow> unit res" where
  "validate_velocity_cap v =
     (if length v \<noteq> 5 then Inl (Err InvalidParameterValue)
      else if 1 < v ! 0 then Inl (Err InvalidParameterValue)
      else bind_res (read_u32 v 1) (\<lambda>_. Inr ()))"

definition validate_parameter_value :: "staleness_access \<Rightarrow> symbol \<Rightarrow> bytes \<Rightarrow> governed \<Rightarrow> unit res" where
  "validate_parameter_value sa key v s =
     (case get_parameter_bounds sa key of
        None \<Rightarrow> Inl (Err InvalidParameterKey)
      | Some b \<Rightarrow>
          if key = ''cooldown'' then
            bind_res (read_u64 v) (\<lambda>secs.
              if \<not> in_bounds b secs then Inl (Err InvalidCooldown)
              else validate_cross_parameter_constraints sa key v s)
          else if key = ''hist_dep'' then
            bind_res (read_u32 v 0) (\<lambda>depth.
              if \<not> in_bounds b (ucast depth) then Inl (Err InvalidHistoryDepth) else Inr ())
          else if key = ''decay_rt'' then validate_decay_rate v
          else if key = ''vel_cap'' then validate_velocity_cap v
          else if key = ''upg_dlay'' then
            bind_res (read_u64 v) (\<lambda>delay. if \<not> in_bounds b delay then Inl (Err InvalidUpgradeDelay) else Inr ())
          else if key = ''stale_win'' then
            bind_res (read_u64 v) (\<lambda>secs.
              if \<not> in_bounds b secs then Inl (Err InvalidParameterValue)
              else validate_cross_parameter_constraints sa key v s)
          else Inl (Err InvalidParameterKey))"

definition apply_parameter_change :: "staleness_access \<Rightarrow> symbol \<Rightarrow> bytes \<Rightarrow> governed \<Rightarrow> governed op" where
  "apply_parameter_change sa key v s =
     (case s of (c, g) \<Rightarrow>
      bind_res (validate_parameter_value sa key v s) (\<lambda>_.
      if key = ''cooldown'' then
        bind_res (read_u64 v) (\<lambda>secs.
          Inr ((with_cooldown_secs secs c, g), [Event ''cooldown_updated'' [VU64 secs]]))
      else if key = ''hist_dep'' then
        bind_res (read_u32 v 0) (\<lambda>depth.
          Inr ((with_history_max_depth depth c, g), [Event ''history_depth_updated'' [VU32 depth]]))
      else if key = ''decay_rt'' then
        bind_res (read_u32 v 0) (\<lambda>numerator.
        bind_res (read_u32 v 4) (\<lambda>denominator.
          Inr ((c\<lparr>c_portfolio := (c_portfolio c)\<lparr>decay_rate := Some (ucast numerator, ucast denominator)\<rparr>\<rparr>, g),
               [Event ''decay_rate_updated'' [VU64 (ucast numerator), VU64 (ucast denominator)]])))
      else if key = ''vel_cap'' then
        (let enabled = (v ! 0 = 1) in
         bind_res (read_u32 v 1) (\<lambda>points.
           Inr ((c\<lparr>c_limits := (c_limits c)\<lparr>velocity_cap_enabled := Some enabled,
                    velocity_cap_points_per_hour := Some points\<rparr>\<rparr>, g),
                [Event ''score_velocity_cap_set'' [VBool enabled, VU32 points]])))
      else if key = ''upg_dlay'' then
        bind_res (read_u64 v) (\<lambda>delay. Inr ((c, g\<lparr>upgrade_delay := Some delay\<rparr>), []))
      else if key = ''stale_win'' then
        bind_res (read_u64 v) (\<lambda>secs. Inr ((c, sa_set sa secs g), []))
      else Inl (Err InvalidParameterKey)))"

text \<open>\<^verbatim>\<open>copy_from_slice\<close> panics when the lengths of the two slices differ.\<close>

definition copy_from_slice :: "nat \<Rightarrow> bytes \<Rightarrow> bytes res" where
  "copy_from_slice n bs = (if length bs = n then Inr bs else Inl Trap)"

definition get_current_parameter_value :: "staleness_access \<Rightarrow> symbol \<Rightarrow> governed \<Rightarrow> bytes res" where
  "get_current_parameter_value sa key s =
     (case s of (c, g) \<Rightarrow>
      if key = ''cooldown'' then Inr (be_bytes 8 (get_cooldown_secs (c_limits c)))
      else if key = ''hist_dep'' then copy_from_slice 4 (be_bytes 4 (get_history_max_depth (c_history c)))
      else if key = ''decay_rt'' then
        (let (num, den) = get_decay_rate (c_portfolio c) in
         bind_res (copy_from_slice 4 (be_bytes 8 num)) (\<lambda>hi.
         bind_res (copy_from_slice 4 (be_bytes 8 den)) (\<lambda>lo. Inr (hi @ lo))))
      else if key = ''vel_cap'' then
        (let cap = get_score_velocity_cap (c_limits c) in
         bind_res (copy_from_slice 4 (be_bytes 4 (vc_points_per_hour cap))) (\<lambda>points.
           Inr ((if vc_enabled cap then 1 else 0) # points)))
      else if key = ''upg_dlay'' then Inr (be_bytes 8 (get_upgrade_delay g))
      else if key = ''stale_win'' then Inr (be_bytes 8 (sa_get sa g))
      else Inl (Err InvalidParameterKey))"

section \<open>Proposed parameter changes\<close>

definition next_parameter_proposal_id :: "governance \<Rightarrow> u64 \<times> governance" where
  "next_parameter_proposal_id g =
     (let i = unwrap_or (parameter_proposal_next_id g) 1 in
      (i, g\<lparr>parameter_proposal_next_id := Some (saturating_add i 1)\<rparr>))"

definition mark_parameter_proposal_status ::
    "u64 \<Rightarrow> ParameterProposalStatus \<Rightarrow> governance \<Rightarrow> governance" where
  "mark_parameter_proposal_status i status g =
     (case parameter_proposal g i of
        None \<Rightarrow> g
      | Some r \<Rightarrow> g\<lparr>parameter_proposal := (parameter_proposal g)(i \<mapsto> r\<lparr>pr_status := status\<rparr>),
                    pending_parameter_proposal_ids := filter (\<lambda>j. j \<noteq> i) (pending_parameter_proposal_ids g)\<rparr>)"

definition proposal_expiry :: "ParameterProposal \<Rightarrow> u64" where
  "proposal_expiry p = saturating_add (pp_proposed_at p) (saturating_mul (pp_time_lock_secs p) 2)"

definition is_parameter_proposal_expired :: "ParameterProposal \<Rightarrow> u64 \<Rightarrow> bool" where
  "is_parameter_proposal_expired p now \<longleftrightarrow> proposal_expiry p < now"

fun prune_each :: "u64 \<Rightarrow> u64 list \<Rightarrow> governance \<Rightarrow> governance" where
  "prune_each now [] g = g"
| "prune_each now (i # is) g =
     prune_each now is
       (case parameter_proposal g i of
          Some r \<Rightarrow>
            (if pr_status r = Pending \<and> is_parameter_proposal_expired (pr_proposal r) now
             then mark_parameter_proposal_status i Expired g else g)
        | None \<Rightarrow> g)"

definition prune_expired_parameter_proposals :: "env \<Rightarrow> governance \<Rightarrow> governance" where
  "prune_expired_parameter_proposals e g =
     prune_each (ledger_timestamp e) (pending_parameter_proposal_ids g) g"

definition propose_parameter_change ::
    "staleness_access \<Rightarrow> env \<Rightarrow> address list \<Rightarrow> symbol \<Rightarrow> bytes \<Rightarrow> governed \<Rightarrow> (governance \<times> u64 \<times> event list) res" where
  "propose_parameter_change sa e signers key v s =
     (case s of (c, g) \<Rightarrow>
      if \<not> has_admin (c_auth c) then Inl (Err NotInitialized)
      else
        bind_res (require_policy_auth e ScorePolicy signers (c_auth c)) (\<lambda>_.
        bind_res (get_admin (c_auth c)) (\<lambda>adm.
        bind_res (validate_parameter_value sa key v s) (\<lambda>_.
        (let g1 = prune_expired_parameter_proposals e g in
         if MAX_PENDING_PARAMETER_PROPOSALS \<le> length (pending_parameter_proposal_ids g1)
         then Inl (Err TooManyPendingParameterProposals)
         else
           (let now = ledger_timestamp e;
                lock = get_upgrade_delay g1 in
            if lock < MIN_UPGRADE_DELAY_SECS then Inl (Err InvalidParameterTimeLock)
            else
              (let (i, g2) = next_parameter_proposal_id g1;
                   r = \<lparr>pr_proposal = \<lparr>pp_param_key = key, pp_new_value = v, pp_proposer = adm, pp_proposed_at = now,
                        pp_time_lock_secs = lock\<rparr>, pr_status = Pending\<rparr> in
               Inr (g2\<lparr>parameter_proposal := (parameter_proposal g2)(i \<mapsto> r),
                       pending_parameter_proposal_ids := pending_parameter_proposal_ids g2 @ [i]\<rparr>, i,
                    [Event ''parameter_change_proposed''
                       [VU64 i, VSym key, VU64 (saturating_add now lock)]])))))))) "

definition execute_parameter_change ::
    "staleness_access \<Rightarrow> env \<Rightarrow> address list \<Rightarrow> u64 \<Rightarrow> governed \<Rightarrow> governed op" where
  "execute_parameter_change sa e signers i s =
     (case s of (c, g) \<Rightarrow>
      if \<not> has_admin (c_auth c) then Inl (Err NotInitialized)
      else
        bind_res (require_policy_auth e ScorePolicy signers (c_auth c)) (\<lambda>_.
        case parameter_proposal g i of
          None \<Rightarrow> Inl (Err ParameterProposalNotFound)
        | Some r \<Rightarrow>
            if pr_status r = Executed then Inl (Err ParameterProposalAlreadyExecuted)
            else if pr_status r = Vetoed then Inl (Err ParameterProposalVetoed)
            else if pr_status r \<noteq> Pending then Inl (Err ParameterProposalNotFound)
            else
              (let now = ledger_timestamp e; p = pr_proposal r in
               if is_parameter_proposal_expired p now then Inl (Err ParameterProposalExpired)
               else if now < saturating_add (pp_proposed_at p) (pp_time_lock_secs p)
               then Inl (Err ParameterProposalNotReady)
               else
                 bind_res (apply_parameter_change sa (pp_param_key p) (pp_new_value p) (c, g)) (\<lambda>((c', g'), evs).
                   Inr ((c', mark_parameter_proposal_status i Executed g'),
                        evs @ [Event ''parameter_change_executed'' [VU64 i, VSym (pp_param_key p)]])))))"

text \<open>The vetoing signer is read from the list of signers, which may be empty in the mode with a single
  service; the read then traps.\<close>

definition veto_parameter_change :: "env \<Rightarrow> address list \<Rightarrow> u64 \<Rightarrow> auth_state \<Rightarrow> governance \<Rightarrow> governance op" where
  "veto_parameter_change e signers i a g =
     (if \<not> has_admin a then Inl (Err NotInitialized)
      else
        bind_res (require_service_signers_auth e signers a) (\<lambda>evs.
        case parameter_proposal g i of
          None \<Rightarrow> Inl (Err ParameterProposalNotFound)
        | Some r \<Rightarrow>
            if pr_status r \<noteq> Pending then
              (if pr_status r = Vetoed then Inl (Err ParameterProposalVetoed)
               else if pr_status r = Executed then Inl (Err ParameterProposalAlreadyExecuted)
               else Inl (Err ParameterProposalNotFound))
            else
              (let p = pr_proposal r in
               if saturating_add (pp_proposed_at p) (pp_time_lock_secs p div 2) < ledger_timestamp e
               then Inl (Err ParameterProposalVetoPeriodEnded)
               else case signers of
                 [] \<Rightarrow> Inl Trap
               | vetoer # _ \<Rightarrow>
                   Inr (mark_parameter_proposal_status i Vetoed g,
                        evs @ [Event ''parameter_change_vetoed'' [VU64 i, VAddr vetoer]]))))"

definition get_parameter_proposal ::
    "env \<Rightarrow> u64 \<Rightarrow> governance \<Rightarrow> (governance \<times> ParameterProposalRecord) res" where
  "get_parameter_proposal e i g =
     (let g' = prune_expired_parameter_proposals e g in
      case parameter_proposal g' i of
        None \<Rightarrow> Inl (Err ParameterProposalNotFound)
      | Some r \<Rightarrow> Inr (g', r))"

text \<open>The cleanup removes keys of the persistent storage, while the records are in the instance storage:
  it only counts.\<close>

fun cleanup_each :: "u64 \<Rightarrow> governance \<Rightarrow> u64 list \<Rightarrow> nat \<times> u64 \<Rightarrow> nat \<times> u64" where
  "cleanup_each now g [] acc = acc"
| "cleanup_each now g (i # is) (count, oldest) =
     cleanup_each now g is
       (case parameter_proposal g i of
          None \<Rightarrow> (count, oldest)
        | Some r \<Rightarrow>
            if pr_status r = Expired \<and> saturating_add (proposal_expiry (pr_proposal r)) (48 * 3600) < now
            then (Suc count, oldest)
            else (count, min oldest (pp_proposed_at (pr_proposal r))))"

definition cleanup_expired_parameter_proposals :: "env \<Rightarrow> governance \<Rightarrow> nat \<times> u64" where
  "cleanup_expired_parameter_proposals e g =
     (let next = unwrap_or (parameter_proposal_next_id g) 1;
          (count, oldest) = cleanup_each (ledger_timestamp e) g (map of_nat [1..<unat next]) (0, - 1) in
      (count, if oldest = - 1 then ledger_timestamp e else oldest))"

definition cleanup_expired_param_proposals ::
    "env \<Rightarrow> address list \<Rightarrow> auth_state \<Rightarrow> governance \<Rightarrow> (nat \<times> event list) res" where
  "cleanup_expired_param_proposals e signers a g =
     admin_guard e signers a
       (let (count, oldest) = cleanup_expired_parameter_proposals e g in
        Inr (count, [Event ''parameter_change_cleanup'' [VU32 (of_nat count), VU64 oldest]]))"

section \<open>Steps\<close>

text \<open>What the undefined accessors of the staleness window are named for.\<close>

definition staleness_laws :: "staleness_access \<Rightarrow> bool" where
  "staleness_laws sa \<longleftrightarrow>
     (\<forall>v g. sa_get sa (sa_set sa v g) = v \<and> (\<exists>w. sa_set sa v g = g\<lparr>staleness_window := w\<rparr>))"

text \<open>A step of the governance, a setting, or any other work of the contract, which leaves the
  configuration alone.  The identifiers of proposals are assumed not to run out.\<close>

inductive gov_step :: "staleness_access \<Rightarrow> env \<Rightarrow> governed \<Rightarrow> governed \<Rightarrow> bool" for sa e s where
  propose: "propose_upgrade e signers h (c_auth (fst s), snd s) = Inr ((a, g), evs) \<Longrightarrow>
    gov_step sa e s ((fst s)\<lparr>c_auth := a\<rparr>, g)"
| execute: "execute_upgrade e signers (c_auth (fst s)) (snd s) = Inr (g, evs) \<Longrightarrow> gov_step sa e s (fst s, g)"
| veto: "veto_upgrade e signers (c_auth (fst s)) (snd s) = Inr (g, evs) \<Longrightarrow> gov_step sa e s (fst s, g)"
| risk: "set_risk_threshold e signers n (c_auth (fst s)) (snd s) = Inr (g, evs) \<Longrightarrow> gov_step sa e s (fst s, g)"
| depth: "set_history_max_depth e signers n (c_auth (fst s)) (snd s) = Inr (g, evs) \<Longrightarrow> gov_step sa e s (fst s, g)"
| delay: "set_upgrade_delay e signers secs (c_auth (fst s)) (snd s) = Inr (g, evs) \<Longrightarrow> gov_step sa e s (fst s, g)"
| stale: "set_staleness_window e signers secs (c_auth (fst s)) (snd s) = Inr (g, evs) \<Longrightarrow> gov_step sa e s (fst s, g)"
| applied: "apply_param_change e key s = Inr (s', evs) \<Longrightarrow> gov_step sa e s s'"
| bundled: "propose_policy_bundle e signers n secs (c_auth (fst s)) (snd s) = Inr (g, evs) \<Longrightarrow>
    gov_step sa e s (fst s, g)"
| apply_bundle: "apply_policy_bundle e s = Inr (s', evs) \<Longrightarrow> gov_step sa e s s'"
| propose_param: "propose_parameter_change sa e signers key v s = Inr (g, i, evs) \<Longrightarrow> i \<noteq> - 1 \<Longrightarrow>
    gov_step sa e s (fst s, g)"
| execute_param: "execute_parameter_change sa e signers i s = Inr (s', evs) \<Longrightarrow> gov_step sa e s s'"
| veto_param: "veto_parameter_change e signers i (c_auth (fst s)) (snd s) = Inr (g, evs) \<Longrightarrow>
    gov_step sa e s (fst s, g)"
| read_param: "get_parameter_proposal e i (snd s) = Inr (g, r) \<Longrightarrow> gov_step sa e s (fst s, g)"
| setting: "setting_step e (fst s) c \<Longrightarrow> gov_step sa e s (c, snd s)"
| work: "same_configuration (fst s) c \<Longrightarrow> gov_step sa e s (c, snd s)"

inductive governed_reachable :: "staleness_access \<Rightarrow> governed \<Rightarrow> bool" for sa where
  start: "governed_reachable sa (empty_contract, empty_governance)"
| step: "governed_reachable sa s \<Longrightarrow> gov_step sa e s s' \<Longrightarrow> governed_reachable sa s'"

section \<open>Bounds and time locks\<close>

definition delay_ok :: "u64 \<Rightarrow> bool" where
  "delay_ok secs \<longleftrightarrow> MIN_UPGRADE_DELAY_SECS \<le> secs \<and> secs \<le> MAX_UPGRADE_DELAY_SECS"

fun staged_ok :: "symbol \<Rightarrow> ParamValue \<Rightarrow> bool" where
  "staged_ok key (U32 v) \<longleftrightarrow> (key = ''risk_thr'' \<longrightarrow> v \<le> 100) \<and>
     (key = ''hist_dep'' \<longrightarrow> 0 < v \<and> v \<le> MAX_HISTORY_DEPTH)"
| "staged_ok key (U64 v) \<longleftrightarrow> (key = ''upg_dly'' \<longrightarrow> delay_ok v)"

definition staged_wf :: "governance \<Rightarrow> bool" where
  "staged_wf g \<longleftrightarrow> delay_ok (get_upgrade_delay g) \<and>
     (\<forall>key p. pending_param_change g key = Some p \<longrightarrow> staged_ok key (pc_new_value p)) \<and>
     (\<forall>p. pending_policy_bundle g = Some p \<longrightarrow>
        pb_risk_threshold (bp_bundle p) \<le> 100 \<and> cooldown_ok (pb_cooldown_secs (bp_bundle p)))"

definition upgrade_wf :: "governance \<Rightarrow> bool" where
  "upgrade_wf g \<longleftrightarrow> (\<forall>p. pending_upgrade g = Some p \<longrightarrow>
     (\<exists>d. delay_ok d \<and> up_executable_after p = saturating_add (up_proposed_at p) d))"

definition proposals_wf :: "governance \<Rightarrow> bool" where
  "proposals_wf g \<longleftrightarrow> distinct (pending_parameter_proposal_ids g) \<and>
     length (pending_parameter_proposal_ids g) \<le> MAX_PENDING_PARAMETER_PROPOSALS \<and>
     set (pending_parameter_proposal_ids g) = {i. \<exists>r. parameter_proposal g i = Some r \<and> pr_status r = Pending} \<and>
     (\<forall>i r. parameter_proposal g i = Some r \<longrightarrow>
        i < unwrap_or (parameter_proposal_next_id g) 1 \<and> delay_ok (pp_time_lock_secs (pr_proposal r)))"

text \<open>Which parts of the governance state an operation leaves alone.\<close>

definition same_staged :: "governance \<Rightarrow> governance \<Rightarrow> bool" where
  "same_staged g g' \<longleftrightarrow> upgrade_delay g' = upgrade_delay g \<and> pending_param_change g' = pending_param_change g \<and>
     pending_policy_bundle g' = pending_policy_bundle g"

definition same_proposals :: "governance \<Rightarrow> governance \<Rightarrow> bool" where
  "same_proposals g g' \<longleftrightarrow> parameter_proposal g' = parameter_proposal g \<and>
     pending_parameter_proposal_ids g' = pending_parameter_proposal_ids g \<and>
     parameter_proposal_next_id g' = parameter_proposal_next_id g"

lemma same_staged_wf: "same_staged g g' \<Longrightarrow> staged_wf g \<Longrightarrow> staged_wf g'"
  by (simp add: same_staged_def staged_wf_def get_upgrade_delay_def)

lemma same_proposals_wf: "same_proposals g g' \<Longrightarrow> proposals_wf g \<Longrightarrow> proposals_wf g'"
  by (simp add: same_proposals_def proposals_wf_def)

lemma mark_frame [simp]:
  "same_staged g (mark_parameter_proposal_status i st g)"
  "pending_upgrade (mark_parameter_proposal_status i st g) = pending_upgrade g"
  "contract_wasm (mark_parameter_proposal_status i st g) = contract_wasm g"
  "parameter_proposal_next_id (mark_parameter_proposal_status i st g) = parameter_proposal_next_id g"
  by (simp_all add: mark_parameter_proposal_status_def same_staged_def split: option.split)

lemma same_staged_trans: "same_staged g g' \<Longrightarrow> same_staged g' g'' \<Longrightarrow> same_staged g g''"
  by (simp add: same_staged_def)

lemma mark_wf:
  assumes "proposals_wf g" "st \<noteq> Pending"
  shows "proposals_wf (mark_parameter_proposal_status i st g)"
proof (cases "parameter_proposal g i")
  case (Some r)
  then show ?thesis
    using assms le_trans [OF length_filter_le] by (auto simp: proposals_wf_def mark_parameter_proposal_status_def)
qed (use assms in \<open>simp add: mark_parameter_proposal_status_def\<close>)

lemma prune_each_frame:
  "same_staged g (prune_each now ids g) \<and> pending_upgrade (prune_each now ids g) = pending_upgrade g \<and>
   contract_wasm (prune_each now ids g) = contract_wasm g \<and>
   parameter_proposal_next_id (prune_each now ids g) = parameter_proposal_next_id g"
proof (induction ids arbitrary: g)
  case (Cons i ids)
  then show ?case
    by (auto split: option.split intro: same_staged_trans [OF mark_frame(1)])
qed (simp add: same_staged_def)

lemma prune_each_wf: "proposals_wf g \<Longrightarrow> proposals_wf (prune_each now ids g)"
  by (induction ids arbitrary: g) (simp_all add: mark_wf split: option.split)

lemma store_upgrade_eq:
  "fst (store_upgrade e adm h (a, g)) = (a', g') \<Longrightarrow>
   \<exists>p. g' = g\<lparr>pending_upgrade := Some p\<rparr> \<and> up_new_wasm_hash p = h \<and> up_proposed_at p = ledger_timestamp e \<and>
     up_executable_after p = saturating_add (ledger_timestamp e) (get_upgrade_delay g)"
  by (auto simp: store_upgrade_def Let_def append_governance_action_def)

lemma propose_upgrade_Inr:
  assumes "propose_upgrade e signers h (a, g) = Inr ((a', g'), evs)"
  shows "pending_upgrade g = None \<and> (g' = g \<or> (\<exists>p. g' = g\<lparr>pending_upgrade := Some p\<rparr> \<and> up_new_wasm_hash p = h \<and>
     up_proposed_at p = ledger_timestamp e \<and>
     up_executable_after p = saturating_add (ledger_timestamp e) (get_upgrade_delay g)))"
  using assms store_upgrade_eq [of e _ h _ g a' g'] store_upgrade_eq [of e _ h _ g a' g', OF arg_cong [of _ "((a', g'), evs)" fst, simplified]]
  by (auto simp: propose_upgrade_def bind_res_Inr_iff Let_def case_prod_unfold split: if_splits)

lemma stage_param_change_Inr:
  assumes "stage_param_change e key v g = Inr (g', evs)" "staged_ok key v"
  shows "same_proposals g g' \<and> pending_upgrade g' = pending_upgrade g \<and> (staged_wf g \<longrightarrow> staged_wf g')"
  using assms by (auto simp: stage_param_change_def same_proposals_def staged_wf_def get_upgrade_delay_def Let_def
      split: if_splits)

lemmas staged_setter_defs = set_risk_threshold_def set_history_max_depth_def set_upgrade_delay_def
  set_staleness_window_def

lemma staged_setters:
  "set_risk_threshold e signers n a g = Inr (g', evs) \<Longrightarrow> \<exists>key v. stage_param_change e key v g = Inr (g', evs) \<and> staged_ok key v"
  "set_history_max_depth e signers n a g = Inr (g', evs) \<Longrightarrow> \<exists>key v. stage_param_change e key v g = Inr (g', evs) \<and> staged_ok key v"
  "set_upgrade_delay e signers secs a g = Inr (g', evs) \<Longrightarrow> \<exists>key v. stage_param_change e key v g = Inr (g', evs) \<and> staged_ok key v"
  "set_staleness_window e signers secs a g = Inr (g', evs) \<Longrightarrow> \<exists>key v. stage_param_change e key v g = Inr (g', evs) \<and> staged_ok key v"
  by (force simp: staged_setter_defs delay_ok_def word_gt_0 dest!: guard_InrD(1) split: if_splits)+

lemma with_bounds:
  "configuration_bounds c \<Longrightarrow> n \<le> 100 \<Longrightarrow> configuration_bounds (with_risk_threshold n c)"
  "configuration_bounds c \<Longrightarrow> 0 < n \<Longrightarrow> n \<le> MAX_HISTORY_DEPTH \<Longrightarrow> configuration_bounds (with_history_max_depth n c)"
  "configuration_bounds c \<Longrightarrow> cooldown_ok secs \<Longrightarrow> configuration_bounds (with_cooldown_secs secs c)"
  by (auto simp: configuration_bounds_def with_risk_threshold_def with_history_max_depth_def with_cooldown_secs_def
      monitor_bounds_def limits_bounds_iff get_risk_threshold_def get_escalation_threshold_def
      get_hysteresis_margin_def get_jump_threshold_def get_history_max_depth_def)

lemma apply_param_change_Inr:
  assumes "apply_param_change e key (c, g) = Inr ((c', g'), evs)" "staged_wf g" "configuration_bounds c"
  shows "configuration_bounds c'" "staged_wf g'" "same_proposals g g'" "pending_upgrade g' = pending_upgrade g"
proof -
  from assms(1) obtain p where p: "pending_param_change g key = Some p"
    by (auto simp: apply_param_change_def split: option.splits)
  then have ok: "staged_ok key (pc_new_value p)"
    using assms(2) by (auto simp: staged_wf_def)
  show "configuration_bounds c'"
    using assms(1,3) p ok with_bounds [OF assms(3)]
    by (auto simp: apply_param_change_def Let_def split: if_splits ParamValue.splits)
  have "delay_ok (get_upgrade_delay g')"
  proof (cases "pc_new_value p")
    case (U32 v)
    then show ?thesis
      using assms(1,2) p by (auto simp: apply_param_change_def Let_def staged_wf_def get_upgrade_delay_def split: if_splits)
  next
    case (U64 v)
    then show ?thesis
      using assms(1) assms(2) [unfolded staged_wf_def, THEN conjunct1] p ok
      by (auto simp: apply_param_change_def Let_def get_upgrade_delay_def split: if_splits)
  qed
  then show "staged_wf g'"
    using assms(1,2) p by (auto simp: apply_param_change_def Let_def staged_wf_def split: if_splits ParamValue.splits)
  show "same_proposals g g'" "pending_upgrade g' = pending_upgrade g"
    using assms(1) p by (auto simp: apply_param_change_def Let_def same_proposals_def split: if_splits ParamValue.splits)
qed

lemma ucast_depth:
  fixes n :: u32
  assumes "1 \<le> (ucast n :: u64)" "(ucast n :: u64) \<le> ucast MAX_HISTORY_DEPTH"
  shows "0 < n" "n \<le> MAX_HISTORY_DEPTH"
proof -
  have u: "unat (ucast n :: u64) = unat n"
    using unat_less_pow [of n] by (intro unat_ucast_fits) simp
  show "0 < n"
    using assms(1) u by (simp add: word_less_nat_alt word_le_nat_alt)
  show "n \<le> MAX_HISTORY_DEPTH"
    using assms(2) u by (simp add: word_le_nat_alt MAX_HISTORY_DEPTH_def)
qed

lemma apply_parameter_change_cases:
  assumes "apply_parameter_change sa key v (c, g) = Inr ((c', g'), evs)"
  obtains (cooldown) secs where "key = ''cooldown''" "read_u64 v = Inr secs" "c' = with_cooldown_secs secs c" "g' = g"
  | (depth) n where "key = ''hist_dep''" "read_u32 v 0 = Inr n" "c' = with_history_max_depth n c" "g' = g"
  | (decay) num den where "key = ''decay_rt''" "read_u32 v 0 = Inr num" "read_u32 v 4 = Inr den"
      "c' = c\<lparr>c_portfolio := (c_portfolio c)\<lparr>decay_rate := Some (ucast num, ucast den)\<rparr>\<rparr>" "g' = g"
  | (velocity) points where "key = ''vel_cap''" "read_u32 v 1 = Inr points"
      "c' = c\<lparr>c_limits := (c_limits c)\<lparr>velocity_cap_enabled := Some (v ! 0 = 1),
         velocity_cap_points_per_hour := Some points\<rparr>\<rparr>" "g' = g"
  | (delay) secs where "key = ''upg_dlay''" "read_u64 v = Inr secs" "c' = c" "g' = g\<lparr>upgrade_delay := Some secs\<rparr>"
  | (stale) secs where "key = ''stale_win''" "read_u64 v = Inr secs" "c' = c" "g' = sa_set sa secs g"
proof -
  consider "key = ''cooldown''" | "key \<noteq> ''cooldown''" "key = ''hist_dep''"
    | "key \<noteq> ''cooldown''" "key \<noteq> ''hist_dep''" "key = ''decay_rt''"
    | "key \<noteq> ''cooldown''" "key \<noteq> ''hist_dep''" "key \<noteq> ''decay_rt''"
    by blast
  then show thesis
  proof cases
    case 1
    then show ?thesis
      using assms cooldown by (auto simp: apply_parameter_change_def bind_res_Inr_iff)
  next
    case 2
    then show ?thesis
      using assms depth by (auto simp: apply_parameter_change_def bind_res_Inr_iff)
  next
    case 3
    then show ?thesis
      using assms decay by (auto simp: apply_parameter_change_def bind_res_Inr_iff)
  next
    case 4
    then have "(key = ''vel_cap'' \<and> (\<exists>points. read_u32 v 1 = Inr points \<and>
        c' = c\<lparr>c_limits := (c_limits c)\<lparr>velocity_cap_enabled := Some (v ! 0 = 1),
          velocity_cap_points_per_hour := Some points\<rparr>\<rparr> \<and> g' = g)) \<or>
        (key = ''upg_dlay'' \<and> (\<exists>secs. read_u64 v = Inr secs \<and> c' = c \<and> g' = g\<lparr>upgrade_delay := Some secs\<rparr>)) \<or>
        (key = ''stale_win'' \<and> (\<exists>secs. read_u64 v = Inr secs \<and> c' = c \<and> g' = sa_set sa secs g))"
      using assms by (simp add: apply_parameter_change_def bind_res_Inr_iff Let_def split: if_splits) blast+
    then show ?thesis
      using velocity delay stale by blast
  qed
qed

lemma validated_cooldown:
  "validate_parameter_value sa ''cooldown'' v s = Inr () \<Longrightarrow> read_u64 v = Inr secs \<Longrightarrow> cooldown_ok secs"
  by (simp add: validate_parameter_value_def get_parameter_bounds_def bounds_registry_def in_bounds_def cooldown_ok_def
      split: if_splits)

lemma validated_depth:
  "validate_parameter_value sa ''hist_dep'' v s = Inr () \<Longrightarrow> read_u32 v 0 = Inr n \<Longrightarrow> 0 < n \<and> n \<le> MAX_HISTORY_DEPTH"
  using ucast_depth [of n]
  by (simp add: validate_parameter_value_def get_parameter_bounds_def bounds_registry_def in_bounds_def split: if_splits)

lemma validated_delay:
  "validate_parameter_value sa ''upg_dlay'' v s = Inr () \<Longrightarrow> read_u64 v = Inr secs \<Longrightarrow> delay_ok secs"
  by (simp add: validate_parameter_value_def get_parameter_bounds_def bounds_registry_def in_bounds_def delay_ok_def
      split: if_splits)

lemma apply_parameter_change_Inr:
  assumes "apply_parameter_change sa key v (c, g) = Inr ((c', g'), evs)" "staleness_laws sa"
    "staged_wf g" "configuration_bounds c"
  shows "configuration_bounds c' \<and> staged_wf g' \<and> same_proposals g g' \<and> pending_upgrade g' = pending_upgrade g"
proof -
  have valid: "validate_parameter_value sa key v (c, g) = Inr ()"
    using assms(1) by (auto simp: apply_parameter_change_def bind_res_Inr_iff)
  show ?thesis
    using assms(1)
  proof (cases rule: apply_parameter_change_cases)
    case (cooldown secs)
    then show ?thesis
      using with_bounds(3) assms(3,4) validated_cooldown valid by (auto simp: same_proposals_def)
  next
    case (depth n)
    then show ?thesis
      using with_bounds(2) assms(3,4) validated_depth valid by (auto simp: same_proposals_def)
  next
    case (velocity points)
    then show ?thesis
      using assms(3,4) by (simp add: configuration_bounds_def limits_bounds_iff same_proposals_def)
  next
    case (delay secs)
    then show ?thesis
      using assms(3,4) validated_delay valid by (simp add: staged_wf_def same_proposals_def get_upgrade_delay_def)
  next
    case (stale secs)
    obtain w where "sa_set sa secs g = g\<lparr>staleness_window := w\<rparr>"
      using assms(2) by (auto simp: staleness_laws_def)
    then show ?thesis
      using stale assms(3,4) by (simp add: staged_wf_def same_proposals_def get_upgrade_delay_def)
  qed (use assms(3,4) in \<open>simp add: configuration_bounds_def same_proposals_def\<close>)
qed

definition governed_wf :: "governed \<Rightarrow> bool" where
  "governed_wf s \<longleftrightarrow> configuration_bounds (fst s) \<and> staged_wf (snd s) \<and> upgrade_wf (snd s) \<and> proposals_wf (snd s)"

lemma governed_wf_frame:
  assumes "governed_wf (c, g)" "configuration_bounds c'" "staged_wf g'" "pending_upgrade g' = pending_upgrade g"
    "proposals_wf g'"
  shows "governed_wf (c', g')"
  using assms by (simp add: governed_wf_def upgrade_wf_def)

lemma prune_wf:
  assumes "governed_wf (c, g)"
  shows "governed_wf (c, prune_expired_parameter_proposals e g)"
  using assms governed_wf_frame [OF assms] prune_each_frame [of g] prune_each_wf [of g] same_staged_wf
  by (metis governed_wf_def fst_conv snd_conv prune_expired_parameter_proposals_def)

lemma next_id_fresh:
  fixes i :: u64
  shows "i \<noteq> - 1 \<Longrightarrow> j < i \<Longrightarrow> j < saturating_add i 1" "i \<noteq> - 1 \<Longrightarrow> i < saturating_add i 1"
proof -
  have "unat (saturating_add i 1) = Suc (unat i)" if "i \<noteq> - 1"
  proof -
    have "unat i \<noteq> unat (- 1 :: u64)"
      using that by (metis word_unat_eq_iff)
    then show ?thesis
      using unat_less_pow [of i] by (simp add: unat_ops)
  qed
  then show "i \<noteq> - 1 \<Longrightarrow> j < i \<Longrightarrow> j < saturating_add i 1" "i \<noteq> - 1 \<Longrightarrow> i < saturating_add i 1"
    by (simp_all add: word_less_nat_alt)
qed

lemma propose_parameter_change_Inr:
  assumes "propose_parameter_change sa e signers key v (c, g) = Inr (g', i, evs)"
  shows "i = unwrap_or (parameter_proposal_next_id (prune_expired_parameter_proposals e g)) 1 \<and>
    length (pending_parameter_proposal_ids (prune_expired_parameter_proposals e g)) < MAX_PENDING_PARAMETER_PROPOSALS \<and>
    (\<exists>r. pr_status r = Pending \<and>
       pp_time_lock_secs (pr_proposal r) = get_upgrade_delay (prune_expired_parameter_proposals e g) \<and>
       g' = (prune_expired_parameter_proposals e g)\<lparr>parameter_proposal_next_id := Some (saturating_add i 1),
         parameter_proposal := (parameter_proposal (prune_expired_parameter_proposals e g))(i \<mapsto> r),
         pending_parameter_proposal_ids := pending_parameter_proposal_ids (prune_expired_parameter_proposals e g) @ [i]\<rparr>)"
proof -
  let ?g = "prune_expired_parameter_proposals e g"
  obtain adm where "get_admin (c_auth c) = Inr adm"
    using assms by (auto simp: propose_parameter_change_def bind_res_Inr_iff split: if_splits)
  then show ?thesis
    using assms
    by (auto simp: propose_parameter_change_def bind_res_Inr_iff Let_def next_parameter_proposal_id_def not_le
        intro!: exI [of _ "\<lparr>pr_proposal = \<lparr>pp_param_key = key, pp_new_value = v, pp_proposer = adm,
          pp_proposed_at = ledger_timestamp e, pp_time_lock_secs = get_upgrade_delay ?g\<rparr>, pr_status = Pending\<rparr>"]
        split: if_splits)
qed

lemma propose_parameter_change_wf:
  assumes "propose_parameter_change sa e signers key v (c, g) = Inr (g', i, evs)" "i \<noteq> - 1" "governed_wf (c, g)"
  shows "governed_wf (c, g')"
proof -
  let ?g = "prune_expired_parameter_proposals e g"
  have wf: "governed_wf (c, ?g)"
    by (rule prune_wf [OF assms(3)])
  from assms(1) obtain r where r: "i = unwrap_or (parameter_proposal_next_id ?g) 1"
    "length (pending_parameter_proposal_ids ?g) < MAX_PENDING_PARAMETER_PROPOSALS" "pr_status r = Pending"
    "pp_time_lock_secs (pr_proposal r) = get_upgrade_delay ?g"
    "g' = ?g\<lparr>parameter_proposal_next_id := Some (saturating_add i 1), parameter_proposal := (parameter_proposal ?g)(i \<mapsto> r),
       pending_parameter_proposal_ids := pending_parameter_proposal_ids ?g @ [i]\<rparr>"
    using propose_parameter_change_Inr by blast
  have fresh: "parameter_proposal ?g i = None"
    using wf by (cases "parameter_proposal ?g i") (auto simp: governed_wf_def proposals_wf_def r(1))
  then have "i \<notin> set (pending_parameter_proposal_ids ?g)"
    using wf by (auto simp: governed_wf_def proposals_wf_def)
  then have "proposals_wf g'"
    using wf r(1-4) fresh next_id_fresh [OF assms(2)]
    by (auto simp: governed_wf_def proposals_wf_def staged_wf_def r(5))
  then show ?thesis
    using wf by (simp add: governed_wf_def r(5) staged_wf_def upgrade_wf_def get_upgrade_delay_def)
qed

lemma execute_parameter_change_Inr:
  assumes "execute_parameter_change sa e signers i (c, g) = Inr ((c', g'), evs)"
  obtains r g1 evs' where "parameter_proposal g i = Some r" "pr_status r = Pending"
    "\<not> is_parameter_proposal_expired (pr_proposal r) (ledger_timestamp e)"
    "saturating_add (pp_proposed_at (pr_proposal r)) (pp_time_lock_secs (pr_proposal r)) \<le> ledger_timestamp e"
    "apply_parameter_change sa (pp_param_key (pr_proposal r)) (pp_new_value (pr_proposal r)) (c, g) = Inr ((c', g1), evs')"
    "g' = mark_parameter_proposal_status i Executed g1"
  using assms by (auto simp: execute_parameter_change_def bind_res_Inr_iff Let_def not_less split: if_splits option.splits)

lemma execute_parameter_change_wf:
  assumes "execute_parameter_change sa e signers i (c, g) = Inr ((c', g'), evs)" "staleness_laws sa" "governed_wf (c, g)"
  shows "governed_wf (c', g')"
  using assms(1)
proof (rule execute_parameter_change_Inr)
  fix r g1 evs'
  assume app: "apply_parameter_change sa (pp_param_key (pr_proposal r)) (pp_new_value (pr_proposal r)) (c, g) = Inr ((c', g1), evs')"
    and g': "g' = mark_parameter_proposal_status i Executed g1"
  have g1: "configuration_bounds c' \<and> staged_wf g1 \<and> same_proposals g g1 \<and> pending_upgrade g1 = pending_upgrade g"
    using apply_parameter_change_Inr [OF app assms(2)] assms(3) by (simp add: governed_wf_def)
  then have "proposals_wf g'"
    using mark_wf [of g1 Executed i] same_proposals_wf [of g g1] assms(3) by (simp add: governed_wf_def g')
  then show ?thesis
    using g1 governed_wf_frame [OF assms(3), of c' g'] same_staged_wf [OF mark_frame(1)] by (simp add: g')
qed

lemma veto_parameter_change_Inr:
  assumes "veto_parameter_change e signers i a g = Inr (g', evs)"
  obtains r evs' where "parameter_proposal g i = Some r" "pr_status r = Pending"
    "ledger_timestamp e \<le> saturating_add (pp_proposed_at (pr_proposal r)) (pp_time_lock_secs (pr_proposal r) div 2)"
    "require_service_signers_auth e signers a = Inr evs'" "g' = mark_parameter_proposal_status i Vetoed g"
  using assms by (auto simp: veto_parameter_change_def bind_res_Inr_iff Let_def not_less
      split: if_splits option.splits list.splits)

lemma mark_governed_wf:
  "governed_wf (c, g) \<Longrightarrow> st \<noteq> Pending \<Longrightarrow> governed_wf (c, mark_parameter_proposal_status i st g)"
  using governed_wf_frame [of c g c "mark_parameter_proposal_status i st g"] mark_wf same_staged_wf [OF mark_frame(1)]
  by (auto simp: governed_wf_def)

lemma staged_governed_wf:
  assumes "\<exists>key v. stage_param_change e key v g = Inr (g', evs) \<and> staged_ok key v" "governed_wf (c, g)"
  shows "governed_wf (c, g')"
  using assms stage_param_change_Inr [of e _ _ g g' evs] same_proposals_wf [of g g']
  by (auto simp: governed_wf_def upgrade_wf_def)

lemma upgrade_governed_wf:
  assumes "governed_wf (c, g)"
  shows "propose_upgrade e signers h (c_auth c, g) = Inr ((a, g'), evs) \<Longrightarrow> governed_wf (c\<lparr>c_auth := a\<rparr>, g')"
    and "execute_upgrade e signers (c_auth c) g = Inr (g', evs) \<Longrightarrow> governed_wf (c, g')"
    and "veto_upgrade e signers (c_auth c) g = Inr (g', evs) \<Longrightarrow> governed_wf (c, g')"
proof -
  have frame: "governed_wf (c, g\<lparr>pending_upgrade := u\<rparr>)" if "\<And>p. u = Some p \<Longrightarrow>
      \<exists>d. delay_ok d \<and> up_executable_after p = saturating_add (up_proposed_at p) d" for u
    using assms that by (simp add: governed_wf_def staged_wf_def upgrade_wf_def proposals_wf_def get_upgrade_delay_def)
  have auth: "governed_wf (c\<lparr>c_auth := a\<rparr>, g') = governed_wf (c, g')"
    by (simp add: governed_wf_def configuration_bounds_def)
  have "delay_ok (get_upgrade_delay g)"
    using assms by (simp add: governed_wf_def staged_wf_def)
  then show "propose_upgrade e signers h (c_auth c, g) = Inr ((a, g'), evs) \<Longrightarrow> governed_wf (c\<lparr>c_auth := a\<rparr>, g')"
    using propose_upgrade_Inr [of e signers h "c_auth c" g a g' evs] assms by (auto simp: auth intro!: frame)
  show "execute_upgrade e signers (c_auth c) g = Inr (g', evs) \<Longrightarrow> governed_wf (c, g')"
    using assms by (auto simp: execute_upgrade_def bind_res_Inr_iff governed_wf_def staged_wf_def upgrade_wf_def
        proposals_wf_def get_upgrade_delay_def split: if_splits option.splits)
  show "veto_upgrade e signers (c_auth c) g = Inr (g', evs) \<Longrightarrow> governed_wf (c, g')"
    using frame [of None] by (auto simp: veto_upgrade_def bind_res_Inr_iff split: if_splits)
qed

lemma bundle_governed_wf:
  assumes "governed_wf (c, g)"
  shows "propose_policy_bundle e signers n secs a g = Inr (g', evs) \<Longrightarrow> governed_wf (c, g')"
    and "apply_policy_bundle e (c, g) = Inr ((c', g'), evs) \<Longrightarrow> governed_wf (c', g')"
proof -
  have frame: "governed_wf (c, g\<lparr>pending_policy_bundle := b\<rparr>)" if "\<And>p. b = Some p \<Longrightarrow>
      pb_risk_threshold (bp_bundle p) \<le> 100 \<and> cooldown_ok (pb_cooldown_secs (bp_bundle p))" for b
    using assms that by (simp add: governed_wf_def staged_wf_def upgrade_wf_def proposals_wf_def get_upgrade_delay_def)
  show "propose_policy_bundle e signers n secs a g = Inr (g', evs) \<Longrightarrow> governed_wf (c, g')"
    by (auto simp: propose_policy_bundle_def Let_def cooldown_ok_def not_less intro!: frame dest!: guard_InrD(1)
        split: if_splits)
  assume "apply_policy_bundle e (c, g) = Inr ((c', g'), evs)"
  then obtain p where p: "pending_policy_bundle g = Some p" "g' = g\<lparr>pending_policy_bundle := None\<rparr>"
    "c' = with_cooldown_secs (pb_cooldown_secs (bp_bundle p)) (with_risk_threshold (pb_risk_threshold (bp_bundle p)) c)"
    by (auto simp: apply_policy_bundle_def Let_def split: if_splits option.splits)
  then have "configuration_bounds c'"
    using assms with_bounds(1) [of c] with_bounds(3) by (simp add: governed_wf_def staged_wf_def)
  then show "governed_wf (c', g')"
    using frame [of None] by (simp add: governed_wf_def p(2))
qed

lemma applied_governed_wf:
  assumes "apply_param_change e key (c, g) = Inr ((c', g'), evs)" "governed_wf (c, g)"
  shows "governed_wf (c', g')"
proof -
  have wf: "staged_wf g" "configuration_bounds c" "proposals_wf g"
    using assms(2) by (simp_all add: governed_wf_def)
  note applied = apply_param_change_Inr [OF assms(1) wf(1,2)]
  show ?thesis
    using governed_wf_frame [OF assms(2) applied(1,2,4) same_proposals_wf [OF applied(3) wf(3)]] .
qed

lemma gov_step_wf:
  assumes "gov_step sa e s s'" "staleness_laws sa" "governed_wf s"
  shows "governed_wf s'"
proof -
  obtain c g c' g' where s: "s = (c, g)" "s' = (c', g')"
    by (cases s; cases s')
  note wf = assms(3) [unfolded s]
  show ?thesis
    using assms(1)
  proof (cases rule: gov_step.cases)
    case (veto_param signers i g' evs)
    then show ?thesis
      using mark_governed_wf [OF wf] by (auto simp: s elim!: veto_parameter_change_Inr)
  next
    case (read_param i g' r)
    then show ?thesis
      using prune_wf [OF wf] by (auto simp: s get_parameter_proposal_def Let_def split: option.splits)
  next
    case (setting c')
    then show ?thesis
      using setting_step_bounds wf by (auto simp: s governed_wf_def)
  next
    case (work c')
    then show ?thesis
      using configuration_bounds_cong wf by (auto simp: s governed_wf_def)
  next
    case (risk signers n g' evs)
    then show ?thesis
      using staged_governed_wf [OF staged_setters(1) wf] by (simp add: s)
  next
    case (depth signers n g' evs)
    then show ?thesis
      using staged_governed_wf [OF staged_setters(2) wf] by (simp add: s)
  next
    case (delay signers secs g' evs)
    then show ?thesis
      using staged_governed_wf [OF staged_setters(3) wf] by (simp add: s)
  next
    case (stale signers secs g' evs)
    then show ?thesis
      using staged_governed_wf [OF staged_setters(4) wf] by (simp add: s)
  next
    case (propose signers h a g' evs)
    then show ?thesis
      using upgrade_governed_wf(1) [OF wf] by (simp add: s(1))
  next
    case (execute signers g' evs)
    then show ?thesis
      using upgrade_governed_wf(2) [OF wf] by (simp add: s(1))
  next
    case (veto signers g' evs)
    then show ?thesis
      using upgrade_governed_wf(3) [OF wf] by (simp add: s(1))
  next
    case (bundled signers n secs g' evs)
    then show ?thesis
      using bundle_governed_wf(1) [OF wf] by (simp add: s(1))
  next
    case (propose_param signers key v g' i evs)
    then show ?thesis
      using propose_parameter_change_wf [OF _ _ wf] by (simp add: s(1))
  next
    case (applied key evs)
    then show ?thesis
      unfolding s by (rule applied_governed_wf [OF _ wf])
  next
    case (apply_bundle evs)
    then show ?thesis
      unfolding s by (rule bundle_governed_wf(2) [OF wf])
  next
    case (execute_param signers i evs)
    then show ?thesis
      unfolding s by (rule execute_parameter_change_wf [OF _ assms(2) wf])
  qed
qed

lemma empty_governed_wf: "governed_wf (empty_contract, empty_governance)"
proof -
  have "configuration_bounds empty_contract"
    using empty_bounds by (simp add: configuration_bounds_def empty_contract_def empty_history_store_def
        get_history_max_depth_def DEFAULT_HISTORY_MAX_DEPTH_def MAX_HISTORY_DEPTH_def)
  then show ?thesis
    by (simp add: governed_wf_def staged_wf_def upgrade_wf_def proposals_wf_def empty_governance_def
        get_upgrade_delay_def delay_ok_def DEFAULT_UPGRADE_DELAY_SECS_def MIN_UPGRADE_DELAY_SECS_def
        MAX_UPGRADE_DELAY_SECS_def)
qed

lemma governed_reachable_wf:
  assumes "governed_reachable sa s" "staleness_laws sa"
  shows "governed_wf s"
  using assms(1) by induction (auto intro: empty_governed_wf gov_step_wf [OF _ assms(2)])


lemma add_approvals_set: "set (fst (add_approvals t ss ap)) = set ap \<union> set ss"
  by (induction t ss ap rule: add_approvals.induct) (auto simp: case_prod_unfold Let_def)

lemma add_approvals_distinct: "distinct ap \<Longrightarrow> distinct (fst (add_approvals t ss ap))"
  by (induction t ss ap rule: add_approvals.induct) (auto simp: case_prod_unfold Let_def)

lemma stored_upgrade_approvals:
  assumes "propose_upgrade e signers h (a, g) = Inr ((a', g'), evs)" "pending_upgrade g' = Some p"
    "admin_set a \<noteq> []" "0 < get_admin_threshold a" "distinct (upgrade_approvals a)"
  shows "unat (get_admin_threshold a) \<le> card (set (upgrade_approvals a) \<union> set signers)"
proof -
  let ?ap = "fst (add_approvals (get_admin_threshold a) signers (upgrade_approvals a))"
  have "pending_upgrade g = None"
    using propose_upgrade_Inr [OF assms(1)] by simp
  then have "\<not> length ?ap < unat (get_admin_threshold a)"
    using assms by (auto simp: propose_upgrade_def bind_res_Inr_iff Let_def case_prod_unfold split: if_splits)
  then show ?thesis
    using add_approvals_distinct [OF assms(5), of "get_admin_threshold a" signers] distinct_card [of ?ap]
    by (simp add: add_approvals_set)
qed

lemma executed_upgrade:
  assumes "execute_upgrade e signers a g = Inr (g', evs)" "upgrade_wf g"
  shows "\<exists>p. pending_upgrade g = Some p \<and> contract_wasm g' = up_new_wasm_hash p \<and> pending_upgrade g' = None \<and>
     min (unat (up_proposed_at p) + 172800) (2 ^ 64 - 1) \<le> unat (ledger_timestamp e) \<and>
     require_admin_auth e signers a = Inr ()"
proof -
  from assms(1) obtain p where p: "pending_upgrade g = Some p" "up_executable_after p \<le> ledger_timestamp e"
    "g' = g\<lparr>contract_wasm := up_new_wasm_hash p, pending_upgrade := None\<rparr>"
    "require_policy_auth e UpgradeGovernance signers a = Inr ()"
    by (auto simp: execute_upgrade_def bind_res_Inr_iff not_less split: if_splits option.splits)
  from assms(2) p(1) obtain d where d: "delay_ok d" "up_executable_after p = saturating_add (up_proposed_at p) d"
    by (auto simp: upgrade_wf_def)
  have "172800 \<le> unat d"
    using d(1) by (simp add: delay_ok_def MIN_UPGRADE_DELAY_SECS_def word_le_nat_alt)
  then have "min (unat (up_proposed_at p) + 172800) (2 ^ 64 - 1) \<le> unat (up_executable_after p)"
    by (simp add: d(2) unat_ops)
  then have "min (unat (up_proposed_at p) + 172800) (2 ^ 64 - 1) \<le> unat (ledger_timestamp e)"
    using p(2) unfolding word_le_nat_alt by (rule le_trans)
  moreover have "require_admin_auth e signers a = Inr ()"
    using p(4) by (auto simp: require_policy_auth_def bind_res_Inr_iff)
  ultimately show ?thesis
    using p by simp
qed

text \<open>
  C24: An upgrade runs only the code of the pending proposal, at least two days after that proposal, with the
  authorization of the admins, and once: afterwards nothing is pending and a further execution
  is refused.  An upgrade that is stored in the mode with several admins has at least the
  threshold of distinct approvals.
\<close>

theorem upgrade_time_lock:
  assumes "governed_reachable sa (c, g)" "staleness_laws sa"
  shows "(\<forall>e signers g' evs. execute_upgrade e signers (c_auth c) g = Inr (g', evs) \<longrightarrow>
      (\<exists>p. pending_upgrade g = Some p \<and> contract_wasm g' = up_new_wasm_hash p \<and> pending_upgrade g' = None \<and>
         min (unat (up_proposed_at p) + 172800) (2 ^ 64 - 1) \<le> unat (ledger_timestamp e) \<and>
         require_admin_auth e signers (c_auth c) = Inr () \<and>
         (\<forall>e' signers' a' x. execute_upgrade e' signers' a' g' \<noteq> Inr x))) \<and>
    (\<forall>e signers h a g' evs p. propose_upgrade e signers h (c_auth c, g) = Inr ((a, g'), evs) \<and>
        pending_upgrade g' = Some p \<and> admin_set (c_auth c) \<noteq> [] \<and> 0 < get_admin_threshold (c_auth c) \<and>
        distinct (upgrade_approvals (c_auth c)) \<longrightarrow>
      up_new_wasm_hash p = h \<and> up_proposed_at p = ledger_timestamp e \<and>
      unat (get_admin_threshold (c_auth c)) \<le> card (set (upgrade_approvals (c_auth c)) \<union> set signers))"
proof (intro conjI allI impI; (elim conjE)?)
  have wf: "upgrade_wf g"
    using governed_reachable_wf [OF assms] by (simp add: governed_wf_def)
  have once: "execute_upgrade e' signers' a' g' \<noteq> Inr x" if "pending_upgrade g' = None" for e' signers' a' g' x
    using that by (auto simp: execute_upgrade_def bind_res_Inr_iff)
  fix e signers g' evs
  assume "execute_upgrade e signers (c_auth c) g = Inr (g', evs)"
  from executed_upgrade [OF this wf] once
  show "\<exists>p. pending_upgrade g = Some p \<and> contract_wasm g' = up_new_wasm_hash p \<and> pending_upgrade g' = None \<and>
      min (unat (up_proposed_at p) + 172800) (2 ^ 64 - 1) \<le> unat (ledger_timestamp e) \<and>
      require_admin_auth e signers (c_auth c) = Inr () \<and>
      (\<forall>e' signers' a' x. execute_upgrade e' signers' a' g' \<noteq> Inr x)"
    by blast
next
  fix e signers h a g' evs p
  assume ok: "propose_upgrade e signers h (c_auth c, g) = Inr ((a, g'), evs)" "pending_upgrade g' = Some p"
    and several: "admin_set (c_auth c) \<noteq> []" "0 < get_admin_threshold (c_auth c)" "distinct (upgrade_approvals (c_auth c))"
  show "up_new_wasm_hash p = h" "up_proposed_at p = ledger_timestamp e"
    using propose_upgrade_Inr [OF ok(1)] ok(2) by auto
  show "unat (get_admin_threshold (c_auth c)) \<le> card (set (upgrade_approvals (c_auth c)) \<union> set signers)"
    by (rule stored_upgrade_approvals [OF ok several])
qed

section \<open>The life of a parameter proposal\<close>

text \<open>How the record of a proposal may change in one step: not at all, or from pending to a final status at the
  right time.\<close>

definition status_move :: "u64 \<Rightarrow> ParameterProposalRecord \<Rightarrow> ParameterProposalRecord \<Rightarrow> bool" where
  "status_move now r r' \<longleftrightarrow> r' = r \<or>
     pr_status r = Pending \<and> pr_proposal r' = pr_proposal r \<and>
     (case pr_status r' of
        Pending \<Rightarrow> False
      | Executed \<Rightarrow> saturating_add (pp_proposed_at (pr_proposal r)) (pp_time_lock_secs (pr_proposal r)) \<le> now \<and>
          now \<le> proposal_expiry (pr_proposal r)
      | Vetoed \<Rightarrow> now \<le> saturating_add (pp_proposed_at (pr_proposal r)) (pp_time_lock_secs (pr_proposal r) div 2)
      | Expired \<Rightarrow> proposal_expiry (pr_proposal r) < now)"

lemma status_move_refl [simp]: "status_move now r r"
  by (simp add: status_move_def)

lemma mark_proposal:
  "parameter_proposal (mark_parameter_proposal_status i st g) j =
     (if i = j then map_option (\<lambda>r. r\<lparr>pr_status := st\<rparr>) (parameter_proposal g j) else parameter_proposal g j)"
  by (auto simp: mark_parameter_proposal_status_def split: option.split)

lemma prune_each_proposal:
  "parameter_proposal g i = Some r \<Longrightarrow> \<exists>r'. parameter_proposal (prune_each now ids g) i = Some r' \<and>
     (r' = r \<or> pr_status r = Pending \<and> proposal_expiry (pr_proposal r) < now \<and> r' = r\<lparr>pr_status := Expired\<rparr>)"
proof (induction ids arbitrary: g r)
  case (Cons j ids)
  let ?g = "case parameter_proposal g j of Some r \<Rightarrow>
      (if pr_status r = Pending \<and> is_parameter_proposal_expired (pr_proposal r) now
       then mark_parameter_proposal_status j Expired g else g) | None \<Rightarrow> g"
  have "parameter_proposal ?g i = Some r \<or> (pr_status r = Pending \<and> proposal_expiry (pr_proposal r) < now \<and>
      parameter_proposal ?g i = Some (r\<lparr>pr_status := Expired\<rparr>))"
    using Cons.prems by (auto simp: mark_proposal is_parameter_proposal_expired_def split: option.split)
  then show ?case
    using Cons.IH [of ?g r] Cons.IH [of ?g "r\<lparr>pr_status := Expired\<rparr>"] by fastforce
qed simp

lemma prune_moves:
  assumes "parameter_proposal g i = Some r"
  obtains r' where "parameter_proposal (prune_expired_parameter_proposals e g) i = Some r'"
    "status_move (ledger_timestamp e) r r'"
  using prune_each_proposal [OF assms, of "ledger_timestamp e" "pending_parameter_proposal_ids g"]
  by (auto simp: prune_expired_parameter_proposals_def status_move_def)

lemma execute_moves:
  assumes "execute_parameter_change sa e signers j (c, g) = Inr ((c', g'), evs)" "staleness_laws sa" "governed_wf (c, g)"
    "parameter_proposal g i = Some r"
  shows "\<exists>r'. parameter_proposal g' i = Some r' \<and> status_move (ledger_timestamp e) r r'"
  using assms(1)
proof (rule execute_parameter_change_Inr)
  fix q g1 evs'
  assume q: "parameter_proposal g j = Some q" "pr_status q = Pending"
    "\<not> is_parameter_proposal_expired (pr_proposal q) (ledger_timestamp e)"
    "saturating_add (pp_proposed_at (pr_proposal q)) (pp_time_lock_secs (pr_proposal q)) \<le> ledger_timestamp e"
    and app: "apply_parameter_change sa (pp_param_key (pr_proposal q)) (pp_new_value (pr_proposal q)) (c, g) = Inr ((c', g1), evs')"
    and g': "g' = mark_parameter_proposal_status j Executed g1"
  have "parameter_proposal g1 = parameter_proposal g"
    using apply_parameter_change_Inr [OF app assms(2)] assms(3) by (simp add: governed_wf_def same_proposals_def)
  then show ?thesis
    using q assms(4) by (auto simp: g' mark_proposal status_move_def is_parameter_proposal_expired_def not_less)
qed

lemma propose_moves:
  assumes "propose_parameter_change sa e signers key v (c, g) = Inr (g', j, evs)" "governed_wf (c, g)"
    "parameter_proposal g i = Some r"
  shows "\<exists>r'. parameter_proposal g' i = Some r' \<and> status_move (ledger_timestamp e) r r'"
proof -
  let ?g = "prune_expired_parameter_proposals e g"
  obtain r' where r': "parameter_proposal ?g i = Some r'" "status_move (ledger_timestamp e) r r'"
    using prune_moves [OF assms(3)] .
  have "i < unwrap_or (parameter_proposal_next_id ?g) 1"
    using prune_wf [OF assms(2)] r'(1) by (auto simp: governed_wf_def proposals_wf_def)
  then show ?thesis
    using propose_parameter_change_Inr [OF assms(1)] r' by auto
qed

lemma other_steps_keep_proposals:
  "propose_upgrade e signers h (a, g) = Inr ((a', g'), evs) \<Longrightarrow> parameter_proposal g' = parameter_proposal g"
  "execute_upgrade e signers a g = Inr (g', evs) \<Longrightarrow> parameter_proposal g' = parameter_proposal g"
  "veto_upgrade e signers a g = Inr (g', evs) \<Longrightarrow> parameter_proposal g' = parameter_proposal g"
  "\<exists>key v. stage_param_change e key v g = Inr (g', evs) \<and> staged_ok key v \<Longrightarrow> parameter_proposal g' = parameter_proposal g"
  "apply_param_change e key (c, g) = Inr ((c', g'), evs) \<Longrightarrow> parameter_proposal g' = parameter_proposal g"
  "propose_policy_bundle e signers n secs a g = Inr (g', evs) \<Longrightarrow> parameter_proposal g' = parameter_proposal g"
  "apply_policy_bundle e (c, g) = Inr ((c', g'), evs) \<Longrightarrow> parameter_proposal g' = parameter_proposal g"
  subgoal by (auto dest!: propose_upgrade_Inr)
  subgoal by (auto simp: execute_upgrade_def bind_res_Inr_iff split: if_splits option.splits)
  subgoal by (auto simp: veto_upgrade_def bind_res_Inr_iff split: if_splits)
  subgoal by (auto simp: same_proposals_def dest: stage_param_change_Inr)
  subgoal by (auto simp: apply_param_change_def Let_def split: if_splits option.splits ParamValue.splits)
  subgoal by (auto simp: propose_policy_bundle_def Let_def dest!: guard_InrD(1) split: if_splits)
  subgoal by (auto simp: apply_policy_bundle_def Let_def split: if_splits option.splits)
  done

lemma gov_step_moves:
  assumes "gov_step sa e s s'" "staleness_laws sa" "governed_wf s" "parameter_proposal (snd s) i = Some r"
  shows "\<exists>r'. parameter_proposal (snd s') i = Some r' \<and> status_move (ledger_timestamp e) r r'"
proof -
  obtain c g c' g' where s: "s = (c, g)" "s' = (c', g')"
    by (cases s; cases s')
  note r = assms(4) [unfolded s(1), simplified] and wf = assms(3) [unfolded s(1)]
  have same: ?thesis if "parameter_proposal g' = parameter_proposal g"
    using that r by (simp add: s)
  show ?thesis
    using assms(1)
  proof (cases rule: gov_step.cases)
    case (propose_param signers key v g'' j evs)
    then show ?thesis
      using propose_moves [OF _ wf r] by (simp add: s)
  next
    case (execute_param signers j evs)
    then show ?thesis
      using execute_moves [OF _ assms(2) wf r] by (simp add: s)
  next
    case (veto_param signers j g'' evs)
    then show ?thesis
      using r by (auto simp: s mark_proposal status_move_def elim!: veto_parameter_change_Inr)
  next
    case (read_param j g'' q)
    then show ?thesis
      using prune_moves [OF r] by (auto simp: s get_parameter_proposal_def Let_def split: option.splits)
  qed (use same other_steps_keep_proposals staged_setters [THEN other_steps_keep_proposals(4)] in \<open>simp_all add: s\<close>)
qed

text \<open>
  C23: The list of pending proposals names exactly the records with the status pending, each once and at most
  ten of them.  No record is ever lost or altered, and its status leaves pending at most
  once: to executed between the end of its time lock of at least two days and twice the lock,
  to vetoed within the first half of the lock, and to expired after twice the lock.
\<close>

theorem parameter_proposal_lifecycle:
  assumes "governed_reachable sa s" "staleness_laws sa" "gov_step sa e s s'"
  shows "distinct (pending_parameter_proposal_ids (snd s')) \<and> length (pending_parameter_proposal_ids (snd s')) \<le> 10 \<and>
    set (pending_parameter_proposal_ids (snd s')) =
      {i. \<exists>r. parameter_proposal (snd s') i = Some r \<and> pr_status r = Pending} \<and>
    (\<forall>i r. parameter_proposal (snd s) i = Some r \<longrightarrow> 172800 \<le> pp_time_lock_secs (pr_proposal r) \<and>
      (\<exists>r'. parameter_proposal (snd s') i = Some r' \<and> status_move (ledger_timestamp e) r r'))"
proof -
  have wf: "governed_wf s"
    by (rule governed_reachable_wf [OF assms(1,2)])
  have "governed_wf s'"
    by (rule gov_step_wf [OF assms(3,2) wf])
  moreover have "172800 \<le> pp_time_lock_secs (pr_proposal r)" if "parameter_proposal (snd s) i = Some r" for i r
    using wf that by (auto simp: governed_wf_def proposals_wf_def delay_ok_def MIN_UPGRADE_DELAY_SECS_def)
  ultimately show ?thesis
    using gov_step_moves [OF assms(3,2) wf]
    by (simp add: governed_wf_def proposals_wf_def MAX_PENDING_PARAMETER_PROPOSALS_def)
qed

section \<open>Reading back a parameter\<close>

lemma be_bytes_from_be_bytes:
  assumes "length bs = n" "LENGTH('a) = 8 * n"
  shows "be_bytes n (from_be_bytes bs :: 'a::len word) = bs"
proof -
  have p: "(2 :: nat) ^ LENGTH('a) = 256 ^ n"
    by (simp add: assms(2) power_mult)
  have small: "nat_of_le (rev bs) < 256 ^ n"
    using nat_of_le_less [of "rev bs"] assms(1) by simp
  then have "unat (from_be_bytes bs :: 'a word) = nat_of_le (rev bs)"
    by (simp add: from_be_bytes_def unat_of_nat_small p)
  then have "le_bytes n (from_be_bytes bs :: 'a word) = rev bs"
    using assms(1) small by (intro nat_of_le_inject) (simp_all add: nat_of_le_bytes)
  then show ?thesis
    by (simp add: be_bytes_def)
qed

lemma read_u64_bytes: "read_u64 v = Inr x \<Longrightarrow> be_bytes 8 x = v"
  using be_bytes_from_be_bytes [of v 8, where 'a = 64] by (auto simp: read_u64_def split: if_splits)

lemma read_u32_bytes: "read_u32 v i = Inr x \<Longrightarrow> be_bytes 4 x = take 4 (drop i v)"
  using be_bytes_from_be_bytes [of "take 4 (drop i v)" 4, where 'a = 32] by (auto simp: read_u32_def split: if_splits)

lemma validated_velocity_cap:
  assumes "validate_parameter_value sa ''vel_cap'' v s = Inr ()"
  shows "v = (if v ! 0 = 1 then 1 else 0) # take 4 (drop 1 v)"
proof -
  have v: "length v = 5" "\<not> 1 < v ! 0"
    using assms by (simp_all add: validate_parameter_value_def get_parameter_bounds_def bounds_registry_def
        validate_velocity_cap_def split: if_splits)
  then obtain b bs where "v = b # bs" "length bs = 4"
    by (cases v) auto
  moreover have "b = 0 \<or> b = 1" if "\<not> 1 < b" for b :: u8
    using that by (simp add: word_less_nat_alt word_unat_eq_iff) linarith
  ultimately show ?thesis
    using v by auto
qed

text \<open>
  After a governed change the current value of the parameter reads back as the bytes of the proposal, for
  the history depth as its first four bytes.  The decay rate is the exception: reading it back
  always panics, because its eight-byte numbers are copied into slices of four bytes.
\<close>

theorem parameter_change_reads_back:
  assumes "apply_parameter_change sa key v (c, g) = Inr ((c', g'), evs)" "staleness_laws sa"
  shows "get_current_parameter_value sa key (c', g') =
    (if key = ''decay_rt'' then Inl Trap else if key = ''hist_dep'' then Inr (take 4 v) else Inr v)"
  using assms(1)
proof (cases rule: apply_parameter_change_cases)
  case (cooldown secs)
  then show ?thesis
    using read_u64_bytes by (simp add: get_current_parameter_value_def with_cooldown_secs_def get_cooldown_secs_def)
next
  case (depth n)
  then show ?thesis
    using read_u32_bytes [of v 0 n]
    by (simp add: get_current_parameter_value_def with_history_max_depth_def get_history_max_depth_def copy_from_slice_def)
next
  case (decay num den)
  then show ?thesis
    by (simp add: get_current_parameter_value_def get_decay_rate_def copy_from_slice_def)
next
  case (velocity points)
  have "validate_parameter_value sa ''vel_cap'' v (c, g) = Inr ()"
    using assms(1) velocity(1) by (auto simp: apply_parameter_change_def bind_res_Inr_iff)
  then show ?thesis
    using velocity read_u32_bytes [of v 1 points] validated_velocity_cap [of sa v "(c, g)"]
    by (simp add: get_current_parameter_value_def get_score_velocity_cap_def copy_from_slice_def Let_def)
next
  case (delay secs)
  then show ?thesis
    using read_u64_bytes by (simp add: get_current_parameter_value_def get_upgrade_delay_def)
next
  case (stale secs)
  then show ?thesis
    using read_u64_bytes assms(2) by (simp add: get_current_parameter_value_def staleness_laws_def)
qed

section \<open>A fresh contract\<close>

definition sample_access :: staleness_access where
  "sample_access = \<lparr>sa_min = 3600, sa_max = 2592000, sa_get = get_staleness_window,
     sa_set = (\<lambda>v g. g\<lparr>staleness_window := Some v\<rparr>)\<rparr>"

lemma sample_access_laws: "staleness_laws sample_access"
  by (auto simp: staleness_laws_def sample_access_def get_staleness_window_def)

lemma sample_governed: "governed_reachable sample_access (sample_contract, empty_governance)"
proof -
  have "same_configuration empty_contract sample_contract"
    by (simp add: same_configuration_def sample_contract_def)
  then show ?thesis
    using governed_reachable.step [OF governed_reachable.start gov_step.work, of sample_contract] by simp
qed

lemma sample_time: "ledger_timestamp (sample_env n) = 1000"
  by (simp add: sample_env_def)

lemma sample_policy [simp]: "require_policy_auth (sample_env n) p signers sample_auth = Inr ()"
  by (simp add: require_policy_auth_def require_admin_auth_def sample_auth_def empty_auth_def get_admin_def
      get_admin_threshold_def require_auth_def sample_env_def get_policy_approval_def)


definition sample_proposed :: governance where
  "sample_proposed = empty_governance\<lparr>parameter_proposal_next_id := Some 2,
     parameter_proposal := [1 \<mapsto> \<lparr>pr_proposal = \<lparr>pp_param_key = ''upg_dlay'', pp_new_value = [0, 0, 0, 0, 0, 2, 163, 0],
       pp_proposer = Addr 1, pp_proposed_at = 1000, pp_time_lock_secs = 172800\<rparr>, pr_status = Pending\<rparr>],
     pending_parameter_proposal_ids := [1]\<rparr>"

lemma sample_valid: "validate_parameter_value sample_access ''upg_dlay'' [0, 0, 0, 0, 0, 2, 163, 0] s = Inr ()"
  by (simp add: validate_parameter_value_def get_parameter_bounds_def bounds_registry_def read_u64_def from_be_bytes_def
      in_bounds_def MIN_UPGRADE_DELAY_SECS_def MAX_UPGRADE_DELAY_SECS_def)

lemma sample_proposed_reachable: "governed_reachable sample_access (sample_contract, sample_proposed)"
proof -
  have "propose_parameter_change sample_access (sample_env 1) [] ''upg_dlay'' [0, 0, 0, 0, 0, 2, 163, 0]
      (sample_contract, empty_governance) = Inr (sample_proposed, 1,
        [Event ''parameter_change_proposed'' [VU64 1, VSym ''upg_dlay'', VU64 173800]])"
    by (simp add: propose_parameter_change_def sample_valid prune_expired_parameter_proposals_def empty_governance_def
        MAX_PENDING_PARAMETER_PROPOSALS_def get_upgrade_delay_def DEFAULT_UPGRADE_DELAY_SECS_def
        MIN_UPGRADE_DELAY_SECS_def next_parameter_proposal_id_def sample_time sample_proposed_def saturating_add_def)
  from governed_reachable.step [OF sample_governed gov_step.propose_param [OF this]] show ?thesis
    by simp
qed

theorem parameter_proposal_lifecycle_witness:
  "\<exists>g' r. veto_parameter_change (sample_env 2) [Addr 2] 1 sample_auth sample_proposed =
       Inr (g', [Event ''parameter_change_vetoed'' [VU64 1, VAddr (Addr 2)]]) \<and>
     parameter_proposal g' 1 = Some r \<and> pr_status r = Vetoed \<and> 172800 \<le> pp_time_lock_secs (pr_proposal r) \<and>
     distinct (pending_parameter_proposal_ids g')"
proof -
  let ?g = "mark_parameter_proposal_status 1 Vetoed sample_proposed"
  have veto: "veto_parameter_change (sample_env 2) [Addr 2] 1 sample_auth sample_proposed =
      Inr (?g, [Event ''parameter_change_vetoed'' [VU64 1, VAddr (Addr 2)]])"
    by (simp add: veto_parameter_change_def require_service_signers_auth_def sample_auth_def empty_auth_def get_service_def
        require_auth_def sample_env_def sample_proposed_def saturating_add_def has_admin_def)
  then have step: "gov_step sample_access (sample_env 2) (sample_contract, sample_proposed) (sample_contract, ?g)"
    using gov_step.veto_param [of "sample_env 2" "[Addr 2]" 1 "(sample_contract, sample_proposed)"] by simp
  obtain q where q: "parameter_proposal sample_proposed 1 = Some q"
    by (simp add: sample_proposed_def)
  then have "parameter_proposal ?g 1 = Some (q\<lparr>pr_status := Vetoed\<rparr>)"
    by (simp add: mark_proposal)
  then show ?thesis
    using parameter_proposal_lifecycle [OF sample_proposed_reachable sample_access_laws step] veto q by auto
qed

theorem parameter_change_reads_back_witness:
  "\<exists>s' evs. apply_parameter_change sample_access ''upg_dlay'' [0, 0, 0, 0, 0, 2, 163, 0]
       (sample_contract, empty_governance) = Inr (s', evs) \<and>
     get_current_parameter_value sample_access ''upg_dlay'' s' = Inr [0, 0, 0, 0, 0, 2, 163, 0]"
proof -
  obtain c' g' evs where "apply_parameter_change sample_access ''upg_dlay'' [0, 0, 0, 0, 0, 2, 163, 0]
      (sample_contract, empty_governance) = Inr ((c', g'), evs)"
    by (simp add: apply_parameter_change_def sample_valid read_u64_def)
  then show ?thesis
    using parameter_change_reads_back [OF _ sample_access_laws] by fastforce
qed

theorem upgrade_time_lock_witness:
  "\<exists>g evs g' evs'. propose_upgrade (sample_env 1) [] [7] (sample_auth, empty_governance) = Inr (g, evs) \<and>
     execute_upgrade ((sample_env 2)\<lparr>ledger_timestamp := 173800\<rparr>) [] (fst g) (snd g) = Inr (g', evs') \<and>
     contract_wasm g' = [7] \<and> pending_upgrade g' = None"
proof -
  let ?late = "(sample_env 2)\<lparr>ledger_timestamp := 173800\<rparr>"
  let ?p = "\<lparr>up_new_wasm_hash = [7], up_proposed_at = 1000, up_executable_after = 173800, up_proposed_by = Addr 1\<rparr>"
  let ?g = "empty_governance\<lparr>pending_upgrade := Some ?p\<rparr>"
  have "admin_set sample_auth = []" "pending_upgrade empty_governance = None" "get_upgrade_delay empty_governance = 172800"
    by (simp_all add: sample_auth_def empty_auth_def empty_governance_def get_upgrade_delay_def
        DEFAULT_UPGRADE_DELAY_SECS_def)
  note fresh = this
  have "\<exists>x evs. store_upgrade (sample_env 1) (Addr 1) [7] (sample_auth, empty_governance) =
      ((sample_auth\<lparr>admin_audit_root := x\<rparr>, ?g), evs)"
    by (simp add: store_upgrade_def Let_def append_governance_action_def append_governance_action_raw_def
        update_audit_root_def sample_time fresh saturating_add_def) blast
  then obtain x evs where proposed: "propose_upgrade (sample_env 1) [] [7] (sample_auth, empty_governance) =
      Inr ((sample_auth\<lparr>admin_audit_root := x\<rparr>, ?g), evs)"
    by (auto simp: propose_upgrade_def Let_def fresh)
  have "gov_step sample_access (sample_env 1) (sample_contract, empty_governance)
      (sample_contract\<lparr>c_auth := sample_auth\<lparr>admin_audit_root := x\<rparr>\<rparr>, ?g)"
    using gov_step.propose [of "sample_env 1" "[]" "[7]" "(sample_contract, empty_governance)"] proposed by simp
  note reach = governed_reachable.step [OF sample_governed this]
  obtain g' evs' where executed: "execute_upgrade ?late [] (sample_auth\<lparr>admin_audit_root := x\<rparr>) ?g = Inr (g', evs')"
    by (simp add: execute_upgrade_def require_policy_auth_def require_admin_auth_def sample_auth_def empty_auth_def
        get_admin_def get_admin_threshold_def require_auth_def sample_env_def get_policy_approval_def has_admin_def)
  then show ?thesis
    using upgrade_time_lock [OF reach sample_access_laws] proposed by fastforce
qed

end
