(* ===== verification/Credits.thy ===== *)
theory Credits
  imports Gate Token
begin

text \<open>
  Prepaid credits for gate queries and the tiered fee schedule that is charged against them
  (\<^verbatim>\<open>rent_relay_credits.rs\<close> 504--890, \<^verbatim>\<open>fee_schedule.rs\<close>, \<^verbatim>\<open>storage.rs\<close> 3752--3906).  Deposits and
  withdrawals move the credit token, a query only moves an amount from the depositor's
  liability to the revenue.
\<close>

abbreviation "InvalidCreditAmount \<equiv> InvalidScore"
abbreviation "GateCreditTokenNotSet \<equiv> FeeTokenNotSet"
abbreviation "InsufficientGateCredits \<equiv> RateLimitExceeded"
abbreviation "NoWithdrawalRequest \<equiv> ScoreNotFound"
abbreviation "WithdrawalNotYetUnlocked \<equiv> RateLimitExceeded"
abbreviation "InvalidFeeTierSchedule \<equiv> InvalidThreshold"
abbreviation "InvalidExemptionExpiry \<equiv> InvalidTimestamp"

record FeeTier =
  ft_min_volume :: u32
  ft_fee :: int

record credits =
  gate_credit_token :: "address option"
  gate_credit_balance :: "address \<Rightarrow> int option"
  gate_credit_liability_total :: "int option"
  gate_credit_revenue :: "int option"
  gate_credit_withdrawal_delay :: "u64 option"
  gate_credit_withdrawal_request :: "address \<Rightarrow> (int \<times> u64) option"
  fee_tier_schedule :: "FeeTier list"
  fee_tier_window_ledgers :: "u32 option"
  fee_exemption :: "address \<Rightarrow> (u64 \<times> u32) option"
  consumer_volume_window :: "address \<Rightarrow> (u32 \<times> u32) option"

definition empty_credits :: credits where
  "empty_credits = \<lparr>gate_credit_token = None, gate_credit_balance = (\<lambda>_. None), gate_credit_liability_total = None,
     gate_credit_revenue = None, gate_credit_withdrawal_delay = None, gate_credit_withdrawal_request = (\<lambda>_. None),
     fee_tier_schedule = [], fee_tier_window_ledgers = None, fee_exemption = (\<lambda>_. None),
     consumer_volume_window = (\<lambda>_. None)\<rparr>"

definition MAX_FEE_TIERS :: nat where "MAX_FEE_TIERS = 10"
definition MAX_GATE_FEE_TIER :: int where "MAX_GATE_FEE_TIER = 1000000000"
definition DEFAULT_FEE_TIER_WINDOW_LEDGERS :: u32 where "DEFAULT_FEE_TIER_WINDOW_LEDGERS = 17280"

section \<open>Balances, liability and revenue\<close>

definition get_gate_credit_balance :: "address \<Rightarrow> credits \<Rightarrow> int" where
  "get_gate_credit_balance d x = unwrap_or (gate_credit_balance x d) 0"

definition set_gate_credit_balance :: "address \<Rightarrow> int \<Rightarrow> credits \<Rightarrow> credits" where
  "set_gate_credit_balance d n x =
     x\<lparr>gate_credit_balance := (gate_credit_balance x)(d := if n = 0 then None else Some n)\<rparr>"

definition credit_gate_balance :: "address \<Rightarrow> int \<Rightarrow> credits \<Rightarrow> int \<times> credits" where
  "credit_gate_balance d n x =
     (let new_balance = i128_clamp (get_gate_credit_balance d x + n) in
      (new_balance, set_gate_credit_balance d new_balance x))"

definition debit_gate_balance :: "address \<Rightarrow> int \<Rightarrow> credits \<Rightarrow> credits res" where
  "debit_gate_balance d n x =
     (let balance = get_gate_credit_balance d x in
      if balance < n then Inl (Err InsufficientGateCredits)
      else Inr (set_gate_credit_balance d (balance - n) x))"

definition get_gate_credit_liability_total :: "credits \<Rightarrow> int" where
  "get_gate_credit_liability_total x = unwrap_or (gate_credit_liability_total x) 0"

definition add_gate_credit_liability :: "int \<Rightarrow> credits \<Rightarrow> credits" where
  "add_gate_credit_liability n x =
     x\<lparr>gate_credit_liability_total := Some (i128_clamp (get_gate_credit_liability_total x + n))\<rparr>"

definition sub_gate_credit_liability :: "int \<Rightarrow> credits \<Rightarrow> credits" where
  "sub_gate_credit_liability n x =
     x\<lparr>gate_credit_liability_total := Some (max (get_gate_credit_liability_total x - n) 0)\<rparr>"

definition get_gate_credit_revenue :: "credits \<Rightarrow> int" where
  "get_gate_credit_revenue x = unwrap_or (gate_credit_revenue x) 0"

definition add_gate_credit_revenue :: "int \<Rightarrow> credits \<Rightarrow> credits" where
  "add_gate_credit_revenue n x = x\<lparr>gate_credit_revenue := Some (i128_clamp (get_gate_credit_revenue x + n))\<rparr>"

definition sub_gate_credit_revenue :: "int \<Rightarrow> credits \<Rightarrow> credits res" where
  "sub_gate_credit_revenue n x =
     (let total = get_gate_credit_revenue x in
      if total < n then Inl (Err ArithmeticOverflow) else Inr (x\<lparr>gate_credit_revenue := Some (total - n)\<rparr>))"

definition get_gate_credit_withdrawal_delay :: "credits \<Rightarrow> u64" where
  "get_gate_credit_withdrawal_delay x = unwrap_or (gate_credit_withdrawal_delay x) 0"

section \<open>Deposits and withdrawals\<close>

definition set_gate_credit_token :: "env \<Rightarrow> auth_state \<Rightarrow> address list \<Rightarrow> address \<Rightarrow> credits \<Rightarrow> credits op" where
  "set_gate_credit_token e a signers token x =
     admin_guard e signers a (Inr (x\<lparr>gate_credit_token := Some token\<rparr>, []))"

definition set_gate_credit_withdrawal_delay :: "env \<Rightarrow> auth_state \<Rightarrow> address list \<Rightarrow> u64 \<Rightarrow> credits \<Rightarrow> credits op" where
  "set_gate_credit_withdrawal_delay e a signers secs x =
     admin_guard e signers a (Inr (x\<lparr>gate_credit_withdrawal_delay := Some secs\<rparr>, []))"

definition deposit_gate_credits ::
    "'k token_transfer \<Rightarrow> env \<Rightarrow> address \<Rightarrow> int \<Rightarrow> credits \<times> 'k \<Rightarrow> ((credits \<times> 'k) \<times> int \<times> event list) res" where
  "deposit_gate_credits transfer e d n s =
     (case s of (x, tok) \<Rightarrow>
      if n \<le> 0 then Inl (Err InvalidCreditAmount)
      else
        bind_res (require_auth e d) (\<lambda>_.
        case gate_credit_token x of
          None \<Rightarrow> Inl (Err GateCreditTokenNotSet)
        | Some token \<Rightarrow>
            bind_res (transfer token d (current_contract e) n tok) (\<lambda>tok'.
            (let (new_balance, x1) = credit_gate_balance d n x in
             Inr ((add_gate_credit_liability n x1, tok'), new_balance,
                  [Event ''gate_credit_deposited'' [VAddr d, VInt n, VInt new_balance]])))))"

definition withdraw_gate_credits_request ::
    "env \<Rightarrow> address \<Rightarrow> int \<Rightarrow> credits \<Rightarrow> (credits \<times> u64 \<times> event list) res" where
  "withdraw_gate_credits_request e d n x =
     bind_res (require_auth e d) (\<lambda>_.
     if n \<le> 0 \<or> get_gate_credit_balance d x < n then Inl (Err InvalidCreditAmount)
     else
       (let unlock_at = saturating_add (ledger_timestamp e) (get_gate_credit_withdrawal_delay x) in
        Inr (x\<lparr>gate_credit_withdrawal_request := (gate_credit_withdrawal_request x)(d \<mapsto> (n, unlock_at))\<rparr>, unlock_at,
             [Event ''gate_credit_withdrawal_requested'' [VAddr d, VInt n, VU64 unlock_at]])))"

definition withdraw_gate_credits ::
    "'k token_transfer \<Rightarrow> env \<Rightarrow> address \<Rightarrow> credits \<times> 'k \<Rightarrow> ((credits \<times> 'k) \<times> int \<times> event list) res" where
  "withdraw_gate_credits transfer e d s =
     (case s of (x, tok) \<Rightarrow>
      bind_res (require_auth e d) (\<lambda>_.
      case gate_credit_withdrawal_request x d of
        None \<Rightarrow> Inl (Err NoWithdrawalRequest)
      | Some (n, unlock_at) \<Rightarrow>
          if ledger_timestamp e < unlock_at then Inl (Err WithdrawalNotYetUnlocked)
          else
            (let x1 = x\<lparr>gate_credit_withdrawal_request := (gate_credit_withdrawal_request x)(d := None)\<rparr> in
             if get_gate_credit_balance d x1 < n then Inl (Err InvalidCreditAmount)
             else
               bind_res (debit_gate_balance d n x1) (\<lambda>x2.
               (let x3 = sub_gate_credit_liability n x2 in
                case gate_credit_token x3 of
                  None \<Rightarrow> Inl (Err GateCreditTokenNotSet)
                | Some token \<Rightarrow>
                    bind_res (transfer token (current_contract e) d n tok) (\<lambda>tok'.
                      Inr ((x3, tok'), n, [Event ''gate_credit_withdrawn'' [VAddr d, VInt n]])))))))"

definition withdraw_gate_credit_revenue ::
    "'k token_transfer \<Rightarrow> env \<Rightarrow> auth_state \<Rightarrow> address list \<Rightarrow> address \<Rightarrow> int \<Rightarrow> credits \<times> 'k \<Rightarrow> (credits \<times> 'k) op" where
  "withdraw_gate_credit_revenue transfer e a signers r n s =
     (case s of (x, tok) \<Rightarrow>
      if \<not> has_admin a then Inl (Err NotInitialized)
      else if n \<le> 0 then Inl (Err InvalidCreditAmount)
      else admin_guard e signers a
        (bind_res (sub_gate_credit_revenue n x) (\<lambda>x1.
         case gate_credit_token x1 of
           None \<Rightarrow> Inl (Err GateCreditTokenNotSet)
         | Some token \<Rightarrow>
             bind_res (transfer token (current_contract e) r n tok) (\<lambda>tok'.
               Inr ((x1, tok'), [Event ''gate_credit_revenue_withdrawn'' [VAddr r, VInt n]])))))"

section \<open>Tiered fees\<close>

text \<open>The loop over the schedule, with the fee of the last tier that was reached.\<close>

fun gate_fee_loop :: "u32 \<Rightarrow> FeeTier list \<Rightarrow> int \<Rightarrow> int" where
  "gate_fee_loop volume [] fee = fee"
| "gate_fee_loop volume (tier # tiers) fee =
     (if ft_min_volume tier \<le> volume then gate_fee_loop volume tiers (ft_fee tier) else fee)"

definition compute_gate_fee :: "FeeTier list \<Rightarrow> u32 \<Rightarrow> int" where
  "compute_gate_fee tiers volume_before_call = gate_fee_loop volume_before_call tiers 0"

fun tiers_valid :: "u32 option \<Rightarrow> FeeTier list \<Rightarrow> bool" where
  "tiers_valid prev [] = True"
| "tiers_valid prev (tier # tiers) =
     (if ft_fee tier < 0 \<or> MAX_GATE_FEE_TIER < ft_fee tier then False
      else if (case prev of Some p \<Rightarrow> ft_min_volume tier \<le> p | None \<Rightarrow> False) then False
      else tiers_valid (Some (ft_min_volume tier)) tiers)"

definition set_fee_tier_schedule :: "env \<Rightarrow> auth_state \<Rightarrow> address list \<Rightarrow> FeeTier list \<Rightarrow> credits \<Rightarrow> credits op" where
  "set_fee_tier_schedule e a signers tiers x =
     (if \<not> has_admin a then Inl (Err NotInitialized)
      else if MAX_FEE_TIERS < length tiers then Inl (Err InvalidFeeTierSchedule)
      else if \<not> tiers_valid None tiers then Inl (Err InvalidFeeTierSchedule)
      else admin_guard e signers a
        (Inr (x\<lparr>fee_tier_schedule := tiers\<rparr>, [Event ''fee_tier_schedule_set'' [VU32 (of_nat (length tiers))]])))"

definition set_fee_tier_window_ledgers :: "env \<Rightarrow> auth_state \<Rightarrow> address list \<Rightarrow> u32 \<Rightarrow> credits \<Rightarrow> credits op" where
  "set_fee_tier_window_ledgers e a signers window x =
     (if \<not> has_admin a then Inl (Err NotInitialized)
      else if window = 0 then Inl (Err InvalidFeeTierSchedule)
      else admin_guard e signers a (Inr (x\<lparr>fee_tier_window_ledgers := Some window\<rparr>, [])))"

definition set_fee_exemption ::
    "env \<Rightarrow> auth_state \<Rightarrow> address list \<Rightarrow> address \<Rightarrow> u64 \<Rightarrow> u32 \<Rightarrow> credits \<Rightarrow> credits op" where
  "set_fee_exemption e a signers consumer expires_at reason x =
     (if \<not> has_admin a then Inl (Err NotInitialized)
      else if expires_at \<le> ledger_timestamp e then Inl (Err InvalidExemptionExpiry)
      else admin_guard e signers a
        (Inr (x\<lparr>fee_exemption := (fee_exemption x)(consumer \<mapsto> (expires_at, reason))\<rparr>,
              [Event ''fee_exemption_set'' [VAddr consumer, VU64 expires_at, VU32 reason]])))"

definition clear_fee_exemption :: "env \<Rightarrow> auth_state \<Rightarrow> address list \<Rightarrow> address \<Rightarrow> credits \<Rightarrow> credits op" where
  "clear_fee_exemption e a signers consumer x =
     admin_guard e signers a (Inr (x\<lparr>fee_exemption := (fee_exemption x)(consumer := None)\<rparr>, []))"

definition get_fee_exemption :: "env \<Rightarrow> address \<Rightarrow> credits \<Rightarrow> (u64 \<times> u32) option" where
  "get_fee_exemption e consumer x =
     (case fee_exemption x consumer of
        Some (expires_at, reason) \<Rightarrow> if ledger_timestamp e < expires_at then Some (expires_at, reason) else None
      | None \<Rightarrow> None)"

definition advance_consumer_volume_window :: "env \<Rightarrow> address \<Rightarrow> credits \<Rightarrow> u32 \<times> credits" where
  "advance_consumer_volume_window e consumer x =
     (let window_len = unwrap_or (fee_tier_window_ledgers x) DEFAULT_FEE_TIER_WINDOW_LEDGERS;
          now = ledger_sequence e;
          (start, count) = unwrap_or (consumer_volume_window x consumer) (now, 0);
          (start', count') = (if window_len \<le> saturating_sub now start then (now, 0) else (start, count)) in
      (count', x\<lparr>consumer_volume_window := (consumer_volume_window x)(consumer \<mapsto> (start', saturating_add count' 1))\<rparr>))"

definition gate_fee :: "env \<Rightarrow> address \<Rightarrow> credits \<Rightarrow> int \<times> credits" where
  "gate_fee e consumer x =
     (case get_fee_exemption e consumer x of
        Some _ \<Rightarrow> (0, x)
      | None \<Rightarrow>
          (let (volume, x1) = advance_consumer_volume_window e consumer x in
           (compute_gate_fee (fee_tier_schedule x) volume, x1)))"

definition charge_gate_fee :: "address \<Rightarrow> int \<Rightarrow> credits \<Rightarrow> credits res" where
  "charge_gate_fee consumer fee x =
     (if 0 < fee then
        bind_res (debit_gate_balance consumer fee x) (\<lambda>x1.
          Inr (add_gate_credit_revenue fee (sub_gate_credit_liability fee x1)))
      else Inr x)"

text \<open>The entry point has the name of the metered query of \<^verbatim>\<open>lib.rs\<close>.\<close>

definition query_risk_gate_credits ::
    "secondary \<Rightarrow> env \<Rightarrow> address \<Rightarrow> pair_key \<Rightarrow> u32 \<Rightarrow> gated \<times> credits \<Rightarrow> ((gated \<times> credits) \<times> bool \<times> event list) res" where
  "query_risk_gate_credits sec e consumer k threshold s =
     (case s of (g, x) \<Rightarrow>
      if \<not> has_admin (c_auth (fst g)) then Inl (Err NotInitialized)
      else
        bind_res (require_auth e consumer) (\<lambda>_.
        (let (fee, x1) = gate_fee e consumer x in
         bind_res (charge_gate_fee consumer fee x1) (\<lambda>x2.
         bind_res (query_risk_gate_with_confidence sec e k threshold 0 g) (\<lambda>(g', p, evs).
           Inr ((g', x2), p, Event ''gate_query_metered'' [VAddr consumer, VInt fee] # evs))))))"

section \<open>Solvency\<close>

definition total_balance :: "credits \<Rightarrow> int" where
  "total_balance x = (\<Sum>d\<in>dom (gate_credit_balance x). get_gate_credit_balance d x)"

definition outstanding :: "credits \<Rightarrow> int" where
  "outstanding x = get_gate_credit_liability_total x + get_gate_credit_revenue x"

text \<open>The books: the liability is what the depositors' balances add up to, no balance is negative or belongs
  to the contract itself, and the counters are in the range of the type.\<close>

definition credit_books :: "address \<Rightarrow> credits \<Rightarrow> bool" where
  "credit_books self x \<longleftrightarrow> finite (dom (gate_credit_balance x)) \<and> gate_credit_balance x self = None \<and>
     (\<forall>d n. gate_credit_balance x d = Some n \<longrightarrow> 0 < n) \<and> get_gate_credit_liability_total x = total_balance x \<and>
     0 \<le> get_gate_credit_revenue x \<and> outstanding x < 2 ^ 127"

definition credits_solvent :: "('k \<Rightarrow> address \<Rightarrow> address \<Rightarrow> int) \<Rightarrow> address \<Rightarrow> credits \<times> 'k \<Rightarrow> bool" where
  "credits_solvent balance self s \<longleftrightarrow> credit_books self (fst s) \<and>
     (case gate_credit_token (fst s) of
        None \<Rightarrow> outstanding (fst s) = 0
      | Some token \<Rightarrow> outstanding (fst s) \<le> balance (snd s) token self)"

text \<open>The steps of the credits.  The token may be replaced when nothing is outstanding, as the code asks of its
  operators; other transfers may only add to what the contract holds; a deposit leaves holdings that the token can represent.\<close>

inductive credit_step ::
    "'k token_transfer \<Rightarrow> ('k \<Rightarrow> address \<Rightarrow> address \<Rightarrow> int) \<Rightarrow> env \<Rightarrow> credits \<times> 'k \<Rightarrow> credits \<times> 'k \<Rightarrow> bool"
  for transfer :: "'k token_transfer" and balance :: "'k \<Rightarrow> address \<Rightarrow> address \<Rightarrow> int" and e :: env where
  token: "set_gate_credit_token e a signers token x = Inr (x', evs) \<Longrightarrow> outstanding x = 0 \<Longrightarrow>
    0 \<le> balance tok token (current_contract e) \<Longrightarrow> credit_step transfer balance e (x, tok) (x', tok)"
| delay: "set_gate_credit_withdrawal_delay e a signers secs x = Inr (x', evs) \<Longrightarrow>
    credit_step transfer balance e (x, tok) (x', tok)"
| deposit: "deposit_gate_credits transfer e d n (x, tok) = Inr ((x', tok'), r) \<Longrightarrow> d \<noteq> current_contract e \<Longrightarrow>
    (\<forall>token. balance tok' token (current_contract e) < 2 ^ 127) \<Longrightarrow>
    credit_step transfer balance e (x, tok) (x', tok')"
| request: "withdraw_gate_credits_request e d n x = Inr (x', r) \<Longrightarrow> credit_step transfer balance e (x, tok) (x', tok)"
| withdraw: "withdraw_gate_credits transfer e d (x, tok) = Inr (s', r) \<Longrightarrow> credit_step transfer balance e (x, tok) s'"
| revenue: "withdraw_gate_credit_revenue transfer e a signers r n (x, tok) = Inr (s', evs) \<Longrightarrow>
    credit_step transfer balance e (x, tok) s'"
| schedule: "set_fee_tier_schedule e a signers tiers x = Inr (x', evs) \<Longrightarrow>
    credit_step transfer balance e (x, tok) (x', tok)"
| window: "set_fee_tier_window_ledgers e a signers w x = Inr (x', evs) \<Longrightarrow>
    credit_step transfer balance e (x, tok) (x', tok)"
| exempt: "set_fee_exemption e a signers consumer expires_at reason x = Inr (x', evs) \<Longrightarrow>
    credit_step transfer balance e (x, tok) (x', tok)"
| unexempt: "clear_fee_exemption e a signers consumer x = Inr (x', evs) \<Longrightarrow>
    credit_step transfer balance e (x, tok) (x', tok)"
| query: "query_risk_gate_credits sec e consumer k threshold (g, x) = Inr ((g', x'), r) \<Longrightarrow>
    credit_step transfer balance e (x, tok) (x', tok)"
| elsewhere: "(\<forall>token. balance tok token (current_contract e) \<le> balance tok' token (current_contract e)) \<Longrightarrow>
    credit_step transfer balance e (x, tok) (x, tok')"

inductive credit_reachable ::
    "'k token_transfer \<Rightarrow> ('k \<Rightarrow> address \<Rightarrow> address \<Rightarrow> int) \<Rightarrow> address \<Rightarrow> credits \<times> 'k \<Rightarrow> bool"
  for transfer :: "'k token_transfer" and balance :: "'k \<Rightarrow> address \<Rightarrow> address \<Rightarrow> int" and self :: address where
  init: "credit_reachable transfer balance self (empty_credits, tok)"
| step: "credit_reachable transfer balance self s \<Longrightarrow> current_contract e = self \<Longrightarrow>
    credit_step transfer balance e s s' \<Longrightarrow> credit_reachable transfer balance self s'"

subsection \<open>The counters\<close>

lemmas credit_counter_defs = get_gate_credit_balance_def get_gate_credit_liability_total_def get_gate_credit_revenue_def
  total_balance_def outstanding_def

lemma set_balance_fields [simp]:
  "gate_credit_token (set_gate_credit_balance d n x) = gate_credit_token x"
  "get_gate_credit_liability_total (set_gate_credit_balance d n x) = get_gate_credit_liability_total x"
  "get_gate_credit_revenue (set_gate_credit_balance d n x) = get_gate_credit_revenue x"
  "get_gate_credit_balance d' (set_gate_credit_balance d n x) = (if d' = d then n else get_gate_credit_balance d' x)"
  by (simp_all add: set_gate_credit_balance_def credit_counter_defs)

lemma counter_fields [simp]:
  "gate_credit_balance (add_gate_credit_liability n x) = gate_credit_balance x"
  "gate_credit_balance (sub_gate_credit_liability n x) = gate_credit_balance x"
  "gate_credit_balance (add_gate_credit_revenue n x) = gate_credit_balance x"
  "gate_credit_token (add_gate_credit_liability n x) = gate_credit_token x"
  "gate_credit_token (sub_gate_credit_liability n x) = gate_credit_token x"
  "gate_credit_token (add_gate_credit_revenue n x) = gate_credit_token x"
  "get_gate_credit_balance d (add_gate_credit_liability n x) = get_gate_credit_balance d x"
  "get_gate_credit_balance d (sub_gate_credit_liability n x) = get_gate_credit_balance d x"
  "get_gate_credit_balance d (add_gate_credit_revenue n x) = get_gate_credit_balance d x"
  "get_gate_credit_revenue (add_gate_credit_liability n x) = get_gate_credit_revenue x"
  "get_gate_credit_revenue (sub_gate_credit_liability n x) = get_gate_credit_revenue x"
  "get_gate_credit_liability_total (add_gate_credit_revenue n x) = get_gate_credit_liability_total x"
  by (simp_all add: add_gate_credit_liability_def sub_gate_credit_liability_def add_gate_credit_revenue_def
      credit_counter_defs)

lemma total_balance_cong:
  "gate_credit_balance x' = gate_credit_balance x \<Longrightarrow> total_balance x' = total_balance x"
  by (simp add: credit_counter_defs)

lemma total_set_balance:
  assumes "finite (dom (gate_credit_balance x))"
  shows "total_balance (set_gate_credit_balance d n x) = total_balance x - get_gate_credit_balance d x + n"
proof -
  let ?A = "dom (gate_credit_balance x) - {d}" and ?x = "set_gate_credit_balance d n x"
  have absent: "d \<notin> dom (gate_credit_balance y) \<Longrightarrow> get_gate_credit_balance d y = 0" for y
    by (simp add: get_gate_credit_balance_def dom_def)
  have split: "total_balance y = (\<Sum>h\<in>dom (gate_credit_balance y) - {d}. get_gate_credit_balance h y) + get_gate_credit_balance d y"
    if "finite (dom (gate_credit_balance y))" for y
    using that absent [of y] by (cases "d \<in> dom (gate_credit_balance y)") (auto simp: total_balance_def sum.remove)
  have "finite (dom (gate_credit_balance ?x))" and dom: "dom (gate_credit_balance ?x) - {d} = ?A"
    using assms by (auto simp: set_gate_credit_balance_def)
  moreover have "(\<Sum>h\<in>?A. get_gate_credit_balance h ?x) = (\<Sum>h\<in>?A. get_gate_credit_balance h x)"
    by (rule sum.cong) auto
  ultimately show ?thesis
    using split [of x] split [of ?x] assms dom by simp
qed

lemma books_balance:
  assumes "credit_books self x"
  shows "0 \<le> get_gate_credit_balance d x" "get_gate_credit_balance d x \<le> total_balance x"
proof -
  have pos: "0 \<le> get_gate_credit_balance h x" for h
    using assms by (cases "gate_credit_balance x h") (auto simp: credit_books_def get_gate_credit_balance_def dest: less_imp_le)
  then show "0 \<le> get_gate_credit_balance d x" .
  show "get_gate_credit_balance d x \<le> total_balance x"
  proof (cases "d \<in> dom (gate_credit_balance x)")
    case True
    then show ?thesis
      unfolding total_balance_def using assms pos by (intro member_le_sum) (auto simp: credit_books_def)
  next
    case False
    then show ?thesis
      using pos by (simp add: total_balance_def get_gate_credit_balance_def [of d] dom_def sum_nonneg)
  qed
qed

lemma books_liability:
  assumes "credit_books self x"
  shows "get_gate_credit_liability_total x = total_balance x" "0 \<le> get_gate_credit_revenue x" "0 \<le> total_balance x"
    "outstanding x < 2 ^ 127"
  using assms books_balance [OF assms] by (auto simp: credit_books_def intro: order_trans)

lemma books_set_balance:
  assumes "credit_books self x" "0 \<le> n" "d \<noteq> self \<or> n = 0"
  shows "finite (dom (gate_credit_balance (set_gate_credit_balance d n x)))"
    "gate_credit_balance (set_gate_credit_balance d n x) self = None"
    "\<forall>h m. gate_credit_balance (set_gate_credit_balance d n x) h = Some m \<longrightarrow> 0 < m"
    "total_balance (set_gate_credit_balance d n x) = total_balance x - get_gate_credit_balance d x + n"
  using assms total_set_balance [of x d n] by (auto simp: credit_books_def set_gate_credit_balance_def)

text \<open>A credit of the amount that was transferred, and a debit that leaves the liability.\<close>

lemma books_credit:
  assumes books: "credit_books self x" and "d \<noteq> self" "0 < n" "outstanding x + n < 2 ^ 127"
  defines "x' \<equiv> add_gate_credit_liability n (snd (credit_gate_balance d n x))"
  shows "credit_books self x'" "outstanding x' = outstanding x + n" "gate_credit_token x' = gate_credit_token x"
    "get_gate_credit_balance h x' = get_gate_credit_balance h x + (if h = d then n else 0)"
    "fst (credit_gate_balance d n x) = get_gate_credit_balance d x + n"
proof -
  note b = books_balance [OF books, of d] books_liability [OF books]
  let ?m = "get_gate_credit_balance d x + n"
  have fits: "i128_clamp ?m = ?m" "i128_clamp (get_gate_credit_liability_total x + n) = get_gate_credit_liability_total x + n"
    using assms b by (auto simp: outstanding_def intro!: i128_clamp_id)
  have x': "x' = add_gate_credit_liability n (set_gate_credit_balance d ?m x)"
    by (simp add: x'_def credit_gate_balance_def Let_def fits)
  have liability: "get_gate_credit_liability_total x' = get_gate_credit_liability_total x + n"
    unfolding x' by (simp add: add_gate_credit_liability_def credit_counter_defs)
      (use fits(2) in \<open>simp add: credit_counter_defs set_gate_credit_balance_def\<close>)
  show out: "outstanding x' = outstanding x + n"
    unfolding outstanding_def liability by (simp add: x')
  have total: "total_balance x' = total_balance (set_gate_credit_balance d ?m x)"
    unfolding x' by (rule total_balance_cong) simp
  show "credit_books self x'"
    using books_set_balance [OF books, of ?m d] b assms(2-4) out liability total
    unfolding credit_books_def by (simp add: x')
  show "gate_credit_token x' = gate_credit_token x"
    "get_gate_credit_balance h x' = get_gate_credit_balance h x + (if h = d then n else 0)"
    "fst (credit_gate_balance d n x) = get_gate_credit_balance d x + n"
    by (simp_all add: x' credit_gate_balance_def Let_def fits)
qed

lemma books_debit:
  assumes books: "credit_books self x" and debit: "debit_gate_balance d n x = Inr x1" and "0 \<le> n"
  defines "x' \<equiv> sub_gate_credit_liability n x1"
  shows "credit_books self x'" "outstanding x' = outstanding x - n" "gate_credit_token x' = gate_credit_token x"
    "get_gate_credit_balance h x' = get_gate_credit_balance h x - (if h = d then n else 0)"
    "get_gate_credit_revenue x' = get_gate_credit_revenue x"
proof -
  note b = books_balance [OF books, of d] books_liability [OF books]
  let ?m = "get_gate_credit_balance d x - n"
  have le: "n \<le> get_gate_credit_balance d x" and x1: "x1 = set_gate_credit_balance d ?m x"
    using debit by (auto simp: debit_gate_balance_def Let_def split: if_splits)
  have self: "d \<noteq> self \<or> ?m = 0"
    using le \<open>0 \<le> n\<close> books by (auto simp: credit_books_def get_gate_credit_balance_def)
  have liability: "get_gate_credit_liability_total x' = get_gate_credit_liability_total x - n"
    using b le unfolding x'_def x1 sub_gate_credit_liability_def
    by (simp add: get_gate_credit_liability_total_def set_gate_credit_balance_def)
  show out: "outstanding x' = outstanding x - n"
    unfolding outstanding_def liability by (simp add: x'_def x1)
  have total: "total_balance x' = total_balance x1"
    unfolding x'_def by (rule total_balance_cong) simp
  show "credit_books self x'"
    using books_set_balance [OF books, of ?m d] b le self assms(3) out liability total
    unfolding credit_books_def by (simp add: x'_def x1)
  show "gate_credit_token x' = gate_credit_token x" "get_gate_credit_revenue x' = get_gate_credit_revenue x"
    "get_gate_credit_balance h x' = get_gate_credit_balance h x - (if h = d then n else 0)"
    by (simp_all add: x'_def x1)
qed

text \<open>Updates of the other fields.\<close>

definition same_credit_accounts :: "credits \<Rightarrow> credits \<Rightarrow> bool" where
  "same_credit_accounts x x' \<longleftrightarrow> gate_credit_balance x' = gate_credit_balance x \<and>
     gate_credit_liability_total x' = gate_credit_liability_total x \<and> gate_credit_revenue x' = gate_credit_revenue x"

lemma same_accounts:
  assumes "same_credit_accounts x x'"
  shows "credit_books self x' = credit_books self x" "outstanding x' = outstanding x"
    "get_gate_credit_balance d x' = get_gate_credit_balance d x"
  using assms by (simp_all add: same_credit_accounts_def credit_books_def credit_counter_defs)

lemma setters_keep_accounts:
  "set_gate_credit_withdrawal_delay e a signers secs x = Inr (x', evs) \<Longrightarrow> same_credit_accounts x x' \<and> gate_credit_token x' = gate_credit_token x"
  "withdraw_gate_credits_request e d n x = Inr (x', r) \<Longrightarrow> same_credit_accounts x x' \<and> gate_credit_token x' = gate_credit_token x"
  "set_fee_tier_schedule e a signers tiers x = Inr (x', evs) \<Longrightarrow> same_credit_accounts x x' \<and> gate_credit_token x' = gate_credit_token x"
  "set_fee_tier_window_ledgers e a signers w x = Inr (x', evs) \<Longrightarrow> same_credit_accounts x x' \<and> gate_credit_token x' = gate_credit_token x"
  "set_fee_exemption e a signers consumer expires_at reason x = Inr (x', evs) \<Longrightarrow> same_credit_accounts x x' \<and> gate_credit_token x' = gate_credit_token x"
  "clear_fee_exemption e a signers consumer x = Inr (x', evs) \<Longrightarrow> same_credit_accounts x x' \<and> gate_credit_token x' = gate_credit_token x"
  by (auto simp: set_gate_credit_withdrawal_delay_def withdraw_gate_credits_request_def set_fee_tier_schedule_def
      set_fee_tier_window_ledgers_def set_fee_exemption_def clear_fee_exemption_def same_credit_accounts_def
      Let_def bind_res_Inr_iff split: if_splits dest!: guard_InrD(1,2))

lemma gate_fee_accounts:
  "same_credit_accounts x (snd (gate_fee e consumer x)) \<and> gate_credit_token (snd (gate_fee e consumer x)) = gate_credit_token x"
  by (auto simp: gate_fee_def advance_consumer_volume_window_def same_credit_accounts_def Let_def case_prod_unfold
      split: option.splits)

subsection \<open>The steps\<close>

lemma books_charge:
  assumes books: "credit_books self x" and charge: "charge_gate_fee consumer fee x = Inr x'"
  shows "credit_books self x'" "outstanding x' = outstanding x" "gate_credit_token x' = gate_credit_token x"
    "d \<noteq> consumer \<Longrightarrow> get_gate_credit_balance d x' = get_gate_credit_balance d x"
proof -
  have "credit_books self x' \<and> outstanding x' = outstanding x \<and> gate_credit_token x' = gate_credit_token x \<and>
    (d \<noteq> consumer \<longrightarrow> get_gate_credit_balance d x' = get_gate_credit_balance d x)"
  proof (cases "0 < fee")
    case True
    then obtain x1 where debit: "debit_gate_balance consumer fee x = Inr x1"
      and x': "x' = add_gate_credit_revenue fee (sub_gate_credit_liability fee x1)"
      using charge by (auto simp: charge_gate_fee_def bind_res_Inr_iff)
    let ?y = "sub_gate_credit_liability fee x1"
    note y = books_debit [OF books debit less_imp_le [OF True]]
    have "get_gate_credit_revenue ?y + fee < 2 ^ 127"
      using books_liability [OF y(1)] y(2) books_liability(4) [OF books] by (simp add: outstanding_def)
    then have rev: "get_gate_credit_revenue x' = get_gate_credit_revenue ?y + fee"
      using books_liability(2) [OF y(1)] True unfolding x'
      by (simp add: add_gate_credit_revenue_def get_gate_credit_revenue_def i128_clamp_def)
    moreover have "total_balance x' = total_balance ?y"
      unfolding x' by (rule total_balance_cong) simp
    ultimately show ?thesis
      using y True books_liability [OF books] unfolding credit_books_def outstanding_def by (auto simp: x')
  qed (use charge books in \<open>simp add: charge_gate_fee_def\<close>)
  then show "credit_books self x'" "outstanding x' = outstanding x" "gate_credit_token x' = gate_credit_token x"
    "d \<noteq> consumer \<Longrightarrow> get_gate_credit_balance d x' = get_gate_credit_balance d x"
    by simp_all
qed

lemma solvent_iff:
  assumes "gate_credit_token x' = gate_credit_token x" "outstanding x' = outstanding x"
    "credit_books self x \<Longrightarrow> credit_books self x'" "credits_solvent balance self (x, tok)"
  shows "credits_solvent balance self (x', tok)"
  using assms by (auto simp: credits_solvent_def split: option.splits)

lemma solvent_same:
  assumes "same_credit_accounts x x' \<and> gate_credit_token x' = gate_credit_token x" "credits_solvent balance self (x, tok)"
  shows "credits_solvent balance self (x', tok)"
  using assms same_accounts by (blast intro: solvent_iff)

lemma query_credits_InrD:
  assumes "query_risk_gate_credits sec e consumer k threshold (g, x) = Inr ((g', x'), r)"
  shows "authorized e consumer" "charge_gate_fee consumer (fst (gate_fee e consumer x)) (snd (gate_fee e consumer x)) = Inr x'"
  using assms by (auto simp: query_risk_gate_credits_def Let_def case_prod_unfold bind_res_Inr_iff split: if_splits)

lemma query_keeps:
  assumes query: "query_risk_gate_credits sec e consumer k threshold (g, x) = Inr ((g', x'), r)"
    and books: "credit_books self x"
  shows "credit_books self x'" "outstanding x' = outstanding x" "gate_credit_token x' = gate_credit_token x"
    "d \<noteq> consumer \<Longrightarrow> get_gate_credit_balance d x' = get_gate_credit_balance d x"
proof -
  note same = gate_fee_accounts [of x e consumer]
  have books1: "credit_books self (snd (gate_fee e consumer x))"
    using same_accounts(1) same books by blast
  note charged = books_charge [OF books1 query_credits_InrD(2) [OF query]]
  show "credit_books self x'" "outstanding x' = outstanding x" "gate_credit_token x' = gate_credit_token x"
    "d \<noteq> consumer \<Longrightarrow> get_gate_credit_balance d x' = get_gate_credit_balance d x"
    using charged same same_accounts(2,3) by simp_all
qed

lemma deposit_InrD:
  assumes "deposit_gate_credits transfer e d n (x, tok) = Inr ((x', tok'), r)"
  obtains token where "0 < n" "authorized e d" "gate_credit_token x = Some token"
    "transfer token d (current_contract e) n tok = Inr tok'"
    "x' = add_gate_credit_liability n (snd (credit_gate_balance d n x))"
  using assms that by (auto simp: deposit_gate_credits_def Let_def case_prod_unfold bind_res_Inr_iff
      split: if_splits option.splits)

lemma withdraw_InrD:
  assumes "withdraw_gate_credits transfer e d (x, tok) = Inr ((x', tok'), r)"
  obtains n unlock_at x2 token where "authorized e d" "gate_credit_withdrawal_request x d = Some (n, unlock_at)"
    "unlock_at \<le> ledger_timestamp e"
    "debit_gate_balance d n (x\<lparr>gate_credit_withdrawal_request := (gate_credit_withdrawal_request x)(d := None)\<rparr>) = Inr x2"
    "x' = sub_gate_credit_liability n x2" "gate_credit_token x2 = Some token"
    "transfer token (current_contract e) d n tok = Inr tok'"
  using assms that by (auto simp: withdraw_gate_credits_def Let_def case_prod_unfold bind_res_Inr_iff not_less
      split: if_splits option.splits)

lemma revenue_InrD:
  assumes "withdraw_gate_credit_revenue transfer e a signers r n (x, tok) = Inr ((x', tok'), evs)"
  obtains token where "0 < n" "n \<le> get_gate_credit_revenue x" "gate_credit_token x = Some token"
    "x' = x\<lparr>gate_credit_revenue := Some (get_gate_credit_revenue x - n)\<rparr>"
    "transfer token (current_contract e) r n tok = Inr tok'"
  using assms that by (auto simp: withdraw_gate_credit_revenue_def sub_gate_credit_revenue_def Let_def bind_res_Inr_iff
      split: if_splits option.splits dest!: guard_InrD(1,2))

lemma solvent_holdings:
  assumes "credits_solvent balance self (x, tok)" "gate_credit_token x = Some token"
  shows "credit_books self x" "outstanding x \<le> balance tok token self"
  using assms by (simp_all add: credits_solvent_def)

lemma deposit_solvent:
  assumes solvent: "credits_solvent balance (current_contract e) (x, tok)" and laws: "token_laws transfer balance"
    and deposit: "deposit_gate_credits transfer e d n (x, tok) = Inr ((x', tok'), r)"
    and "d \<noteq> current_contract e" "\<forall>token. balance tok' token (current_contract e) < 2 ^ 127"
  shows "credits_solvent balance (current_contract e) (x', tok')"
    "get_gate_credit_balance h x' = get_gate_credit_balance h x + (if h = d then n else 0)"
proof -
  obtain token where step: "0 < n" "gate_credit_token x = Some token" "transfer token d (current_contract e) n tok = Inr tok'"
    "x' = add_gate_credit_liability n (snd (credit_gate_balance d n x))"
    using deposit by (rule deposit_InrD)
  note held = solvent_holdings [OF solvent step(2)]
  have moved: "balance tok' token (current_contract e) = balance tok token (current_contract e) + n"
    using token_moved [OF laws step(3)] assms(4) by simp
  then have "outstanding x + n < 2 ^ 127"
    using held(2) assms(5) by (metis add_right_mono order.strict_trans1)
  note credited = books_credit [OF held(1) assms(4) step(1) this, folded step(4)]
  show "credits_solvent balance (current_contract e) (x', tok')"
    using credited moved held(2) step(2) by (simp add: credits_solvent_def)
  show "get_gate_credit_balance h x' = get_gate_credit_balance h x + (if h = d then n else 0)"
    by (rule credited(4))
qed

lemma withdraw_solvent:
  assumes solvent: "credits_solvent balance (current_contract e) (x, tok)" and laws: "token_laws transfer balance"
    and withdraw: "withdraw_gate_credits transfer e d (x, tok) = Inr ((x', tok'), r)"
  shows "credits_solvent balance (current_contract e) (x', tok')"
    "h \<noteq> d \<Longrightarrow> get_gate_credit_balance h x' = get_gate_credit_balance h x" "authorized e d"
proof -
  obtain n unlock_at x2 token where step: "authorized e d"
    "debit_gate_balance d n (x\<lparr>gate_credit_withdrawal_request := (gate_credit_withdrawal_request x)(d := None)\<rparr>) = Inr x2"
    "x' = sub_gate_credit_liability n x2" "gate_credit_token x2 = Some token"
    "transfer token (current_contract e) d n tok = Inr tok'"
    using withdraw by (rule withdraw_InrD)
  let ?y = "x\<lparr>gate_credit_withdrawal_request := (gate_credit_withdrawal_request x)(d := None)\<rparr>"
  have same: "same_credit_accounts x ?y" and token: "gate_credit_token ?y = gate_credit_token x"
    by (simp_all add: same_credit_accounts_def)
  have "0 \<le> n"
    using laws step(5) unfolding token_laws_def by blast
  moreover have "credit_books (current_contract e) ?y"
    using solvent same_accounts(1) [OF same] by (simp add: credits_solvent_def)
  ultimately have debited: "credit_books (current_contract e) x'" "outstanding x' = outstanding ?y - n"
    "gate_credit_token x' = gate_credit_token ?y"
    "get_gate_credit_balance h x' = get_gate_credit_balance h ?y - (if h = d then n else 0)" for h
    using books_debit [OF _ step(2)] unfolding step(3) by blast+
  have "gate_credit_token x = Some token"
    using debited(3) token step(3,4) by simp
  moreover have "balance tok' token (current_contract e) \<ge> balance tok token (current_contract e) - n"
    using token_moved [OF laws step(5)] \<open>0 \<le> n\<close> by simp
  ultimately show "credits_solvent balance (current_contract e) (x', tok')"
    using solvent debited same_accounts(2) [OF same] by (simp add: credits_solvent_def)
  show "h \<noteq> d \<Longrightarrow> get_gate_credit_balance h x' = get_gate_credit_balance h x"
    using debited(4) same_accounts(3) [OF same] by simp
  show "authorized e d"
    by (rule step(1))
qed

lemma revenue_solvent:
  assumes solvent: "credits_solvent balance (current_contract e) (x, tok)" and laws: "token_laws transfer balance"
    and withdraw: "withdraw_gate_credit_revenue transfer e a signers r n (x, tok) = Inr ((x', tok'), evs)"
  shows "credits_solvent balance (current_contract e) (x', tok')"
    "get_gate_credit_balance h x' = get_gate_credit_balance h x"
proof -
  obtain token where step: "0 < n" "n \<le> get_gate_credit_revenue x" "gate_credit_token x = Some token"
    "x' = x\<lparr>gate_credit_revenue := Some (get_gate_credit_revenue x - n)\<rparr>"
    "transfer token (current_contract e) r n tok = Inr tok'"
    using withdraw by (rule revenue_InrD)
  have "balance tok' token (current_contract e) \<ge> balance tok token (current_contract e) - n"
    using token_moved [OF laws step(5)] step(1) by simp
  then show "credits_solvent balance (current_contract e) (x', tok')"
    using solvent step(1-3) by (simp add: step(4) credits_solvent_def credit_books_def credit_counter_defs)
  show "get_gate_credit_balance h x' = get_gate_credit_balance h x"
    by (simp add: step(4) get_gate_credit_balance_def)
qed

lemma credit_step_keeps:
  assumes "credit_step transfer balance e (x, tok) (x', tok')" and solvent: "credits_solvent balance (current_contract e) (x, tok)"
    and laws: "token_laws transfer balance"
  shows "credits_solvent balance (current_contract e) (x', tok') \<and>
    (\<not> authorized e h \<longrightarrow> get_gate_credit_balance h x' = get_gate_credit_balance h x)"
  using assms(1)
proof (cases rule: credit_step.cases)
  case (token a signers t evs)
  then show ?thesis
    using solvent by (auto simp: set_gate_credit_token_def credits_solvent_def credit_books_def credit_counter_defs dest!: guard_InrD(1,2))
next
  case (delay a signers secs evs)
  then show ?thesis
    using setters_keep_accounts(1) solvent_same [OF _ solvent] same_accounts(3) by metis
next
  case (deposit d n r)
  then show ?thesis
    using deposit_solvent [OF solvent laws deposit(1-3)] deposit_InrD [OF deposit(1)] by (metis add.right_neutral)
next
  case (request d n r)
  then show ?thesis
    using setters_keep_accounts(2) solvent_same [OF _ solvent] same_accounts(3) by metis
next
  case (withdraw d r)
  then show ?thesis
    using withdraw_solvent [OF solvent laws withdraw(1)] by metis
next
  case (revenue a signers r n evs)
  then show ?thesis
    using revenue_solvent [OF solvent laws revenue(1)] by simp
next
  case (schedule a signers tiers evs)
  then show ?thesis
    using setters_keep_accounts(3) solvent_same [OF _ solvent] same_accounts(3) by metis
next
  case (window a signers w evs)
  then show ?thesis
    using setters_keep_accounts(4) solvent_same [OF _ solvent] same_accounts(3) by metis
next
  case (exempt a signers consumer expires_at reason evs)
  then show ?thesis
    using setters_keep_accounts(5) solvent_same [OF _ solvent] same_accounts(3) by metis
next
  case (unexempt a signers consumer evs)
  then show ?thesis
    using setters_keep_accounts(6) solvent_same [OF _ solvent] same_accounts(3) by metis
next
  case (query sec consumer k threshold g g' r)
  have "credit_books (current_contract e) x"
    using solvent by (simp add: credits_solvent_def)
  note kept = query_keeps [OF query(2) this]
  have "credits_solvent balance (current_contract e) (x', tok)"
    using kept(1-3) solvent by (blast intro: solvent_iff)
  then show ?thesis
    using kept(4) query_credits_InrD(1) [OF query(2)] query(1) by metis
next
  case elsewhere
  then show ?thesis
    using solvent by (auto simp: credits_solvent_def split: option.splits intro: order_trans)
qed

lemma empty_credits_solvent: "credits_solvent balance self (empty_credits, tok)"
  by (simp add: credits_solvent_def credit_books_def credit_counter_defs empty_credits_def)

lemma reachable_credits_solvent:
  assumes "credit_reachable transfer balance self s" "token_laws transfer balance"
  shows "credits_solvent balance self s"
  using assms
proof (induction rule: credit_reachable.induct)
  case (step s e s')
  then show ?case
    using credit_step_keeps by (metis prod.collapse)
qed (rule empty_credits_solvent)



section \<open>The price of a query\<close>

lemma tiers_valid_Cons:
  "tiers_valid prev (t # ts) \<longleftrightarrow> 0 \<le> ft_fee t \<and> ft_fee t \<le> MAX_GATE_FEE_TIER \<and>
    (\<forall>p. prev = Some p \<longrightarrow> p < ft_min_volume t) \<and> tiers_valid (Some (ft_min_volume t)) ts"
  by (cases prev) (auto simp: not_le not_less)

lemma tiers_valid_above: "tiers_valid (Some p) ts \<Longrightarrow> t \<in> set ts \<Longrightarrow> p < ft_min_volume t"
  by (induction ts arbitrary: p) (auto simp: tiers_valid_Cons simp del: tiers_valid.simps(2) intro: less_trans)

lemma tiers_valid_ascending:
  assumes "tiers_valid prev tiers"
  shows "sorted_wrt (\<lambda>t t'. ft_min_volume t < ft_min_volume t') tiers"
    "t \<in> set tiers \<Longrightarrow> 0 \<le> ft_fee t \<and> ft_fee t \<le> MAX_GATE_FEE_TIER"
  using assms by (induction tiers arbitrary: prev)
    (auto simp: tiers_valid_Cons simp del: tiers_valid.simps(2) dest: tiers_valid_above)

lemma gate_fee_loop_last:
  assumes "sorted_wrt (\<lambda>t t'. ft_min_volume t < ft_min_volume t') tiers"
  shows "gate_fee_loop volume tiers fee = (case filter (\<lambda>t. ft_min_volume t \<le> volume) tiers of
     [] \<Rightarrow> fee | reached \<Rightarrow> ft_fee (last reached))"
  using assms
proof (induction volume tiers fee rule: gate_fee_loop.induct)
  case (2 volume tier tiers fee)
  show ?case
  proof (cases "ft_min_volume tier \<le> volume")
    case False
    then have "filter (\<lambda>t. ft_min_volume t \<le> volume) tiers = []"
      using 2(2) by (auto simp: filter_empty_conv)
    with False show ?thesis by simp
  qed (use 2 in \<open>simp split: list.split\<close>)
qed simp

text \<open>The fee of a query is that of the highest tier whose volume the consumer has reached, and 0 below the first
  tier: the loop that stops at the first unreached tier of an accepted schedule misses none, whatever the volume.
  The fee never exceeds the cap.\<close>

theorem fee_of_highest_reached_tier:
  assumes "set_fee_tier_schedule e a signers tiers x = Inr (x', evs)"
  shows "compute_gate_fee (fee_tier_schedule x') volume = (case filter (\<lambda>t. ft_min_volume t \<le> volume) tiers of
     [] \<Rightarrow> 0 | reached \<Rightarrow> ft_fee (last reached)) \<and>
   0 \<le> compute_gate_fee (fee_tier_schedule x') volume \<and> compute_gate_fee (fee_tier_schedule x') volume \<le> MAX_GATE_FEE_TIER"
proof -
  have x': "fee_tier_schedule x' = tiers" and valid: "tiers_valid None tiers"
    using assms by (auto simp: set_fee_tier_schedule_def split: if_splits dest!: guard_InrD(1,2))
  have asc: "sorted_wrt (\<lambda>t t'. ft_min_volume t < ft_min_volume t') tiers"
    and fees: "\<forall>t\<in>set tiers. 0 \<le> ft_fee t \<and> ft_fee t \<le> MAX_GATE_FEE_TIER"
    using tiers_valid_ascending [OF valid] by blast+
  let ?reached = "filter (\<lambda>t. ft_min_volume t \<le> volume) tiers"
  have eq: "compute_gate_fee (fee_tier_schedule x') volume = (case ?reached of [] \<Rightarrow> 0 | reached \<Rightarrow> ft_fee (last reached))"
    unfolding compute_gate_fee_def x' by (rule gate_fee_loop_last [OF asc])
  show ?thesis
  proof (cases "?reached = []")
    case True
    then show ?thesis
      using eq by (simp add: MAX_GATE_FEE_TIER_def)
  next
    case False
    then have "last ?reached \<in> set tiers"
      using last_in_set by fastforce
    then show ?thesis
      using eq fees False by (auto split: list.splits)
  qed
qed

section \<open>A deposit of fifty\<close>

definition sample_credits :: credits where
  "sample_credits = empty_credits\<lparr>gate_credit_token := Some (Addr 8), gate_credit_balance := [Addr 5 \<mapsto> 50],
     gate_credit_liability_total := Some 50\<rparr>"

definition sample_holdings :: "address \<Rightarrow> address \<Rightarrow> int" where
  "sample_holdings token h = (if token = Addr 8 \<and> h = Addr 5 then 20 else if token = Addr 8 \<and> h = Addr 0 then 50 else 0)"

lemma sample_deposited: "credit_reachable sample_transfer (\<lambda>bal. bal) (Addr 0) (sample_credits, sample_holdings)"
proof -
  let ?tok = "\<lambda>t h. if t = Addr 8 \<and> h = Addr 5 then 70 else 0 :: int"
  let ?x1 = "empty_credits\<lparr>gate_credit_token := Some (Addr 8)\<rparr>"
  have self: "current_contract (sample_env 1) = Addr 0"
    by (simp add: sample_env_def)
  have "set_gate_credit_token (sample_env 1) sample_auth [] (Addr 8) empty_credits = Inr (?x1, [])"
    by (simp add: set_gate_credit_token_def)
  then have "credit_step sample_transfer (\<lambda>bal. bal) (sample_env 1) (empty_credits, ?tok) (?x1, ?tok)"
    by (rule credit_step.token) (simp_all add: self credit_counter_defs empty_credits_def)
  then have first: "credit_reachable sample_transfer (\<lambda>bal. bal) (Addr 0) (?x1, ?tok)"
    by (rule credit_reachable.step [OF credit_reachable.init self])
  have "sample_transfer (Addr 8) (Addr 5) (Addr 0) 50 ?tok = Inr sample_holdings"
    by (auto simp: sample_transfer_def sample_holdings_def fun_eq_iff)
  then have "deposit_gate_credits sample_transfer (sample_env 1) (Addr 5) 50 (?x1, ?tok) = Inr ((sample_credits, sample_holdings),
      50, [Event ''gate_credit_deposited'' [VAddr (Addr 5), VInt 50, VInt 50]])"
    by (simp add: deposit_gate_credits_def require_auth_def sample_env_def credit_gate_balance_def Let_def i128_clamp_def
        get_gate_credit_balance_def set_gate_credit_balance_def add_gate_credit_liability_def
        get_gate_credit_liability_total_def sample_credits_def empty_credits_def fun_eq_iff)
  then have "credit_step sample_transfer (\<lambda>bal. bal) (sample_env 1) (?x1, ?tok) (sample_credits, sample_holdings)"
    by (rule credit_step.deposit) (simp_all add: self sample_holdings_def)
  then show ?thesis
    by (rule credit_reachable.step [OF first self])
qed

lemma sample_credits_fields:
  "gate_credit_token sample_credits = Some (Addr 8)" "get_gate_credit_balance (Addr 5) sample_credits = 50"
  "get_gate_credit_withdrawal_delay sample_credits = 0" "get_gate_credit_liability_total sample_credits = 50"
  by (simp_all add: sample_credits_def empty_credits_def get_gate_credit_balance_def get_gate_credit_withdrawal_delay_def
      get_gate_credit_liability_total_def)



theorem fee_of_highest_reached_tier_witness:
  "\<exists>x' evs. set_fee_tier_schedule (sample_env 1) sample_auth []
       [\<lparr>ft_min_volume = 0, ft_fee = 100\<rparr>, \<lparr>ft_min_volume = 10, ft_fee = 50\<rparr>, \<lparr>ft_min_volume = 100, ft_fee = 10\<rparr>] empty_credits
     = Inr (x', evs) \<and> compute_gate_fee (fee_tier_schedule x') 99 = 50"
proof -
  let ?tiers = "[\<lparr>ft_min_volume = 0, ft_fee = 100\<rparr>, \<lparr>ft_min_volume = 10, ft_fee = 50\<rparr>, \<lparr>ft_min_volume = 100, ft_fee = 10\<rparr>]"
  obtain x' evs where ok: "set_fee_tier_schedule (sample_env 1) sample_auth [] ?tiers empty_credits = Inr (x', evs)"
    by (simp add: set_fee_tier_schedule_def MAX_FEE_TIERS_def MAX_GATE_FEE_TIER_def)
  then show ?thesis
    using fee_of_highest_reached_tier [OF ok, of 99] by auto
qed

end
