(* ===== verification/Keeper.thy ===== *)
theory Keeper
  imports Submission Token
begin

text \<open>
  Rewards for renewing the entries of the score store (\<^verbatim>\<open>rent_relay_credits.rs\<close> 32--236, \<^verbatim>\<open>storage.rs\<close>
  3551--3658): a pool that the administrators fill, and a call open to everybody that renews the entries near
  their expiry and is paid for each of them, up to the pool and a cap per ledger.
\<close>

abbreviation "KeeperRewardTokenNotSet \<equiv> FeeTokenNotSet"
abbreviation "InvalidKeeperRewardParams \<equiv> InvalidThreshold"

record keeper_state =
  keeper_reward_token :: "address option"
  keeper_reward_pool :: "int option"
  keeper_reward_per_entry :: "int option"
  keeper_reward_window :: "u32 option"
  keeper_reward_per_ledger_cap :: "int option"
  keeper_reward_ledger_spent :: "u32 \<Rightarrow> int option"

definition empty_keeper :: keeper_state where
  "empty_keeper = \<lparr>keeper_reward_token = None, keeper_reward_pool = None, keeper_reward_per_entry = None,
     keeper_reward_window = None, keeper_reward_per_ledger_cap = None, keeper_reward_ledger_spent = (\<lambda>_. None)\<rparr>"

definition KEEPER_BATCH_MAX :: nat where "KEEPER_BATCH_MAX = unat MAX_EXPIRING_ENTRIES_PER_CALL"
definition DEFAULT_KEEPER_REWARD_WINDOW :: u32 where "DEFAULT_KEEPER_REWARD_WINDOW = 0"
definition MAX_KEEPER_REWARD_PER_ENTRY :: int where "MAX_KEEPER_REWARD_PER_ENTRY = 1000000000"

section \<open>The pool\<close>

definition get_keeper_reward_pool :: "keeper_state \<Rightarrow> int" where
  "get_keeper_reward_pool x = unwrap_or (keeper_reward_pool x) 0"

definition get_keeper_reward_per_entry :: "keeper_state \<Rightarrow> int" where
  "get_keeper_reward_per_entry x = unwrap_or (keeper_reward_per_entry x) 0"

definition get_keeper_reward_window :: "keeper_state \<Rightarrow> u32" where
  "get_keeper_reward_window x = unwrap_or (keeper_reward_window x) DEFAULT_KEEPER_REWARD_WINDOW"

definition get_keeper_reward_per_ledger_cap :: "keeper_state \<Rightarrow> int" where
  "get_keeper_reward_per_ledger_cap x = unwrap_or (keeper_reward_per_ledger_cap x) 0"

definition credit_keeper_reward_pool :: "int \<Rightarrow> keeper_state \<Rightarrow> int \<times> keeper_state" where
  "credit_keeper_reward_pool n x =
     (let new_balance = i128_clamp (get_keeper_reward_pool x + n) in
      (new_balance, x\<lparr>keeper_reward_pool := Some new_balance\<rparr>))"

definition debit_keeper_reward_pool :: "int \<Rightarrow> keeper_state \<Rightarrow> keeper_state res" where
  "debit_keeper_reward_pool n x =
     (let balance = get_keeper_reward_pool x in
      if balance < n then Inl (Err ArithmeticOverflow) else Inr (x\<lparr>keeper_reward_pool := Some (balance - n)\<rparr>))"

definition get_ledger_spent :: "env \<Rightarrow> keeper_state \<Rightarrow> int" where
  "get_ledger_spent e x = unwrap_or (keeper_reward_ledger_spent x (ledger_sequence e)) 0"

definition keeper_reward_payable :: "env \<Rightarrow> int \<Rightarrow> keeper_state \<Rightarrow> int" where
  "keeper_reward_payable e requested_total x =
     (let per_ledger_cap = get_keeper_reward_per_ledger_cap x;
          payable = min requested_total (get_keeper_reward_pool x) in
      if 0 < per_ledger_cap
      then min payable (max (i128_clamp (per_ledger_cap - get_ledger_spent e x)) 0)
      else payable)"

definition record_keeper_reward_spent :: "env \<Rightarrow> int \<Rightarrow> keeper_state \<Rightarrow> keeper_state" where
  "record_keeper_reward_spent e n x =
     (if n \<le> 0 then x
      else x\<lparr>keeper_reward_ledger_spent :=
             (keeper_reward_ledger_spent x)(ledger_sequence e \<mapsto> i128_clamp (get_ledger_spent e x + n))\<rparr>)"

section \<open>Administration\<close>

definition set_keeper_reward_token :: "env \<Rightarrow> auth_state \<Rightarrow> address list \<Rightarrow> address \<Rightarrow> keeper_state \<Rightarrow> keeper_state op" where
  "set_keeper_reward_token e a signers token x =
     admin_guard e signers a (Inr (x\<lparr>keeper_reward_token := Some token\<rparr>, []))"

definition fund_keeper_reward_pool ::
    "'k token_transfer \<Rightarrow> env \<Rightarrow> auth_state \<Rightarrow> address list \<Rightarrow> int \<Rightarrow> keeper_state \<times> 'k \<Rightarrow>
     ((keeper_state \<times> 'k) \<times> int \<times> event list) res" where
  "fund_keeper_reward_pool transfer e a signers n s =
     (case s of (x, tok) \<Rightarrow>
      if \<not> has_admin a then Inl (Err NotInitialized)
      else if n \<le> 0 then Inl (Err InvalidScore)
      else
        bind_res (require_admin_auth e signers a) (\<lambda>_.
        bind_res (get_admin a) (\<lambda>adm.
        case keeper_reward_token x of
          None \<Rightarrow> Inl (Err KeeperRewardTokenNotSet)
        | Some token \<Rightarrow>
            bind_res (transfer token adm (current_contract e) n tok) (\<lambda>tok'.
            (let (new_balance, x') = credit_keeper_reward_pool n x in
             Inr ((x', tok'), new_balance,
                  [Event ''keeper_reward_pool_funded'' [VAddr adm, VInt n, VInt new_balance]]))))))"

definition set_keeper_reward_params ::
    "env \<Rightarrow> auth_state \<Rightarrow> address list \<Rightarrow> int \<Rightarrow> u32 \<Rightarrow> int \<Rightarrow> keeper_state \<Rightarrow> keeper_state op" where
  "set_keeper_reward_params e a signers reward_per_entry window_ledgers per_ledger_cap x =
     (if \<not> has_admin a then Inl (Err NotInitialized)
      else if \<not> (0 \<le> reward_per_entry \<and> reward_per_entry \<le> MAX_KEEPER_REWARD_PER_ENTRY)
            \<or> SCORE_TTL_THRESHOLD < window_ledgers \<or> per_ledger_cap < 0
      then Inl (Err InvalidKeeperRewardParams)
      else
        bind_res (require_admin_auth e signers a) (\<lambda>_.
          Inr (x\<lparr>keeper_reward_per_entry := Some reward_per_entry, keeper_reward_window := Some window_ledgers,
                  keeper_reward_per_ledger_cap := Some per_ledger_cap\<rparr>,
               [Event ''keeper_reward_params_set'' [VInt reward_per_entry, VU32 window_ledgers, VInt per_ledger_cap]])))"

section \<open>Renewing entries\<close>

definition keeper_entry_eligible :: "env \<Rightarrow> keeper_state \<Rightarrow> score_store \<Rightarrow> pair_key \<Rightarrow> bool" where
  "keeper_entry_eligible e x st k =
     (case estimate_entry_ttl e k st of
        Some remaining \<Rightarrow> remaining \<le> get_keeper_reward_window x
      | None \<Rightarrow> False)"

text \<open>The loop over the entries: how many were renewed, the reward asked for, and the store.  The batch is bounded,
  so the count does not overflow.\<close>

fun keeper_loop :: "env \<Rightarrow> keeper_state \<Rightarrow> pair_key list \<Rightarrow> u32 \<Rightarrow> int \<Rightarrow> score_store \<Rightarrow> u32 \<times> int \<times> score_store" where
  "keeper_loop e x [] renewed requested st = (renewed, requested, st)"
| "keeper_loop e x (k # entries) renewed requested st =
     (if \<not> keeper_entry_eligible e x st k then keeper_loop e x entries renewed requested st
      else
        (let (found, st') = extend_score_entry_ttl e k st in
         if \<not> found then keeper_loop e x entries renewed requested st'
         else keeper_loop e x entries (renewed + 1)
           (if 0 < get_keeper_reward_per_entry x
            then i128_clamp (requested + get_keeper_reward_per_entry x) else requested) st'))"

text \<open>The renewal by the admins, without window or reward.\<close>

fun extend_loop :: "env \<Rightarrow> pair_key list \<Rightarrow> u32 \<Rightarrow> score_store \<Rightarrow> u32 \<times> score_store" where
  "extend_loop e [] renewed st = (renewed, st)"
| "extend_loop e (k # entries) renewed st =
     (let (found, st') = extend_score_entry_ttl e k st in extend_loop e entries (if found then renewed + 1 else renewed) st')"

definition extend_entry_ttls ::
    "env \<Rightarrow> auth_state \<Rightarrow> address list \<Rightarrow> pair_key list \<Rightarrow> score_store \<Rightarrow> (score_store \<times> u32 \<times> event list) res" where
  "extend_entry_ttls e a signers entries st =
     admin_guard e signers a
       (if unat MAX_EXPIRING_ENTRIES_PER_CALL < length entries then Inl (Err BatchTooLarge)
        else let (renewed, st') = extend_loop e entries 0 st in
          Inr (st', renewed, [Event ''entry_ttls_extended'' [VU32 renewed, VU32 (of_nat (length entries))]]))"

definition pay_keeper ::
    "'k token_transfer \<Rightarrow> env \<Rightarrow> address \<Rightarrow> int \<Rightarrow> keeper_state \<times> 'k \<Rightarrow> (int \<times> keeper_state \<times> 'k) res" where
  "pay_keeper transfer e keeper requested s =
     (case s of (x, tok) \<Rightarrow>
      if requested \<le> 0 then Inr (0, s)
      else
        (let paid = keeper_reward_payable e requested x in
         if paid \<le> 0 then Inr (paid, s)
         else
           bind_res (debit_keeper_reward_pool paid x) (\<lambda>x1.
           (let x2 = record_keeper_reward_spent e paid x1 in
            case keeper_reward_token x2 of
              None \<Rightarrow> Inl (Err KeeperRewardTokenNotSet)
            | Some token \<Rightarrow>
                bind_res (transfer token (current_contract e) keeper paid tok) (\<lambda>tok'. Inr (paid, x2, tok'))))))"

definition keeper_extend_entry_ttls ::
    "'k token_transfer \<Rightarrow> env \<Rightarrow> address \<Rightarrow> pair_key list \<Rightarrow> contract \<times> keeper_state \<times> 'k \<Rightarrow>
     ((contract \<times> keeper_state \<times> 'k) \<times> (u32 \<times> int) \<times> event list) res" where
  "keeper_extend_entry_ttls transfer e keeper entries s =
     (case s of (c, x, tok) \<Rightarrow>
      if \<not> has_admin (c_auth c) then Inl (Err NotInitialized)
      else if KEEPER_BATCH_MAX < length entries then Inl (Err BatchTooLarge)
      else
        bind_res (require_auth e keeper) (\<lambda>_.
        (let (renewed, requested, st) = keeper_loop e x entries 0 0 (c_store c) in
         bind_res (pay_keeper transfer e keeper requested (x, tok)) (\<lambda>(paid, x', tok').
           Inr ((c\<lparr>c_store := st\<rparr>, x', tok'), (renewed, paid),
                [Event ''keeper_reward_paid'' [VAddr keeper, VU32 renewed, VInt paid]])))))"

section \<open>An entry is paid once\<close>

definition keeper_due :: "env \<Rightarrow> keeper_state \<Rightarrow> score_store \<Rightarrow> pair_key \<Rightarrow> bool" where
  "keeper_due e x st k \<longleftrightarrow> keeper_entry_eligible e x st k \<and> scores st k \<noteq> None"

lemma extend_entry_fields:
  "scores (snd (extend_score_entry_ttl e k st)) = scores st"
  "fst (extend_score_entry_ttl e k st) = (scores st k \<noteq> None)"
  "last_touched (snd (extend_score_entry_ttl e k st))
     = (if scores st k = None then last_touched st else (last_touched st)(k \<mapsto> ledger_sequence e))"
  by (auto simp: extend_score_entry_ttl_def touch_score_entry_def reindex_entry_to_back_def Let_def split: option.split)

lemma extend_loop_fields:
  "scores (snd (extend_loop e ks n st)) = scores st"
  "last_touched (snd (extend_loop e ks n st))
     = (\<lambda>k. if k \<in> set ks \<and> scores st k \<noteq> None then Some (ledger_sequence e) else last_touched st k)"
  by (induction ks arbitrary: n st) (auto simp: extend_entry_fields fun_eq_iff case_prod_unfold)

lemma eligible_cong:
  "last_touched st' k = last_touched st k \<Longrightarrow> keeper_entry_eligible e x st' k = keeper_entry_eligible e x st k"
  by (simp add: keeper_entry_eligible_def estimate_entry_ttl_def ledgers_since_touch_def)

lemma renewed_not_eligible:
  assumes "last_touched st k = Some l" "get_keeper_reward_window x < SCORE_TTL_THRESHOLD"
    and "saturating_sub (ledger_sequence e) l < SCORE_TTL_THRESHOLD - get_keeper_reward_window x"
  shows "\<not> keeper_entry_eligible e x st k"
proof -
  let ?d = "saturating_sub (ledger_sequence e) l" and ?w = "get_keeper_reward_window x"
  have "unat ?d < unat SCORE_TTL_THRESHOLD - unat ?w"
    using assms(2,3) by (simp add: word_less_nat_alt unat_sub word_le_nat_alt)
  then have "unat ?w < unat (saturating_sub SCORE_TTL_THRESHOLD ?d)"
    by (subst unat_saturating_sub) simp
  then show ?thesis
    using assms(1) by (simp add: keeper_entry_eligible_def estimate_entry_ttl_def ledgers_since_touch_def word_le_nat_alt)
qed

lemma due_after_renewal:
  assumes "get_keeper_reward_window x < SCORE_TTL_THRESHOLD" "scores st k \<noteq> None"
  shows "keeper_due e x (snd (extend_score_entry_ttl e k st)) h \<longleftrightarrow> h \<noteq> k \<and> keeper_due e x st h"
proof (cases "h = k")
  case True
  have "\<not> keeper_entry_eligible e x (snd (extend_score_entry_ttl e k st)) k"
    using assms by (intro renewed_not_eligible [where l = "ledger_sequence e"])
      (auto simp: extend_entry_fields word_less_nat_alt unat_sub word_le_nat_alt)
  with True show ?thesis
    by (simp add: keeper_due_def)
next
  case False
  then show ?thesis
    using eligible_cong [of "snd (extend_score_entry_ttl e k st)" h st e x] assms(2)
    by (simp add: keeper_due_def extend_entry_fields)
qed


lemma keeper_loop_once:
  assumes "get_keeper_reward_window x < SCORE_TTL_THRESHOLD" "keeper_loop e x entries r q st = (r', q', st')"
    "0 \<le> get_keeper_reward_per_entry x" "0 \<le> q" "q + int (length entries) * get_keeper_reward_per_entry x < 2 ^ 127"
  shows "r' = r + of_nat (card {k \<in> set entries. keeper_due e x st k}) \<and>
    q' = q + int (card {k \<in> set entries. keeper_due e x st k}) * get_keeper_reward_per_entry x \<and>
    scores st' = scores st \<and>
    (\<forall>k. last_touched st' k
       = (if k \<in> set entries \<and> keeper_due e x st k then Some (ledger_sequence e) else last_touched st k))"
  using assms(2,4,5)
proof (induction entries arbitrary: r q st)
  case (Cons k entries)
  let ?p = "get_keeper_reward_per_entry x"
  have room: "q + ?p + int (length entries) * ?p < 2 ^ 127" "0 \<le> int (length entries) * ?p"
    using Cons.prems(3) assms(3) by (simp_all add: algebra_simps)
  show ?case
  proof (cases "keeper_due e x st k")
    case False
    then have "keeper_loop e x entries r q st = (r', q', st')"
      using Cons.prems(1) extend_entry_fields(2) [of e k st]
      by (auto simp: keeper_due_def Let_def case_prod_unfold extend_score_entry_ttl_def split: if_splits option.splits)
    moreover have "{h \<in> set (k # entries). keeper_due e x st h} = {h \<in> set entries. keeper_due e x st h}"
      using False by auto
    ultimately show ?thesis
      using Cons.IH [of r q st] Cons.prems(2) room assms(3) False by auto
  next
    case True
    let ?st = "snd (extend_score_entry_ttl e k st)"
    have live: "keeper_entry_eligible e x st k" "scores st k \<noteq> None"
      using True by (simp_all add: keeper_due_def)
    note due = due_after_renewal [OF assms(1) live(2), of e]
    have "q + ?p < 2 ^ 127"
      using room by linarith
    then have "(if 0 < ?p then i128_clamp (q + ?p) else q) = q + ?p"
      using assms(3) Cons.prems(2) by (auto intro!: i128_clamp_id)
    then have rec: "keeper_loop e x entries (r + 1) (q + ?p) ?st = (r', q', st')"
      using Cons.prems(1) live extend_entry_fields(2) [of e k st] by (simp add: Let_def case_prod_unfold)
    have "{h \<in> set (k # entries). keeper_due e x st h} = insert k {h \<in> set entries. keeper_due e x ?st h}"
      using True due by auto
    then have card: "card {h \<in> set (k # entries). keeper_due e x st h} = Suc (card {h \<in> set entries. keeper_due e x ?st h})"
      using due by simp
    show ?thesis
      using Cons.IH [OF rec] Cons.prems(2) assms(3) room(1) True due
      unfolding card by (auto simp: extend_entry_fields live algebra_simps)
  qed
qed simp

section \<open>The pool is backed\<close>

definition keeper_wf :: "('k \<Rightarrow> address \<Rightarrow> address \<Rightarrow> int) \<Rightarrow> address \<Rightarrow> keeper_state \<times> 'k \<Rightarrow> bool" where
  "keeper_wf balance self s \<longleftrightarrow>
     0 \<le> get_keeper_reward_pool (fst s) \<and> get_keeper_reward_pool (fst s) < 2 ^ 127 \<and>
     0 \<le> get_keeper_reward_per_entry (fst s) \<and> get_keeper_reward_per_entry (fst s) \<le> MAX_KEEPER_REWARD_PER_ENTRY \<and>
     0 \<le> get_keeper_reward_per_ledger_cap (fst s) \<and>
     (\<forall>e. 0 \<le> get_ledger_spent e (fst s)) \<and>
     (case keeper_reward_token (fst s) of
        None \<Rightarrow> get_keeper_reward_pool (fst s) = 0
      | Some token \<Rightarrow> get_keeper_reward_pool (fst s) \<le> balance (snd s) token self)"

text \<open>The steps of the pool.  As for the credits, the token is replaced while the pool is empty, and other transfers only
  add to what the contract holds.\<close>

inductive keeper_step ::
    "'k token_transfer \<Rightarrow> ('k \<Rightarrow> address \<Rightarrow> address \<Rightarrow> int) \<Rightarrow> env \<Rightarrow> keeper_state \<times> 'k \<Rightarrow> keeper_state \<times> 'k \<Rightarrow> bool"
  for transfer :: "'k token_transfer" and balance :: "'k \<Rightarrow> address \<Rightarrow> address \<Rightarrow> int" and e :: env where
  token: "set_keeper_reward_token e a signers token x = Inr (x', evs) \<Longrightarrow> get_keeper_reward_pool x = 0 \<Longrightarrow>
    0 \<le> balance tok token (current_contract e) \<Longrightarrow> keeper_step transfer balance e (x, tok) (x', tok)"
| fund: "fund_keeper_reward_pool transfer e a signers n (x, tok) = Inr ((x', tok'), r) \<Longrightarrow>
    get_admin a \<noteq> Inr (current_contract e) \<Longrightarrow>
    (\<forall>token. balance tok' token (current_contract e) < 2 ^ 127) \<Longrightarrow> keeper_step transfer balance e (x, tok) (x', tok')"
| params: "set_keeper_reward_params e a signers reward window cap x = Inr (x', evs) \<Longrightarrow>
    keeper_step transfer balance e (x, tok) (x', tok)"
| renew: "keeper_extend_entry_ttls transfer e keeper entries (c, x, tok) = Inr ((c', x', tok'), r) \<Longrightarrow>
    keeper_step transfer balance e (x, tok) (x', tok')"
| elsewhere: "(\<forall>token. balance tok token (current_contract e) \<le> balance tok' token (current_contract e)) \<Longrightarrow>
    keeper_step transfer balance e (x, tok) (x, tok')"

inductive keeper_reachable ::
    "'k token_transfer \<Rightarrow> ('k \<Rightarrow> address \<Rightarrow> address \<Rightarrow> int) \<Rightarrow> address \<Rightarrow> keeper_state \<times> 'k \<Rightarrow> bool"
  for transfer :: "'k token_transfer" and balance :: "'k \<Rightarrow> address \<Rightarrow> address \<Rightarrow> int" and self :: address where
  init: "keeper_reachable transfer balance self (empty_keeper, tok)"
| step: "keeper_reachable transfer balance self s \<Longrightarrow> current_contract e = self \<Longrightarrow>
    keeper_step transfer balance e s s' \<Longrightarrow> keeper_reachable transfer balance self s'"

lemmas keeper_get_defs = get_keeper_reward_pool_def get_keeper_reward_per_entry_def get_keeper_reward_window_def
  get_keeper_reward_per_ledger_cap_def get_ledger_spent_def

lemma payable_bounds:
  assumes "keeper_wf balance self (x, tok)" "0 \<le> requested"
  shows "0 \<le> keeper_reward_payable e requested x" "keeper_reward_payable e requested x \<le> requested"
    "keeper_reward_payable e requested x \<le> get_keeper_reward_pool x"
    "0 < get_keeper_reward_per_ledger_cap x \<Longrightarrow>
       get_ledger_spent e x + keeper_reward_payable e requested x \<le> max (get_ledger_spent e x) (get_keeper_reward_per_ledger_cap x)"
  using assms by (auto simp: keeper_wf_def keeper_reward_payable_def Let_def i128_clamp_def min_def max_def)

lemma paid_fields:
  fixes e :: env
  assumes "0 < n" "keeper_wf balance self (x, tok)"
  shows "get_keeper_reward_pool (record_keeper_reward_spent e n (x\<lparr>keeper_reward_pool := Some m\<rparr>)) = m"
    "get_keeper_reward_per_entry (record_keeper_reward_spent e n (x\<lparr>keeper_reward_pool := Some m\<rparr>)) = get_keeper_reward_per_entry x"
    "get_keeper_reward_per_ledger_cap (record_keeper_reward_spent e n (x\<lparr>keeper_reward_pool := Some m\<rparr>))
      = get_keeper_reward_per_ledger_cap x"
    "get_keeper_reward_window (record_keeper_reward_spent e n (x\<lparr>keeper_reward_pool := Some m\<rparr>)) = get_keeper_reward_window x"
    "keeper_reward_token (record_keeper_reward_spent e n (x\<lparr>keeper_reward_pool := Some m\<rparr>)) = keeper_reward_token x"
    "get_ledger_spent e' (record_keeper_reward_spent e n (x\<lparr>keeper_reward_pool := Some m\<rparr>))
      = (if ledger_sequence e' = ledger_sequence e then min (2 ^ 127 - 1) (get_ledger_spent e x + n) else get_ledger_spent e' x)"
proof -
  have "0 \<le> get_ledger_spent e x"
    using assms(2) by (simp add: keeper_wf_def)
  then show "get_ledger_spent e' (record_keeper_reward_spent e n (x\<lparr>keeper_reward_pool := Some m\<rparr>))
      = (if ledger_sequence e' = ledger_sequence e then min (2 ^ 127 - 1) (get_ledger_spent e x + n) else get_ledger_spent e' x)"
    using assms(1) by (simp add: record_keeper_reward_spent_def keeper_get_defs i128_clamp_def)
qed (use assms(1) in \<open>simp_all add: record_keeper_reward_spent_def keeper_get_defs\<close>)

text \<open>A payment from a pool in this state always goes through, and pays what is payable.\<close>

definition keeper_paid ::
    "('k \<Rightarrow> address \<Rightarrow> address \<Rightarrow> int) \<Rightarrow> env \<Rightarrow> address \<Rightarrow> int \<Rightarrow> keeper_state \<times> 'k \<Rightarrow> int \<Rightarrow> keeper_state \<times> 'k \<Rightarrow> bool" where
  "keeper_paid balance e keeper requested s paid s' \<longleftrightarrow>
     paid = keeper_reward_payable e requested (fst s) \<and>
     get_keeper_reward_pool (fst s') = get_keeper_reward_pool (fst s) - paid \<and>
     get_keeper_reward_window (fst s') = get_keeper_reward_window (fst s) \<and>
     get_ledger_spent e (fst s') = (if paid = 0 then get_ledger_spent e (fst s) else min (2 ^ 127 - 1) (get_ledger_spent e (fst s) + paid)) \<and>
     (\<forall>token. keeper_reward_token (fst s) = Some token \<and> keeper \<noteq> current_contract e \<longrightarrow>
        balance (snd s') token keeper = balance (snd s) token keeper + paid)"

lemma payable_zero: "keeper_wf balance self (x, tok) \<Longrightarrow> keeper_reward_payable e 0 x = 0"
  using payable_bounds(1,2) [of balance self x tok 0 e] by simp

lemma pay_keeper_ok:
  assumes wf: "keeper_wf balance (current_contract e) (x, tok)" and laws: "token_laws transfer balance" and "0 \<le> requested"
  shows "\<exists>paid x' tok'. pay_keeper transfer e keeper requested (x, tok) = Inr (paid, x', tok') \<and>
    keeper_paid balance e keeper requested (x, tok) paid (x', tok') \<and> keeper_wf balance (current_contract e) (x', tok')"
proof -
  let ?n = "keeper_reward_payable e requested x"
  note b = payable_bounds [OF wf assms(3), of e]
  show ?thesis
  proof (cases "?n = 0")
    case True
    then have "pay_keeper transfer e keeper requested (x, tok) = Inr (0, x, tok)"
      by (simp add: pay_keeper_def Let_def)
    then show ?thesis
      using True wf by (intro exI [of _ 0] exI [of _ x] exI [of _ tok]) (simp add: keeper_paid_def)
  next
    case False
    then have pos: "0 < ?n"
      using b(1) by simp
    then obtain token where token: "keeper_reward_token x = Some token" "get_keeper_reward_pool x \<le> balance tok token (current_contract e)"
      using wf b(3) by (auto simp: keeper_wf_def split: option.splits)
    then obtain tok' where moved: "transfer token (current_contract e) keeper ?n tok = Inr tok'"
      using laws b(1,3) unfolding token_laws_def by (meson order_trans)
    let ?x = "record_keeper_reward_spent e ?n (x\<lparr>keeper_reward_pool := Some (get_keeper_reward_pool x - ?n)\<rparr>)"
    note f = paid_fields [OF pos wf]
    have "pay_keeper transfer e keeper requested (x, tok) = Inr (?n, ?x, tok')"
      using pos b(2,3) token(1) moved by (simp add: pay_keeper_def debit_keeper_reward_pool_def Let_def f)
    moreover have "keeper_paid balance e keeper requested (x, tok) ?n (?x, tok')"
      using pos token_moved [OF laws moved] token(1) by (auto simp: keeper_paid_def f)
    moreover have "keeper_wf balance (current_contract e) (?x, tok')"
      using wf b(1,3) token token_moved [OF laws moved] unfolding keeper_wf_def by (auto simp: f)
    ultimately show ?thesis by blast
  qed
qed

lemma keeper_loop_requested:
  assumes "keeper_loop e x entries r q st = (r', q', st')" "0 \<le> q" "0 \<le> get_keeper_reward_per_entry x"
  shows "0 \<le> q'"
  using assms(1,2)
proof (induction entries arbitrary: r q st)
  case (Cons k entries)
  have "0 \<le> i128_clamp (q + get_keeper_reward_per_entry x)"
    using Cons.prems(2) assms(3) by (simp add: i128_clamp_def)
  then show ?case
    using Cons by (auto simp: Let_def case_prod_unfold split: if_splits)
qed simp

lemma keeper_step_wf:
  assumes "keeper_step transfer balance e s s'" "keeper_wf balance (current_contract e) s" "token_laws transfer balance"
  shows "keeper_wf balance (current_contract e) s'"
  using assms(1)
proof (cases rule: keeper_step.cases)
  case (token a signers t x x' evs tok)
  then show ?thesis
    using assms(2) by (auto simp: set_keeper_reward_token_def keeper_wf_def keeper_get_defs dest!: guard_InrD(1,2))
next
  case (fund a signers n x tok x' tok' r)
  then obtain t adm where f: "0 < n" "get_admin a = Inr adm" "keeper_reward_token x = Some t"
    "transfer t adm (current_contract e) n tok = Inr tok'" "x' = snd (credit_keeper_reward_pool n x)"
    by (auto simp: fund_keeper_reward_pool_def bind_res_Inr_iff Let_def case_prod_unfold split: if_splits option.splits)
  have moved: "balance tok' t (current_contract e) = balance tok t (current_contract e) + n"
    using token_moved [OF assms(3) f(4)] fund(4) f(2) by auto
  then have le: "get_keeper_reward_pool x + n \<le> balance tok' t (current_contract e)"
    using assms(2) f(3) by (simp add: fund(1) keeper_wf_def)
  then have "i128_clamp (get_keeper_reward_pool x + n) = get_keeper_reward_pool x + n"
    using assms(2) f(1) fund(5) unfolding fund(1) keeper_wf_def by (intro i128_clamp_id) (auto intro: order.strict_trans1)
  then show ?thesis
    using assms(2) f le fund(5) unfolding fund(1,2) keeper_wf_def
    by (auto simp: credit_keeper_reward_pool_def Let_def keeper_get_defs intro: order.strict_trans1)
next
  case (params a signers reward window cap x x' evs tok)
  then show ?thesis
    using assms(2) by (auto simp: set_keeper_reward_params_def keeper_wf_def keeper_get_defs bind_res_Inr_iff
        split: if_splits option.splits)
next
  case (renew keeper entries c x tok c' x' tok' r)
  obtain ren q st where l: "keeper_loop e x entries 0 0 (c_store c) = (ren, q, st)"
    by (metis prod_cases3)
  have "0 \<le> q"
    using keeper_loop_requested [OF l] assms(2) by (simp add: renew(1) keeper_wf_def)
  then obtain paid s'' where "pay_keeper transfer e keeper q (x, tok) = Inr (paid, s'')" "keeper_wf balance (current_contract e) s''"
    using pay_keeper_ok [of balance e x tok transfer q keeper] assms(2,3) renew(1) by blast
  then show ?thesis
    using renew l by (auto simp: keeper_extend_entry_ttls_def bind_res_Inr_iff split: if_splits)
next
  case (elsewhere tok tok' x)
  then show ?thesis
    using assms(2) by (auto simp: keeper_wf_def split: option.splits intro: order_trans)
qed

lemma reachable_keeper_wf:
  assumes "keeper_reachable transfer balance self s" "token_laws transfer balance"
  shows "keeper_wf balance self s"
  using assms
proof (induction rule: keeper_reachable.induct)
  case (step s e s')
  then show ?case
    using keeper_step_wf by metis
qed (simp add: keeper_wf_def keeper_get_defs empty_keeper_def MAX_KEEPER_REWARD_PER_ENTRY_def)


text \<open>The largest window that \<^verbatim>\<open>set_keeper_reward_params\<close> accepts is the threshold itself.  Then a renewed entry is
  eligible at once, and a batch that names one entry many times is paid for each time.\<close>

lemma widest_window_always_eligible:
  assumes "get_keeper_reward_window x = SCORE_TTL_THRESHOLD"
  shows "keeper_entry_eligible e x st k \<longleftrightarrow> last_touched st k \<noteq> None"
  using assms by (cases "last_touched st k")
    (simp_all add: keeper_entry_eligible_def estimate_entry_ttl_def ledgers_since_touch_def)

theorem widest_window_pays_repeats:
  assumes "get_keeper_reward_window x = SCORE_TTL_THRESHOLD" "scores st k \<noteq> None" "last_touched st k \<noteq> None"
    and "0 < get_keeper_reward_per_entry x" "0 \<le> q" "q + int n * get_keeper_reward_per_entry x < 2 ^ 127"
  shows "\<exists>st'. keeper_loop e x (replicate n k) r q st = (r + of_nat n, q + int n * get_keeper_reward_per_entry x, st')"
  using assms(2,3,5,6)
proof (induction n arbitrary: r q st)
  case (Suc n)
  let ?st = "snd (extend_score_entry_ttl e k st)" and ?p = "get_keeper_reward_per_entry x"
  have "0 \<le> int n * ?p" and room: "q + ?p + int n * ?p < 2 ^ 127"
    using Suc.prems(4) assms(4) by (simp_all add: algebra_simps)
  then have "i128_clamp (q + ?p) = q + ?p"
    using Suc.prems(3) assms(4) by (intro i128_clamp_id) linarith+
  then have "keeper_loop e x (replicate (Suc n) k) r q st = keeper_loop e x (replicate n k) (r + 1) (q + ?p) ?st"
    using Suc.prems(1,2) assms(4) widest_window_always_eligible [OF assms(1)] extend_entry_fields(2) [of e k st]
    by (simp add: Let_def case_prod_unfold)
  moreover have "scores ?st k \<noteq> None" "last_touched ?st k \<noteq> None"
    using Suc.prems(1) by (auto simp: extend_entry_fields)
  ultimately show ?case
    using Suc.IH [of ?st "q + ?p" "r + 1"] Suc.prems(3) assms(4) room by (simp add: algebra_simps)
qed simp

section \<open>A keeper at work\<close>

definition sample_keeper :: keeper_state where
  "sample_keeper = empty_keeper\<lparr>keeper_reward_token := Some (Addr 8), keeper_reward_pool := Some 100,
     keeper_reward_per_entry := Some 30, keeper_reward_window := Some 1000, keeper_reward_per_ledger_cap := Some 50\<rparr>"

definition sample_pool_holdings :: "address \<Rightarrow> address \<Rightarrow> int" where
  "sample_pool_holdings token h = (if token = Addr 8 \<and> h = Addr 0 then 100 else 0)"

lemma sample_keeper_reachable:
  "keeper_reachable sample_transfer (\<lambda>bal. bal) (Addr 0) (sample_keeper, sample_pool_holdings)"
proof -
  let ?tok = "\<lambda>t h. if t = Addr 8 \<and> h = Addr 1 then 100 else 0 :: int"
  let ?x1 = "empty_keeper\<lparr>keeper_reward_token := Some (Addr 8)\<rparr>"
  let ?x2 = "?x1\<lparr>keeper_reward_pool := Some 100\<rparr>"
  have self: "current_contract (sample_env 1) = Addr 0"
    by (simp add: sample_env_def)
  have "set_keeper_reward_token (sample_env 1) sample_auth [] (Addr 8) empty_keeper = Inr (?x1, [])"
    by (simp add: set_keeper_reward_token_def)
  then have "keeper_step sample_transfer (\<lambda>bal. bal) (sample_env 1) (empty_keeper, ?tok) (?x1, ?tok)"
    by (rule keeper_step.token) (simp_all add: self keeper_get_defs empty_keeper_def)
  then have first: "keeper_reachable sample_transfer (\<lambda>bal. bal) (Addr 0) (?x1, ?tok)"
    by (rule keeper_reachable.step [OF keeper_reachable.init self])
  have "sample_transfer (Addr 8) (Addr 1) (Addr 0) 100 ?tok = Inr sample_pool_holdings"
    by (auto simp: sample_transfer_def sample_pool_holdings_def fun_eq_iff)
  then have "fund_keeper_reward_pool sample_transfer (sample_env 1) sample_auth [] 100 (?x1, ?tok)
      = Inr ((?x2, sample_pool_holdings), 100, [Event ''keeper_reward_pool_funded'' [VAddr (Addr 1), VInt 100, VInt 100]])"
    by (simp add: fund_keeper_reward_pool_def has_admin_def require_admin_auth_def get_admin_def sample_auth_def empty_auth_def
        require_auth_def sample_env_def credit_keeper_reward_pool_def Let_def keeper_get_defs empty_keeper_def i128_clamp_def)
  then have "keeper_step sample_transfer (\<lambda>bal. bal) (sample_env 1) (?x1, ?tok) (?x2, sample_pool_holdings)"
    by (rule keeper_step.fund) (simp_all add: self sample_pool_holdings_def)
  then have second: "keeper_reachable sample_transfer (\<lambda>bal. bal) (Addr 0) (?x2, sample_pool_holdings)"
    by (rule keeper_reachable.step [OF first self])
  have "set_keeper_reward_params (sample_env 1) sample_auth [] 30 1000 50 ?x2
      = Inr (sample_keeper, [Event ''keeper_reward_params_set'' [VInt 30, VU32 1000, VInt 50]])"
    by (simp add: set_keeper_reward_params_def has_admin_def require_admin_auth_def get_admin_def sample_auth_def empty_auth_def
        require_auth_def sample_env_def MAX_KEEPER_REWARD_PER_ENTRY_def SCORE_TTL_THRESHOLD_def sample_keeper_def empty_keeper_def)
  then have "keeper_step sample_transfer (\<lambda>bal. bal) (sample_env 1) (?x2, sample_pool_holdings) (sample_keeper, sample_pool_holdings)"
    by (rule keeper_step.params)
  then show ?thesis
    by (rule keeper_reachable.step [OF second self])
qed

definition sample_due :: contract where
  "sample_due = sample_contract\<lparr>c_store := (c_store sample_contract)\<lparr>
     scores := [(Addr 7, ''XLM'') \<mapsto> \<lparr>rs_score = 40, rs_benford_flag = False, rs_ml_flag = True, rs_timestamp = 900,
       rs_confidence = 80, rs_model_version = 1, rs_benford_score = 0, rs_ml_score = 0, rs_network_score = 0,
       rs_commitment = None\<rparr>],
     last_touched := [(Addr 7, ''XLM'') \<mapsto> 1]\<rparr>\<rparr>"


theorem widest_window_pays_repeats_witness:
  "\<exists>st'. keeper_loop (sample_env 2) (sample_keeper\<lparr>keeper_reward_window := Some SCORE_TTL_THRESHOLD\<rparr>)
     (replicate 100 (Addr 7, ''XLM'')) 0 0 (c_store sample_due) = (100, 3000, st')"
  using widest_window_pays_repeats [of "sample_keeper\<lparr>keeper_reward_window := Some SCORE_TTL_THRESHOLD\<rparr>" "c_store sample_due"
      "(Addr 7, ''XLM'')" 0 100 "sample_env 2" 0]
  by (simp add: sample_keeper_def keeper_get_defs sample_due_def)

end
