(* ===== verification/Relay.thy ===== *)
theory Relay
  imports Submission Token
begin

text \<open>
  Relaying a signed submission (\<^verbatim>\<open>rent_relay_credits.rs\<close> 238--506, \<^verbatim>\<open>storage.rs\<close> 3660--3749): anybody may hand in
  an attestation of the service, the first relayer may get a tip from a pool, and a repeated relay does nothing.
\<close>

abbreviation "StaleAttestation \<equiv> InvalidAttestation"
abbreviation "RelayTipTokenNotSet \<equiv> FeeTokenNotSet"

record RelayScoreAttestation =
  ra_commitment :: bytes
  ra_signature :: bytes
  ra_contract_id :: bytes
  ra_contract_version :: u32
  ra_nonce :: u64
  ra_valid_before_ledger :: u32

record relay_state =
  relay_tip_token :: "address option"
  relay_tip_pool :: "int option"
  relay_tip_amount :: "int option"
  relay_tip_window_cap :: "int option"
  relay_tip_window_ledgers :: "u32 option"
  relay_tip_window_state :: "(u32 \<times> int) option"
  relayed_attestation_used :: "bytes \<Rightarrow> bool"

definition empty_relay :: relay_state where
  "empty_relay = \<lparr>relay_tip_token = None, relay_tip_pool = None, relay_tip_amount = None, relay_tip_window_cap = None,
     relay_tip_window_ledgers = None, relay_tip_window_state = None, relayed_attestation_used = (\<lambda>_. False)\<rparr>"

section \<open>Tips\<close>

definition get_relay_tip_pool :: "relay_state \<Rightarrow> int" where
  "get_relay_tip_pool x = unwrap_or (relay_tip_pool x) 0"

definition credit_relay_tip_pool :: "int \<Rightarrow> relay_state \<Rightarrow> int \<times> relay_state" where
  "credit_relay_tip_pool n x =
     (let new_balance = i128_clamp (get_relay_tip_pool x + n) in
      (new_balance, x\<lparr>relay_tip_pool := Some new_balance\<rparr>))"

definition debit_relay_tip_pool :: "int \<Rightarrow> relay_state \<Rightarrow> relay_state res" where
  "debit_relay_tip_pool n x =
     (let balance = get_relay_tip_pool x in
      if balance < n then Inl (Err ArithmeticOverflow) else Inr (x\<lparr>relay_tip_pool := Some (balance - n)\<rparr>))"

definition set_relay_tip_token :: "env \<Rightarrow> auth_state \<Rightarrow> address list \<Rightarrow> address \<Rightarrow> relay_state \<Rightarrow> relay_state op" where
  "set_relay_tip_token e a signers token x =
     admin_guard e signers a (Inr (x\<lparr>relay_tip_token := Some token\<rparr>, []))"

definition fund_relay_tip_pool ::
    "'k token_transfer \<Rightarrow> env \<Rightarrow> auth_state \<Rightarrow> address list \<Rightarrow> int \<Rightarrow> relay_state \<times> 'k \<Rightarrow>
     ((relay_state \<times> 'k) \<times> int \<times> event list) res" where
  "fund_relay_tip_pool transfer e a signers n s =
     (case s of (x, tok) \<Rightarrow>
      if \<not> has_admin a then Inl (Err NotInitialized)
      else if n \<le> 0 then Inl (Err InvalidScore)
      else
        bind_res (require_admin_auth e signers a) (\<lambda>_.
        bind_res (get_admin a) (\<lambda>adm.
        case relay_tip_token x of
          None \<Rightarrow> Inl (Err RelayTipTokenNotSet)
        | Some token \<Rightarrow>
            bind_res (transfer token adm (current_contract e) n tok) (\<lambda>tok'.
            (let (new_balance, x') = credit_relay_tip_pool n x in Inr ((x', tok'), new_balance, []))))))"

definition set_relay_tip_params ::
    "env \<Rightarrow> auth_state \<Rightarrow> address list \<Rightarrow> int \<Rightarrow> int \<Rightarrow> u32 \<Rightarrow> relay_state \<Rightarrow> relay_state op" where
  "set_relay_tip_params e a signers n window_cap window_ledgers x =
     (if \<not> has_admin a then Inl (Err NotInitialized)
      else if n < 0 \<or> window_cap < 0 then Inl (Err InvalidThreshold)
      else
        bind_res (require_admin_auth e signers a) (\<lambda>_.
          Inr (x\<lparr>relay_tip_amount := Some n, relay_tip_window_cap := Some window_cap,
                  relay_tip_window_ledgers := Some (max window_ledgers 1)\<rparr>, [])))"

text \<open>What is payable of a tip, with the record of the window moved forward.\<close>

definition relay_tip_payable :: "env \<Rightarrow> int \<Rightarrow> relay_state \<Rightarrow> int \<times> relay_state" where
  "relay_tip_payable e tip x =
     (if tip \<le> 0 then (0, x)
      else
        (let cap = unwrap_or (relay_tip_window_cap x) 0;
             pool = get_relay_tip_pool x in
         if cap = 0 then (min tip pool, x)
         else
           (let window_len = unwrap_or (relay_tip_window_ledgers x) 1;
                now = ledger_sequence e;
                (window_start, spent) = unwrap_or (relay_tip_window_state x) (now, 0);
                (window_start', spent') =
                  (if window_len \<le> saturating_sub now window_start then (now, 0) else (window_start, spent));
                headroom = max (i128_clamp (cap - spent')) 0;
                payable = min (min tip pool) headroom in
            (payable, x\<lparr>relay_tip_window_state := Some (window_start', i128_clamp (spent' + payable))\<rparr>))))"

definition pay_relay_tip ::
    "'k token_transfer \<Rightarrow> env \<Rightarrow> address \<Rightarrow> relay_state \<times> 'k \<Rightarrow> ((relay_state \<times> 'k) \<times> event list) res" where
  "pay_relay_tip transfer e relayer s =
     (case s of (x, tok) \<Rightarrow>
      (let tip = unwrap_or (relay_tip_amount x) 0 in
       if tip \<le> 0 then Inr (s, [])
       else case relay_tip_token x of
           None \<Rightarrow> Inr (s, [])
         | Some token \<Rightarrow>
             (let (payable, x1) = relay_tip_payable e tip x in
              if payable \<le> 0 then Inr ((x1, tok), [])
              else
                bind_res (debit_relay_tip_pool payable x1) (\<lambda>x2.
                bind_res (transfer token (current_contract e) relayer payable tok) (\<lambda>tok'.
                  Inr ((x2, tok'), [Event ''relay_tip_paid'' [VAddr relayer, VInt payable]]))))))"

section \<open>The relay\<close>

definition relay_preimage :: "env \<Rightarrow> score_claim \<Rightarrow> RelayScoreAttestation \<Rightarrow> bytes" where
  "relay_preimage e c att =
     addr_str e (sc_wallet c) @ pair_buf (sc_asset_pair c) @ u32_le (sc_score c)
     @ [if sc_benford_flag c then 1 else 0] @ [if sc_ml_flag c then 1 else 0]
     @ u64_le (sc_timestamp c) @ u32_le (sc_confidence c) @ u32_le (sc_model_version c)
     @ addr_str e (current_contract e) @ network_id e @ ra_contract_id att @ u32_le (ra_contract_version att)
     @ u64_le (ra_nonce att) @ u32_le (ra_valid_before_ledger att)"

definition compute_relay_commitment :: "env \<Rightarrow> score_claim \<Rightarrow> RelayScoreAttestation \<Rightarrow> bytes res" where
  "compute_relay_commitment e c att =
     (if 9 < length (sc_asset_pair c) then Inl (Err InvalidAttestation)
      else Inr (sha256 e (relay_preimage e c att)))"

text \<open>The guards that every relay passes, up to the digest.\<close>

definition relay_guards :: "env \<Rightarrow> address \<Rightarrow> score_claim \<Rightarrow> RelayScoreAttestation \<Rightarrow> contract \<Rightarrow> bytes res" where
  "relay_guards e relayer s att c =
     (if \<not> has_admin (c_auth c) then Inl (Err NotInitialized)
      else if is_frozen c then Inl (Err ContractPaused)
      else
        bind_res (ensure_asset_pair_bounded (sc_asset_pair s)) (\<lambda>_.
        if is_paused c then Inl (Err ContractPaused)
        else if is_pair_paused (sc_asset_pair s) (c_auth c) then Inl (Err ContractPaused)
        else if \<not> is_epoch_open c then Inl (Err EpochClosed)
        else
          bind_res (require_auth e relayer) (\<lambda>_.
          if ra_contract_version att \<noteq> get_contract_version (c_keys c) then Inl (Err StaleAttestation)
          else if ra_valid_before_ledger att < ledger_sequence e then Inl (Err StaleAttestation)
          else
            bind_res (compute_relay_commitment e s att) (\<lambda>digest.
            if digest \<noteq> ra_commitment att then Inl (Err InvalidAttestation) else Inr digest))))"

definition use_relay_nonce :: "RelayScoreAttestation \<Rightarrow> auth_state \<Rightarrow> auth_state res" where
  "use_relay_nonce att a =
     bind_res (get_service a) (\<lambda>svc.
       if unwrap_or (signer_nonce a svc) 0 \<noteq> ra_nonce att then Inl (Err InvalidAttestation)
       else case checked_add (ra_nonce att) 1 of
         None \<Rightarrow> Inl (Err InvalidAttestation)
       | Some next_nonce \<Rightarrow> Inr (a\<lparr>signer_nonce := (signer_nonce a)(svc \<mapsto> next_nonce)\<rparr>))"

definition relay_attested_score ::
    "'k token_transfer \<Rightarrow> env \<Rightarrow> address \<Rightarrow> score_claim \<Rightarrow> RelayScoreAttestation \<Rightarrow> contract \<times> relay_state \<times> 'k \<Rightarrow>
     ((contract \<times> relay_state \<times> 'k) \<times> bool \<times> event list) res" where
  "relay_attested_score transfer e relayer s att st =
     (case st of (c, x, tok) \<Rightarrow>
      bind_res (relay_guards e relayer s att c) (\<lambda>digest.
      if relayed_attestation_used x digest then Inr (st, False, [Event ''relay_duplicate_noop'' [VAddr relayer]])
      else
        bind_res (verify_signature e digest (ra_signature att) (c_keys c)) (\<lambda>y.
        bind_res (use_relay_nonce att (c_auth c)) (\<lambda>a.
        (let x1 = x\<lparr>relayed_attestation_used := (relayed_attestation_used x)(digest := True)\<rparr> in
         bind_res (finalize_score_submission e [] s None (c\<lparr>c_auth := a, c_keys := y\<rparr>)) (\<lambda>(c', evs).
         bind_res (pay_relay_tip transfer e relayer (x1, tok)) (\<lambda>((x', tok'), tip_evs).
           Inr ((c', x', tok'), True,
                evs @ [Event ''relay_accepted'' [VAddr relayer, VAddr (sc_wallet s), VSym (sc_asset_pair s)]] @ tip_evs))))))))"

section \<open>What the relayed message says\<close>

lemma relay_preimage_extends:
  "relay_preimage e c att = commitment_preimage e c (ra_contract_id att) (ra_contract_version att)
     @ u64_le (ra_nonce att) @ u32_le (ra_valid_before_ledger att)"
  by (simp add: relay_preimage_def commitment_preimage_def)

lemma length_commitment_preimage:
  assumes "address_host e ws"
  shows "length (commitment_preimage e c contract_id version) = 147 + length (network_id e) + length contract_id"
  using assms by (simp add: commitment_preimage_def address_host_def)

text \<open>The signed message of a relay determines the whole submission with the nonce, the last ledger, the contract id and
  the version, so a signature cannot be moved to another nonce or a later ledger; and it is never the message of an attestation
  that \<^verbatim>\<open>submit_score\<close> takes, so neither signature can be used in place of the other.\<close>

theorem relay_message_binds:
  assumes host: "address_host e {sc_wallet c, sc_wallet c'}"
    and pairs: "valid_pair (sc_asset_pair c)" "valid_pair (sc_asset_pair c')"
    and ids: "length (ra_contract_id att) = 32" "length (ra_contract_id att') = 32" "length contract_id = 32"
  shows "(relay_preimage e c att = relay_preimage e c' att' \<longrightarrow>
      c = c' \<and> ra_contract_id att = ra_contract_id att' \<and> ra_contract_version att = ra_contract_version att' \<and>
      ra_nonce att = ra_nonce att' \<and> ra_valid_before_ledger att = ra_valid_before_ledger att') \<and>
    relay_preimage e c att \<noteq> commitment_preimage e c' contract_id version"
proof (intro conjI impI)
  assume "relay_preimage e c att = relay_preimage e c' att'"
  then have same: "commitment_preimage e c (ra_contract_id att) (ra_contract_version att)
      = commitment_preimage e c' (ra_contract_id att') (ra_contract_version att')"
    and rest: "u64_le (ra_nonce att) = u64_le (ra_nonce att')"
    "u32_le (ra_valid_before_ledger att) = u32_le (ra_valid_before_ledger att')"
    using ids length_commitment_preimage [OF host] by (simp_all add: relay_preimage_extends)
  show "c = c'" "ra_contract_id att = ra_contract_id att'" "ra_contract_version att = ra_contract_version att'"
    using preimage_inject [OF host pairs _ same] ids by simp_all
  show "ra_nonce att = ra_nonce att'" "ra_valid_before_ledger att = ra_valid_before_ledger att'"
    using rest [THEN le_bytes_inject] by simp_all
next
  have "length (relay_preimage e c att) \<noteq> length (commitment_preimage e c' contract_id version)"
    using ids length_commitment_preimage [OF host] by (simp add: relay_preimage_extends)
  then show "relay_preimage e c att \<noteq> commitment_preimage e c' contract_id version"
    by metis
qed

section \<open>A message is applied once\<close>

inductive relay_step ::
    "'k token_transfer \<Rightarrow> contract \<times> relay_state \<times> 'k \<Rightarrow> contract \<times> relay_state \<times> 'k \<Rightarrow> bool"
  for transfer :: "'k token_transfer" where
  relay: "relay_attested_score transfer e relayer s att st = Inr (st', accepted, evs) \<Longrightarrow> relay_step transfer st st'"
| token: "set_relay_tip_token e a signers token x = Inr (x', evs) \<Longrightarrow> relay_step transfer (c, x, tok) (c, x', tok)"
| fund: "fund_relay_tip_pool transfer e a signers n (x, tok) = Inr ((x', tok'), r) \<Longrightarrow>
    relay_step transfer (c, x, tok) (c, x', tok')"
| params: "set_relay_tip_params e a signers n cap ledgers x = Inr (x', evs) \<Longrightarrow>
    relay_step transfer (c, x, tok) (c, x', tok)"
| elsewhere: "relay_step transfer (c, x, tok) (c', x, tok')"

lemma pay_relay_tip_used:
  assumes "pay_relay_tip transfer e relayer (x, tok) = Inr ((x', tok'), evs)"
  shows "relayed_attestation_used x' = relayed_attestation_used x"
proof -
  have "relayed_attestation_used (snd (relay_tip_payable e tip x)) = relayed_attestation_used x" for tip
    by (simp add: relay_tip_payable_def Let_def case_prod_unfold)
  then show ?thesis
    using assms by (auto simp: pay_relay_tip_def debit_relay_tip_pool_def Let_def case_prod_unfold bind_res_Inr_iff
        split: if_splits option.splits)
qed

lemma relay_guards_InrD:
  assumes "relay_guards e relayer s att c = Inr digest"
  shows "digest = ra_commitment att" "compute_relay_commitment e s att = Inr (ra_commitment att)"
    "ledger_sequence e \<le> ra_valid_before_ledger att" "authorized e relayer" "\<not> is_paused c" "\<not> is_frozen c"
    "ra_contract_version att = get_contract_version (c_keys c)"
  using assms by (auto simp: relay_guards_def bind_res_Inr_iff not_less split: if_splits)

lemma relay_accepted_InrD:
  assumes "relay_attested_score transfer e relayer s att (c, x, tok) = Inr ((c', x', tok'), True, evs)"
  obtains y a evs' where "relay_guards e relayer s att c = Inr (ra_commitment att)"
    "\<not> relayed_attestation_used x (ra_commitment att)"
    "verify_signature e (ra_commitment att) (ra_signature att) (c_keys c) = Inr y"
    "use_relay_nonce att (c_auth c) = Inr a"
    "finalize_score_submission e [] s None (c\<lparr>c_auth := a, c_keys := y\<rparr>) = Inr (c', evs')"
    "relayed_attestation_used x' = (relayed_attestation_used x)(ra_commitment att := True)"
proof -
  obtain digest y a evs' tip_evs where r: "relay_guards e relayer s att c = Inr digest" "\<not> relayed_attestation_used x digest"
    "verify_signature e digest (ra_signature att) (c_keys c) = Inr y" "use_relay_nonce att (c_auth c) = Inr a"
    "finalize_score_submission e [] s None (c\<lparr>c_auth := a, c_keys := y\<rparr>) = Inr (c', evs')"
    "pay_relay_tip transfer e relayer (x\<lparr>relayed_attestation_used := (relayed_attestation_used x)(digest := True)\<rparr>, tok)
      = Inr ((x', tok'), tip_evs)"
    using assms by (auto simp: relay_attested_score_def Let_def bind_res_Inr_iff split: if_splits)
  show thesis
    using that [of y a evs'] r relay_guards_InrD(1) [OF r(1)] pay_relay_tip_used [OF r(6)] by simp
qed

lemma relay_duplicate:
  assumes "relay_attested_score transfer e relayer s att (c, x, tok) = Inr result" "relayed_attestation_used x (ra_commitment att)"
  shows "result = ((c, x, tok), False, [Event ''relay_duplicate_noop'' [VAddr relayer]])"
  using assms relay_guards_InrD(1)
  by (fastforce simp: relay_attested_score_def bind_res_Inr_iff split: if_splits)

lemma relay_False_noop:
  assumes "relay_attested_score transfer e relayer s att st = Inr (st', False, evs)"
  shows "st' = st"
  using assms by (auto simp: relay_attested_score_def Let_def bind_res_Inr_iff case_prod_unfold split: if_splits prod.splits)

lemma relay_step_used:
  assumes "relay_step transfer st st'" "relayed_attestation_used (fst (snd st)) d"
  shows "relayed_attestation_used (fst (snd st')) d"
  using assms(1)
proof (cases rule: relay_step.cases)
  case (relay e relayer s att accepted evs)
  obtain c x tok c' x' tok' where st: "st = (c, x, tok)" "st' = (c', x', tok')"
    by (metis prod_cases3)
  show ?thesis
  proof (cases accepted)
    case True
    then have "relay_attested_score transfer e relayer s att (c, x, tok) = Inr ((c', x', tok'), True, evs)"
      using relay st by simp
    then show ?thesis
      using assms(2) by (elim relay_accepted_InrD) (simp add: st)
  next
    case False
    then show ?thesis
      using relay relay_False_noop assms(2) by fastforce
  qed
qed (use assms(2) in \<open>auto simp: set_relay_tip_token_def fund_relay_tip_pool_def credit_relay_tip_pool_def
    set_relay_tip_params_def Let_def bind_res_Inr_iff split: if_splits option.splits dest!: guard_InrD(1,2)\<close>)

lemma relay_run_used:
  assumes "(relay_step transfer)\<^sup>*\<^sup>* st st'" "relayed_attestation_used (fst (snd st)) d"
  shows "relayed_attestation_used (fst (snd st')) d"
  using assms by (induction rule: rtranclp_induct) (auto intro: relay_step_used)

lemma finalize_direct_records:
  assumes fin: "finalize_score_submission e signers s commitment (c\<lparr>c_auth := a, c_keys := y\<rparr>) = Inr (c', evs)"
    and buffer: "unwrap_or (finality_buffer_secs c) 0 = 0"
  shows "records e (claim_key s) (claimed_score s commitment) c c'" "c_auth c' = a" "c_keys c' = y"
proof -
  define c1 where "c1 = hll_first_time e (claim_key s) (c\<lparr>c_auth := a, c_keys := y\<rparr>)"
  have "unwrap_or (finality_buffer_secs (c\<lparr>c_auth := a, c_keys := y\<rparr>)) 0 = 0"
    using buffer by simp
  then obtain c2 evs' where c2: "same_data c2 c'"
    and w: "write_score_with_rate_limit e (claim_key s) (claimed_score s commitment) c1 = Inr (c2, evs')"
    unfolding c1_def by (rule finalize_direct [OF fin])
  have c1: "same_data c c1"
    unfolding c1_def by (rule same_data_trans [of _ "c\<lparr>c_auth := a, c_keys := y\<rparr>"]) simp_all
  show "records e (claim_key s) (claimed_score s commitment) c c'"
    using single_write.put_records [of e "(claim_key s, claimed_score s commitment)" c1 c2 evs'] w
    by (auto intro: records_same_data [OF c1 c2])
  have "c_auth c' = c_auth c2 \<and> c_keys c' = c_keys c2"
    using fin w buffer unfolding c1_def claim_key_def
    by (auto simp: finalize_score_submission_def Let_def bind_res_Inr_iff normalized_is_claimed case_prod_unfold)
  moreover have "c_keys c2 = c_keys c1"
    using w by (auto elim!: write_score_Inr simp: store_score_def Let_def case_prod_unfold)
  ultimately show "c_auth c' = a" "c_keys c' = y"
    using write_score_frame(2) [OF w] by (simp_all add: c1_def hll_first_time_def)
qed


section \<open>A relayed submission\<close>

definition sample_relay :: RelayScoreAttestation where
  "sample_relay = (let att = \<lparr>ra_commitment = [], ra_signature = replicate 65 0, ra_contract_id = replicate 32 1,
       ra_contract_version = 5, ra_nonce = 0, ra_valid_before_ledger = 10\<rparr> in
     att\<lparr>ra_commitment := sha256 sample_sig_env (relay_preimage sample_sig_env sample_claim att)\<rparr>)"

abbreviation sample_relay_contract :: contract where
  "sample_relay_contract \<equiv> sample_contract\<lparr>c_keys := sample_keys\<rparr>"

lemma sample_relay_guards:
  assumes "c_auth c = sample_auth\<lparr>signer_nonce := n\<rparr>" "get_contract_version (c_keys c) = 5"
  shows "relay_guards sample_sig_env relayer sample_claim sample_relay c = Inr (ra_commitment sample_relay)"
proof -
  have "compute_relay_commitment sample_sig_env sample_claim sample_relay = Inr (ra_commitment sample_relay)"
    by (simp add: compute_relay_commitment_def relay_preimage_def sample_relay_def sample_claim_def Let_def del: le_bytes.simps)
  then show ?thesis
    using assms by (simp add: relay_guards_def is_frozen_def is_paused_def is_epoch_open_def ensure_asset_pair_bounded_def
        asset_pair_is_bounded_def MAX_ASSET_PAIR_BYTES_def sample_claim_def sample_relay_def Let_def has_admin_def
        sample_auth_def empty_auth_def is_pair_paused_def require_auth_def sample_sig_env_def sample_env_def)
qed

lemma sample_relay_finalized:
  "\<exists>c' evs. finalize_score_submission sample_sig_env [] sample_claim None (sample_relay_contract\<lparr>c_auth := a, c_keys := y\<rparr>)
     = Inr (c', evs)"
proof -
  let ?k = "(Addr 7, ''XLM'')" and ?rs = "claimed_score sample_claim None"
  let ?c = "sample_relay_contract\<lparr>c_auth := a, c_keys := y\<rparr>"
  define c1 where "c1 = hll_first_time sample_sig_env ?k ?c"
  have "\<exists>t. bump_counters ?k True ?rs (c_stats c1) = Inr t"
    by (rule sample_bump [OF c1_def]) simp
  then obtain t where t: "bump_counters ?k True ?rs (c_stats c1) = Inr t" ..
  have c1: "c_models c1 = empty_models" "c_limits c1 = empty_limits" "scores (c_store c1) ?k = None"
    "score_hook_dispatching c1 = None"
    by (simp_all add: c1_def hll_first_time_def empty_score_store_def)
  have "\<exists>l. admit_write sample_sig_env ?k None (rs_score ?rs) empty_limits = Inr l"
    by (simp add: admit_eval sample_sig_env_def)
  then obtain l where l: "admit_write sample_sig_env ?k None (rs_score ?rs) (c_limits c1) = Inr l"
    unfolding c1 ..
  have "validate_risk_score ?rs (c_models c1) = Inr ()"
    by (simp add: c1 validate_risk_score_def validate_model_version_def empty_models_def claimed_score_def sample_claim_def)
  then have "write_score_with_rate_limit sample_sig_env ?k ?rs c1 = Inr (store_score sample_sig_env ?k None ?rs l t c1)"
    using t l by (simp add: write_score_with_rate_limit_def c1 is_score_hook_dispatching_def)
  then show ?thesis
    unfolding c1_def finalize_score_submission_def normalized_is_claimed Let_def
    by (simp add: flash_check_def case_prod_unfold validate_normalized_submission_def
        normalize_submission_def validate_model_version_def empty_models_def sample_claim_def)
qed

lemma sample_relay_verifies: "verify_signature sample_sig_env d (ra_signature sample_relay) sample_keys = Inr sample_keys"
  by (simp add: verify_signature_def promote_service_key_def check_signature_def is_key_revoked_at_def sample_relay_def
      sample_keys_def empty_keys_def sample_sig_env_def pubkeys_match_def Let_def)

lemma sample_relay_accepted:
  "\<exists>c' x' evs. relay_attested_score sample_transfer sample_sig_env (Addr 5) sample_claim sample_relay
     (sample_relay_contract, empty_relay, tok) = Inr ((c', x', tok), True, evs)"
proof -
  let ?a = "sample_auth\<lparr>signer_nonce := [Addr 2 \<mapsto> 1]\<rparr>"
  have "relay_guards sample_sig_env (Addr 5) sample_claim sample_relay sample_relay_contract = Inr (ra_commitment sample_relay)"
    by (rule sample_relay_guards [where n = "\<lambda>_. None"])
      (simp_all add: sample_auth_def empty_auth_def sample_keys_def empty_keys_def get_contract_version_def CONTRACT_VERSION_def)
  moreover note sample_relay_verifies
  moreover have "use_relay_nonce sample_relay sample_auth = Inr ?a"
    by (simp add: use_relay_nonce_def sample_auth_def empty_auth_def get_service_def sample_relay_def Let_def checked_add_def)
  moreover obtain c' evs where "finalize_score_submission sample_sig_env [] sample_claim None
      (sample_relay_contract\<lparr>c_auth := ?a, c_keys := sample_keys\<rparr>) = Inr (c', evs)"
    using sample_relay_finalized by blast
  moreover have "pay_relay_tip sample_transfer sample_sig_env (Addr 5) (empty_relay\<lparr>relayed_attestation_used := u\<rparr>, tok)
      = Inr ((empty_relay\<lparr>relayed_attestation_used := u\<rparr>, tok), [])" for u
    by (simp add: pay_relay_tip_def empty_relay_def)
  moreover have "relayed_attestation_used empty_relay = (\<lambda>_. False)"
    by (simp add: empty_relay_def)
  ultimately show ?thesis
    by (simp add: relay_attested_score_def Let_def)
qed


theorem relay_message_binds_witness:
  "relay_preimage (sample_env 1) sample_claim sample_relay
     \<noteq> relay_preimage (sample_env 1) sample_claim (sample_relay\<lparr>ra_nonce := 1\<rparr>) \<and>
   relay_preimage (sample_env 1) sample_claim sample_relay \<noteq> commitment_preimage (sample_env 1) sample_claim (replicate 32 1) 5"
proof -
  have "address_host (sample_env 1) {sc_wallet sample_claim, sc_wallet sample_claim}" "valid_pair (sc_asset_pair sample_claim)"
    by (simp_all add: address_host_def sample_env_def valid_pair_def sample_claim_def)
  then show ?thesis
    using relay_message_binds [of "sample_env 1" sample_claim sample_claim sample_relay "sample_relay\<lparr>ra_nonce := 1\<rparr>"
        "replicate 32 1" 5] by (simp add: sample_relay_def Let_def)
qed

end
