(* ===== verification/Aggregator.thy ===== *)
theory Aggregator
  imports Gate "HOL-Library.Multiset"
begin

text \<open>
  The aggregator over several deployments of the score contract
  (\<^verbatim>\<open>contracts/ledgerlens-aggregator/src/lib.rs\<close>): the registry of shards with their health, the gate
  and the score reads over all of them, and the report on configurations that have drifted apart.
  What a shard answers to a call is a parameter; the last section takes it from the score contract.
\<close>

section \<open>Calls of other contracts\<close>

text \<open>The outcome of a \<^verbatim>\<open>try_\<close> call: \<^verbatim>\<open>Ok(Ok(v))\<close>, \<^verbatim>\<open>Ok(Err(_))\<close> for an answer that does not convert,
  \<^verbatim>\<open>Err(Ok(e))\<close> for an error of the contract, and \<^verbatim>\<open>Err(Err(_))\<close>.\<close>

datatype 'a reply = Answer 'a | Garbled | Rejected error | Unreachable

record shard_api =
  try_supports_interface :: "symbol \<Rightarrow> bool reply"
  try_get_arch_owner :: "address option reply"
  try_get_mandatory_reviewers :: "address list reply"
  try_get_decay_rate :: "(u64 \<times> u64) reply"
  try_get_staleness_window :: "u64 reply"
  try_get_global_min_confidence :: "u32 reply"
  try_get_consensus_config :: "(u32 \<times> u32) reply"
  try_is_watchlisted :: "address \<Rightarrow> bool reply"
  try_query_risk_gate :: "pair_key \<Rightarrow> u32 \<Rightarrow> bool reply"
  try_get_score :: "pair_key \<Rightarrow> RiskScore reply"
  try_is_score_stale :: "pair_key \<Rightarrow> bool reply"
  try_get_aggregate_score :: "address \<Rightarrow> AggregateRiskScore reply"
  try_get_contagion_depth :: "pair_key \<Rightarrow> u32 reply"

type_synonym shard_net = "address \<Rightarrow> shard_api"

fun is_err :: "'a reply \<Rightarrow> bool" where
  "is_err (Rejected _) = True"
| "is_err Unreachable = True"
| "is_err _ = False"

datatype aggregator_error =
    AggAlreadyInitialized | AggNotInitialized | SelfReference | ShardAlreadyRegistered | ShardLimitReached
  | ShardNotRegistered | IncompatibleInterface

datatype aggregator_failure = AggErr aggregator_error | AggTrap

type_synonym 'a agg_res = "aggregator_failure + 'a"

record aggregator =
  ag_admin :: "address option"
  ag_shards :: "address list"
  last_shard_failure :: "(address \<times> u32) option"
  shard_health :: "address \<Rightarrow> bool option"
  shard_capabilities :: "address \<Rightarrow> symbol list option"

definition empty_aggregator :: aggregator where
  "empty_aggregator = \<lparr>ag_admin = None, ag_shards = [], last_shard_failure = None, shard_health = (\<lambda>_. None),
     shard_capabilities = (\<lambda>_. None)\<rparr>"

definition MAX_SHARDS :: nat where "MAX_SHARDS = 10"
definition FAILURE_TRANSPORT :: u32 where "FAILURE_TRANSPORT = 0"
definition FAILURE_CONTRACT_ERROR :: u32 where "FAILURE_CONTRACT_ERROR = 1"
definition REQUIRED_SHARD_CAPABILITIES :: "symbol list" where
  "REQUIRED_SHARD_CAPABILITIES = [''score'', ''gate'', ''aggr'', ''arch'']"

section \<open>The registry\<close>

fun supports_all :: "shard_api \<Rightarrow> symbol list \<Rightarrow> bool" where
  "supports_all api [] = True"
| "supports_all api (capability # capabilities) =
     (if try_supports_interface api capability = Answer True then supports_all api capabilities else False)"

definition shard_supports_required_interface :: "shard_api \<Rightarrow> bool" where
  "shard_supports_required_interface api =
     (if \<not> supports_all api REQUIRED_SHARD_CAPABILITIES then False
      else if is_err (try_get_arch_owner api) then False
      else if is_err (try_get_mandatory_reviewers api) then False
      else True)"

definition probe_capabilities :: "shard_api \<Rightarrow> symbol list" where
  "probe_capabilities api =
     filter (\<lambda>cap. try_supports_interface api cap = Answer True)
       [''score'', ''gate'', ''aggr'', ''arch'', ''federated'', ''sbrain'', ''health'', ''batch_attested'']"

definition is_shard_healthy :: "address \<Rightarrow> aggregator \<Rightarrow> bool" where
  "is_shard_healthy shard x = unwrap_or (shard_health x shard) True"

definition is_shard_registered :: "address \<Rightarrow> aggregator \<Rightarrow> bool" where
  "is_shard_registered shard x \<longleftrightarrow> shard \<in> set (ag_shards x)"

definition agg_require_auth :: "env \<Rightarrow> aggregator \<Rightarrow> unit agg_res" where
  "agg_require_auth e x =
     (case ag_admin x of
        None \<Rightarrow> Inl (AggErr AggNotInitialized)
      | Some adm \<Rightarrow> if authorized e adm then Inr () else Inl AggTrap)"

definition agg_initialize :: "env \<Rightarrow> address \<Rightarrow> aggregator \<Rightarrow> aggregator agg_res" where
  "agg_initialize e adm x =
     (if ag_admin x \<noteq> None then Inl (AggErr AggAlreadyInitialized)
      else if \<not> authorized e adm then Inl AggTrap
      else Inr (x\<lparr>ag_admin := Some adm\<rparr>))"

definition add_shard :: "shard_net \<Rightarrow> env \<Rightarrow> address \<Rightarrow> aggregator \<Rightarrow> aggregator agg_res" where
  "add_shard net e shard x =
     bind_res (agg_require_auth e x) (\<lambda>_.
     if current_contract e = shard then Inl (AggErr SelfReference)
     else if shard \<in> set (ag_shards x) then Inl (AggErr ShardAlreadyRegistered)
     else if MAX_SHARDS \<le> length (ag_shards x) then Inl (AggErr ShardLimitReached)
     else if \<not> shard_supports_required_interface (net shard) then Inl (AggErr IncompatibleInterface)
     else Inr (x\<lparr>ag_shards := ag_shards x @ [shard],
                 shard_capabilities := (shard_capabilities x)(shard \<mapsto> probe_capabilities (net shard))\<rparr>))"

definition remove_shard :: "env \<Rightarrow> address \<Rightarrow> aggregator \<Rightarrow> aggregator agg_res" where
  "remove_shard e shard x =
     bind_res (agg_require_auth e x) (\<lambda>_.
     if shard \<notin> set (ag_shards x) then Inl (AggErr ShardNotRegistered)
     else Inr (x\<lparr>ag_shards := filter (\<lambda>a. a \<noteq> shard) (ag_shards x),
                 shard_health := (shard_health x)(shard := None),
                 shard_capabilities := (shard_capabilities x)(shard := None)\<rparr>))"

definition set_shard_health :: "env \<Rightarrow> address \<Rightarrow> bool \<Rightarrow> aggregator \<Rightarrow> (aggregator \<times> event list) agg_res" where
  "set_shard_health e shard healthy x =
     bind_res (agg_require_auth e x) (\<lambda>_.
     if \<not> is_shard_registered shard x then Inl (AggErr ShardNotRegistered)
     else Inr (x\<lparr>shard_health := (shard_health x)(shard \<mapsto> healthy)\<rparr>,
               [Event ''sh_health'' [VAddr shard, VBool healthy]]))"

definition get_shard_health :: "address \<Rightarrow> aggregator \<Rightarrow> bool agg_res" where
  "get_shard_health shard x =
     (if ag_admin x = None then Inl (AggErr AggNotInitialized)
      else if \<not> is_shard_registered shard x then Inl (AggErr ShardNotRegistered)
      else Inr (is_shard_healthy shard x))"

definition shard_capabilities_downgraded :: "shard_net \<Rightarrow> address \<Rightarrow> aggregator \<Rightarrow> bool" where
  "shard_capabilities_downgraded net shard x \<longleftrightarrow>
     (let snapshot = unwrap_or (shard_capabilities x shard) [] in
      if snapshot = [] then False else \<not> supports_all (net shard) snapshot)"

section \<open>Reads over the shards\<close>

text \<open>The first shard answers for the configuration.\<close>

definition agg_get_decay_rate :: "shard_net \<Rightarrow> aggregator \<Rightarrow> (u64 \<times> u64) res" where
  "agg_get_decay_rate net x =
     (case ag_shards x of
        [] \<Rightarrow> Inl (Err ScoreNotFound)
      | primary # _ \<Rightarrow>
          (case try_get_decay_rate (net primary) of Answer rate \<Rightarrow> Inr rate | _ \<Rightarrow> Inl (Err ScoreNotFound)))"

definition agg_get_consensus_threshold_k :: "shard_net \<Rightarrow> aggregator \<Rightarrow> u32 res" where
  "agg_get_consensus_threshold_k net x =
     (case ag_shards x of
        [] \<Rightarrow> Inl (Err ScoreNotFound)
      | primary # _ \<Rightarrow>
          (case try_get_consensus_config (net primary) of
             Answer config \<Rightarrow> Inr (fst config) | _ \<Rightarrow> Inl (Err ScoreNotFound)))"

fun watchlist_loop :: "shard_net \<Rightarrow> address \<Rightarrow> address list \<Rightarrow> bool" where
  "watchlist_loop net wallet [] = False"
| "watchlist_loop net wallet (shard # shards) =
     (if try_is_watchlisted (net shard) wallet = Answer True then True else watchlist_loop net wallet shards)"

definition get_watchlist_status :: "shard_net \<Rightarrow> address \<Rightarrow> aggregator \<Rightarrow> bool" where
  "get_watchlist_status net wallet x = watchlist_loop net wallet (ag_shards x)"

fun agg_gate_loop :: "shard_net \<Rightarrow> pair_key \<Rightarrow> u32 \<Rightarrow> address list \<Rightarrow> aggregator \<Rightarrow> bool \<times> aggregator" where
  "agg_gate_loop net k threshold [] x = (True, x)"
| "agg_gate_loop net k threshold (shard # shards) x =
     (if \<not> is_shard_healthy shard x then agg_gate_loop net k threshold shards x
      else case try_query_risk_gate (net shard) k threshold of
          Answer b \<Rightarrow> if b then agg_gate_loop net k threshold shards x else (False, x)
        | _ \<Rightarrow> (False, x\<lparr>last_shard_failure := Some (shard, FAILURE_TRANSPORT)\<rparr>))"

definition agg_query_risk_gate :: "shard_net \<Rightarrow> pair_key \<Rightarrow> u32 \<Rightarrow> aggregator \<Rightarrow> bool \<times> aggregator" where
  "agg_query_risk_gate net k threshold x =
     (if \<not> asset_pair_is_bounded (snd k) then (False, x)
      else if ag_shards x = [] then (False, x)
      else agg_gate_loop net k threshold (ag_shards x) x)"

text \<open>The score and the aggregate are read the same way: the largest answer of the healthy shards, the first one among equals.\<close>

fun best_loop :: "(address \<Rightarrow> 'a reply) \<Rightarrow> ('a \<Rightarrow> u32) \<Rightarrow> address list \<Rightarrow> 'a option \<Rightarrow> aggregator \<Rightarrow> 'a option \<times> aggregator" where
  "best_loop ask key [] best x = (best, x)"
| "best_loop ask key (shard # shards) best x =
     (if \<not> is_shard_healthy shard x then best_loop ask key shards best x
      else case ask shard of
          Answer score \<Rightarrow>
            (case best of
               None \<Rightarrow> best_loop ask key shards (Some score) x
             | Some b \<Rightarrow> best_loop ask key shards (if key b < key score then Some score else best) x)
        | Garbled \<Rightarrow> best_loop ask key shards best (x\<lparr>last_shard_failure := Some (shard, FAILURE_CONTRACT_ERROR)\<rparr>)
        | _ \<Rightarrow> best_loop ask key shards best (x\<lparr>last_shard_failure := Some (shard, FAILURE_TRANSPORT)\<rparr>))"

definition agg_get_score :: "shard_net \<Rightarrow> pair_key \<Rightarrow> aggregator \<Rightarrow> RiskScore res \<times> aggregator" where
  "agg_get_score net k x =
     (if \<not> asset_pair_is_bounded (snd k) then (Inl (Err InvalidAttestation), x)
      else
        (let (best, x') = best_loop (\<lambda>shard. try_get_score (net shard) k) rs_score (ag_shards x) None x in
         (case best of Some score \<Rightarrow> (Inr score, x') | None \<Rightarrow> (Inl (Err ScoreNotFound), x))))"

definition agg_get_aggregate_score :: "shard_net \<Rightarrow> address \<Rightarrow> aggregator \<Rightarrow> AggregateRiskScore res \<times> aggregator" where
  "agg_get_aggregate_score net wallet x =
     (let (best, x') = best_loop (\<lambda>shard. try_get_aggregate_score (net shard) wallet) ag_aggregate_score (ag_shards x) None x in
      (case best of Some agg \<Rightarrow> (Inr agg, x') | None \<Rightarrow> (Inl (Err ScoreNotFound), x)))"

definition get_score_across_shards :: "shard_net \<Rightarrow> pair_key \<Rightarrow> aggregator \<Rightarrow> (address \<times> RiskScore option) list" where
  "get_score_across_shards net k x =
     (if \<not> asset_pair_is_bounded (snd k) then []
      else map (\<lambda>shard. (shard, case try_get_score (net shard) k of Answer score \<Rightarrow> Some score | _ \<Rightarrow> None))
        (filter (\<lambda>shard. is_shard_healthy shard x) (ag_shards x)))"

fun depth_loop :: "shard_net \<Rightarrow> pair_key \<Rightarrow> address list \<Rightarrow> u32 \<Rightarrow> aggregator \<Rightarrow> u32 \<times> aggregator" where
  "depth_loop net k [] max_depth x = (max_depth, x)"
| "depth_loop net k (shard # shards) max_depth x =
     (if \<not> is_shard_healthy shard x then depth_loop net k shards max_depth x
      else case try_get_contagion_depth (net shard) k of
          Answer depth \<Rightarrow> depth_loop net k shards (if max_depth < depth then depth else max_depth) x
        | _ \<Rightarrow> depth_loop net k shards max_depth (x\<lparr>last_shard_failure := Some (shard, FAILURE_TRANSPORT)\<rparr>))"

definition contagion_depth_across_shards :: "shard_net \<Rightarrow> pair_key \<Rightarrow> aggregator \<Rightarrow> u32 \<times> aggregator" where
  "contagion_depth_across_shards net k x =
     (if \<not> asset_pair_is_bounded (snd k) then (0, x) else depth_loop net k (ag_shards x) 0 x)"

section \<open>Configurations that drifted apart\<close>

datatype AggregatorConfigFingerprint =
  Fingerprint (fp_decay_num: u64) (fp_decay_den: u64) (fp_staleness_window: u64) (fp_global_min_confidence: u32)
    (fp_consensus_k: u32) (fp_consensus_epsilon: u32)

datatype SplitBrainStatus = NoShards | AllAligned | SplitBrain | QuorumLost

datatype ShardProbeStatus = Aligned | ConfigMismatch | Unavailable | Stale | Unhealthy

record ShardConfigDiagnostic =
  sd_shard :: address
  sd_status :: ShardProbeStatus
  sd_fingerprint :: "AggregatorConfigFingerprint option"

text \<open>The counters are natural numbers: they count shards, of which there are at most ten.\<close>

record SplitBrainReport =
  sb_status :: SplitBrainStatus
  sb_canonical :: "AggregatorConfigFingerprint option"
  sb_shard_count :: nat
  sb_healthy_count :: nat
  sb_available_count :: nat
  sb_stale_count :: nat
  sb_unavailable_count :: nat
  sb_mismatch_count :: nat
  sb_quorum_count :: nat
  sb_required_quorum :: nat
  sb_diagnostics :: "ShardConfigDiagnostic list"

definition read_config_fingerprint :: "shard_api \<Rightarrow> AggregatorConfigFingerprint option" where
  "read_config_fingerprint api =
     (case try_get_decay_rate api of
        Answer decay \<Rightarrow>
          (case try_get_staleness_window api of
             Answer window \<Rightarrow>
               (case try_get_global_min_confidence api of
                  Answer confidence \<Rightarrow>
                    (case try_get_consensus_config api of
                       Answer consensus \<Rightarrow>
                         Some (Fingerprint (fst decay) (snd decay) window confidence
                           (fst consensus) (snd consensus))
                     | _ \<Rightarrow> None)
                | _ \<Rightarrow> None)
           | _ \<Rightarrow> None)
      | _ \<Rightarrow> None)"

fun fingerprint_less :: "AggregatorConfigFingerprint \<Rightarrow> AggregatorConfigFingerprint \<Rightarrow> bool" where
  "fingerprint_less a b =
     (if fp_decay_num a \<noteq> fp_decay_num b then fp_decay_num a < fp_decay_num b
      else if fp_decay_den a \<noteq> fp_decay_den b then fp_decay_den a < fp_decay_den b
      else if fp_staleness_window a \<noteq> fp_staleness_window b then fp_staleness_window a < fp_staleness_window b
      else if fp_global_min_confidence a \<noteq> fp_global_min_confidence b
        then fp_global_min_confidence a < fp_global_min_confidence b
      else if fp_consensus_k a \<noteq> fp_consensus_k b then fp_consensus_k a < fp_consensus_k b
      else fp_consensus_epsilon a < fp_consensus_epsilon b)"

text \<open>The tie break of the source is a linear order.\<close>

instantiation AggregatorConfigFingerprint :: linorder
begin

definition less_AggregatorConfigFingerprint_def: "(a :: AggregatorConfigFingerprint) < b \<longleftrightarrow> fingerprint_less a b"
definition less_eq_AggregatorConfigFingerprint_def:
  "(a :: AggregatorConfigFingerprint) \<le> b \<longleftrightarrow> a = b \<or> fingerprint_less a b"

instance
  by standard (auto simp: less_AggregatorConfigFingerprint_def less_eq_AggregatorConfigFingerprint_def
      AggregatorConfigFingerprint.expand split: if_splits)

end

fun canonical_loop ::
    "AggregatorConfigFingerprint list \<Rightarrow> AggregatorConfigFingerprint list \<Rightarrow>
     AggregatorConfigFingerprint option \<Rightarrow> nat \<Rightarrow> AggregatorConfigFingerprint option \<times> nat" where
  "canonical_loop available [] best best_count = (best, best_count)"
| "canonical_loop available (candidate # rest) best best_count =
     (let cnt = count_list available candidate in
      case best of
        None \<Rightarrow> canonical_loop available rest (Some candidate) cnt
      | Some current \<Rightarrow>
          if best_count < cnt \<or> (cnt = best_count \<and> fingerprint_less candidate current)
          then canonical_loop available rest (Some candidate) cnt
          else canonical_loop available rest best best_count)"

definition select_canonical_fingerprint ::
    "(address \<times> AggregatorConfigFingerprint) list \<Rightarrow> AggregatorConfigFingerprint option \<times> nat" where
  "select_canonical_fingerprint available = canonical_loop (map snd available) (map snd available) None 0"

text \<open>The first pass of the report: the diagnosis of one shard.\<close>

definition diagnose_shard :: "shard_api \<Rightarrow> bool \<Rightarrow> address \<Rightarrow> pair_key \<Rightarrow> ShardConfigDiagnostic" where
  "diagnose_shard api healthy shard k =
     (let diag = (\<lambda>st fp. \<lparr>sd_shard = shard, sd_status = st, sd_fingerprint = fp\<rparr>);
          fingerprinted = (case read_config_fingerprint api of
             Some fingerprint \<Rightarrow> diag Aligned (Some fingerprint) | None \<Rightarrow> diag Unavailable None) in
      if \<not> healthy then diag Unhealthy None
      else case try_get_score api k of
          Answer _ \<Rightarrow>
            (case try_is_score_stale api k of
               Answer stale \<Rightarrow> if stale then diag Stale None else fingerprinted
             | _ \<Rightarrow> diag Unavailable None)
        | Rejected err \<Rightarrow> if err = ScoreNotFound then fingerprinted else diag Unavailable None
        | _ \<Rightarrow> diag Unavailable None)"

definition recheck_diagnostic :: "AggregatorConfigFingerprint option \<Rightarrow> ShardConfigDiagnostic \<Rightarrow> ShardConfigDiagnostic" where
  "recheck_diagnostic canonical diagnostic =
     (case (canonical, sd_fingerprint diagnostic) of
        (Some canon, Some fingerprint) \<Rightarrow>
          if fingerprint \<noteq> canon then diagnostic\<lparr>sd_status := ConfigMismatch\<rparr> else diagnostic
      | _ \<Rightarrow> diagnostic)"

definition status_count :: "ShardProbeStatus \<Rightarrow> ShardConfigDiagnostic list \<Rightarrow> nat" where
  "status_count st ds = length (filter (\<lambda>d. sd_status d = st) ds)"

definition detect_split_brain :: "shard_net \<Rightarrow> pair_key \<Rightarrow> aggregator \<Rightarrow> SplitBrainReport" where
  "detect_split_brain net k x =
     (let diagnostics = map (\<lambda>shard. diagnose_shard (net shard) (is_shard_healthy shard x) shard k) (ag_shards x);
          available = List.map_filter (\<lambda>d. map_option (Pair (sd_shard d)) (sd_fingerprint d)) diagnostics;
          healthy_count = length (filter (\<lambda>shard. is_shard_healthy shard x) (ag_shards x));
          required_quorum = healthy_count div 2 + 1;
          (canonical, quorum_count) = select_canonical_fingerprint available;
          final_diagnostics = map (recheck_diagnostic canonical) diagnostics;
          mismatch_count = status_count ConfigMismatch final_diagnostics in
      \<lparr>sb_status =
         (if ag_shards x = [] then NoShards
          else if quorum_count < required_quorum then QuorumLost
          else if 0 < mismatch_count then SplitBrain
          else AllAligned),
       sb_canonical = canonical, sb_shard_count = length (ag_shards x), sb_healthy_count = healthy_count,
       sb_available_count = length available, sb_stale_count = status_count Stale diagnostics,
       sb_unavailable_count = status_count Unavailable diagnostics, sb_mismatch_count = mismatch_count,
       sb_quorum_count = quorum_count, sb_required_quorum = required_quorum, sb_diagnostics = final_diagnostics\<rparr>)"

definition agg_supports_interface :: "symbol \<Rightarrow> bool" where
  "agg_supports_interface capability \<longleftrightarrow>
     capability \<in> set [''score'', ''gate'', ''aggr'', ''federated'', ''sbrain'', ''health'']"

section \<open>What the reads return\<close>

lemma healthy_after_failure [simp]:
  "is_shard_healthy shard (x\<lparr>last_shard_failure := f\<rparr>) = is_shard_healthy shard x"
  by (simp add: is_shard_healthy_def)

lemma agg_gate_loop_iff:
  "fst (agg_gate_loop net k threshold shards x) \<longleftrightarrow>
     (\<forall>shard\<in>set shards. is_shard_healthy shard x \<longrightarrow> try_query_risk_gate (net shard) k threshold = Answer True)"
  by (induction net k threshold shards x rule: agg_gate_loop.induct) (auto split: reply.splits)

lemma agg_gate_loop_state:
  "snd (agg_gate_loop net k threshold shards x) = x \<or>
   (\<exists>shard\<in>set shards. snd (agg_gate_loop net k threshold shards x)
      = x\<lparr>last_shard_failure := Some (shard, FAILURE_TRANSPORT)\<rparr> \<and>
      is_shard_healthy shard x \<and> (\<forall>b. try_query_risk_gate (net shard) k threshold \<noteq> Answer b))"
  by (induction net k threshold shards x rule: agg_gate_loop.induct) (auto split: reply.splits)

text \<open>The answers of the healthy shards, in the order of registration.\<close>

definition healthy_answers :: "(address \<Rightarrow> 'a reply) \<Rightarrow> address list \<Rightarrow> aggregator \<Rightarrow> 'a list" where
  "healthy_answers ask shards x =
     List.map_filter (\<lambda>shard. if is_shard_healthy shard x then (case ask shard of Answer v \<Rightarrow> Some v | _ \<Rightarrow> None) else None) shards"

lemma healthy_answers_simps [simp]:
  "healthy_answers ask [] x = []"
  "healthy_answers ask (shard # shards) x =
     (if is_shard_healthy shard x then (case ask shard of Answer v \<Rightarrow> [v] | _ \<Rightarrow> []) else []) @ healthy_answers ask shards x"
  "healthy_answers ask shards (x\<lparr>last_shard_failure := f\<rparr>) = healthy_answers ask shards x"
  by (simp_all add: healthy_answers_def List.map_filter_simps split: reply.splits)

text \<open>The first largest element of a list.\<close>

definition first_max :: "('a \<Rightarrow> u32) \<Rightarrow> 'a list \<Rightarrow> 'a \<Rightarrow> bool" where
  "first_max key vs r \<longleftrightarrow>
     (\<exists>pre post. vs = pre @ r # post \<and> (\<forall>v\<in>set pre. key v < key r) \<and> (\<forall>v\<in>set post. key v \<le> key r))"

lemma first_max_single: "first_max key [r] r"
  unfolding first_max_def by (intro exI [of _ "[]"]) simp

lemma first_max_drop:
  assumes "first_max key (v # vs) r" "key b < key v"
  shows "first_max key (b # v # vs) r"
proof -
  obtain pre post where p: "v # vs = pre @ r # post" "\<forall>v\<in>set pre. key v < key r" "\<forall>v\<in>set post. key v \<le> key r"
    using assms(1) unfolding first_max_def by blast
  have "key v \<le> key r"
    using p by (cases pre) auto
  then have "key b < key r"
    using assms(2) by (rule less_le_trans [rotated])
  then show ?thesis
    unfolding first_max_def using p by (intro exI [of _ "b # pre"] exI [of _ post]) simp
qed

lemma first_max_keep:
  assumes "first_max key (b # vs) r" "\<not> key b < key v"
  shows "first_max key (b # v # vs) r"
proof -
  obtain pre post where p: "b # vs = pre @ r # post" "\<forall>v\<in>set pre. key v < key r" "\<forall>v\<in>set post. key v \<le> key r"
    using assms(1) unfolding first_max_def by blast
  show ?thesis
  proof (cases pre)
    case Nil
    then show ?thesis
      unfolding first_max_def using p assms(2) by (intro exI [of _ "[]"] exI [of _ "v # post"]) auto
  next
    case (Cons b' pre')
    then have "key v < key r"
      using p assms(2) by (auto simp: not_less intro: le_less_trans)
    then show ?thesis
      unfolding first_max_def using p Cons by (intro exI [of _ "b # v # pre'"] exI [of _ post]) auto
  qed
qed

lemma best_loop_Some:
  "\<exists>r. fst (best_loop ask key shards (Some b) x) = Some r \<and> first_max key (b # healthy_answers ask shards x) r"
proof (induction shards arbitrary: b x)
  case Nil
  then show ?case by (simp add: first_max_single)
next
  case (Cons shard shards)
  have failed: "\<exists>r. fst (best_loop ask key shards (Some b) (x\<lparr>last_shard_failure := f\<rparr>)) = Some r \<and>
      first_max key (b # healthy_answers ask shards x) r" for f
    using Cons.IH [of b "x\<lparr>last_shard_failure := f\<rparr>"] by simp
  show ?case
  proof (cases "is_shard_healthy shard x")
    case True
    show ?thesis
    proof (cases "ask shard")
      case (Answer v)
      then show ?thesis
        using Cons.IH [of v x] Cons.IH [of b x] True first_max_drop first_max_keep by (cases "key b < key v") fastforce+
    qed (use failed True in \<open>simp_all\<close>)
  qed (use Cons.IH in simp)
qed

definition reads_best :: "('a \<Rightarrow> u32) \<Rightarrow> 'a list \<Rightarrow> 'a option \<Rightarrow> bool" where
  "reads_best key vs best \<longleftrightarrow> (case best of None \<Rightarrow> vs = [] | Some r \<Rightarrow> first_max key vs r)"

lemma best_loop_None: "reads_best key (healthy_answers ask shards x) (fst (best_loop ask key shards None x))"
proof (induction shards arbitrary: x)
  case (Cons shard shards)
  have failed: "reads_best key (healthy_answers ask shards x) (fst (best_loop ask key shards None (x\<lparr>last_shard_failure := f\<rparr>)))" for f
    using Cons.IH [of "x\<lparr>last_shard_failure := f\<rparr>"] by simp
  show ?case
  proof (cases "is_shard_healthy shard x")
    case True
    show ?thesis
    proof (cases "ask shard")
      case (Answer v)
      then show ?thesis
        using best_loop_Some [of ask key shards v x] True by (auto simp: reads_best_def)
    qed (use failed True in \<open>simp_all\<close>)
  qed (use Cons.IH in simp)
qed (simp add: reads_best_def)

section \<open>The canonical configuration\<close>

text \<open>The reference: the configuration that most shards report, the least one among equals.\<close>

definition plurality :: "AggregatorConfigFingerprint list \<Rightarrow> AggregatorConfigFingerprint \<Rightarrow> bool" where
  "plurality fps c \<longleftrightarrow> c \<in> set fps \<and>
     (\<forall>f\<in>set fps. count_list fps f < count_list fps c \<or> (count_list fps f = count_list fps c \<and> c \<le> f))"

lemma plurality_unique: "plurality fps c \<Longrightarrow> plurality fps d \<Longrightarrow> c = d"
proof -
  assume c: "plurality fps c" and d: "plurality fps d"
  have "count_list fps d < count_list fps c \<or> (count_list fps d = count_list fps c \<and> c \<le> d)"
    "count_list fps c < count_list fps d \<or> (count_list fps c = count_list fps d \<and> d \<le> c)"
    using c d unfolding plurality_def by blast+
  then show "c = d" by auto
qed

definition prefers :: "AggregatorConfigFingerprint list \<Rightarrow> AggregatorConfigFingerprint \<Rightarrow> AggregatorConfigFingerprint \<Rightarrow> bool" where
  "prefers fps c f \<longleftrightarrow> count_list fps f < count_list fps c \<or> (count_list fps f = count_list fps c \<and> c \<le> f)"

lemma prefers_trans: "prefers fps a b \<Longrightarrow> prefers fps b c \<Longrightarrow> prefers fps a c"
  unfolding prefers_def by (metis less_trans order_trans)

lemma prefers_total: "prefers fps a b \<or> prefers fps b a"
  unfolding prefers_def by (metis linear linorder_neqE_nat)

lemma canonical_loop_Some:
  "\<exists>c. canonical_loop fps rest (Some b) (count_list fps b) = (Some c, count_list fps c) \<and>
     (c = b \<or> c \<in> set rest) \<and> prefers fps c b \<and> (\<forall>f\<in>set rest. prefers fps c f)"
proof (induction rest arbitrary: b)
  case (Cons d rest)
  let ?b = "if count_list fps b < count_list fps d \<or> (count_list fps d = count_list fps b \<and> fingerprint_less d b) then d else b"
  have step: "canonical_loop fps (d # rest) (Some b) (count_list fps b) = canonical_loop fps rest (Some ?b) (count_list fps ?b)"
    by (simp add: Let_def del: fingerprint_less.simps)
  have better: "prefers fps ?b b" "prefers fps ?b d"
    using prefers_total [of fps b d] unfolding prefers_def less_eq_AggregatorConfigFingerprint_def
    by (auto simp del: fingerprint_less.simps)
  obtain c where c: "canonical_loop fps rest (Some ?b) (count_list fps ?b) = (Some c, count_list fps c)"
    "c = ?b \<or> c \<in> set rest" "prefers fps c ?b" "\<forall>f\<in>set rest. prefers fps c f"
    using Cons.IH [of ?b] by blast
  have "c = b \<or> c \<in> set (d # rest)"
    using c(2) by (auto split: if_splits simp del: fingerprint_less.simps)
  moreover have "prefers fps c b" "prefers fps c d"
    using prefers_trans [OF c(3)] better by blast+
  ultimately show ?case
    unfolding step c(1) using c(4) by simp
qed (simp add: prefers_def)

lemma select_canonical_spec:
  "(available = [] \<and> select_canonical_fingerprint available = (None, 0)) \<or>
   (\<exists>c. select_canonical_fingerprint available = (Some c, count_list (map snd available) c) \<and>
      plurality (map snd available) c)"
proof (cases available)
  case (Cons p rest)
  let ?fps = "map snd available"
  obtain c where "canonical_loop ?fps (map snd rest) (Some (snd p)) (count_list ?fps (snd p)) = (Some c, count_list ?fps c)"
    "c = snd p \<or> c \<in> set (map snd rest)" "prefers ?fps c (snd p)" "\<forall>f\<in>set (map snd rest). prefers ?fps c f"
    using canonical_loop_Some by blast
  then show ?thesis
    using Cons by (auto simp: select_canonical_fingerprint_def plurality_def prefers_def Let_def)
qed (simp add: select_canonical_fingerprint_def)

lemma select_canonical_perm:
  assumes "mset (map snd available) = mset (map snd available')"
  shows "select_canonical_fingerprint available = select_canonical_fingerprint available'"
proof -
  let ?a = "map snd available" and ?b = "map snd available'"
  have "count_list ?a c = count_list ?b c" for c
    using assms by (metis count_mset)
  moreover have "set ?a = set ?b"
    using assms by (metis set_mset_mset)
  ultimately have "plurality ?a c \<longleftrightarrow> plurality ?b c" for c
    unfolding plurality_def by simp
  then show ?thesis
    using select_canonical_spec [of available] select_canonical_spec [of available'] plurality_unique assms
      \<open>\<And>c. count_list ?a c = count_list ?b c\<close> by (metis mset_zero_iff list.map_disc_iff)
qed

section \<open>The report\<close>

text \<open>The configurations that the shards report: of those that are healthy, have no stale score and answer.\<close>

definition reported :: "shard_net \<Rightarrow> pair_key \<Rightarrow> aggregator \<Rightarrow> AggregatorConfigFingerprint list" where
  "reported net k x =
     List.map_filter (\<lambda>shard. sd_fingerprint (diagnose_shard (net shard) (is_shard_healthy shard x) shard k)) (ag_shards x)"

lemma diagnose_status:
  "sd_status (diagnose_shard api healthy shard k) = Unhealthy \<longleftrightarrow> \<not> healthy"
  "sd_status (diagnose_shard api healthy shard k) \<noteq> ConfigMismatch"
  "sd_status (diagnose_shard api healthy shard k) = Aligned \<longleftrightarrow> sd_fingerprint (diagnose_shard api healthy shard k) \<noteq> None"
  by (auto simp: diagnose_shard_def Let_def split: reply.splits option.splits)

lemma probe_counts:
  assumes "ds = map (\<lambda>shard. diagnose_shard (net shard) (is_shard_healthy shard x) shard k) shards"
  shows "length (filter (\<lambda>shard. is_shard_healthy shard x) shards)
    = length (List.map_filter sd_fingerprint ds) + status_count Stale ds + status_count Unavailable ds"
  unfolding assms
proof (induction shards)
  case (Cons shard shards)
  let ?d = "diagnose_shard (net shard) (is_shard_healthy shard x) shard k"
  show ?case
    using Cons diagnose_status [of "net shard" "is_shard_healthy shard x" shard k]
    by (cases "sd_status ?d") (auto simp: status_count_def List.map_filter_simps split: option.splits)
qed (simp add: status_count_def List.map_filter_simps)

lemma mismatch_counts:
  assumes "\<forall>d\<in>set ds. sd_status d \<noteq> ConfigMismatch"
  shows "status_count ConfigMismatch (map (recheck_diagnostic (Some c)) ds) + count_list (List.map_filter sd_fingerprint ds) c
    = length (List.map_filter sd_fingerprint ds)"
  using assms
  by (induction ds) (auto simp: status_count_def List.map_filter_simps recheck_diagnostic_def split: option.splits)

lemma no_mismatch:
  assumes "\<forall>d\<in>set ds. sd_status d \<noteq> ConfigMismatch"
  shows "status_count ConfigMismatch (map (recheck_diagnostic None) ds) = 0"
  using assms by (auto simp: status_count_def recheck_diagnostic_def filter_empty_conv)

lemma map_filter_pairs:
  "map snd (List.map_filter (\<lambda>d. map_option (Pair (f d)) (g d)) ds) = List.map_filter g ds"
  by (induction ds) (auto simp: List.map_filter_simps split: option.splits)

lemma reported_diagnostics:
  "List.map_filter sd_fingerprint (map (\<lambda>shard. diagnose_shard (net shard) (is_shard_healthy shard x) shard k) (ag_shards x))
   = reported net k x"
  by (simp add: reported_def List.map_filter_def comp_def filter_map)

lemma report_counts:
  fixes net k x
  defines "r \<equiv> detect_split_brain net k x"
  shows "sb_healthy_count r = length (reported net k x) + sb_stale_count r + sb_unavailable_count r"
    "sb_available_count r = length (reported net k x)"
    "sb_mismatch_count r + sb_quorum_count r = length (reported net k x)"
    "(reported net k x = [] \<and> sb_canonical r = None \<and> sb_quorum_count r = 0) \<or>
     (\<exists>c. sb_canonical r = Some c \<and> plurality (reported net k x) c \<and> sb_quorum_count r = count_list (reported net k x) c)"
    "sb_status r = (if ag_shards x = [] then NoShards else if 2 * sb_quorum_count r \<le> sb_healthy_count r then QuorumLost
       else if 0 < sb_mismatch_count r then SplitBrain else AllAligned)"
proof -
  define ds where "ds = map (\<lambda>shard. diagnose_shard (net shard) (is_shard_healthy shard x) shard k) (ag_shards x)"
  define av where "av = List.map_filter (\<lambda>d. map_option (Pair (sd_shard d)) (sd_fingerprint d)) ds"
  have fps: "List.map_filter sd_fingerprint ds = reported net k x"
    unfolding ds_def by (rule reported_diagnostics)
  have av: "map snd av = reported net k x"
    unfolding av_def map_filter_pairs by (rule fps)
  then have len: "length av = length (reported net k x)"
    by (metis length_map)
  obtain canonical q where sel: "select_canonical_fingerprint av = (canonical, q)"
    by fastforce
  have clean: "\<forall>d\<in>set ds. sd_status d \<noteq> ConfigMismatch"
    by (auto simp: ds_def diagnose_status)
  have r: "sb_healthy_count r = length (filter (\<lambda>shard. is_shard_healthy shard x) (ag_shards x))"
    "sb_available_count r = length av" "sb_stale_count r = status_count Stale ds" "sb_unavailable_count r = status_count Unavailable ds"
    "sb_mismatch_count r = status_count ConfigMismatch (map (recheck_diagnostic canonical) ds)"
    "sb_quorum_count r = q" "sb_canonical r = canonical"
    "sb_status r = (if ag_shards x = [] then NoShards else if sb_quorum_count r < sb_healthy_count r div 2 + 1 then QuorumLost
       else if 0 < sb_mismatch_count r then SplitBrain else AllAligned)"
    using sel unfolding av_def ds_def r_def by (simp_all add: detect_split_brain_def Let_def)
  show "sb_healthy_count r = length (reported net k x) + sb_stale_count r + sb_unavailable_count r"
    using probe_counts [OF ds_def] fps by (simp add: r)
  show "sb_available_count r = length (reported net k x)"
    by (simp add: r len)
  show canon: "(reported net k x = [] \<and> sb_canonical r = None \<and> sb_quorum_count r = 0) \<or>
     (\<exists>c. sb_canonical r = Some c \<and> plurality (reported net k x) c \<and> sb_quorum_count r = count_list (reported net k x) c)"
    using select_canonical_spec [of av] sel av by (auto simp: r)
  show "sb_mismatch_count r + sb_quorum_count r = length (reported net k x)"
    using canon mismatch_counts [OF clean] no_mismatch [OF clean] fps by (auto simp: r)
  show "sb_status r = (if ag_shards x = [] then NoShards else if 2 * sb_quorum_count r \<le> sb_healthy_count r then QuorumLost
       else if 0 < sb_mismatch_count r then SplitBrain else AllAligned)"
    unfolding r(8) by auto
qed

lemma count_length_single:
  assumes "plurality fps c"
  shows "count_list fps c = length fps \<longleftrightarrow> set fps = {c}"
proof -
  have "c \<in> set fps"
    using assms by (simp add: plurality_def)
  moreover have "count_list xs c = length xs \<longleftrightarrow> (\<forall>y\<in>set xs. y = c)" for xs
  proof (induction xs)
    case (Cons y ys)
    then show ?case
      using count_le_length [of ys c] by auto
  qed simp
  ultimately show ?thesis by auto
qed

lemma plurality_count_le: "plurality fps c \<Longrightarrow> count_list fps d \<le> count_list fps c"
  unfolding plurality_def by (cases "d \<in> set fps") (auto simp: less_imp_le count_list_0_iff)

lemma reported_perm:
  assumes "mset ys = mset (ag_shards x)"
  shows "mset (reported net k (x\<lparr>ag_shards := ys\<rparr>)) = mset (reported net k x)"
  using assms by (simp add: reported_def List.map_filter_def is_shard_healthy_def mset_filter)

lemma plurality_perm:
  assumes "mset fps = mset gps"
  shows "plurality fps c \<longleftrightarrow> plurality gps c" "count_list fps c = count_list gps c"
proof -
  have "count_list fps d = count_list gps d" for d
    using assms by (metis count_mset)
  moreover have "set fps = set gps"
    using assms by (metis set_mset_mset)
  ultimately show "plurality fps c \<longleftrightarrow> plurality gps c" "count_list fps c = count_list gps c"
    unfolding plurality_def by simp_all
qed

lemma report_perm:
  assumes perm: "mset ys = mset (ag_shards x)"
  shows "sb_canonical (detect_split_brain net k (x\<lparr>ag_shards := ys\<rparr>)) = sb_canonical (detect_split_brain net k x)"
    "sb_status (detect_split_brain net k (x\<lparr>ag_shards := ys\<rparr>)) = sb_status (detect_split_brain net k x)"
proof -
  let ?x = "x\<lparr>ag_shards := ys\<rparr>"
  let ?r = "detect_split_brain net k x" and ?r' = "detect_split_brain net k ?x"
  note fps = reported_perm [OF perm, of net k]
  note len = arg_cong [OF fps, of size, unfolded size_mset]
  have healthy: "sb_healthy_count ?r' = sb_healthy_count ?r"
    using arg_cong [OF perm, of "\<lambda>M. size (filter_mset (\<lambda>shard. is_shard_healthy shard x) M)"]
    by (simp add: detect_split_brain_def Let_def case_prod_unfold is_shard_healthy_def flip: mset_filter)
  have none: "reported net k ?x = [] \<longleftrightarrow> reported net k x = []"
    using len by auto
  have "sb_canonical ?r' = sb_canonical ?r \<and> sb_quorum_count ?r' = sb_quorum_count ?r"
    using report_counts(4) [of net k x] report_counts(4) [of net k ?x] plurality_perm [OF fps] plurality_unique none
    by (metis list.set_intros(1) neq_Nil_conv plurality_def empty_iff list.set(1))
  moreover have "ys = [] \<longleftrightarrow> ag_shards x = []"
    using perm by auto
  ultimately show "sb_canonical ?r' = sb_canonical ?r" "sb_status ?r' = sb_status ?r"
    using report_counts(3,5) [of net k x] report_counts(3,5) [of net k ?x] healthy len by auto
qed

text \<open>C30: The report on the shards is exact.  The healthy shards are those that report a configuration, those with a stale
  score and those that do not answer.  The canonical configuration is the one most shards report, the least one
  among equals, and the mismatches are the other reports.  All is aligned exactly when the shards that report make a
  majority of the healthy ones and report the same; the quorum is lost exactly when no configuration is reported by a
  majority of the healthy shards.  The verdict does not depend on the order of registration.\<close>

theorem split_brain_report:
  "let r = detect_split_brain net k x; fps = reported net k x in
    sb_healthy_count r = sb_available_count r + sb_stale_count r + sb_unavailable_count r \<and>
    sb_mismatch_count r + sb_quorum_count r = length fps \<and>
    (case sb_canonical r of None \<Rightarrow> fps = [] | Some c \<Rightarrow> plurality fps c \<and> sb_quorum_count r = count_list fps c) \<and>
    (sb_status r = AllAligned \<longleftrightarrow> sb_healthy_count r < 2 * length fps \<and> (\<exists>c. set fps = {c})) \<and>
    (sb_status r = QuorumLost \<longleftrightarrow> ag_shards x \<noteq> [] \<and> (\<forall>c. 2 * count_list fps c \<le> sb_healthy_count r)) \<and>
    (\<forall>ys. mset ys = mset (ag_shards x) \<longrightarrow>
       sb_status (detect_split_brain net k (x\<lparr>ag_shards := ys\<rparr>)) = sb_status r \<and>
       sb_canonical (detect_split_brain net k (x\<lparr>ag_shards := ys\<rparr>)) = sb_canonical r)"
proof -
  let ?r = "detect_split_brain net k x" and ?fps = "reported net k x"
  note c = report_counts [of net k x]
  have shards: "ag_shards x \<noteq> []" if "?fps \<noteq> []"
    using that by (auto simp: reported_def List.map_filter_simps)
  have "(case sb_canonical ?r of None \<Rightarrow> ?fps = [] | Some c \<Rightarrow> plurality ?fps c \<and> sb_quorum_count ?r = count_list ?fps c) \<and>
    (sb_status ?r = AllAligned \<longleftrightarrow> sb_healthy_count ?r < 2 * length ?fps \<and> (\<exists>c. set ?fps = {c})) \<and>
    (sb_status ?r = QuorumLost \<longleftrightarrow> ag_shards x \<noteq> [] \<and> (\<forall>c. 2 * count_list ?fps c \<le> sb_healthy_count ?r))"
    using c(4)
  proof (elim disjE conjE exE)
    assume "?fps = []" "sb_canonical ?r = None" "sb_quorum_count ?r = 0"
    then show ?thesis
      using c(5) by simp
  next
    fix d assume d: "sb_canonical ?r = Some d" "plurality ?fps d" "sb_quorum_count ?r = count_list ?fps d"
    then have ne: "?fps \<noteq> []"
      by (auto simp: plurality_def)
    have "(\<exists>e. set ?fps = {e}) \<longleftrightarrow> set ?fps = {d}"
      using d(2) by (auto simp: plurality_def)
    moreover have "(\<forall>e. 2 * count_list ?fps e \<le> sb_healthy_count ?r) \<longleftrightarrow> 2 * count_list ?fps d \<le> sb_healthy_count ?r"
      using plurality_count_le [OF d(2)] by (meson le_trans mult_le_mono2)
    ultimately show ?thesis
      using c(3,5) d count_length_single [OF d(2)] shards [OF ne] by auto
  qed
  then show ?thesis
    using c(1,2,3) report_perm [of _ x net k] by (simp add: Let_def)
qed

section \<open>The gate over the shards of the score contract\<close>

text \<open>What the aggregator needs of a deployment: a positive answer of its gate is backed.\<close>

locale backed_gate =
  fixes api :: "'s \<Rightarrow> shard_api" and backed :: "'s \<Rightarrow> pair_key \<Rightarrow> u32 \<Rightarrow> bool"
  assumes pass_backed: "try_query_risk_gate (api s) k threshold = Answer True \<Longrightarrow> backed s k threshold"
begin

lemma aggregate_backed:
  assumes "fst (agg_query_risk_gate (\<lambda>shard. api (deployed shard)) k threshold x)"
    and "shard \<in> set (ag_shards x)" "is_shard_healthy shard x"
  shows "backed (deployed shard) k threshold"
  using assms by (auto simp: agg_query_risk_gate_def agg_gate_loop_iff intro!: pass_backed split: if_splits)

end

text \<open>A deployment of the score contract, in its own environment.  The gate returns a plain boolean, so a call that does not
  return one fails in the host.  The other calls are those of a given interface.\<close>

definition score_shard :: "shard_api \<Rightarrow> secondary \<Rightarrow> env \<times> gated \<Rightarrow> shard_api" where
  "score_shard rest sec s = rest\<lparr>try_query_risk_gate :=
     (\<lambda>k threshold. case query_risk_gate sec (fst s) k threshold (snd s) of
        Inr (_, p, _) \<Rightarrow> Answer p | Inl _ \<Rightarrow> Unreachable)\<rparr>"

definition low_score :: "secondary \<Rightarrow> env \<times> gated \<Rightarrow> pair_key \<Rightarrow> u32 \<Rightarrow> bool" where
  "low_score sec s k threshold \<longleftrightarrow>
     (\<exists>risk. rs_score risk < threshold \<and> get_global_min_confidence (snd (snd s)) \<le> rs_confidence risk \<and>
        backs_gate sec (fst s) k (fst (snd s)) (snd (snd s)) risk)"

lemma backs_gate_read [simp]: "backs_gate sec e k (c\<lparr>gate_read_ledger := r\<rparr>) g risk = backs_gate sec e k c g risk"
  by (simp add: backs_gate_def is_paused_def)

lemma query_pass_low_score:
  assumes "query_risk_gate sec e k threshold (c, g) = Inr (s', True, evs)"
  shows "low_score sec (e, c, g) k threshold"
proof -
  let ?c = "c\<lparr>gate_read_ledger := (gate_read_ledger c)(k \<mapsto> ledger_sequence e)\<rparr>"
  have "gate_answers sec e k threshold 0 ?c g"
    using assms query_pass_iff [of sec e "current_contract e" k threshold 0 False ?c g s' evs]
    by (auto simp: query_risk_gate_def query_risk_gate_with_confidence_def split: if_splits)
  then show ?thesis
    by (auto simp: gate_answers_def gate_passes_def low_score_def)
qed

interpretation score_gate: backed_gate "score_shard rest sec" "low_score sec" for rest sec
proof
  fix s k threshold
  assume "try_query_risk_gate (score_shard rest sec s) k threshold = Answer True"
  then obtain s' evs where "query_risk_gate sec (fst s) k threshold (snd s) = Inr (s', True, evs)"
    by (auto simp: score_shard_def split: sum.splits prod.splits)
  then show "low_score sec s k threshold"
    using query_pass_low_score by (metis prod.collapse)
qed


text \<open>With every registered shard marked unhealthy the loop skips all of them: the gate is open for any wallet, while the report
  on the same shards says that the quorum is lost.\<close>

theorem gate_open_without_healthy_shards:
  assumes "ag_shards x \<noteq> []" "\<forall>shard\<in>set (ag_shards x). \<not> is_shard_healthy shard x" "asset_pair_is_bounded (snd k)"
  shows "agg_query_risk_gate net k threshold x = (True, x) \<and> sb_status (detect_split_brain net k x) = QuorumLost"
proof -
  have "agg_gate_loop net k threshold shards x = (True, x)" if "\<forall>shard\<in>set shards. \<not> is_shard_healthy shard x" for shards
    using that by (induction shards) auto
  moreover have "sb_healthy_count (detect_split_brain net k x) = 0"
    using assms(2) by (simp add: detect_split_brain_def Let_def case_prod_unfold filter_empty_conv)
  ultimately show ?thesis
    using assms report_counts(1,3,5) [of net k x] by (simp add: agg_query_risk_gate_def)
qed

section \<open>The worst score wins\<close>

text \<open>The score that the aggregator reads is the first largest answer of the healthy shards in the order of registration,
  so no healthy shard that answers reports a higher risk; it fails exactly when none answers, and the same holds for the aggregate
  score of a wallet.\<close>

theorem aggregate_reads_worst_score:
  "asset_pair_is_bounded (snd k) \<longrightarrow>
     (let answers = healthy_answers (\<lambda>shard. try_get_score (net shard) k) (ag_shards x) x in
      case fst (agg_get_score net k x) of
        Inl failed \<Rightarrow> failed = Err ScoreNotFound \<and> answers = []
      | Inr score \<Rightarrow> first_max rs_score answers score \<and> (\<forall>a\<in>set answers. rs_score a \<le> rs_score score)) \<and>
     (let answers = healthy_answers (\<lambda>shard. try_get_aggregate_score (net shard) w) (ag_shards x) x in
      case fst (agg_get_aggregate_score net w x) of
        Inl failed \<Rightarrow> failed = Err ScoreNotFound \<and> answers = []
      | Inr score \<Rightarrow> first_max ag_aggregate_score answers score)"
proof -
  have top: "rs_score a \<le> rs_score r" if "first_max rs_score vs r" "a \<in> set vs" for vs r a
    using that unfolding first_max_def by (metis Un_iff less_imp_le order_refl set_ConsD set_append)
  have "reads_best rs_score (healthy_answers (\<lambda>shard. try_get_score (net shard) k) (ag_shards x) x)
      (fst (best_loop (\<lambda>shard. try_get_score (net shard) k) rs_score (ag_shards x) None x))"
    "reads_best ag_aggregate_score (healthy_answers (\<lambda>shard. try_get_aggregate_score (net shard) w) (ag_shards x) x)
      (fst (best_loop (\<lambda>shard. try_get_aggregate_score (net shard) w) ag_aggregate_score (ag_shards x) None x))"
    by (rule best_loop_None)+
  then show ?thesis
    using top by (auto simp: agg_get_score_def agg_get_aggregate_score_def reads_best_def Let_def case_prod_unfold
        split: option.splits)
qed

section \<open>The registry is kept by its admin\<close>

inductive registry_step :: "address \<Rightarrow> env \<Rightarrow> aggregator \<Rightarrow> aggregator \<Rightarrow> bool" for self :: address and e :: env where
  initialize: "agg_initialize e adm x = Inr x' \<Longrightarrow> registry_step self e x x'"
| add: "add_shard net e shard x = Inr x' \<Longrightarrow> current_contract e = self \<Longrightarrow> registry_step self e x x'"
| remove: "remove_shard e shard x = Inr x' \<Longrightarrow> registry_step self e x x'"
| health: "set_shard_health e shard healthy x = Inr (x', evs) \<Longrightarrow> registry_step self e x x'"
| failure: "registry_step self e x (x\<lparr>last_shard_failure := f\<rparr>)"

inductive registry_reachable :: "address \<Rightarrow> aggregator \<Rightarrow> bool" for self :: address where
  start: "registry_reachable self empty_aggregator"
| step: "registry_reachable self x \<Longrightarrow> registry_step self e x x' \<Longrightarrow> registry_reachable self x'"

text \<open>The reads change only the record of the last failure.\<close>

lemma best_loop_state: "\<exists>f. snd (best_loop ask key shards best x) = x\<lparr>last_shard_failure := f\<rparr>"
proof (induction ask key shards best x rule: best_loop.induct)
  case (1 ask key best x)
  show ?case by (intro exI [of _ "last_shard_failure x"]) simp
next
  case (2 ask key shard shards best x)
  then show ?case by (auto split: reply.splits option.splits)
qed

lemma depth_loop_state: "\<exists>f. snd (depth_loop net k shards d x) = x\<lparr>last_shard_failure := f\<rparr>"
proof (induction net k shards d x rule: depth_loop.induct)
  case (1 net k d x)
  show ?case by (intro exI [of _ "last_shard_failure x"]) simp
next
  case (2 net k shard shards d x)
  then show ?case by (auto split: reply.splits)
qed

lemma reads_are_steps:
  "registry_step self e x (snd (agg_query_risk_gate net k threshold x))"
  "registry_step self e x (snd (agg_get_score net k x))"
  "registry_step self e x (snd (agg_get_aggregate_score net w x))"
  "registry_step self e x (snd (contagion_depth_across_shards net k x))"
proof -
  have kept: "registry_step self e x x"
    using registry_step.failure [of self e x "last_shard_failure x"] by simp
  show "registry_step self e x (snd (agg_query_risk_gate net k threshold x))"
    using agg_gate_loop_state [of net k threshold "ag_shards x" x] registry_step.failure [of self e x] kept
    by (auto simp: agg_query_risk_gate_def)
  show "registry_step self e x (snd (contagion_depth_across_shards net k x))"
    using depth_loop_state [of net k "ag_shards x" 0 x] registry_step.failure [of self e x] kept
    by (auto simp: contagion_depth_across_shards_def)
  show "registry_step self e x (snd (agg_get_score net k x))"
    using best_loop_state [of "\<lambda>shard. try_get_score (net shard) k" rs_score "ag_shards x" None x] registry_step.failure [of self e x] kept
    by (auto simp: agg_get_score_def Let_def case_prod_unfold split: option.splits)
  show "registry_step self e x (snd (agg_get_aggregate_score net w x))"
    using best_loop_state [of "\<lambda>shard. try_get_aggregate_score (net shard) w" ag_aggregate_score "ag_shards x" None x]
      registry_step.failure [of self e x] kept
    by (auto simp: agg_get_aggregate_score_def Let_def case_prod_unfold split: option.splits)
qed

definition registry_wf :: "address \<Rightarrow> aggregator \<Rightarrow> bool" where
  "registry_wf self x \<longleftrightarrow> distinct (ag_shards x) \<and> length (ag_shards x) \<le> MAX_SHARDS \<and> self \<notin> set (ag_shards x) \<and>
     (\<forall>shard. shard_health x shard \<noteq> None \<longrightarrow> shard \<in> set (ag_shards x)) \<and>
     (\<forall>shard. shard_capabilities x shard \<noteq> None \<longleftrightarrow> shard \<in> set (ag_shards x)) \<and>
     (\<forall>shard caps. shard_capabilities x shard = Some caps \<longrightarrow> set REQUIRED_SHARD_CAPABILITIES \<subseteq> set caps)"

lemma supports_all_iff: "supports_all api caps \<longleftrightarrow> (\<forall>cap\<in>set caps. try_supports_interface api cap = Answer True)"
  by (induction caps) auto

lemma probed_required:
  "shard_supports_required_interface api \<Longrightarrow> set REQUIRED_SHARD_CAPABILITIES \<subseteq> set (probe_capabilities api)"
  by (auto simp: shard_supports_required_interface_def supports_all_iff probe_capabilities_def
      REQUIRED_SHARD_CAPABILITIES_def split: if_splits)

lemma registry_step_wf:
  assumes "registry_step self e x x'" "registry_wf self x"
  shows "registry_wf self x'"
  using assms(1)
proof (cases rule: registry_step.cases)
  case (initialize adm)
  then have "x' = x\<lparr>ag_admin := Some adm\<rparr>"
    by (auto simp: agg_initialize_def split: if_splits)
  then show ?thesis
    using assms(2) by (simp add: registry_wf_def)
next
  case (add net shard)
  then have new: "shard \<notin> set (ag_shards x)" "shard \<noteq> self" "length (ag_shards x) < MAX_SHARDS"
    "shard_supports_required_interface (net shard)"
    "x' = x\<lparr>ag_shards := ag_shards x @ [shard],
        shard_capabilities := (shard_capabilities x)(shard \<mapsto> probe_capabilities (net shard))\<rparr>"
    by (auto simp: add_shard_def bind_res_Inr_iff split: if_splits)
  then show ?thesis
    using assms(2) probed_required [OF new(4)] unfolding registry_wf_def by simp
next
  case (remove shard)
  then have "x' = x\<lparr>ag_shards := filter (\<lambda>a. a \<noteq> shard) (ag_shards x), shard_health := (shard_health x)(shard := None),
      shard_capabilities := (shard_capabilities x)(shard := None)\<rparr>"
    by (auto simp: remove_shard_def bind_res_Inr_iff split: if_splits)
  then show ?thesis
    using assms(2) order_trans [OF length_filter_le [of "\<lambda>a. a \<noteq> shard" "ag_shards x"]] unfolding registry_wf_def by simp
next
  case (health shard healthy evs)
  then have "shard \<in> set (ag_shards x)" "x' = x\<lparr>shard_health := (shard_health x)(shard \<mapsto> healthy)\<rparr>"
    by (auto simp: set_shard_health_def is_shard_registered_def bind_res_Inr_iff split: if_splits)
  then show ?thesis
    using assms(2) unfolding registry_wf_def by simp
next
  case (failure f)
  then show ?thesis
    using assms(2) by (simp add: registry_wf_def)
qed

text \<open>C32: In every reachable state the shards are distinct, at most ten and not the aggregator itself; health flags and capability
  snapshots exist for registered shards only, and every registered shard has a snapshot with the four required capabilities.
  Without the authorization of the admin no step changes the admin, the shards, their health or their snapshots.\<close>

theorem reachable_registry_wf:
  assumes "registry_reachable self x"
  shows "registry_wf self x \<and>
    (\<forall>e x' adm. registry_step self e x x' \<and> ag_admin x = Some adm \<and> \<not> authorized e adm \<longrightarrow>
       ag_admin x' = ag_admin x \<and> ag_shards x' = ag_shards x \<and> shard_health x' = shard_health x \<and>
       shard_capabilities x' = shard_capabilities x)"
proof (intro conjI allI impI)
  show "registry_wf self x"
    using assms
  proof (induction rule: registry_reachable.induct)
    case start
    show ?case by (simp add: registry_wf_def empty_aggregator_def)
  qed (rule registry_step_wf)
next
  fix e x' adm
  assume step: "registry_step self e x x' \<and> ag_admin x = Some adm \<and> \<not> authorized e adm"
  then have "registry_step self e x x'" ..
  then have "ag_admin x' = ag_admin x \<and> ag_shards x' = ag_shards x \<and> shard_health x' = shard_health x \<and>
      shard_capabilities x' = shard_capabilities x"
    by (cases rule: registry_step.cases)
      (use step in \<open>auto simp: agg_initialize_def add_shard_def remove_shard_def set_shard_health_def agg_require_auth_def
        bind_res_Inr_iff split: if_splits\<close>)
  then show "ag_admin x' = ag_admin x" "ag_shards x' = ag_shards x" "shard_health x' = shard_health x"
    "shard_capabilities x' = shard_capabilities x"
    by simp_all
qed

section \<open>Three shards\<close>

definition sample_answer :: "u32 \<Rightarrow> RiskScore" where
  "sample_answer s = \<lparr>rs_score = s, rs_benford_flag = False, rs_ml_flag = False, rs_timestamp = 900, rs_confidence = 90,
     rs_model_version = 1, rs_benford_score = 0, rs_ml_score = 0, rs_network_score = 0, rs_commitment = None\<rparr>"

definition sample_api :: "u32 \<Rightarrow> u32 \<Rightarrow> shard_api" where
  "sample_api min_confidence s =
     \<lparr>try_supports_interface = (\<lambda>_. Answer True), try_get_arch_owner = Answer None, try_get_mandatory_reviewers = Answer [],
      try_get_decay_rate = Answer (999, 1000), try_get_staleness_window = Answer 3600,
      try_get_global_min_confidence = Answer min_confidence, try_get_consensus_config = Answer (2, 5),
      try_is_watchlisted = (\<lambda>_. Answer False), try_query_risk_gate = (\<lambda>_ threshold. Answer (s < threshold)),
      try_get_score = (\<lambda>_. Answer (sample_answer s)), try_is_score_stale = (\<lambda>_. Answer False),
      try_get_aggregate_score = (\<lambda>_. Rejected ScoreNotFound), try_get_contagion_depth = (\<lambda>_. Answer 0)\<rparr>"

definition sample_net :: shard_net where
  "sample_net shard = (if shard = Addr 13 then sample_api 70 60 else sample_api 50 (if shard = Addr 12 then 60 else 20))"

definition sample_aggregator :: aggregator where
  "sample_aggregator = empty_aggregator\<lparr>ag_admin := Some (Addr 1), ag_shards := [Addr 11, Addr 12, Addr 13]\<rparr>"

theorem split_brain_report_witness:
  "sb_status (detect_split_brain sample_net (Addr 7, ''XLM'') sample_aggregator) = SplitBrain \<and>
   sb_status (detect_split_brain sample_net (Addr 7, ''XLM'')
     (sample_aggregator\<lparr>ag_shards := [Addr 13, Addr 12, Addr 11]\<rparr>)) = SplitBrain"
proof -
  have "sb_status (detect_split_brain sample_net (Addr 7, ''XLM'') sample_aggregator) = SplitBrain"
    by (simp add: detect_split_brain_def Let_def diagnose_shard_def sample_aggregator_def empty_aggregator_def sample_net_def
        sample_api_def is_shard_healthy_def read_config_fingerprint_def select_canonical_fingerprint_def
        List.map_filter_simps recheck_diagnostic_def status_count_def)
  moreover have "mset [Addr 13, Addr 12, Addr 11] = mset (ag_shards sample_aggregator)"
    by (simp add: sample_aggregator_def)
  ultimately show ?thesis
    using split_brain_report [of sample_net "(Addr 7, ''XLM'')" sample_aggregator] unfolding Let_def by metis
qed


theorem gate_open_without_healthy_shards_witness:
  "fst (agg_query_risk_gate sample_net (Addr 7, ''XLM'') 0
     (sample_aggregator\<lparr>shard_health := [Addr 11 \<mapsto> False, Addr 12 \<mapsto> False, Addr 13 \<mapsto> False]\<rparr>))"
  using gate_open_without_healthy_shards [of "sample_aggregator\<lparr>shard_health := [Addr 11 \<mapsto> False, Addr 12 \<mapsto> False, Addr 13 \<mapsto> False]\<rparr>"
      "(Addr 7, ''XLM'')" sample_net 0]
  by (simp add: sample_aggregator_def is_shard_healthy_def asset_pair_is_bounded_def MAX_ASSET_PAIR_BYTES_def)

theorem aggregate_reads_worst_score_witness:
  "\<exists>score. fst (agg_get_score sample_net (Addr 7, ''XLM'') sample_aggregator) = Inr score \<and> rs_score score = 60"
proof -
  let ?answers = "healthy_answers (\<lambda>shard. try_get_score (sample_net shard) (Addr 7, ''XLM'')) (ag_shards sample_aggregator) sample_aggregator"
  have "?answers = [sample_answer 20, sample_answer 60, sample_answer 60]"
    by (simp add: is_shard_healthy_def sample_aggregator_def empty_aggregator_def sample_net_def sample_api_def)
  then show ?thesis
    using aggregate_reads_worst_score [of "(Addr 7, ''XLM'')" sample_net sample_aggregator "Addr 7"]
    by (auto simp: asset_pair_is_bounded_def MAX_ASSET_PAIR_BYTES_def Let_def first_max_def sample_answer_def
        Cons_eq_append_conv split: sum.splits)
qed

theorem reachable_registry_wf_witness:
  "\<exists>x. registry_reachable (Addr 0) x \<and> ag_shards x = [Addr 11] \<and> registry_wf (Addr 0) x"
proof -
  let ?e = "sample_env 1" and ?x1 = "empty_aggregator\<lparr>ag_admin := Some (Addr 1)\<rparr>"
  have "agg_initialize ?e (Addr 1) empty_aggregator = Inr ?x1"
    by (simp add: agg_initialize_def empty_aggregator_def)
  then have first: "registry_reachable (Addr 0) ?x1"
    by (intro registry_reachable.step [OF registry_reachable.start] registry_step.initialize)
  have "supports_all (sample_net (Addr 11)) REQUIRED_SHARD_CAPABILITIES"
    by (simp add: supports_all_iff sample_net_def sample_api_def)
  then obtain x where x: "add_shard sample_net ?e (Addr 11) ?x1 = Inr x" "ag_shards x = [Addr 11]"
    by (simp add: add_shard_def agg_require_auth_def sample_env_def empty_aggregator_def MAX_SHARDS_def
        shard_supports_required_interface_def sample_net_def sample_api_def)
  then have "registry_reachable (Addr 0) x"
    by (intro registry_reachable.step [OF first] registry_step.add) (auto simp: sample_env_def)
  then show ?thesis
    using x(2) reachable_registry_wf by blast
qed

end
