(* ===== verification/Limbs.thy ===== *)
theory Limbs
  imports Prelude
begin

text \<open>
  Numbers of several 64-bit limbs, least significant first, as the field and scalar arithmetic of
  \<^verbatim>\<open>zk_range_proof.rs\<close> keeps them: the carry and borrow chains, the comparison, the shifts, the schoolbook product
  and the byte form that both share, with the value each of them has.  Sums are taken in 128 bits, where they do not overflow.
\<close>

unbundle bit_operations_syntax

type_synonym u128 = "128 word"

fun limbs_val :: "u64 list \<Rightarrow> nat" where
  "limbs_val [] = 0"
| "limbs_val (l # ls) = unat l + 2 ^ 64 * limbs_val ls"

section \<open>Operations\<close>

text \<open>The loop \<^verbatim>\<open>sum = a[i] + b[i] + carry; r = sum as u64; carry = sum >> 64\<close>.\<close>

fun add_limbs :: "u64 list \<Rightarrow> u64 list \<Rightarrow> u128 \<Rightarrow> u64 list \<times> u128" where
  "add_limbs (a # as) (b # bs) carry =
     (let total = ucast a + ucast b + carry; (rest, out) = add_limbs as bs (drop_bit 64 total) in (ucast total # rest, out))"
| "add_limbs as bs carry = ([], carry)"

text \<open>The loop that adds a small number, \<^verbatim>\<open>sum = r + carry\<close>.\<close>

fun add_carry :: "u64 list \<Rightarrow> u128 \<Rightarrow> u64 list" where
  "add_carry [] carry = []"
| "add_carry (r # rs) carry = (let total = ucast r + carry in ucast total # add_carry rs (drop_bit 64 total))"

text \<open>The loop with the wrapping subtractions and the borrow.\<close>

fun sub_limbs :: "u64 list \<Rightarrow> u64 list \<Rightarrow> u128 \<Rightarrow> u64 list \<times> u128" where
  "sub_limbs (a # as) (b # bs) borrow =
     (let diff = ucast a - ucast b - borrow; (rest, out) = sub_limbs as bs (if 0 < drop_bit 64 diff then 1 else 0)
      in (ucast diff # rest, out))"
| "sub_limbs as bs borrow = ([], borrow)"

text \<open>The comparison from the most significant limb down.\<close>

fun ge_from :: "u64 list \<Rightarrow> u64 list \<Rightarrow> bool" where
  "ge_from (a # as) (b # bs) = (if b < a then True else if a < b then False else ge_from as bs)"
| "ge_from as bs = True"

definition ge_limbs :: "u64 list \<Rightarrow> u64 list \<Rightarrow> bool" where
  "ge_limbs as bs = ge_from (rev as) (rev bs)"

fun shr_from :: "u64 list \<Rightarrow> u64 \<Rightarrow> u64 list" where
  "shr_from [] carry = []"
| "shr_from (a # as) carry = (drop_bit 1 a OR carry) # shr_from as (push_bit 63 a)"

definition shr1_limbs :: "u64 list \<Rightarrow> u64 list" where
  "shr1_limbs as = rev (shr_from (rev as) 0)"

fun shl1_limbs :: "u64 list \<Rightarrow> u64 \<Rightarrow> u64 list \<times> u64" where
  "shl1_limbs [] carry = ([], carry)"
| "shl1_limbs (l # ls) carry =
     (let (rest, out) = shl1_limbs ls (drop_bit 63 l) in ((push_bit 1 l OR carry) # rest, out))"

text \<open>The inner loop of the product, over \<^verbatim>\<open>j\<close>, and the outer one, over \<^verbatim>\<open>i\<close>.\<close>

fun mul_inner :: "u64 \<Rightarrow> u64 list \<Rightarrow> nat \<Rightarrow> u64 list \<Rightarrow> u128 \<Rightarrow> u64 list \<times> u128" where
  "mul_inner a [] n acc carry = (acc, carry)"
| "mul_inner a (b # bs) n acc carry =
     (let product = ucast a * ucast b + ucast (acc ! n) + carry in
      mul_inner a bs (Suc n) (acc[n := ucast product]) (drop_bit 64 product))"

fun mul_outer :: "u64 list \<Rightarrow> u64 list \<Rightarrow> nat \<Rightarrow> u64 list \<Rightarrow> u64 list" where
  "mul_outer [] bs i acc = acc"
| "mul_outer (a # as) bs i acc =
     (let (acc', carry) = mul_inner a bs i acc 0 in mul_outer as bs (Suc i) (acc'[i + length bs := ucast carry]))"

definition mul_limbs :: "u64 list \<Rightarrow> u64 list \<Rightarrow> u64 list" where
  "mul_limbs as bs = mul_outer as bs 0 (replicate (length as + length bs) 0)"

definition limbs_to_bytes :: "u64 list \<Rightarrow> bytes" where
  "limbs_to_bytes ls = concat (map u64_le ls)"

definition u64_from_le :: "bytes \<Rightarrow> u64" where
  "u64_from_le bs = word_of_nat (nat_of_le bs)"

fun limbs_of_bytes :: "nat \<Rightarrow> bytes \<Rightarrow> u64 list" where
  "limbs_of_bytes 0 bs = []"
| "limbs_of_bytes (Suc n) bs = u64_from_le (take 8 bs) # limbs_of_bytes n (drop 8 bs)"

section \<open>Values\<close>

lemma limb_less: "unat (l :: u64) < 2 ^ 64" "unat (w :: u128) < 2 ^ 128"
  using unsigned_less [of l, where ?'a = nat] unsigned_less [of w, where ?'a = nat] by simp_all

lemma limbs_val_bound: "limbs_val ls < 2 ^ (64 * length ls)"
proof (induction ls)
  case (Cons l ls)
  have "unat l + 2 ^ 64 * limbs_val ls < 2 ^ 64 + 2 ^ 64 * limbs_val ls"
    using limb_less(1) [of l] by simp
  also have "\<dots> = 2 ^ 64 * Suc (limbs_val ls)"
    by simp
  also have "\<dots> \<le> 2 ^ 64 * 2 ^ (64 * length ls)"
    using Cons by (intro mult_le_mono2) simp
  finally show ?case
    by (simp add: power_add)
qed simp

lemma limbs_val_append: "limbs_val (as @ bs) = limbs_val as + 2 ^ (64 * length as) * limbs_val bs"
  by (induction as) (simp_all add: power_add algebra_simps)

lemma limbs_val_inject: "length as = length bs \<Longrightarrow> limbs_val as = limbs_val bs \<Longrightarrow> as = bs"
proof (induction as bs rule: list_induct2)
  case (Cons a as b bs)
  have "unat a mod 2 ^ 64 = unat b mod 2 ^ 64" "(unat a + 2 ^ 64 * limbs_val as) div 2 ^ 64 = (unat b + 2 ^ 64 * limbs_val bs) div 2 ^ 64"
    using Cons.prems by (metis limbs_val.simps(2) mod_mult_self2, simp)
  then show ?case
    using Cons.IH limb_less(1) [of a] limb_less(1) [of b] by (simp add: word_unat_eq_iff)
qed simp

lemma limbs_val_0: "limbs_val ls = 0 \<longleftrightarrow> list_all (\<lambda>l. l = 0) ls"
  by (induction ls) (auto simp: unat_eq_0)

lemma limbs_val_replicate [simp]: "limbs_val (replicate n 0) = 0"
  by (induction n) simp_all

lemma limbs_val_update:
  "n < length ls \<Longrightarrow> limbs_val (ls[n := v]) + unat (ls ! n) * 2 ^ (64 * n) = limbs_val ls + unat v * 2 ^ (64 * n)"
proof (induction ls arbitrary: n)
  case (Cons l ls)
  show ?case
  proof (cases n)
    case (Suc m)
    then show ?thesis
      using Cons.IH [of m] Cons.prems by (simp add: power_add algebra_simps)
  qed simp
qed simp

text \<open>The two halves of a sum in 128 bits.\<close>

lemma unat_low: "unat (ucast (w :: u128) :: u64) = unat w mod 2 ^ 64"
  by (simp add: unsigned_ucast_eq take_bit_eq_mod)

lemma unat_high: "unat (drop_bit 64 (w :: u128)) = unat w div 2 ^ 64"
  using limb_less(2) [of w] by (simp only: unsigned_drop_bit_eq) (simp add: drop_bit_eq_div take_bit_eq_mod)

lemma unat_wide: "unat (ucast (l :: u64) :: u128) = unat l"
proof -
  have "unat l < 2 ^ 128"
    using limb_less(1) [of l] by simp
  then show ?thesis
    by (simp add: unsigned_ucast_eq take_bit_eq_mod)
qed

lemma unat_total:
  assumes "unat c < 2 ^ 64"
  shows "unat (ucast (a :: u64) + ucast (b :: u64) + c :: u128) = unat a + unat b + unat c"
proof -
  have "unat a + unat b + unat c < 2 ^ 128"
    using limb_less(1) [of a] limb_less(1) [of b] assms by simp
  then show ?thesis
    by (simp add: unat_word_ariths unat_wide mod_simps)
qed

lemma unat_carried:
  assumes "unat c < 2 ^ 64"
  shows "unat (ucast (a :: u64) + c :: u128) = unat a + unat c"
  using unat_total [OF assms, of a 0] by simp

lemma carry_step:
  fixes x m c v t B :: nat
  assumes "x + m * c = v + t div B"
  shows "t mod B + B * x + (B * m) * c = t + B * v"
proof -
  have "B * x + (B * m) * c = B * v + B * (t div B)"
    using arg_cong [OF assms, of "(*) B"] by (simp add: distrib_left mult.assoc)
  then show ?thesis
    using mod_mult_div_eq [of t B] by linarith
qed

lemma add_limbs_val:
  assumes "length as = length bs" "unat carry \<le> 1" "add_limbs as bs carry = (rs, out)"
  shows "limbs_val rs + 2 ^ (64 * length as) * unat out = limbs_val as + limbs_val bs + unat carry"
    "length rs = length as" "unat out \<le> 1"
proof -
  have "limbs_val rs + 2 ^ (64 * length as) * unat out = limbs_val as + limbs_val bs + unat carry \<and>
      length rs = length as \<and> unat out \<le> 1"
    using assms
  proof (induction as bs arbitrary: carry rs out rule: list_induct2)
    case (Cons a as b bs)
    define t :: u128 where "t = ucast a + ucast b + carry"
    have t: "unat t = unat a + unat b + unat carry"
      unfolding t_def using Cons.prems(1) by (intro unat_total) simp
    obtain rest where r: "add_limbs as bs (drop_bit 64 t) = (rest, out)" "rs = ucast t # rest"
      using Cons.prems(2) by (auto simp: t_def Let_def split: prod.splits)
    have "unat (drop_bit 64 t) \<le> 1"
      unfolding unat_high t using limb_less(1) [of a] limb_less(1) [of b] Cons.prems(1) by (simp add: div_le_dividend less_Suc_eq_le)
    note ih = Cons.IH [OF this r(1)]
    have "unat t mod 2 ^ 64 + 2 ^ 64 * limbs_val rest + (2 ^ 64 * 2 ^ (64 * length as)) * unat out
        = unat t + 2 ^ 64 * (limbs_val as + limbs_val bs)"
      by (rule carry_step) (use ih in \<open>simp add: unat_high\<close>)
    moreover have "2 ^ (64 * length (a # as)) = (2 ^ 64 * 2 ^ (64 * length as) :: nat)"
      by (simp add: power_add)
    ultimately show ?case
      using ih t unfolding r(2) by (simp add: unat_low)
  qed simp
  then show "limbs_val rs + 2 ^ (64 * length as) * unat out = limbs_val as + limbs_val bs + unat carry"
    "length rs = length as" "unat out \<le> 1" by simp_all
qed

lemma length_add_carry [simp]: "length (add_carry rs c) = length rs"
  by (induction rs arbitrary: c) (simp_all add: Let_def)

lemma add_carry_val:
  "unat c < 2 ^ 64 \<Longrightarrow> limbs_val (add_carry rs c) = (limbs_val rs + unat c) mod 2 ^ (64 * length rs)"
proof (induction rs arbitrary: c)
  case (Cons r rs)
  define t :: u128 where "t = ucast r + c"
  have t: "unat t = unat r + unat c"
    unfolding t_def by (rule unat_carried [OF Cons.prems])
  have "unat (drop_bit 64 t) < 2 ^ 64"
    unfolding unat_high t using limb_less(1) [of r] Cons.prems by simp
  note ih = Cons.IH [OF this]
  have "limbs_val (add_carry (r # rs) c) = unat t mod 2 ^ 64 + 2 ^ 64 * ((limbs_val rs + unat t div 2 ^ 64) mod 2 ^ (64 * length rs))"
    using ih by (simp add: t_def [symmetric] Let_def unat_low unat_high)
  also have "\<dots> = (unat t + 2 ^ 64 * limbs_val rs) mod (2 ^ 64 * 2 ^ (64 * length rs))"
    by (subst mod_mult2_eq) (simp add: add.commute)
  finally show ?case
    by (simp add: t power_add algebra_simps)
qed simp

text \<open>One limb of a subtraction: the low half, and whether the high half is set.\<close>

lemma sub_limb:
  fixes a b :: u64 and c :: u128
  assumes "unat c \<le> 1"
  defines "d \<equiv> ucast a - ucast b - c :: u128"
  shows "unat (ucast d :: u64) + unat b + unat c = unat a + 2 ^ 64 * (if 0 < drop_bit 64 d then 1 else 0)"
proof -
  have ab: "unat a < 2 ^ 64" "unat b < 2 ^ 64"
    by (rule limb_less)+
  have d: "d = ucast a - (ucast b + c)"
    by (simp add: d_def)
  have bc: "unat (ucast b + c :: u128) = unat b + unat c"
    using assms(1) by (intro unat_carried) simp
  have hi: "0 < drop_bit 64 d \<longleftrightarrow> 2 ^ 64 \<le> unat d"
  proof -
    have "0 < drop_bit 64 d \<longleftrightarrow> 0 < unat d div 2 ^ 64"
      by (simp only: word_less_nat_alt unat_high unsigned_0)
    also have "\<dots> \<longleftrightarrow> 2 ^ 64 \<le> unat d"
      by (simp add: div_greater_zero_iff)
    finally show ?thesis .
  qed
  show ?thesis
  proof (cases "unat b + unat c \<le> unat a")
    case True
    then have "unat d = unat a - (unat b + unat c)"
      unfolding d using bc by (subst unat_sub) (simp_all add: word_le_nat_alt unat_wide)
    then show ?thesis
      using True ab(1) hi by (simp add: unat_low)
  next
    case False
    let ?k = "unat b + unat c - unat a"
    have k: "0 < ?k" "?k \<le> 2 ^ 64"
      using False ab assms(1) by simp_all
    have "unat d = 2 ^ 128 - ?k"
      unfolding d using False bc by (simp add: unat_sub_if_size unat_wide word_size)
    moreover have "(2 ^ 128 - ?k) mod 2 ^ 64 + ?k = 2 ^ 64 * 1"
    proof -
      have "2 ^ 128 - ?k = (2 ^ 64 - ?k) + (2 ^ 64 - 1) * 2 ^ 64"
        using k by simp
      then have "(2 ^ 128 - ?k) mod 2 ^ 64 = (2 ^ 64 - ?k) mod 2 ^ 64"
        by (metis mod_mult_self1)
      then show ?thesis
        using k by simp
    qed
    moreover have "2 ^ 64 \<le> 2 ^ 128 - ?k"
      using k by simp
    ultimately show ?thesis
      using False hi by (simp add: unat_low)
  qed
qed

lemma sub_limbs_val:
  assumes "length as = length bs" "unat borrow \<le> 1" "sub_limbs as bs borrow = (rs, out)"
  shows "limbs_val rs + limbs_val bs + unat borrow = limbs_val as + 2 ^ (64 * length as) * unat out"
    "length rs = length as" "unat out \<le> 1"
proof -
  have "limbs_val rs + limbs_val bs + unat borrow = limbs_val as + 2 ^ (64 * length as) * unat out \<and>
      length rs = length as \<and> unat out \<le> 1"
    using assms
  proof (induction as bs arbitrary: borrow rs out rule: list_induct2)
    case (Cons a as b bs)
    define d :: u128 where "d = ucast a - ucast b - borrow"
    define c :: u128 where "c = (if 0 < drop_bit 64 d then 1 else 0)"
    obtain rest where r: "sub_limbs as bs c = (rest, out)" "rs = ucast d # rest"
      using Cons.prems(2) by (auto simp: d_def c_def Let_def split: prod.splits)
    have c1: "unat c \<le> 1"
      by (simp add: c_def)
    have limb: "unat (ucast d :: u64) + unat b + unat borrow = unat a + 2 ^ 64 * unat c"
      using sub_limb [OF Cons.prems(1), of a b] by (simp add: d_def c_def)
    have ih: "limbs_val rest + limbs_val bs + unat c = limbs_val as + 2 ^ (64 * length as) * unat out"
      "length rest = length as" "unat out \<le> 1"
      using Cons.IH [OF c1 r(1)] by simp_all
    have "2 ^ 64 * limbs_val rest + 2 ^ 64 * limbs_val bs + 2 ^ 64 * unat c
        = 2 ^ 64 * limbs_val as + (2 ^ 64 * 2 ^ (64 * length as)) * unat out"
      using arg_cong [OF ih(1), of "(*) (2 ^ 64)"] by (simp add: distrib_left mult.assoc)
    moreover have "2 ^ (64 * length (a # as)) = (2 ^ 64 * 2 ^ (64 * length as) :: nat)"
      by (simp add: power_add)
    ultimately show ?case
      using limb ih(2,3) unfolding r(2) by (simp add: algebra_simps)
  qed simp
  then show "limbs_val rs + limbs_val bs + unat borrow = limbs_val as + 2 ^ (64 * length as) * unat out"
    "length rs = length as" "unat out \<le> 1" by simp_all
qed

lemma ge_from_val: "length as = length bs \<Longrightarrow> ge_from as bs \<longleftrightarrow> limbs_val (rev bs) \<le> limbs_val (rev as)"
proof (induction as bs rule: list_induct2)
  case (Cons a as b bs)
  let ?n = "64 * length as"
  have v: "limbs_val (rev (a # as)) = limbs_val (rev as) + 2 ^ ?n * unat a"
    "limbs_val (rev (b # bs)) = limbs_val (rev bs) + 2 ^ ?n * unat b"
    using Cons.hyps by (simp_all add: limbs_val_append)
  have bound: "limbs_val (rev as) < 2 ^ ?n" "limbs_val (rev bs) < 2 ^ ?n"
    using limbs_val_bound [of "rev as"] limbs_val_bound [of "rev bs"] Cons.hyps by simp_all
  have top: "x + 2 ^ ?n * m < y + 2 ^ ?n * k" if "m < k" "x < 2 ^ ?n" for m k x y :: nat
  proof -
    have "x + 2 ^ ?n * m < 2 ^ ?n * Suc m"
      using that(2) by simp
    also have "\<dots> \<le> 2 ^ ?n * k"
      using that(1) by (intro mult_le_mono2) simp
    finally show ?thesis by simp
  qed
  consider "b < a" | "a < b" | "a = b" by (rule linorder_cases) auto
  then show ?case
  proof cases
    case 1
    then show ?thesis
      using top [of "unat b" "unat a" "limbs_val (rev bs)" "limbs_val (rev as)"] bound v by (simp add: word_less_nat_alt)
  next
    case 2
    then show ?thesis
      using top [of "unat a" "unat b" "limbs_val (rev as)" "limbs_val (rev bs)"] bound v by (simp add: word_less_nat_alt)
  next
    case 3
    then show ?thesis
      using Cons.IH v by simp
  qed
qed simp

lemma ge_limbs_val: "length as = length bs \<Longrightarrow> ge_limbs as bs \<longleftrightarrow> limbs_val bs \<le> limbs_val as"
  by (simp add: ge_limbs_def ge_from_val)

text \<open>The shifts.\<close>

lemma shr_from_append:
  "shr_from (xs @ [a]) c = shr_from xs c @ [drop_bit 1 a OR (if xs = [] then c else push_bit 63 (last xs))]"
  by (induction xs arbitrary: c) auto

lemma top_bit_bound: "q < 2 ^ 63 \<Longrightarrow> r \<le> 1 \<Longrightarrow> q + 2 ^ 63 * r < (2 :: nat) ^ 64"
  by (cases r) auto

lemma unat_shr_limb:
  fixes a h :: u64
  shows "unat (drop_bit 1 a OR push_bit 63 h) = unat a div 2 + 2 ^ 63 * (unat h mod 2)"
proof -
  have lo: "unat (drop_bit 1 a) = unat a div 2"
    using limb_less(1) [of a] by (simp only: unsigned_drop_bit_eq) (simp add: drop_bit_eq_div take_bit_eq_mod)
  have hi: "unat (push_bit 63 h) = 2 ^ 63 * (unat h mod 2)"
  proof -
    have "unat (push_bit 63 h) = (unat h * 2 ^ 63) mod (2 * 2 ^ 63)"
      by (simp add: push_bit_eq_mult unat_word_ariths)
    then show ?thesis
      by (simp only: mod_mult_mult2 mult.commute)
  qed
  have "drop_bit 1 a OR push_bit 63 h = drop_bit 1 a + push_bit 63 h"
    by (rule disjunctive_add [symmetric]) (auto simp: bit_simps dest: bit_imp_le_length)
  moreover have "unat a div 2 + 2 ^ 63 * (unat h mod 2) < 2 ^ 64"
  proof -
    have "unat a div 2 < 2 ^ 63" "unat h mod 2 \<le> 1"
      using limb_less(1) [of a] by simp_all
    then show ?thesis by (intro top_bit_bound)
  qed
  ultimately show ?thesis
    using lo hi by (simp only: unat_word_ariths) simp
qed

lemma limbs_val_mod_2: "limbs_val (l # ls) mod 2 = unat l mod 2"
  by (simp add: mod_add_eq [symmetric] mod_mult_eq [symmetric])

lemma shr1_limbs_val: "limbs_val (shr1_limbs as) = limbs_val as div 2" "length (shr1_limbs as) = length as"
proof -
  have "length (shr_from xs c) = length xs" for xs c
    by (induction xs arbitrary: c) simp_all
  then show "length (shr1_limbs as) = length as"
    by (simp add: shr1_limbs_def)
  show "limbs_val (shr1_limbs as) = limbs_val as div 2"
  proof (induction as)
    case (Cons a as)
    define h where "h = (if as = [] then 0 else hd as)"
    have "shr1_limbs (a # as) = (drop_bit 1 a OR push_bit 63 h) # shr1_limbs as"
      by (simp add: shr1_limbs_def shr_from_append last_rev h_def)
    then have "limbs_val (shr1_limbs (a # as)) = unat a div 2 + 2 ^ 63 * (unat h mod 2) + 2 ^ 64 * (limbs_val as div 2)"
      by (simp only: limbs_val.simps unat_shr_limb Cons)
    moreover have "unat h mod 2 = limbs_val as mod 2"
      unfolding h_def by (cases as) (simp_all only: limbs_val_mod_2 list.sel, simp_all)
    moreover have "2 ^ 63 * (limbs_val as mod 2) + 2 ^ 64 * (limbs_val as div 2) = 2 ^ 63 * limbs_val as"
      using arg_cong [OF mult_div_mod_eq [of 2 "limbs_val as"], of "(*) (2 ^ 63)"] by (simp only: distrib_left) simp
    moreover have "limbs_val (a # as) div 2 = unat a div 2 + 2 ^ 63 * limbs_val as"
      using div_mult_self2 [of 2 "unat a" "2 ^ 63 * limbs_val as"] by simp
    ultimately show ?case by (simp only: add.assoc)
  qed (simp add: shr1_limbs_def)
qed

lemma carry_recombine: "B * q + r = t \<Longrightarrow> r + c + B * q = t + (c :: nat)"
  by simp

lemma unat_shl_limb:
  fixes l c :: u64
  assumes "unat c \<le> 1"
  shows "unat (push_bit 1 l OR c) + 2 ^ 64 * unat (drop_bit 63 l) = 2 * unat l + unat c" "unat (drop_bit 63 l) \<le> 1"
proof -
  have hi: "unat (drop_bit 63 l) = unat l div 2 ^ 63"
    using limb_less(1) [of l] by (simp only: unsigned_drop_bit_eq) (simp add: drop_bit_eq_div take_bit_eq_mod)
  have lo: "unat (push_bit 1 l) = (2 * unat l) mod 2 ^ 64"
    by (simp add: push_bit_eq_mult unat_word_ariths mult.commute)
  have "c = 0 \<or> c = 1"
    using assms by (auto simp: word_unat_eq_iff)
  moreover have "even (push_bit 1 l)"
    by simp
  ultimately have "push_bit 1 l OR c = push_bit 1 l + c"
    by (auto simp: or_one_eq)
  moreover have "(2 * unat l) mod 2 ^ 64 + unat c < 2 ^ 64"
  proof -
    have "(2 * unat l) mod (2 * 2 ^ 63) = 2 * (unat l mod 2 ^ 63)" "unat l mod 2 ^ 63 < 2 ^ 63"
      by (rule mult_mod_right [symmetric]) simp
    then show ?thesis
      using assms by simp
  qed
  ultimately have "unat (push_bit 1 l OR c) = (2 * unat l) mod 2 ^ 64 + unat c"
    using lo by (simp add: unat_word_ariths)
  moreover have "(2 * unat l) div 2 ^ 64 = unat l div 2 ^ 63"
    by simp
  ultimately show "unat (push_bit 1 l OR c) + 2 ^ 64 * unat (drop_bit 63 l) = 2 * unat l + unat c"
    using hi carry_recombine [OF mult_div_mod_eq [of "2 ^ 64" "2 * unat l"], of "unat c"] by (simp only:)
  show "unat (drop_bit 63 l) \<le> 1"
    unfolding hi using limb_less(1) [of l] by simp
qed

lemma shl1_limbs_val:
  assumes "unat c \<le> 1" "shl1_limbs ls c = (rs, out)"
  shows "limbs_val rs + 2 ^ (64 * length ls) * unat out = 2 * limbs_val ls + unat c" "length rs = length ls" "unat out \<le> 1"
proof -
  have "limbs_val rs + 2 ^ (64 * length ls) * unat out = 2 * limbs_val ls + unat c \<and> length rs = length ls \<and> unat out \<le> 1"
    using assms
  proof (induction ls arbitrary: c rs)
    case (Cons l ls)
    obtain rest where r: "shl1_limbs ls (drop_bit 63 l) = (rest, out)" "rs = (push_bit 1 l OR c) # rest"
      using Cons.prems(2) by (auto split: prod.splits)
    note limb = unat_shl_limb [OF Cons.prems(1), of l]
    have ih: "limbs_val rest + 2 ^ (64 * length ls) * unat out = 2 * limbs_val ls + unat (drop_bit 63 l)"
      "length rest = length ls" "unat out \<le> 1"
      using Cons.IH [OF limb(2) r(1)] by simp_all
    have "2 ^ 64 * limbs_val rest + (2 ^ 64 * 2 ^ (64 * length ls)) * unat out = 2 * (2 ^ 64 * limbs_val ls) + 2 ^ 64 * unat (drop_bit 63 l)"
      using arg_cong [OF ih(1), of "(*) (2 ^ 64)"] by (simp add: algebra_simps)
    moreover have "2 ^ (64 * length (l # ls)) = (2 ^ 64 * 2 ^ (64 * length ls) :: nat)"
      by (simp add: power_add)
    ultimately show ?case
      using limb(1) ih(2,3) unfolding r(2) by (simp add: algebra_simps)
  qed simp
  then show "limbs_val rs + 2 ^ (64 * length ls) * unat out = 2 * limbs_val ls + unat c" "length rs = length ls" "unat out \<le> 1"
    by simp_all
qed

text \<open>The schoolbook product.\<close>

lemma unat_product:
  fixes a b p :: u64
  assumes "unat c < 2 ^ 64"
  shows "unat (ucast a * ucast b + ucast p + c :: u128) = unat a * unat b + unat p + unat c"
proof -
  have "unat a * unat b \<le> (2 ^ 64 - 1) * (2 ^ 64 - 1)"
    using limb_less(1) [of a] limb_less(1) [of b] by (intro mult_le_mono) simp_all
  then have "unat a * unat b + unat p + unat c < 2 ^ 128"
    using limb_less(1) [of p] assms by simp
  then show ?thesis
    by (simp add: unat_word_ariths unat_wide mod_simps)
qed

lemma product_carry: "a < 2 ^ 64 \<Longrightarrow> b < 2 ^ 64 \<Longrightarrow> p < 2 ^ 64 \<Longrightarrow> c < 2 ^ 64 \<Longrightarrow> (a * b + p + c) div 2 ^ 64 < (2 :: nat) ^ 64"
proof -
  assume *: "a < 2 ^ 64" "b < 2 ^ 64" "p < 2 ^ 64" "c < (2 :: nat) ^ 64"
  have "a * b \<le> (2 ^ 64 - 1) * (2 ^ 64 - 1)"
    using * by (intro mult_le_mono) simp_all
  then have "a * b + p + c < 2 ^ 64 * 2 ^ 64"
    using * by simp
  then show ?thesis
    by (simp add: less_mult_imp_div_less)
qed

text \<open>What one pass of the inner loop leaves: the product of the limb with the other number added at place \<open>n\<close>, the part
  above the pass untouched.\<close>

lemma mul_inner_val:
  assumes "n + length bs \<le> length acc" "unat c < 2 ^ 64" "mul_inner a bs n acc c = (acc', out)"
  shows "limbs_val acc' + 2 ^ (64 * (n + length bs)) * unat out = limbs_val acc + 2 ^ (64 * n) * (unat a * limbs_val bs + unat c)"
    "unat out < 2 ^ 64" "length acc' = length acc" "n + length bs \<le> k \<Longrightarrow> acc' ! k = acc ! k"
proof -
  have "limbs_val acc' + 2 ^ (64 * (n + length bs)) * unat out = limbs_val acc + 2 ^ (64 * n) * (unat a * limbs_val bs + unat c) \<and>
      unat out < 2 ^ 64 \<and> length acc' = length acc \<and> (n + length bs \<le> k \<longrightarrow> acc' ! k = acc ! k)"
    using assms
  proof (induction bs arbitrary: n acc c)
    case (Cons b bs)
    define p :: u128 where "p = ucast a * ucast b + ucast (acc ! n) + c"
    let ?B = "2 ^ (64 * n) :: nat" and ?acc = "acc[n := ucast p]"
    have p: "unat p = unat a * unat b + unat (acc ! n) + unat c"
      unfolding p_def by (rule unat_product [OF Cons.prems(2)])
    have "unat (drop_bit 64 p) < 2 ^ 64"
      unfolding unat_high p by (rule product_carry) (use Cons.prems(2) limb_less in simp_all)
    note ih = Cons.IH [of "Suc n" ?acc, OF _ this]
    have step: "mul_inner a bs (Suc n) ?acc (drop_bit 64 p) = (acc', out)"
      using Cons.prems(3) by (simp add: p_def Let_def)
    have val: "limbs_val acc' + 2 ^ (64 * (Suc n + length bs)) * unat out
        = limbs_val ?acc + 2 ^ (64 * Suc n) * (unat a * limbs_val bs + unat p div 2 ^ 64)"
      and rest: "unat out < 2 ^ 64" "length acc' = length acc" "n + length (b # bs) \<le> k \<longrightarrow> acc' ! k = acc ! k"
      using ih step Cons.prems(1) by (simp_all add: unat_high)
    have "limbs_val ?acc + unat (acc ! n) * ?B = limbs_val acc + (unat p mod 2 ^ 64) * ?B"
      using limbs_val_update [of n acc "ucast p"] Cons.prems(1) by (simp add: unat_low)
    moreover have "(unat p mod 2 ^ 64) * ?B + ?B * (2 ^ 64 * (unat p div 2 ^ 64)) = ?B * unat p"
      using arg_cong [OF mod_mult_div_eq [of "unat p" "2 ^ 64"], of "(*) ?B"] by (simp only: distrib_left mult.commute)
    moreover have "2 ^ (64 * Suc n) = (?B * 2 ^ 64 :: nat)"
      by (simp add: power_add)
    ultimately have "limbs_val ?acc + 2 ^ (64 * Suc n) * (unat a * limbs_val bs + unat p div 2 ^ 64) + unat (acc ! n) * ?B
        = limbs_val acc + ?B * unat p + ?B * (2 ^ 64 * (unat a * limbs_val bs))"
      by (simp only: distrib_left mult.assoc)
    then have "limbs_val ?acc + 2 ^ (64 * Suc n) * (unat a * limbs_val bs + unat p div 2 ^ 64)
        = limbs_val acc + ?B * (unat a * limbs_val (b # bs) + unat c)"
      unfolding p by (simp add: algebra_simps)
    then show ?case
      using val rest by simp
  qed simp
  then show "limbs_val acc' + 2 ^ (64 * (n + length bs)) * unat out = limbs_val acc + 2 ^ (64 * n) * (unat a * limbs_val bs + unat c)"
    "unat out < 2 ^ 64" "length acc' = length acc" "n + length bs \<le> k \<Longrightarrow> acc' ! k = acc ! k" by simp_all
qed

lemma mul_outer_val:
  assumes "i + length as + length bs \<le> length acc" "\<And>k. i + length bs \<le> k \<Longrightarrow> k < length acc \<Longrightarrow> acc ! k = 0"
  shows "limbs_val (mul_outer as bs i acc) = limbs_val acc + 2 ^ (64 * i) * (limbs_val as * limbs_val bs)
    \<and> length (mul_outer as bs i acc) = length acc"
  using assms
proof (induction as arbitrary: i acc)
  case (Cons a as)
  obtain acc' c where m: "mul_inner a bs i acc 0 = (acc', c)"
    by (cases "mul_inner a bs i acc 0")
  have inner: "limbs_val acc' + 2 ^ (64 * (i + length bs)) * unat c = limbs_val acc + 2 ^ (64 * i) * (unat a * limbs_val bs)"
    "unat c < 2 ^ 64" "length acc' = length acc" and above: "\<And>k. i + length bs \<le> k \<Longrightarrow> acc' ! k = acc ! k"
    using mul_inner_val [OF _ _ m] Cons.prems(1) by simp_all
  define acc2 where "acc2 = acc'[i + length bs := ucast c]"
  have zero: "acc' ! (i + length bs) = 0"
    using above Cons.prems by simp
  have "limbs_val acc2 = limbs_val acc' + unat c * 2 ^ (64 * (i + length bs))"
    unfolding acc2_def using limbs_val_update [of "i + length bs" acc' "ucast c"] zero inner(2,3) Cons.prems(1)
    by (simp add: unat_low)
  then have val: "limbs_val acc2 = limbs_val acc + 2 ^ (64 * i) * (unat a * limbs_val bs)"
    using inner(1) by (simp add: mult.commute)
  have "limbs_val (mul_outer as bs (Suc i) acc2) = limbs_val acc2 + 2 ^ (64 * Suc i) * (limbs_val as * limbs_val bs)
      \<and> length (mul_outer as bs (Suc i) acc2) = length acc2"
    using Cons.prems above inner(3) by (intro Cons.IH) (simp_all add: acc2_def)
  moreover have "mul_outer (a # as) bs i acc = mul_outer as bs (Suc i) acc2"
    by (simp add: m acc2_def)
  moreover have "length acc2 = length acc"
    by (simp add: acc2_def inner(3))
  ultimately show ?case
    using val by (simp add: power_add algebra_simps)
qed simp

lemma mul_limbs_val: "limbs_val (mul_limbs as bs) = limbs_val as * limbs_val bs" "length (mul_limbs as bs) = length as + length bs"
  using mul_outer_val [of 0 as bs "replicate (length as + length bs) 0"] by (simp_all add: mul_limbs_def)

text \<open>The byte form, least significant byte first, reads back.\<close>

lemma length_limbs_to_bytes [simp]: "length (limbs_to_bytes ls) = 8 * length ls"
  by (induction ls) (simp_all add: limbs_to_bytes_def)

lemma u64_from_le_bytes: "u64_from_le (u64_le w) = w"
  using limb_less(1) [of w] by (simp add: u64_from_le_def nat_of_le_bytes)

lemma limbs_of_to_bytes: "limbs_of_bytes (length ls) (limbs_to_bytes ls @ bs) = ls"
  by (induction ls) (simp_all add: limbs_to_bytes_def u64_from_le_bytes)

lemma length_limbs_of_bytes [simp]: "length (limbs_of_bytes n bs) = n"
  by (induction n arbitrary: bs) simp_all

lemma limbs_of_bytes_take: "8 * n \<le> m \<Longrightarrow> limbs_of_bytes n (take m bs) = limbs_of_bytes n bs"
  by (induction n arbitrary: m bs) (simp_all add: min_def drop_take)

lemma u64_le_from_le: "length bs = 8 \<Longrightarrow> u64_le (u64_from_le bs) = bs"
  using nat_of_le_less [of bs]
  by (intro nat_of_le_inject) (simp_all add: u64_from_le_def nat_of_le_bytes unsigned_of_nat take_bit_eq_mod)

lemma limbs_to_of_bytes: "length bs = 8 * n \<Longrightarrow> limbs_to_bytes (limbs_of_bytes n bs) = bs"
proof (induction n arbitrary: bs)
  case (Suc n)
  then have "limbs_to_bytes (limbs_of_bytes n (drop 8 bs)) = drop 8 bs" "length (take 8 bs) = 8"
    by simp_all
  then show ?case
    by (simp add: limbs_to_bytes_def u64_le_from_le)
qed (simp add: limbs_to_bytes_def)

end
