(* ===== verification/Field25519.thy ===== *)
theory Field25519
  imports Limbs
begin

text \<open>
  The two modular arithmetics of \<^verbatim>\<open>zk_range_proof.rs\<close>: field elements \<^verbatim>\<open>Fe\<close> modulo \<open>p = 2^255 - 19\<close> and scalars \<^verbatim>\<open>Sc\<close>
  modulo the group order \<open>l\<close>.  Both are newtypes of \<^verbatim>\<open>[u64; 4]\<close> and share the code of the comparison, the shift and the byte
  form.  The theorems give the residue each operation computes: the field sum and both products for every argument of 256
  bits, the subtractions and the scalar sum for reduced ones.
\<close>

unbundle bit_operations_syntax

datatype limbs4 = Limbs u64 u64 u64 u64

type_synonym Fe = limbs4
type_synonym Sc = limbs4

primrec limbs :: "limbs4 \<Rightarrow> u64 list" where
  "limbs (Limbs a b c d) = [a, b, c, d]"

fun of_limbs :: "u64 list \<Rightarrow> limbs4" where
  "of_limbs [a, b, c, d] = Limbs a b c d"
| "of_limbs ls = Limbs 0 0 0 0"

definition val :: "limbs4 \<Rightarrow> nat" where
  "val x = limbs_val (limbs x)"

section \<open>What both share\<close>

definition limbs_zero :: limbs4 where
  "limbs_zero = Limbs 0 0 0 0"

definition limbs_one :: limbs4 where
  "limbs_one = Limbs 1 0 0 0"

definition from_u64 :: "u64 \<Rightarrow> limbs4" where
  "from_u64 v = Limbs v 0 0 0"

definition is_zero :: "limbs4 \<Rightarrow> bool" where
  "is_zero x \<longleftrightarrow> limbs x = replicate 4 0"

definition ge :: "limbs4 \<Rightarrow> limbs4 \<Rightarrow> bool" where
  "ge x y = ge_limbs (limbs x) (limbs y)"

definition shr1 :: "limbs4 \<Rightarrow> limbs4" where
  "shr1 x = of_limbs (shr1_limbs (limbs x))"

definition low_bit :: "limbs4 \<Rightarrow> bool" where
  "low_bit x \<longleftrightarrow> limbs x ! 0 AND 1 = 1"

definition to_bytes :: "limbs4 \<Rightarrow> bytes" where
  "to_bytes x = limbs_to_bytes (limbs x)"

definition of_bytes :: "bytes \<Rightarrow> limbs4" where
  "of_bytes bs = of_limbs (limbs_of_bytes 4 bs)"

text \<open>The subtraction, which adds the modulus back after a borrow.\<close>

definition sub_modulus :: "limbs4 \<Rightarrow> limbs4 \<Rightarrow> limbs4 \<Rightarrow> limbs4" where
  "sub_modulus m x y =
     (let (res, borrow) = sub_limbs (limbs x) (limbs y) 0 in
      of_limbs (if 0 < borrow then fst (add_limbs res (limbs m) 0) else res))"

lemma limbs_of_limbs [simp]: "length ls = 4 \<Longrightarrow> limbs (of_limbs ls) = ls"
  by (cases ls rule: of_limbs.cases) simp_all

lemma of_limbs_limbs [simp]: "of_limbs (limbs x) = x"
  by (cases x) simp

lemma length_limbs [simp]: "length (limbs x) = 4"
  by (cases x) simp

lemma val_of_limbs: "length ls = 4 \<Longrightarrow> val (of_limbs ls) = limbs_val ls"
  by (simp add: val_def)

lemma val_less: "val x < 2 ^ 256"
  using limbs_val_bound [of "limbs x"] by (simp add: val_def)

lemma val_inject: "val x = val y \<longleftrightarrow> x = y"
  using limbs_val_inject [of "limbs x" "limbs y"] by (metis length_limbs of_limbs_limbs val_def)

lemma is_zero_val: "is_zero x \<longleftrightarrow> val x = 0"
  unfolding is_zero_def val_def limbs_val_0 by (cases x) (auto simp: numeral_eq_Suc)

lemma ge_val: "ge x y \<longleftrightarrow> val y \<le> val x"
  by (simp add: ge_def val_def ge_limbs_val)

lemma shr1_val: "val (shr1 x) = val x div 2"
  by (simp add: shr1_def val_of_limbs shr1_limbs_val) (simp add: val_def)

lemma low_bit_val: "low_bit x \<longleftrightarrow> odd (val x)"
proof (cases x)
  case (Limbs a b c d)
  have "low_bit x \<longleftrightarrow> odd a"
    by (simp add: Limbs low_bit_def and_one_eq odd_iff_mod_2_eq_one)
  then show ?thesis
    by (simp add: Limbs val_def even_of_nat [where ?'a = "64 word", symmetric] del: even_of_nat)
qed

lemma small_val [simp]: "val limbs_zero = 0" "val limbs_one = 1" "val (from_u64 v) = unat v"
  by (simp_all add: limbs_zero_def limbs_one_def from_u64_def val_def)

lemma of_to_bytes: "of_bytes (to_bytes x @ bs) = x" "length (to_bytes x) = 32"
  using limbs_of_to_bytes [of "limbs x" bs] by (simp_all add: of_bytes_def to_bytes_def)

lemma sub_modulus_val:
  assumes "val y \<le> val x + val m"
  shows "val (sub_modulus m x y) = (if val y \<le> val x then val x - val y else val x + val m - val y)"
proof -
  obtain res borrow where s: "sub_limbs (limbs x) (limbs y) 0 = (res, borrow)"
    by (cases "sub_limbs (limbs x) (limbs y) 0")
  obtain out carry where a: "add_limbs res (limbs m) 0 = (out, carry)"
    by (cases "add_limbs res (limbs m) 0")
  have diff: "limbs_val res + val y = val x + 2 ^ 256 * unat borrow" "length res = 4" "unat borrow \<le> 1"
    using sub_limbs_val [OF _ _ s] by (simp_all add: val_def)
  have added: "limbs_val out + 2 ^ 256 * unat carry = limbs_val res + val m" "length out = 4" "unat carry \<le> 1"
    using add_limbs_val [OF _ _ a] diff(2) by (simp_all add: val_def)
  have bound: "limbs_val res < 2 ^ 256" "limbs_val out < 2 ^ 256"
    using limbs_val_bound [of res] limbs_val_bound [of out] diff(2) added(2) by simp_all
  have pos: "0 < borrow \<longleftrightarrow> unat borrow = 1"
    using diff(3) by (auto simp: word_less_nat_alt)
  have "val (sub_modulus m x y) = (if unat borrow = 1 then limbs_val out else limbs_val res)"
    using diff(2) added(2) by (simp add: sub_modulus_def s a val_of_limbs pos)
  moreover have "unat borrow = 1 \<longleftrightarrow> \<not> val y \<le> val x"
    using diff(1,3) bound(1) val_less [of x] val_less [of y] by (cases "unat borrow") auto
  moreover have "unat borrow = 1 \<Longrightarrow> unat carry = 1"
    using diff(1) added(1,3) bound(2) assms val_less [of y] by (cases "unat carry") auto
  ultimately show ?thesis
    using diff(1,3) added(1) by (cases "unat borrow") auto
qed

section \<open>The field\<close>

definition fe_P :: Fe where
  "fe_P = Limbs 0xffffffffffffffed 0xffffffffffffffff 0xffffffffffffffff 0x7fffffffffffffff"

definition p25519 :: nat where
  "p25519 = 2 ^ 255 - 19"

definition fe_sub :: "Fe \<Rightarrow> Fe \<Rightarrow> Fe" where
  "fe_sub x y = sub_modulus fe_P x y"

definition fe_neg :: "Fe \<Rightarrow> Fe" where
  "fe_neg x = fe_sub limbs_zero x"

text \<open>What sums and products do with the part at and above bit 255: it comes back in multiplied by 19.  The additions of
  \<^verbatim>\<open>h\<close> stay within their width, as the carry is small.\<close>

definition fe_fold :: "u64 list \<Rightarrow> u128 \<Rightarrow> u64 list" where
  "fe_fold res carry =
     (let h = drop_bit 63 (res ! 3) + ucast (push_bit 1 carry); res = res[3 := res ! 3 AND 0x7fffffffffffffff] in
      add_carry res (ucast h * 19))"

definition fe_add :: "Fe \<Rightarrow> Fe \<Rightarrow> Fe" where
  "fe_add x y =
     (let (res, carry) = add_limbs (limbs x) (limbs y) 0; out = of_limbs (fe_fold res carry) in
      if ge out fe_P then fe_sub out fe_P else out)"

text \<open>The loop \<^verbatim>\<open>term = h[i] * 19 + carry_mul + res[i]\<close>.\<close>

fun mul19_limbs :: "u64 list \<Rightarrow> u64 list \<Rightarrow> u128 \<Rightarrow> u64 list \<times> u128" where
  "mul19_limbs (h # hs) (r # rs) carry =
     (let total = ucast h * 19 + carry + ucast r; (rest, out) = mul19_limbs hs rs (drop_bit 64 total) in (ucast total # rest, out))"
| "mul19_limbs hs rs carry = ([], carry)"

lemma p25519_val [simp]: "val fe_P = p25519"
  by (simp add: fe_P_def val_def p25519_def)

lemma p25519_bounds: "2 ^ 254 < p25519" "p25519 < 2 ^ 255" "0 < p25519" "p25519 + 19 = 2 ^ 255"
  by (simp_all add: p25519_def)

function fe_reduce :: "Fe \<Rightarrow> Fe" where
  "fe_reduce out = (if ge out fe_P then fe_reduce (fe_sub out fe_P) else out)"
  by pat_completeness auto
termination
  by (relation "measure val") (use p25519_bounds(3) in \<open>auto simp: ge_val fe_sub_def sub_modulus_val\<close>)

declare fe_reduce.simps [simp del]

definition fe_mul :: "Fe \<Rightarrow> Fe \<Rightarrow> Fe" where
  "fe_mul x y =
     (let p = mul_limbs (limbs x) (limbs y);
          l = [p ! 0, p ! 1, p ! 2, p ! 3 AND 0x7fffffffffffffff];
          h = [drop_bit 63 (p ! 3) OR push_bit 1 (p ! 4), drop_bit 63 (p ! 4) OR push_bit 1 (p ! 5),
               drop_bit 63 (p ! 5) OR push_bit 1 (p ! 6), drop_bit 63 (p ! 6) OR push_bit 1 (p ! 7)];
          h4 = drop_bit 63 (p ! 7);
          (res, carry_mul) = mul19_limbs h l 0;
          carry_mul2 = ucast h4 * 19 + carry_mul
      in fe_reduce (of_limbs (fe_fold res carry_mul2)))"

lemma fe_reduce_val: "val (fe_reduce x) = val x mod p25519"
proof (induction x rule: fe_reduce.induct)
  case (1 x)
  show ?case
  proof (cases "p25519 \<le> val x")
    case True
    then have "val (fe_sub x fe_P) = val x - p25519"
      by (simp add: fe_sub_def sub_modulus_val)
    then show ?thesis
      using True 1 by (simp add: fe_reduce.simps [of x] ge_val le_mod_geq)
  qed (simp add: fe_reduce.simps [of x] ge_val)
qed

lemma unat_top_split: "unat (w AND 0x7fffffffffffffff :: u64) = unat w mod 2 ^ 63" "unat (drop_bit 63 w) = unat w div 2 ^ 63"
proof -
  have "w AND 0x7fffffffffffffff = take_bit 63 w"
    by (simp add: take_bit_eq_mask mask_eq_exp_minus_1)
  then have "unat (w AND 0x7fffffffffffffff) = take_bit 63 (unat w)"
    by (simp only: unsigned_take_bit_eq)
  then show "unat (w AND 0x7fffffffffffffff) = unat w mod 2 ^ 63"
    by (simp only: take_bit_eq_mod)
  show "unat (drop_bit 63 w) = unat w div 2 ^ 63"
    using limb_less(1) [of w] by (simp only: unsigned_drop_bit_eq) (simp add: drop_bit_eq_div take_bit_eq_mod)
qed

text \<open>The top limb of a number splits it at bit 255.\<close>

lemma split_at_255:
  assumes "limbs_val ls < 2 ^ 192" "length ls = 3"
  shows "limbs_val (ls @ [d]) = limbs_val (ls @ [d AND 0x7fffffffffffffff]) + 2 ^ 255 * unat (drop_bit 63 d)"
    "limbs_val (ls @ [d AND 0x7fffffffffffffff]) < 2 ^ 255"
proof -
  have "2 ^ 192 * unat d = 2 ^ 192 * (unat d mod 2 ^ 63) + 2 ^ 255 * (unat d div 2 ^ 63)"
    using arg_cong [OF mod_mult_div_eq [of "unat d" "2 ^ 63"], of "(*) (2 ^ 192)"] by (simp only: distrib_left) simp
  then show "limbs_val (ls @ [d]) = limbs_val (ls @ [d AND 0x7fffffffffffffff]) + 2 ^ 255 * unat (drop_bit 63 d)"
    using assms(2) by (simp only: limbs_val_append unat_top_split) (simp add: unat_top_split)
  have "2 ^ 192 * (unat d mod 2 ^ 63) \<le> 2 ^ 192 * (2 ^ 63 - 1)"
    by (rule mult_le_mono2) simp
  then show "limbs_val (ls @ [d AND 0x7fffffffffffffff]) < 2 ^ 255"
    using assms by (simp add: limbs_val_append unat_top_split)
qed

lemma unat_times19:
  assumes "unat c < 2 ^ 64"
  shows "unat (ucast (h :: u64) * 19 + c + ucast (r :: u64) :: u128) = 19 * unat h + unat c + unat r"
proof -
  have "unat (ucast h * ucast (19 :: u64) + ucast r + c :: u128) = 19 * unat h + unat c + unat r"
    using unat_product [OF assms, of h 19 r] by simp
  moreover have "ucast h * 19 + c + ucast r = ucast h * ucast (19 :: u64) + ucast r + c"
    by simp
  ultimately show ?thesis
    by (simp only:)
qed

lemma unat_fold_carry:
  fixes carry :: u128 and d :: u64
  assumes "unat carry \<le> 100"
  shows "unat (ucast (drop_bit 63 d + ucast (push_bit 1 carry) :: u64) * 19 :: u128) = 19 * (unat (drop_bit 63 d) + 2 * unat carry)"
proof -
  have "unat (push_bit 1 carry) = 2 * unat carry"
    using assms by (simp add: push_bit_eq_mult unat_word_ariths)
  then have "unat (ucast (push_bit 1 carry) :: u64) = 2 * unat carry"
    using assms by (simp add: unat_low)
  moreover have "unat (drop_bit 63 d) \<le> 1"
    unfolding unat_top_split(2) using limb_less(1) [of d] by simp
  ultimately have "unat (drop_bit 63 d + ucast (push_bit 1 carry) :: u64) = unat (drop_bit 63 d) + 2 * unat carry"
    using assms by (simp only: unat_word_ariths) simp
  then show ?thesis
    using unat_times19 [of 0 "drop_bit 63 d + ucast (push_bit 1 carry)" 0] by simp
qed

lemma fe_fold_val:
  assumes "length res = 4" "unat carry \<le> 100"
  defines "n \<equiv> limbs_val res + 2 ^ 256 * unat carry"
  shows "limbs_val (fe_fold res carry) = n mod 2 ^ 255 + 19 * (n div 2 ^ 255)" "length (fe_fold res carry) = 4"
proof -
  show "length (fe_fold res carry) = 4"
    using assms(1) by (simp add: fe_fold_def Let_def)
  obtain ls d where r: "res = ls @ [d]" "length ls = 3"
    using assms(1) by (cases res rule: rev_cases) auto
  define m where "m = limbs_val (ls @ [d AND 0x7fffffffffffffff])"
  define h where "h = unat (drop_bit 63 d) + 2 * unat carry"
  note split = split_at_255 [of ls d]
  have low: "limbs_val ls < 2 ^ 192"
    using limbs_val_bound [of ls] r(2) by simp
  have m: "m < 2 ^ 255"
    using split(2) low r(2) by (simp add: m_def)
  have "n = m + 2 ^ 255 * h"
    unfolding n_def r(1) h_def m_def split(1) [OF low r(2)] by simp
  then have n: "n mod 2 ^ 255 = m" "n div 2 ^ 255 = h"
    using m by simp_all
  have h: "h \<le> 201"
    unfolding h_def unat_top_split(2) using limb_less(1) [of d] assms(2) by simp
  have "fe_fold res carry = add_carry (ls @ [d AND 0x7fffffffffffffff]) (ucast (drop_bit 63 d + ucast (push_bit 1 carry) :: u64) * 19)"
    using r by (simp add: fe_fold_def Let_def nth_append list_update_append)
  then have "limbs_val (fe_fold res carry) = (m + 19 * h) mod 2 ^ 256"
    using h r(2) unat_fold_carry [OF assms(2), of d] by (simp add: add_carry_val m_def h_def)
  then show "limbs_val (fe_fold res carry) = n mod 2 ^ 255 + 19 * (n div 2 ^ 255)"
    unfolding n using m h by simp
qed

lemma fold_cong: "(n mod 2 ^ 255 + 19 * (n div 2 ^ 255)) mod p25519 = n mod p25519"
proof -
  have "n = n mod 2 ^ 255 + 2 ^ 255 * (n div 2 ^ 255)"
    by simp
  also have "\<dots> = n mod 2 ^ 255 + 19 * (n div 2 ^ 255) + p25519 * (n div 2 ^ 255)"
    by (simp only: p25519_bounds(4) [symmetric] distrib_right)
  finally show ?thesis
    by (metis mod_mult_self2)
qed

lemma fe_add_val: "val (fe_add x y) = (val x + val y) mod p25519"
proof -
  obtain res carry where a: "add_limbs (limbs x) (limbs y) 0 = (res, carry)"
    by (cases "add_limbs (limbs x) (limbs y) 0")
  have total: "limbs_val res + 2 ^ 256 * unat carry = val x + val y" "length res = 4" "unat carry \<le> 1"
    using add_limbs_val [OF _ _ a] by (simp_all add: val_def)
  let ?n = "val x + val y"
  define out where "out = of_limbs (fe_fold res carry)"
  have out: "val out = ?n mod 2 ^ 255 + 19 * (?n div 2 ^ 255)"
    using fe_fold_val [of res carry] total by (simp add: out_def val_of_limbs)
  have "?n div 2 ^ 255 < 4"
    using val_less [of x] val_less [of y] by (simp add: less_mult_imp_div_less)
  then have small: "val out < 2 * p25519"
    unfolding out using p25519_bounds by (simp add: p25519_def)
  have "fe_add x y = (if ge out fe_P then fe_sub out fe_P else out)"
    by (simp add: fe_add_def a out_def)
  then have "val (fe_add x y) = val out mod p25519"
    using small by (simp add: ge_val fe_sub_def sub_modulus_val mod_if)
  then show ?thesis
    unfolding out fold_cong .
qed

lemma mul19_limbs_val:
  assumes "length hs = length rs" "unat c \<le> 19" "mul19_limbs hs rs c = (out, c')"
  shows "limbs_val out + 2 ^ (64 * length rs) * unat c' = 19 * limbs_val hs + limbs_val rs + unat c"
    "length out = length rs" "unat c' \<le> 19"
proof -
  have "limbs_val out + 2 ^ (64 * length rs) * unat c' = 19 * limbs_val hs + limbs_val rs + unat c \<and>
      length out = length rs \<and> unat c' \<le> 19"
    using assms
  proof (induction hs rs arbitrary: c out rule: list_induct2)
    case (Cons h hs r rs)
    define t :: u128 where "t = ucast h * 19 + c + ucast r"
    have t: "unat t = 19 * unat h + unat c + unat r"
      unfolding t_def by (rule unat_times19) (use Cons.prems(1) in simp)
    obtain rest where o: "mul19_limbs hs rs (drop_bit 64 t) = (rest, c')" "out = ucast t # rest"
      using Cons.prems(2) by (auto simp: t_def Let_def split: prod.splits)
    have "unat t div 2 ^ 64 < 20"
      unfolding t using limb_less(1) [of h] limb_less(1) [of r] Cons.prems(1) by (intro less_mult_imp_div_less) simp
    then have "unat (drop_bit 64 t) \<le> 19"
      unfolding unat_high by simp
    note ih = Cons.IH [OF this o(1)]
    have "unat t mod 2 ^ 64 + 2 ^ 64 * limbs_val rest + (2 ^ 64 * 2 ^ (64 * length rs)) * unat c'
        = unat t + 2 ^ 64 * (19 * limbs_val hs + limbs_val rs)"
      by (rule carry_step) (use ih in \<open>simp add: unat_high\<close>)
    moreover have "2 ^ (64 * length (r # rs)) = (2 ^ 64 * 2 ^ (64 * length rs) :: nat)"
      by (simp add: power_add)
    ultimately show ?case
      using ih t unfolding o(2) by (simp add: unat_low)
  qed simp
  then show "limbs_val out + 2 ^ (64 * length rs) * unat c' = 19 * limbs_val hs + limbs_val rs + unat c"
    "length out = length rs" "unat c' \<le> 19" by simp_all
qed

text \<open>The eight limbs of a product split at bit 255.\<close>

lemma split_product:
  fixes p0 p1 p2 p3 p4 p5 p6 p7 :: u64
  defines "l \<equiv> [p0, p1, p2, p3 AND 0x7fffffffffffffff]"
    and "h \<equiv> [drop_bit 63 p3 OR push_bit 1 p4, drop_bit 63 p4 OR push_bit 1 p5, drop_bit 63 p5 OR push_bit 1 p6, drop_bit 63 p6 OR push_bit 1 p7]"
  shows "limbs_val [p0, p1, p2, p3, p4, p5, p6, p7] = limbs_val l + 2 ^ 255 * (limbs_val h + 2 ^ 256 * unat (drop_bit 63 p7))"
    "limbs_val l < 2 ^ 255"
proof -
  have top: "unat (drop_bit 63 w) \<le> 1" for w :: u64
    unfolding unat_top_split(2) using limb_less(1) [of w] by simp
  have "shl1_limbs [p4, p5, p6, p7] (drop_bit 63 p3) = (h, drop_bit 63 p7)"
    by (simp add: h_def or.commute)
  from shl1_limbs_val(1) [OF top this]
  have h: "limbs_val h + 2 ^ 256 * unat (drop_bit 63 p7) = 2 * limbs_val [p4, p5, p6, p7] + unat (drop_bit 63 p3)"
    by simp
  have three: "limbs_val [p0, p1, p2] < 2 ^ 192" "length [p0, p1, p2] = 3"
    using limbs_val_bound [of "[p0, p1, p2]"] by simp_all
  have low: "limbs_val [p0, p1, p2, p3] = limbs_val l + 2 ^ 255 * unat (drop_bit 63 p3)" "limbs_val l < 2 ^ 255"
    using split_at_255 [OF three, of p3] by (simp_all only: l_def append_Cons append_Nil)
  show "limbs_val l < 2 ^ 255" by (rule low(2))
  have "limbs_val [p0, p1, p2, p3, p4, p5, p6, p7] = limbs_val [p0, p1, p2, p3] + 2 ^ 256 * limbs_val [p4, p5, p6, p7]"
    using limbs_val_append [of "[p0, p1, p2, p3]" "[p4, p5, p6, p7]"] by (simp only: append_Cons append_Nil) simp
  also have "\<dots> = limbs_val l + 2 ^ 255 * (2 * limbs_val [p4, p5, p6, p7] + unat (drop_bit 63 p3))"
    unfolding low(1) by simp
  finally show "limbs_val [p0, p1, p2, p3, p4, p5, p6, p7] = limbs_val l + 2 ^ 255 * (limbs_val h + 2 ^ 256 * unat (drop_bit 63 p7))"
    unfolding h .
qed

lemma eight_limbs:
  assumes "length xs = 8"
  obtains p0 p1 p2 p3 p4 p5 p6 p7 where "xs = [p0, p1, p2, p3, p4, p5, p6, p7]"
  using assms by (auto simp: numeral_eq_Suc length_Suc_conv)

lemma fe_mul_limbs:
  assumes "mul_limbs (limbs x) (limbs y) = [p0, p1, p2, p3, p4, p5, p6, p7]"
    "mul19_limbs [drop_bit 63 p3 OR push_bit 1 p4, drop_bit 63 p4 OR push_bit 1 p5, drop_bit 63 p5 OR push_bit 1 p6,
       drop_bit 63 p6 OR push_bit 1 p7] [p0, p1, p2, p3 AND 0x7fffffffffffffff] 0 = (res, c)"
  shows "fe_mul x y = fe_reduce (of_limbs (fe_fold res (ucast (drop_bit 63 p7) * 19 + c)))"
proof -
  let ?p = "[p0, p1, p2, p3, p4, p5, p6, p7]"
  have "?p ! 0 = p0" "?p ! 1 = p1" "?p ! 2 = p2" "?p ! 3 = p3" "?p ! 4 = p4" "?p ! 5 = p5" "?p ! 6 = p6" "?p ! 7 = p7"
    by simp_all
  then show ?thesis
    by (simp only: fe_mul_def assms Let_def prod.case)
qed

lemma fe_mul_val: "val (fe_mul x y) = (val x * val y) mod p25519"
proof -
  obtain p0 p1 p2 p3 p4 p5 p6 p7 where p: "mul_limbs (limbs x) (limbs y) = [p0, p1, p2, p3, p4, p5, p6, p7]"
    by (rule eight_limbs [of "mul_limbs (limbs x) (limbs y)"]) (simp_all add: mul_limbs_val)
  define l where "l = [p0, p1, p2, p3 AND 0x7fffffffffffffff]"
  define h where "h = [drop_bit 63 p3 OR push_bit 1 p4, drop_bit 63 p4 OR push_bit 1 p5, drop_bit 63 p5 OR push_bit 1 p6,
    drop_bit 63 p6 OR push_bit 1 p7]"
  obtain res c where m: "mul19_limbs h l 0 = (res, c)"
    by (cases "mul19_limbs h l 0")
  define c2 :: u128 where "c2 = ucast (drop_bit 63 p7) * 19 + c"
  define n where "n = limbs_val l + 19 * (limbs_val h + 2 ^ 256 * unat (drop_bit 63 p7))"
  have len: "length h = 4" "length l = 4"
    by (simp_all add: h_def l_def)
  have res: "limbs_val res + 2 ^ 256 * unat c = 19 * limbs_val h + limbs_val l" "length res = 4" "unat c \<le> 19"
    using mul19_limbs_val [OF _ _ m] len by simp_all
  have top: "unat (drop_bit 63 p7) \<le> 1"
    unfolding unat_top_split(2) using limb_less(1) [of p7] by simp
  have c2: "unat c2 = 19 * unat (drop_bit 63 p7) + unat c"
    unfolding c2_def using unat_times19 [of c "drop_bit 63 p7" 0] res(3) by simp
  have sum: "limbs_val res + 2 ^ 256 * unat c2 = n"
    unfolding c2 n_def using res(1) by simp
  have "fe_mul x y = fe_reduce (of_limbs (fe_fold res c2))"
    unfolding c2_def by (rule fe_mul_limbs [OF p m [unfolded h_def l_def]])
  moreover have fold: "limbs_val (fe_fold res c2) = n mod 2 ^ 255 + 19 * (n div 2 ^ 255)" "length (fe_fold res c2) = 4"
    using fe_fold_val [of res c2] res(2,3) top c2 unfolding sum by simp_all
  ultimately have "val (fe_mul x y) = n mod p25519"
    by (simp only: fe_reduce_val val_of_limbs fold_cong)
  moreover have "val x * val y = n + p25519 * (limbs_val h + 2 ^ 256 * unat (drop_bit 63 p7))"
  proof -
    have "val x * val y = limbs_val [p0, p1, p2, p3, p4, p5, p6, p7]"
      by (simp only: val_def p [symmetric] mul_limbs_val)
    also have "\<dots> = limbs_val l + 2 ^ 255 * (limbs_val h + 2 ^ 256 * unat (drop_bit 63 p7))"
      unfolding l_def h_def by (rule split_product(1))
    finally show ?thesis
      unfolding n_def p25519_bounds(4) [symmetric] by (simp only: distrib_right add.assoc add.left_commute add.commute)
  qed
  ultimately show ?thesis
    by simp
qed

text \<open>A reduced field element is determined by its residue, and every sum and product is reduced.\<close>

lemma fe_results_reduced: "val (fe_add x y) < p25519" "val (fe_mul x y) < p25519"
  using p25519_bounds(3) by (simp_all add: fe_add_val fe_mul_val)

lemma fe_sub_val:
  assumes "val x < p25519" "val y < p25519"
  shows "val (fe_sub x y) = (val x + (p25519 - val y)) mod p25519"
  using assms by (auto simp: fe_sub_def sub_modulus_val mod_if)

lemma fe_sub_int:
  assumes "val x < p25519" "val y < p25519"
  shows "int (val (fe_sub x y)) = (int (val x) - int (val y)) mod int p25519"
proof -
  have "int (val x + (p25519 - val y)) = int (val x) - int (val y) + int p25519"
    using assms by simp
  then show ?thesis
    using fe_sub_val [OF assms] by (metis mod_add_self2 of_nat_mod)
qed

section \<open>Square and multiply\<close>

text \<open>The loop that \<^verbatim>\<open>Fe::pow\<close> and \<^verbatim>\<open>Sc::pow\<close> run with their products and \<^verbatim>\<open>Pt::mul\<close> with the addition of points.  It ends
  because each round halves the exponent.\<close>

function ladder :: "('a \<Rightarrow> 'a \<Rightarrow> 'a) \<Rightarrow> 'a \<Rightarrow> 'a \<Rightarrow> limbs4 \<Rightarrow> 'a" where
  "ladder f res base e =
     (if is_zero e then res else ladder f (if low_bit e then f res base else res) (f base base) (shr1 e))"
  by pat_completeness auto
termination
  by (relation "measure (\<lambda>(f, res, base, e). val e)") (simp_all add: is_zero_val shr1_val)

declare ladder.simps [simp del]

locale residue_ring =
  fixes mul_of :: "limbs4 \<Rightarrow> limbs4 \<Rightarrow> limbs4" and m :: nat
  assumes val_mul: "val (mul_of x y) = val x * val y mod m" and one_less: "1 < m"
begin

lemma mul_commute: "mul_of x y = mul_of y x"
  by (simp add: val_inject [symmetric] val_mul mult.commute)

lemma mul_assoc: "mul_of (mul_of x y) z = mul_of x (mul_of y z)"
  by (simp add: val_inject [symmetric] val_mul mod_simps mult.assoc)

lemma mul_reduced: "val (mul_of x y) < m"
  using one_less by (simp add: val_mul)

lemma ladder_val: "val res < m \<Longrightarrow> val (ladder mul_of res base e) = val res * val base ^ val e mod m"
proof (induction "val e" arbitrary: e res base rule: less_induct)
  case less
  show ?case
  proof (cases "val e = 0")
    case False
    define h where "h = val e div 2"
    have e: "val e = 2 * h + (if low_bit e then 1 else 0)"
      by (simp add: low_bit_val h_def)
    have "val (ladder mul_of res base e) = val (if low_bit e then mul_of res base else res) * val (mul_of base base) ^ h mod m"
      using less False mul_reduced by (simp add: ladder.simps [of _ res] is_zero_val shr1_val h_def)
    also have "\<dots> = val (if low_bit e then mul_of res base else res) * (val base * val base) ^ h mod m"
      unfolding val_mul [of base base] by (metis mod_mult_right_eq power_mod)
    also have "\<dots> = (if low_bit e then val res * val base else val res) * (val base * val base) ^ h mod m"
      by (simp add: val_mul mod_simps)
    also have "\<dots> = val res * val base ^ val e mod m"
      unfolding e by (simp add: power_add power_mult power2_eq_square power_mult_distrib ac_simps)
    finally show ?thesis .
  qed (use less in \<open>simp add: ladder.simps [of _ res] is_zero_val\<close>)
qed

lemma pow_val: "val (ladder mul_of limbs_one x e) = val x ^ val e mod m"
  using ladder_val [of limbs_one x e] one_less by simp

end

definition fe_pow :: "Fe \<Rightarrow> Fe \<Rightarrow> Fe" where
  "fe_pow x e = ladder fe_mul limbs_one x e"

definition fe_invert :: "Fe \<Rightarrow> Fe" where
  "fe_invert x = fe_pow x (Limbs 0xffffffffffffffeb 0xffffffffffffffff 0xffffffffffffffff 0x7fffffffffffffff)"

interpretation fe_ring: residue_ring fe_mul p25519
  by unfold_locales (simp_all add: fe_mul_val p25519_def)

lemma fe_invert_val: "val (fe_invert x) = val x ^ (p25519 - 2) mod p25519"
proof -
  have "val (Limbs 0xffffffffffffffeb 0xffffffffffffffff 0xffffffffffffffff 0x7fffffffffffffff) = p25519 - 2"
    by (simp add: val_def p25519_def)
  then show ?thesis
    by (simp add: fe_invert_def fe_pow_def fe_ring.pow_val)
qed

section \<open>The scalars\<close>

definition sc_L :: Sc where
  "sc_L = Limbs 0x5812631a5cf5d3ed 0x14def9dea2f79cd6 0 0x1000000000000000"

definition sc_DIFF :: Sc where
  "sc_DIFF = Limbs 0xa7ed9ce5a30a2c13 0xeb2106215d086329 0xffffffffffffffff 0xefffffffffffffff"

definition l25519 :: nat where
  "l25519 = 2 ^ 252 + 27742317777372353535851937790883648493"

definition sc_sub :: "Sc \<Rightarrow> Sc \<Rightarrow> Sc" where
  "sc_sub x y = sub_modulus sc_L x y"

definition sc_neg :: "Sc \<Rightarrow> Sc" where
  "sc_neg x = sc_sub limbs_zero x"

definition sc_add :: "Sc \<Rightarrow> Sc \<Rightarrow> Sc" where
  "sc_add x y =
     (let (res, carry) = add_limbs (limbs x) (limbs y) 0; out = of_limbs res in
      if 0 < carry \<or> ge out sc_L then sc_sub out sc_L else out)"

text \<open>One round of the reduction of a product: shift the remainder left by one, bring in the next bit, reduce.\<close>

definition sc_mul_step :: "Sc \<Rightarrow> u64 \<Rightarrow> Sc" where
  "sc_mul_step r b =
     (let (r, carry_r) = shl1_limbs (limbs r) 0; r_sc = of_limbs (r[0 := r ! 0 OR b]) in
      if 0 < carry_r then sc_add r_sc sc_DIFF else if ge r_sc sc_L then sc_sub r_sc sc_L else r_sc)"

definition sc_mul :: "Sc \<Rightarrow> Sc \<Rightarrow> Sc" where
  "sc_mul x y =
     (let p = mul_limbs (limbs x) (limbs y) in
      foldl (\<lambda>r i. sc_mul_step r (drop_bit (i mod 64) (p ! (i div 64)) AND 1)) limbs_zero (rev [0..<512]))"

definition sc_pow :: "Sc \<Rightarrow> Sc \<Rightarrow> Sc" where
  "sc_pow x e = ladder sc_mul limbs_one x e"

definition sc_invert :: "Sc \<Rightarrow> Sc" where
  "sc_invert x = sc_pow x (sc_sub sc_L (from_u64 2))"

lemma l25519_val [simp]: "val sc_L = l25519"
  by (simp add: sc_L_def val_def l25519_def)

lemma l25519_bounds: "2 ^ 252 < l25519" "l25519 < 2 ^ 253" "2 < l25519"
  by (simp_all add: l25519_def)

lemma sc_DIFF_val: "val sc_DIFF + l25519 = 2 ^ 256"
  by (simp add: sc_DIFF_def val_def l25519_def)

lemma sc_sub_val:
  assumes "val x < l25519" "val y < l25519"
  shows "val (sc_sub x y) = (val x + (l25519 - val y)) mod l25519"
  using assms by (auto simp: sc_sub_def sub_modulus_val mod_if)

lemma sc_sub_int:
  assumes "val x < l25519" "val y < l25519"
  shows "int (val (sc_sub x y)) = (int (val x) - int (val y)) mod int l25519"
proof -
  have "int (val x + (l25519 - val y)) = int (val x) - int (val y) + int l25519"
    using assms by simp
  then show ?thesis
    using sc_sub_val [OF assms] by (metis mod_add_self2 of_nat_mod)
qed

lemma sc_add_val:
  assumes "val x < l25519" "val y < l25519"
  shows "val (sc_add x y) = (val x + val y) mod l25519"
proof -
  obtain res carry where a: "add_limbs (limbs x) (limbs y) 0 = (res, carry)"
    by (cases "add_limbs (limbs x) (limbs y) 0")
  have total: "limbs_val res + 2 ^ 256 * unat carry = val x + val y" "length res = 4" "unat carry \<le> 1"
    using add_limbs_val [OF _ _ a] by (simp_all add: val_def)
  have "unat carry = 0"
    using total(1,3) assms l25519_bounds(2) by (cases "unat carry") simp_all
  then have "carry = 0" "val (of_limbs res) = val x + val y"
    using total(1,2) by (simp_all add: unat_eq_0 val_of_limbs)
  then show ?thesis
    using assms by (auto simp: sc_add_def a ge_val sc_sub_def sub_modulus_val mod_if)
qed

lemma sc_mul_step_val:
  assumes "val r < l25519" "unat b \<le> 1"
  shows "val (sc_mul_step r b) = (2 * val r + unat b) mod l25519"
proof -
  obtain a ls where r: "limbs r = a # ls" "length ls = 3"
    by (cases r) simp
  obtain rs out where s: "shl1_limbs (limbs r) b = (rs, out)"
    by (cases "shl1_limbs (limbs r) b")
  have v: "limbs_val rs + 2 ^ 256 * unat out = 2 * val r + unat b" "length rs = 4" "unat out \<le> 1"
    using shl1_limbs_val [OF assms(2) s] by (simp_all add: val_def)
  have "unat out = 0"
    using v(1,3) assms l25519_bounds(2) by (cases "unat out") simp_all
  then have out: "out = 0" "val (of_limbs rs) = 2 * val r + unat b"
    using v by (simp_all add: unat_eq_0 val_of_limbs)
  have "(let (r, carry_r) = shl1_limbs (limbs r) 0 in (r[0 := r ! 0 OR b], carry_r)) = (rs, out)"
    using s unfolding r(1) by (auto split: prod.splits)
  then have "sc_mul_step r b = (if ge (of_limbs rs) sc_L then sc_sub (of_limbs rs) sc_L else of_limbs rs)"
    using out(1) by (auto simp: sc_mul_step_def split: prod.splits)
  then show ?thesis
    using assms out(2) by (auto simp: ge_val sc_sub_def sub_modulus_val mod_if)
qed

text \<open>The bit that round \<open>i\<close> reads is bit \<open>i\<close> of the product.\<close>

lemma limb_bit:
  "i < 64 * length ls \<Longrightarrow> unat (drop_bit (i mod 64) (ls ! (i div 64)) AND 1) = limbs_val ls div 2 ^ i mod 2"
proof (induction ls arbitrary: i)
  case (Cons l ls)
  have bit: "unat (drop_bit k w AND 1) = unat w div 2 ^ k mod 2" for w :: u64 and k
    using limb_less(1) [of w]
    by (simp only: and_one_eq unat_word_ariths unsigned_drop_bit_eq) (simp add: drop_bit_eq_div take_bit_eq_mod)
  show ?case
  proof (cases "i < 64")
    case True
    then have "(2 :: nat) ^ 64 = 2 ^ i * (2 * 2 ^ (63 - i))"
      by (simp only: power_Suc [symmetric] power_add [symmetric]) simp
    then have "limbs_val (l # ls) div 2 ^ i = unat l div 2 ^ i + 2 * (2 ^ (63 - i) * limbs_val ls)"
      by (simp only: limbs_val.simps mult.assoc) simp
    then show ?thesis
      using True bit [of i l] by simp
  next
    case False
    then obtain j where i: "i = 64 + j"
      using le_Suc_ex by (metis not_less)
    have "limbs_val (l # ls) div 2 ^ i = limbs_val ls div 2 ^ j"
      using limb_less(1) [of l] unfolding i power_add by (simp add: div_mult2_eq)
    moreover have "i div 64 = Suc (j div 64)" "i mod 64 = j mod 64"
      by (simp_all add: i)
    ultimately show ?thesis
      using Cons.IH [of j] Cons.prems i by simp
  qed
qed simp

lemma sc_mul_val: "val (sc_mul x y) = val x * val y mod l25519"
proof -
  define p where "p = mul_limbs (limbs x) (limbs y)"
  let ?f = "\<lambda>r i. sc_mul_step r (drop_bit (i mod 64) (p ! (i div 64)) AND 1)"
  have p: "length p = 8" "limbs_val p = val x * val y"
    by (simp_all add: p_def mul_limbs_val val_def)
  have "val (foldl ?f limbs_zero (rev [0..<512])) = limbs_val p div 2 ^ 0 mod l25519"
  proof (rule inc_induct [of 0 512])
    show "val (foldl ?f limbs_zero (rev [512..<512])) = limbs_val p div 2 ^ 512 mod l25519"
      using limbs_val_bound [of p] p(1) by simp
  next
    fix n :: nat
    let ?r = "foldl ?f limbs_zero (rev [Suc n..<512])" and ?b = "drop_bit (n mod 64) (p ! (n div 64)) AND 1"
    assume "n < 512" and ih: "val ?r = limbs_val p div 2 ^ Suc n mod l25519"
    have b: "unat ?b = limbs_val p div 2 ^ n mod 2"
      using limb_bit [of n p] p(1) \<open>n < 512\<close> by simp
    have "val ?r < l25519"
      using ih l25519_bounds(3) by simp
    then have "val (sc_mul_step ?r ?b) = (2 * val ?r + unat ?b) mod l25519"
      by (rule sc_mul_step_val) (simp add: b)
    also have "\<dots> = (2 * (limbs_val p div 2 ^ n div 2) + limbs_val p div 2 ^ n mod 2) mod l25519"
      unfolding ih b power_Suc2 div_mult2_eq by (metis mod_add_left_eq mod_mult_right_eq)
    finally show "val (foldl ?f limbs_zero (rev [n..<512])) = limbs_val p div 2 ^ n mod l25519"
      using \<open>n < 512\<close> by (simp add: upt_conv_Cons)
  qed simp
  then show ?thesis
    by (simp add: sc_mul_def p_def [symmetric] Let_def p(2))
qed

interpretation sc_ring: residue_ring sc_mul l25519
  by unfold_locales (simp_all add: sc_mul_val l25519_def)

lemma sc_invert_val: "val (sc_invert x) = val x ^ (l25519 - 2) mod l25519"
proof -
  have "val (sc_sub sc_L (from_u64 2)) = l25519 - 2"
    using l25519_bounds(3) by (simp add: sc_sub_def sub_modulus_val)
  then show ?thesis
    by (simp add: sc_invert_def sc_pow_def sc_ring.pow_val)
qed

text \<open>C33: \<^verbatim>\<open>Fe::add\<close>, \<^verbatim>\<open>Fe::mul\<close>, \<^verbatim>\<open>Fe::pow\<close> and \<^verbatim>\<open>Fe::invert\<close> return, for every argument of 256 bits (reduced or not), the
  reduced residue modulo \<open>2^255 - 19\<close> of the sum, the product, the power, and the power \<open>p - 2\<close>; none of the carries they
  drop is ever set.\<close>

theorem field_operations_compute_residues:
  "val (fe_add x y) = (val x + val y) mod p25519 \<and> val (fe_mul x y) = val x * val y mod p25519 \<and>
   val (fe_pow x e) = val x ^ val e mod p25519 \<and> val (fe_invert x) = val x ^ (p25519 - 2) mod p25519"
  by (simp add: fe_add_val fe_mul_val fe_invert_val fe_pow_def fe_ring.pow_val)

text \<open>C34: \<^verbatim>\<open>Sc::mul\<close>, \<^verbatim>\<open>Sc::pow\<close> and \<^verbatim>\<open>Sc::invert\<close> return the reduced residue modulo the group order for every argument (the 512
  rounds of the bitwise reduction keep the remainder below the order), and \<^verbatim>\<open>Sc::add\<close>, \<^verbatim>\<open>Sc::sub\<close> and \<^verbatim>\<open>Sc::neg\<close> do so for
  reduced arguments.\<close>

theorem scalar_operations_compute_residues:
  assumes "val x < l25519" "val y < l25519"
  shows "val (sc_add x y) = (val x + val y) mod l25519 \<and> int (val (sc_sub x y)) = (int (val x) - int (val y)) mod int l25519 \<and>
    int (val (sc_neg x)) = - int (val x) mod int l25519 \<and> val (sc_mul v w) = val v * val w mod l25519 \<and>
    val (sc_pow v e) = val v ^ val e mod l25519 \<and> val (sc_invert v) = val v ^ (l25519 - 2) mod l25519"
  using assms l25519_bounds(3)
  by (simp add: sc_add_val sc_sub_int sc_neg_def sc_mul_val sc_invert_val sc_pow_def sc_ring.pow_val)

theorem scalar_operations_compute_residues_witness:
  "val (sc_sub (from_u64 3) (from_u64 5)) = l25519 - 2 \<and> val (sc_add (from_u64 3) (from_u64 5)) = 8"
proof -
  have three: "val (from_u64 3) < l25519" "val (from_u64 5) < l25519"
    by (simp_all add: l25519_def)
  note ops = scalar_operations_compute_residues [OF three]
  have "int (val (sc_sub (from_u64 3) (from_u64 5))) = int (l25519 - 2)"
    using conjunct1 [OF conjunct2 [OF ops]] by (simp add: l25519_def)
  moreover have "val (sc_add (from_u64 3) (from_u64 5)) = 8"
    using conjunct1 [OF ops] by (simp add: l25519_def)
  ultimately show ?thesis
    by (simp only: of_nat_eq_iff)
qed

end
