(* ===== verification/Curve25519.thy ===== *)
theory Curve25519
  imports Field25519
begin

text \<open>
  The points of \<^verbatim>\<open>zk_range_proof.rs\<close>: the twisted Edwards addition and its ladder, the 32-byte form of a point, the
  generators, and the commitments made from them.  Decompression is shown to return points of the curve whose bytes it read;
  the second generator is shown to be a known multiple of the first, so that a commitment opens to more than one value.
\<close>

unbundle bit_operations_syntax

record Pt =
  pt_x :: Fe
  pt_y :: Fe

definition pt_identity :: Pt where
  "pt_identity = \<lparr>pt_x = limbs_zero, pt_y = limbs_one\<rparr>"

definition is_identity :: "Pt \<Rightarrow> bool" where
  "is_identity p \<longleftrightarrow> is_zero (pt_x p) \<and> pt_y p = limbs_one"

definition pt_add :: "Fe \<Rightarrow> Pt \<Rightarrow> Pt \<Rightarrow> Pt" where
  "pt_add d p q =
     (if is_identity p then q
      else if is_identity q then p
      else
        let x1x2 = fe_mul (pt_x p) (pt_x q);
            y1y2 = fe_mul (pt_y p) (pt_y q);
            x1y2 = fe_mul (pt_x p) (pt_y q);
            y1x2 = fe_mul (pt_y p) (pt_x q);
            dx1x2y1y2 = fe_mul (fe_mul d x1x2) y1y2;
            num_x = fe_add x1y2 y1x2;
            den_x = fe_add limbs_one dx1x2y1y2;
            num_y = fe_add y1y2 x1x2;
            den_y = fe_sub limbs_one dx1x2y1y2
        in \<lparr>pt_x = fe_mul num_x (fe_invert den_x), pt_y = fe_mul num_y (fe_invert den_y)\<rparr>)"

definition pt_double :: "Fe \<Rightarrow> Pt \<Rightarrow> Pt" where
  "pt_double d p = pt_add d p p"

definition pt_mul :: "Fe \<Rightarrow> Pt \<Rightarrow> Sc \<Rightarrow> Pt" where
  "pt_mul d p scalar = ladder (pt_add d) pt_identity p scalar"

definition is_on_curve :: "Fe \<Rightarrow> Fe \<Rightarrow> Fe \<Rightarrow> bool" where
  "is_on_curve x y d \<longleftrightarrow>
     (let x2 = fe_mul x x; y2 = fe_mul y y in fe_sub y2 x2 = fe_add limbs_one (fe_mul (fe_mul d x2) y2))"

text \<open>The coefficient \<^verbatim>\<open>d = -121665 / 121666\<close>, computed anew wherever the source needs it.\<close>

definition curve_d :: Fe where
  "curve_d = fe_mul (fe_neg (from_u64 121665)) (fe_invert (from_u64 121666))"

section \<open>The compressed form\<close>

definition x_lsb :: "Fe \<Rightarrow> u8" where
  "x_lsb x = ucast (limbs x ! 0 AND 1)"

definition compress_pt :: "Pt \<Rightarrow> bytes" where
  "compress_pt p = (let out = to_bytes (pt_y p) in out[31 := (out ! 31 AND 0x7f) OR push_bit 7 (x_lsb (pt_x p))])"

definition decompress_pt_32 :: "bytes \<Rightarrow> Pt option" where
  "decompress_pt_32 arr =
     (let sign = drop_bit 7 (arr ! 31); y = of_bytes (arr[31 := arr ! 31 AND 0x7f]) in
      if ge y fe_P then None
      else
        let y2 = fe_mul y y;
            u = fe_sub y2 limbs_one;
            v = fe_add (fe_mul curve_d y2) limbs_one;
            v2 = fe_mul v v;
            v3 = fe_mul v2 v;
            v7 = fe_mul (fe_mul v3 v3) v;
            uv7 = fe_mul u v7;
            uv7_exp = fe_pow uv7 (Limbs 0xfffffffffffffffd 0xffffffffffffffff 0xffffffffffffffff 0x0fffffffffffffff);
            x = fe_mul (fe_mul u v3) uv7_exp;
            finish = (\<lambda>x. Some \<lparr>pt_x = if x_lsb x \<noteq> sign then fe_sub limbs_zero x else x, pt_y = y\<rparr>)
        in if fe_mul v (fe_mul x x) = u then finish x
           else
             let x = fe_mul x (Limbs 0xc4ee1b274a0ea0b0 0x2f431806ad2fe478 0x2b4d00993dfbd7a7 0x2b8324804fc1df0b) in
             if fe_mul v (fe_mul x x) = u then finish x else None)"

section \<open>Generators and commitments\<close>

definition pt_g :: Pt where
  "pt_g = \<lparr>pt_x = Limbs 0xc9562d608f25d51a 0x692cc7609525a7b2 0xc0a4e231fdd6dc5c 0x216936d3cd6e53fe,
           pt_y = Limbs 0x6666666666666658 0x6666666666666666 0x6666666666666666 0x6666666666666666\<rparr>"

definition get_generators :: "Pt \<times> Pt \<times> Fe" where
  "get_generators = (let d = curve_d; h_pt = pt_mul d pt_g (from_u64 8) in (pt_g, h_pt, d))"

definition get_vector_generators :: "Fe \<Rightarrow> Pt list \<times> Pt list" where
  "get_vector_generators d =
     (map (\<lambda>i. pt_mul d pt_g (from_u64 (of_nat (16 + i)))) [0..<8], map (\<lambda>i. pt_mul d pt_g (from_u64 (of_nat (32 + i)))) [0..<8])"

text \<open>The commitment to a value with a blinding factor, as the prover forms it.\<close>

definition pedersen :: "Sc \<Rightarrow> Sc \<Rightarrow> Pt" where
  "pedersen v r = (let (g_pt, h_pt, d) = get_generators in pt_add d (pt_mul d g_pt v) (pt_mul d h_pt r))"

section \<open>Facts\<close>

lemma is_identity_iff: "is_identity p \<longleftrightarrow> p = pt_identity"
  using val_inject [of "pt_x p" limbs_zero] by (cases p) (simp add: is_identity_def is_zero_val pt_identity_def)

lemma pt_add_identity [simp]: "pt_add d pt_identity p = p" "pt_add d p pt_identity = p"
  by (simp_all add: pt_add_def is_identity_iff)

lemma fe_add_commute: "fe_add x y = fe_add y x"
  by (simp add: val_inject [symmetric] fe_add_val add.commute)

lemma pt_add_commute: "pt_add d p q = pt_add d q p"
  by (simp add: pt_add_def is_identity_iff fe_ring.mul_commute fe_add_commute Let_def)

text \<open>A ladder whose exponent is a power of two is that many doublings.\<close>

lemma ladder_power_of_two:
  "val e = 2 ^ k \<Longrightarrow> ladder f res base e = f res (((\<lambda>b. f b b) ^^ k) base)"
proof (induction k arbitrary: base e)
  case 0
  then have "is_zero (shr1 e)" "\<not> is_zero e" "low_bit e"
    by (simp_all add: is_zero_val shr1_val low_bit_val)
  then show ?case
    by (simp add: ladder.simps [of f res base e] ladder.simps [of f _ _ "shr1 e"])
next
  case (Suc k)
  then have "val (shr1 e) = 2 ^ k" "\<not> is_zero e" "\<not> low_bit e"
    by (simp_all add: is_zero_val shr1_val low_bit_val)
  then show ?case
    using Suc.IH [of "shr1 e" "f base base"] by (simp add: ladder.simps [of f res base e] funpow_Suc_right del: funpow.simps)
qed

lemma ladder_zero: "val e = 0 \<Longrightarrow> ladder f res base e = res"
  by (simp add: ladder.simps [of f res base e] is_zero_val)

lemma fe_ints: "int (val (fe_add x y)) = (int (val x) + int (val y)) mod int p25519"
  "int (val (fe_mul x y)) = (int (val x) * int (val y)) mod int p25519"
  by (simp_all add: fe_add_val fe_mul_val of_nat_mod)

lemma fe_square_neg:
  assumes "val x < p25519"
  shows "fe_mul (fe_sub limbs_zero x) (fe_sub limbs_zero x) = fe_mul x x"
proof -
  have "int (val (fe_sub limbs_zero x)) = - int (val x) mod int p25519"
    using fe_sub_int [of limbs_zero x] assms by simp
  then have "int (val (fe_mul (fe_sub limbs_zero x) (fe_sub limbs_zero x))) = int (val (fe_mul x x))"
    by (simp add: fe_ints mod_mult_eq)
  then show ?thesis
    by (simp only: of_nat_eq_iff val_inject)
qed

text \<open>The equation that decompression solves is that of the curve.\<close>

lemma solved_on_curve:
  assumes "fe_mul (fe_add (fe_mul d (fe_mul y y)) limbs_one) (fe_mul x x) = fe_sub (fe_mul y y) limbs_one"
  shows "is_on_curve x y d"
proof -
  define X Y D p where "X = int (val (fe_mul x x))" and "Y = int (val (fe_mul y y))" and "D = int (val d)" and "p = int p25519"
  note reduced = fe_results_reduced
  have one: "val limbs_one < p25519"
    using p25519_bounds(1) by simp
  have "(D * Y + 1) * X mod p = (Y - 1) mod p"
    using arg_cong [OF assms, of "\<lambda>w. int (val w)"] fe_sub_int [OF reduced(2) one, of y y]
    by (simp add: fe_ints(1) fe_ints(2) [of _ "fe_mul x x"] fe_ints(2) [of d] X_def [symmetric] Y_def [symmetric] D_def [symmetric]
        p_def [symmetric] mod_simps)
  then have "p dvd (D * Y + 1) * X - (Y - 1)"
    by (simp only: mod_eq_dvd_iff)
  moreover have "(D * Y + 1) * X - (Y - 1) = - ((Y - X) - (1 + D * X * Y))"
    by (simp add: algebra_simps)
  ultimately have "p dvd (Y - X) - (1 + D * X * Y)"
    by (metis dvd_minus_iff)
  then have "(Y - X) mod p = (1 + D * X * Y) mod p"
    by (simp only: mod_eq_dvd_iff)
  then have "int (val (fe_sub (fe_mul y y) (fe_mul x x))) = int (val (fe_add limbs_one (fe_mul (fe_mul d (fe_mul x x)) (fe_mul y y))))"
    using fe_sub_int [OF reduced(2) reduced(2), of y y x x]
    by (simp add: fe_ints(1) fe_ints(2) [of d] fe_ints(2) [of _ "fe_mul y y"] X_def [symmetric] Y_def [symmetric] D_def [symmetric]
        p_def [symmetric] mod_simps)
  then show ?thesis
    by (simp add: is_on_curve_def Let_def val_inject)
qed

text \<open>What a successful decompression has found.\<close>

lemma decompress_found:
  assumes "decompress_pt_32 arr = Some p"
  obtains x where "val x < p25519" "pt_x p = (if x_lsb x \<noteq> drop_bit 7 (arr ! 31) then fe_sub limbs_zero x else x)"
    "pt_y p = of_bytes (arr[31 := arr ! 31 AND 0x7f])" "val (pt_y p) < p25519"
    "fe_mul (fe_add (fe_mul curve_d (fe_mul (pt_y p) (pt_y p))) limbs_one) (fe_mul x x) = fe_sub (fe_mul (pt_y p) (pt_y p)) limbs_one"
  using assms fe_results_reduced(2) by (fastforce simp: decompress_pt_32_def Let_def ge_val split: if_splits)

lemma decompress_on_curve: "decompress_pt_32 arr = Some p \<Longrightarrow> is_on_curve (pt_x p) (pt_y p) curve_d"
proof -
  assume "decompress_pt_32 arr = Some p"
  then obtain x where x: "val x < p25519" "pt_x p = (if x_lsb x \<noteq> drop_bit 7 (arr ! 31) then fe_sub limbs_zero x else x)"
    "fe_mul (fe_add (fe_mul curve_d (fe_mul (pt_y p) (pt_y p))) limbs_one) (fe_mul x x) = fe_sub (fe_mul (pt_y p) (pt_y p)) limbs_one"
    by (rule decompress_found)
  moreover have "fe_mul (pt_x p) (pt_x p) = fe_mul x x"
    using x(1,2) fe_square_neg by simp
  ultimately show ?thesis
    by (intro solved_on_curve) simp
qed

text \<open>The sign bit survives: for a point whose \<open>x\<close> is not zero, compression gives the bytes back.\<close>

lemma unat_x_lsb: "unat (x_lsb x) = val x mod 2"
proof (cases x)
  case (Limbs a b c d)
  have "unat (x_lsb x) = unat a mod 2"
    by (simp add: Limbs x_lsb_def and_one_eq unsigned_ucast_eq unat_word_ariths take_bit_eq_mod mod_mod_cancel)
  then show ?thesis
    by (simp add: Limbs val_def limbs_val_mod_2 del: limbs_val.simps)
qed

lemma unat_x_lsb_le: "unat (x_lsb x) \<le> Suc 0"
  unfolding unat_x_lsb by simp

lemma two_valued: "a \<le> 1 \<Longrightarrow> b \<le> 1 \<Longrightarrow> c \<le> 1 \<Longrightarrow> a \<noteq> b \<Longrightarrow> b \<noteq> c \<Longrightarrow> a = (c :: nat)"
  by linarith

lemma unat_sign: "unat (drop_bit 7 (a :: u8)) \<le> 1"
proof -
  have "unat (drop_bit 7 a) = unat a div 2 ^ 7"
    using unat_less_pow [of a] by (simp only: unsigned_drop_bit_eq) (simp add: drop_bit_eq_div take_bit_eq_mod)
  then show ?thesis
    using unat_less_pow [of a] by simp
qed

lemma parity_flips: "odd n \<Longrightarrow> k < n \<Longrightarrow> (n - k) mod 2 \<noteq> k mod (2 :: nat)"
  by (auto simp: mod2_eq_if)

lemma decompress_sign:
  assumes "decompress_pt_32 arr = Some p" "pt_x p \<noteq> limbs_zero"
  shows "x_lsb (pt_x p) = drop_bit 7 (arr ! 31)"
proof -
  obtain x where x: "val x < p25519" "pt_x p = (if x_lsb x \<noteq> drop_bit 7 (arr ! 31) then fe_sub limbs_zero x else x)"
    using assms(1) by (rule decompress_found)
  show ?thesis
  proof (cases "x_lsb x = drop_bit 7 (arr ! 31)")
    case False
    have "val x \<noteq> 0"
    proof
      assume "val x = 0"
      then have "fe_sub limbs_zero x = limbs_zero"
        by (simp add: val_inject [symmetric] fe_sub_def sub_modulus_val)
      then show False
        using x(2) False assms(2) by simp
    qed
    then have "val (pt_x p) = p25519 - val x"
      using x False by (simp add: fe_sub_def sub_modulus_val)
    moreover have "odd p25519"
      by (simp add: p25519_def)
    ultimately have "unat (x_lsb (pt_x p)) \<noteq> unat (x_lsb x)"
      using x(1) by (simp only: unat_x_lsb parity_flips not_False_eq_True)
    then have "unat (x_lsb (pt_x p)) = unat (drop_bit 7 (arr ! 31))"
      using False by (intro two_valued [of _ "unat (x_lsb x)"]) (simp_all add: unat_x_lsb_le unat_sign [simplified] word_unat_eq_iff)
    then show ?thesis
      by (simp add: word_unat_eq_iff)
  qed (use x(2) in simp)
qed

lemma top_bit_join: "(a AND 0x7f) OR push_bit 7 (drop_bit 7 a) = (a :: u8)"
proof -
  have "(a AND mask 7) OR push_bit 7 (drop_bit 7 a) = a"
  proof (rule bit_word_eqI)
    fix n assume "n < LENGTH(8)"
    then have "n < 7 \<or> n = 7"
      by auto
    then show "bit ((a AND mask 7) OR push_bit 7 (drop_bit 7 a)) n \<longleftrightarrow> bit a n"
      by (auto simp: bit_and_iff bit_or_iff bit_mask_iff bit_push_bit_iff bit_drop_bit_eq)
  qed
  then show ?thesis
    by (simp add: mask_eq_exp_minus_1)
qed

lemma compress_decompress:
  assumes "decompress_pt_32 arr = Some p" "pt_x p \<noteq> limbs_zero" "length arr = 32"
  shows "compress_pt p = arr"
proof -
  have "pt_y p = of_bytes (arr[31 := arr ! 31 AND 0x7f])"
    using assms(1) by (rule decompress_found)
  then have "to_bytes (pt_y p) = arr[31 := arr ! 31 AND 0x7f]"
    using assms(3) by (simp add: to_bytes_def of_bytes_def limbs_to_of_bytes)
  then show ?thesis
    using assms(3) decompress_sign [OF assms(1,2)] by (simp add: compress_pt_def Let_def and.assoc top_bit_join)
qed

section \<open>Properties\<close>

text \<open>C36: The second generator of the commitments is eight times the first, so a commitment does not bind its value:
  for every \<open>k\<close> the commitment to \<open>2^(k + 3)\<close> with blinding zero is the commitment to zero with blinding \<open>2^k\<close>.\<close>

theorem commitment_not_binding:
  assumes "k + 3 < 64"
  shows "pedersen (from_u64 (2 ^ (k + 3))) limbs_zero = pedersen limbs_zero (from_u64 (2 ^ k)) \<and>
    from_u64 (2 ^ (k + 3)) \<noteq> limbs_zero"
proof -
  define d where "d = curve_d"
  let ?dbl = "\<lambda>b. pt_add d b b"
  have pow: "val (from_u64 (2 ^ n)) = 2 ^ n" if "n < 64" for n
    using that unat_of_nat_small [of "2 ^ n", where ?'a = 64] power_strict_increasing [of n 64 "2 :: nat"] by simp
  have mul: "pt_mul d b (from_u64 (2 ^ n)) = (?dbl ^^ n) b" if "n < 64" for b n
    unfolding pt_mul_def ladder_power_of_two [OF pow [OF that]] by simp
  have zero: "pt_mul d b limbs_zero = pt_identity" for b
    by (simp add: pt_mul_def ladder_zero)
  have "pt_mul d pt_g (from_u64 8) = (?dbl ^^ 3) pt_g"
    using mul [of 3 pt_g] by simp
  then have "pt_mul d (pt_mul d pt_g (from_u64 8)) (from_u64 (2 ^ k)) = pt_mul d pt_g (from_u64 (2 ^ (k + 3)))"
    using mul [of k] mul [of "k + 3"] assms by (simp only: funpow_add o_apply)
  then have "pedersen (from_u64 (2 ^ (k + 3))) limbs_zero = pedersen limbs_zero (from_u64 (2 ^ k))"
    by (simp only: pedersen_def get_generators_def Let_def prod.case d_def [symmetric] zero pt_add_identity)
  moreover have "val (from_u64 (2 ^ (k + 3))) \<noteq> val limbs_zero"
    using pow [OF assms] by simp
  ultimately show ?thesis
    by metis
qed

theorem commitment_not_binding_witness:
  "pedersen (from_u64 8) limbs_zero = pedersen limbs_zero (from_u64 1) \<and> from_u64 8 \<noteq> limbs_zero"
  using commitment_not_binding [of 0] by simp

text \<open>C35: A point that \<^verbatim>\<open>decompress_pt_32\<close> returns has reduced coordinates and satisfies the curve equation, and unless its
  \<open>x\<close> is zero \<^verbatim>\<open>compress_pt\<close> gives back the 32 bytes it was read from.\<close>

theorem decompressed_point:
  assumes "decompress_pt_32 arr = Some p" "length arr = 32"
  shows "is_on_curve (pt_x p) (pt_y p) curve_d \<and> val (pt_x p) < p25519 \<and> val (pt_y p) < p25519 \<and>
    (pt_x p \<noteq> limbs_zero \<longrightarrow> compress_pt p = arr)"
proof -
  obtain x where x: "val x < p25519" "pt_x p = (if x_lsb x \<noteq> drop_bit 7 (arr ! 31) then fe_sub limbs_zero x else x)"
    "val (pt_y p) < p25519"
    using assms(1) by (rule decompress_found)
  have "val (pt_x p) < p25519"
    using x(1,2) p25519_bounds(3) by (simp add: fe_sub_val)
  then show ?thesis
    using x(3) decompress_on_curve [OF assms(1)] compress_decompress [OF assms(1) _ assms(2)] by simp
qed

lemma fe_mul_units:
  "val x < p25519 \<Longrightarrow> fe_mul x limbs_one = x" "val x < p25519 \<Longrightarrow> fe_mul limbs_one x = x" "fe_mul x limbs_zero = limbs_zero"
  by (simp_all add: val_inject [symmetric] fe_mul_val)

text \<open>All-zero bytes decompress to a square root of \<open>-1\<close> over \<open>y = 0\<close>, through the second branch.\<close>

definition sqrt_minus_one :: Fe where
  "sqrt_minus_one = Limbs 0xc4ee1b274a0ea0b0 0x2f431806ad2fe478 0x2b4d00993dfbd7a7 0x2b8324804fc1df0b"

lemma minus_one_facts:
  defines "u \<equiv> fe_sub limbs_zero limbs_one"
  shows "val u = p25519 - 1" "fe_mul u u = limbs_one" "u \<noteq> limbs_one" "fe_mul sqrt_minus_one sqrt_minus_one = u"
    "val sqrt_minus_one < p25519"
proof -
  show u: "val u = p25519 - 1"
    using p25519_bounds(3) by (simp add: u_def fe_sub_def sub_modulus_val)
  show "fe_mul u u = limbs_one" "u \<noteq> limbs_one" "fe_mul sqrt_minus_one sqrt_minus_one = u"
    by (simp_all add: val_inject [symmetric] fe_mul_val u) (simp_all add: p25519_def sqrt_minus_one_def val_def)
  show "val sqrt_minus_one < p25519"
    by (simp add: p25519_def sqrt_minus_one_def val_def)
qed

lemma odd_power_of_root:
  assumes "fe_mul u u = limbs_one" "val u < p25519" "odd (val e)"
  shows "fe_pow u e = u"
proof -
  obtain k where e: "val e = Suc (2 * k)"
    using assms(3) by (auto elim: oddE)
  have "val u ^ val e mod p25519 = val u * (val u * val u mod p25519) ^ k mod p25519"
    unfolding e by (simp add: power_mult power2_eq_square) (metis mod_mult_right_eq power_mod)
  also have "val u * val u mod p25519 = 1"
    using assms(1) fe_mul_val [of u u] by simp
  finally show ?thesis
    using assms(2) by (simp add: val_inject [symmetric] fe_pow_def fe_ring.pow_val)
qed

lemma decompress_zero_bytes: "decompress_pt_32 (replicate 32 0) = Some \<lparr>pt_x = sqrt_minus_one, pt_y = limbs_zero\<rparr>"
proof -
  define u where "u = fe_sub limbs_zero limbs_one"
  let ?e = "Limbs 0xfffffffffffffffd 0xffffffffffffffff 0xffffffffffffffff 0x0fffffffffffffff"
  note facts = minus_one_facts [folded u_def]
  have red: "val u < p25519" "val limbs_one < p25519"
    using facts(1) p25519_bounds(1,3) by simp_all
  have y: "of_bytes ((replicate 32 0)[31 := (replicate 32 0 :: bytes) ! 31 AND 0x7f]) = limbs_zero" "\<not> ge limbs_zero fe_P"
  proof -
    have "to_bytes limbs_zero = replicate 32 0" "(replicate 32 0 :: bytes)[31 := 0] = replicate 32 0"
      by (simp_all add: to_bytes_def limbs_zero_def limbs_to_bytes_def numeral_eq_Suc)
    then show "of_bytes ((replicate 32 0)[31 := (replicate 32 0 :: bytes) ! 31 AND 0x7f]) = limbs_zero"
      using of_to_bytes(1) [of limbs_zero "[]"] by simp
    show "\<not> ge limbs_zero fe_P"
      using p25519_bounds(3) by (simp add: ge_val)
  qed
  have v: "fe_add limbs_zero limbs_one = limbs_one"
    using p25519_bounds(1) by (simp add: val_inject [symmetric] fe_add_val)
  have e: "fe_pow u ?e = u"
    by (rule odd_power_of_root [OF facts(2) red(1)]) (simp add: val_def)
  have sign: "x_lsb sqrt_minus_one = drop_bit 7 ((replicate 32 0 :: bytes) ! 31)"
    by (simp add: x_lsb_def sqrt_minus_one_def)
  show ?thesis
    unfolding decompress_pt_32_def Let_def y(1) sqrt_minus_one_def [symmetric]
    using y(2) sign facts red by (simp add: fe_mul_units v e u_def [symmetric])
qed

theorem decompressed_point_witness:
  "compress_pt \<lparr>pt_x = sqrt_minus_one, pt_y = limbs_zero\<rparr> = replicate 32 0 \<and> is_on_curve sqrt_minus_one limbs_zero curve_d"
proof -
  have "sqrt_minus_one \<noteq> limbs_zero"
    by (simp add: sqrt_minus_one_def limbs_zero_def)
  then show ?thesis
    using decompressed_point [OF decompress_zero_bytes] by simp
qed

end
