(* ===== verification/Range_Proof.thy ===== *)
theory Range_Proof
  imports Curve25519 Submission "HOL-Library.Monad_Syntax"
begin

text \<open>
  The range proofs of \<^verbatim>\<open>zk_range_proof.rs\<close>: their 800-byte form, the challenges hashed from a transcript, the prover, the
  verifier, and \<^verbatim>\<open>verify_score_range_proof\<close> of the contract.  The byte form is shown to be exact, the verdict of the contract is
  characterised, and the scalars of an honest proof are shown to satisfy the verifier's first equation.
\<close>

unbundle bit_operations_syntax

section \<open>Proofs and their bytes\<close>

record Bulletproof =
  bp_A :: Pt
  bp_S :: Pt
  bp_T1 :: Pt
  bp_T2 :: Pt
  bp_tx :: Sc
  bp_taux :: Sc
  bp_mu :: Sc
  bp_L :: "Pt list"
  bp_R :: "Pt list"
  bp_a :: Sc
  bp_b :: Sc

definition pt_bytes :: "Pt \<Rightarrow> bytes" where
  "pt_bytes p = to_bytes (pt_x p) @ to_bytes (pt_y p)"

definition bulletproof_to_bytes :: "Bulletproof \<Rightarrow> bytes" where
  "bulletproof_to_bytes b =
     concat (map pt_bytes [bp_A b, bp_S b, bp_T1 b, bp_T2 b]) @ concat (map to_bytes [bp_tx b, bp_taux b, bp_mu b]) @
     concat (map pt_bytes (bp_L b)) @ concat (map pt_bytes (bp_R b)) @ concat (map to_bytes [bp_a b, bp_b b])"

definition read_sc :: "bytes \<Rightarrow> nat \<Rightarrow> (Sc \<times> nat) option" where
  "read_sc bs offset = (if offset + 32 \<le> length bs then Some (of_bytes (drop offset bs), offset + 32) else None)"

definition read_pt :: "bytes \<Rightarrow> nat \<Rightarrow> (Pt \<times> nat) option" where
  "read_pt bs offset = do {
     (x, offset) \<leftarrow> read_sc bs offset;
     (y, offset) \<leftarrow> read_sc bs offset;
     if is_on_curve x y curve_d then Some (\<lparr>pt_x = x, pt_y = y\<rparr>, offset) else None
   }"

fun read_pts :: "nat \<Rightarrow> bytes \<Rightarrow> nat \<Rightarrow> (Pt list \<times> nat) option" where
  "read_pts 0 bs offset = Some ([], offset)"
| "read_pts (Suc n) bs offset = do {
     (p, offset) \<leftarrow> read_pt bs offset;
     (ps, offset) \<leftarrow> read_pts n bs offset;
     Some (p # ps, offset)
   }"

definition bulletproof_from_bytes :: "bytes \<Rightarrow> Bulletproof option" where
  "bulletproof_from_bytes bs =
     (if length bs \<noteq> 800 then None
      else do {
        (A, offset) \<leftarrow> read_pt bs 0;
        (S, offset) \<leftarrow> read_pt bs offset;
        (T1, offset) \<leftarrow> read_pt bs offset;
        (T2, offset) \<leftarrow> read_pt bs offset;
        (tx, offset) \<leftarrow> read_sc bs offset;
        (taux, offset) \<leftarrow> read_sc bs offset;
        (mu, offset) \<leftarrow> read_sc bs offset;
        (L, offset) \<leftarrow> read_pts 3 bs offset;
        (R, offset) \<leftarrow> read_pts 3 bs offset;
        (a, offset) \<leftarrow> read_sc bs offset;
        (b, offset) \<leftarrow> read_sc bs offset;
        Some \<lparr>bp_A = A, bp_S = S, bp_T1 = T1, bp_T2 = T2, bp_tx = tx, bp_taux = taux, bp_mu = mu, bp_L = L, bp_R = R,
              bp_a = a, bp_b = b\<rparr>
      })"

section \<open>Challenges\<close>

function sc_reduce :: "Sc \<Rightarrow> Sc" where
  "sc_reduce v = (if ge v sc_L then sc_reduce (sc_sub v sc_L) else v)"
  by pat_completeness auto
termination
  by (relation "measure val") (use l25519_bounds(3) in \<open>auto simp: ge_val sc_sub_def sub_modulus_val\<close>)

declare sc_reduce.simps [simp del]

definition hash_to_scalar :: "env \<Rightarrow> bytes \<Rightarrow> Sc" where
  "hash_to_scalar e data =
     (let ls = limbs (of_bytes (sha256 e data)) in sc_reduce (of_limbs (ls[3 := ls ! 3 AND 0x0fffffffffffffff])))"

definition hash_fs_y_z :: "env \<Rightarrow> Pt \<Rightarrow> Pt \<Rightarrow> Pt \<Rightarrow> Sc \<times> Sc" where
  "hash_fs_y_z e V A S =
     (let y = hash_to_scalar e ([0x79, 0x5f, 0x7a] @ pt_bytes V @ pt_bytes A @ pt_bytes S);
          z = hash_to_scalar e ([0x7a] @ to_bytes y)
      in (y, z))"

definition hash_fs_x :: "env \<Rightarrow> Pt \<Rightarrow> Pt \<Rightarrow> Sc" where
  "hash_fs_x e T1 T2 = hash_to_scalar e ([0x78] @ pt_bytes T1 @ pt_bytes T2)"

definition hash_fs_w :: "env \<Rightarrow> Sc \<Rightarrow> Sc \<Rightarrow> Sc \<Rightarrow> Sc" where
  "hash_fs_w e tx taux mu = hash_to_scalar e ([0x77] @ to_bytes tx @ to_bytes taux @ to_bytes mu)"

definition hash_fs_challenge_ip :: "env \<Rightarrow> nat \<Rightarrow> Pt \<Rightarrow> Pt \<Rightarrow> Sc" where
  "hash_fs_challenge_ip e round L R = hash_to_scalar e ([0x69, 0x70] @ [of_nat round] @ pt_bytes L @ pt_bytes R)"

definition next_scalar :: "env \<Rightarrow> bytes \<Rightarrow> Sc \<times> bytes" where
  "next_scalar e state = (hash_to_scalar e (state @ replicate 32 0), map (\<lambda>b. b + 1) state)"

section \<open>The prover\<close>

text \<open>The bits of the value and the bits less one; a vector commitment, as the prover forms \<^verbatim>\<open>A\<close> and \<^verbatim>\<open>S\<close>; the two blinding vectors,
  drawn in turns; the powers of \<open>y\<close>.\<close>

definition value_bit :: "u32 \<Rightarrow> nat \<Rightarrow> u64" where
  "value_bit v i = ucast (drop_bit i v AND 1)"

definition bits_left :: "u32 \<Rightarrow> Sc list" where
  "bits_left v = map (\<lambda>i. from_u64 (value_bit v i)) [0..<8]"

definition bits_right :: "u32 \<Rightarrow> Sc list" where
  "bits_right v = map (\<lambda>i. sc_sub (from_u64 (value_bit v i)) limbs_one) [0..<8]"

definition vector_commit :: "Fe \<Rightarrow> Pt \<Rightarrow> Sc \<Rightarrow> Pt list \<Rightarrow> Pt list \<Rightarrow> Sc list \<Rightarrow> Sc list \<Rightarrow> Pt" where
  "vector_commit d h_pt blind gs hs ls rs =
     foldl (\<lambda>acc i. pt_add d (pt_add d acc (pt_mul d (gs ! i) (ls ! i))) (pt_mul d (hs ! i) (rs ! i))) (pt_mul d h_pt blind) [0..<8]"

fun next_pairs :: "env \<Rightarrow> nat \<Rightarrow> bytes \<Rightarrow> Sc list \<times> Sc list \<times> bytes" where
  "next_pairs e 0 prng = ([], [], prng)"
| "next_pairs e (Suc n) prng =
     (let (l, prng) = next_scalar e prng; (r, prng) = next_scalar e prng; (ls, rs, prng) = next_pairs e n prng in
      (l # ls, r # rs, prng))"

fun powers_from :: "Sc \<Rightarrow> Sc \<Rightarrow> nat \<Rightarrow> Sc list" where
  "powers_from acc y 0 = []"
| "powers_from acc y (Suc n) = acc # powers_from (sc_mul acc y) y n"

definition two_pow :: "nat \<Rightarrow> Sc" where
  "two_pow i = from_u64 (push_bit i 1)"

text \<open>The coefficients \<open>t1\<close> and \<open>t2\<close> of the inner product polynomial.\<close>

definition t_coefficients :: "Sc list \<Rightarrow> Sc list \<Rightarrow> Sc list \<Rightarrow> Sc list \<Rightarrow> Sc list \<Rightarrow> Sc \<Rightarrow> Sc \<times> Sc" where
  "t_coefficients a_L a_R s_L s_R y_pow z =
     (let z2 = sc_mul z z;
          l_0 = (\<lambda>i. sc_sub (a_L ! i) z);
          r_0 = (\<lambda>i. sc_add (sc_mul (y_pow ! i) (sc_add (a_R ! i) z)) (sc_mul z2 (two_pow i)));
          r_1 = (\<lambda>i. sc_mul (y_pow ! i) (s_R ! i))
      in (foldl (\<lambda>t i. sc_add t (sc_add (sc_mul (l_0 i) (r_1 i)) (sc_mul (s_L ! i) (r_0 i)))) limbs_zero [0..<8],
          foldl (\<lambda>t i. sc_add t (sc_mul (s_L ! i) (r_1 i))) limbs_zero [0..<8]))"

text \<open>The two vectors at the challenge \<open>x\<close>, and their inner product.\<close>

definition l_vector :: "Sc list \<Rightarrow> Sc list \<Rightarrow> Sc \<Rightarrow> Sc \<Rightarrow> Sc list" where
  "l_vector a_L s_L z x = map (\<lambda>i. sc_add (sc_sub (a_L ! i) z) (sc_mul (s_L ! i) x)) [0..<8]"

definition r_vector :: "Sc list \<Rightarrow> Sc list \<Rightarrow> Sc list \<Rightarrow> Sc \<Rightarrow> Sc \<Rightarrow> Sc list" where
  "r_vector a_R s_R y_pow z x =
     map (\<lambda>i. sc_add (sc_mul (y_pow ! i) (sc_add (sc_add (a_R ! i) z) (sc_mul (s_R ! i) x))) (sc_mul (sc_mul z z) (two_pow i))) [0..<8]"

definition inner_product :: "Sc list \<Rightarrow> Sc list \<Rightarrow> nat list \<Rightarrow> nat \<Rightarrow> nat \<Rightarrow> Sc" where
  "inner_product ls rs is off_l off_r = foldl (\<lambda>t i. sc_add t (sc_mul (ls ! (off_l + i)) (rs ! (off_r + i)))) limbs_zero is"

text \<open>One round of the inner product argument halves the four vectors; the arrays of the source keep their length and the round
  reads and writes only their first \<^verbatim>\<open>len\<close> places.\<close>

record ip_state =
  ip_l :: "Sc list"
  ip_r :: "Sc list"
  ip_gs :: "Pt list"
  ip_hs :: "Pt list"

definition ip_round :: "env \<Rightarrow> Fe \<Rightarrow> Pt \<Rightarrow> nat \<Rightarrow> nat \<Rightarrow> ip_state \<Rightarrow> Pt \<times> Pt \<times> ip_state" where
  "ip_round e d Q round half s =
     (let l = ip_l s; r = ip_r s; gs = ip_gs s; hs = ip_hs s;
          c_L = inner_product l r [0..<half] 0 half;
          c_R = inner_product l r [0..<half] half 0;
          L_pt = foldl (\<lambda>p i. pt_add d (pt_add d p (pt_mul d (gs ! (half + i)) (l ! i))) (pt_mul d (hs ! i) (r ! (half + i))))
                   (pt_mul d Q c_L) [0..<half];
          R_pt = foldl (\<lambda>p i. pt_add d (pt_add d p (pt_mul d (gs ! i) (l ! (half + i)))) (pt_mul d (hs ! (half + i)) (r ! i)))
                   (pt_mul d Q c_R) [0..<half];
          u = hash_fs_challenge_ip e round L_pt R_pt;
          u_inv = sc_invert u
      in (L_pt, R_pt,
          \<lparr>ip_l = map (\<lambda>i. sc_add (sc_mul (l ! i) u) (sc_mul (l ! (half + i)) u_inv)) [0..<half],
           ip_r = map (\<lambda>i. sc_add (sc_mul (r ! i) u_inv) (sc_mul (r ! (half + i)) u)) [0..<half],
           ip_gs = map (\<lambda>i. pt_add d (pt_mul d (gs ! i) u_inv) (pt_mul d (gs ! (half + i)) u)) [0..<half],
           ip_hs = map (\<lambda>i. pt_add d (pt_mul d (hs ! i) u) (pt_mul d (hs ! (half + i)) u_inv)) [0..<half]\<rparr>))"

fun ip_rounds :: "env \<Rightarrow> Fe \<Rightarrow> Pt \<Rightarrow> nat \<Rightarrow> nat list \<Rightarrow> ip_state \<Rightarrow> Pt list \<times> Pt list \<times> ip_state" where
  "ip_rounds e d Q round [] s = ([], [], s)"
| "ip_rounds e d Q round (half # halves) s =
     (let (L_pt, R_pt, s) = ip_round e d Q round half s; (Ls, Rs, s) = ip_rounds e d Q (Suc round) halves s in
      (L_pt # Ls, R_pt # Rs, s))"

definition scaled_generators :: "Fe \<Rightarrow> Pt list \<Rightarrow> Sc \<Rightarrow> Pt list" where
  "scaled_generators d hs y_inv = map2 (pt_mul d) hs (powers_from limbs_one y_inv 8)"

definition prove_range_proof :: "env \<Rightarrow> u32 \<Rightarrow> Sc \<Rightarrow> bytes \<Rightarrow> Bulletproof" where
  "prove_range_proof e v r prng =
     (let (g_pt, h_pt, d) = get_generators; (gs, hs) = get_vector_generators d;
          a_L = bits_left v; a_R = bits_right v;
          (alpha, prng) = next_scalar e prng;
          A = vector_commit d h_pt alpha gs hs a_L a_R;
          (s_L, s_R, prng) = next_pairs e 8 prng;
          (beta, prng) = next_scalar e prng;
          S = vector_commit d h_pt beta gs hs s_L s_R;
          V = pedersen (from_u64 (ucast v)) r;
          (y, z) = hash_fs_y_z e V A S;
          y_pow = powers_from limbs_one y 8;
          z2 = sc_mul z z;
          (t1, t2) = t_coefficients a_L a_R s_L s_R y_pow z;
          (tau1, prng) = next_scalar e prng;
          (tau2, prng) = next_scalar e prng;
          T1 = pedersen t1 tau1;
          T2 = pedersen t2 tau2;
          x = hash_fs_x e T1 T2;
          x2 = sc_mul x x;
          l = l_vector a_L s_L z x;
          r_vec = r_vector a_R s_R y_pow z x;
          tx = inner_product l r_vec [0..<8] 0 0;
          taux = sc_add (sc_add (sc_mul tau2 x2) (sc_mul tau1 x)) (sc_mul z2 r);
          mu = sc_add alpha (sc_mul beta x);
          Q = pt_mul d g_pt (hash_fs_w e tx taux mu);
          (L, R, s) = ip_rounds e d Q 0 [4, 2, 1]
            \<lparr>ip_l = l, ip_r = r_vec, ip_gs = gs, ip_hs = scaled_generators d hs (sc_invert y)\<rparr>
      in \<lparr>bp_A = A, bp_S = S, bp_T1 = T1, bp_T2 = T2, bp_tx = tx, bp_taux = taux, bp_mu = mu, bp_L = L, bp_R = R,
          bp_a = ip_l s ! 0, bp_b = ip_r s ! 0\<rparr>)"

section \<open>The verifier\<close>

definition delta_yz :: "Sc \<Rightarrow> Sc \<Rightarrow> Sc" where
  "delta_yz y z =
     (let z2 = sc_mul z z; z3 = sc_mul z2 z;
          sum_y = foldl sc_add limbs_zero (powers_from limbs_one y 8);
          sum_two = foldl (\<lambda>t i. sc_add t (two_pow i)) limbs_zero [0..<8]
      in sc_sub (sc_mul (sc_sub z z2) sum_y) (sc_mul z3 sum_two))"

definition verifier_P :: "Fe \<Rightarrow> Pt \<Rightarrow> Pt list \<Rightarrow> Pt list \<Rightarrow> Sc \<Rightarrow> Sc \<Rightarrow> Sc \<Rightarrow> Bulletproof \<Rightarrow> Pt" where
  "verifier_P d h_pt gs hs y_inv z x bp =
     (let z2 = sc_mul z z; y_inv_pow = powers_from limbs_one y_inv 8;
          P = pt_add d (pt_add d (bp_A bp) (pt_mul d (bp_S bp) x)) (pt_mul d h_pt (sc_neg (bp_mu bp)))
      in foldl (\<lambda>P i. pt_add d (pt_add d P (pt_mul d (gs ! i) (sc_neg z)))
             (pt_mul d (hs ! i) (sc_add z (sc_mul (sc_mul z2 (two_pow i)) (y_inv_pow ! i))))) P [0..<8])"

text \<open>The products of challenges that fold the generators: bit \<open>2 - round\<close> of the index selects the challenge or its inverse.\<close>

definition fold_exponents :: "Sc list \<Rightarrow> nat \<Rightarrow> Sc \<times> Sc" where
  "fold_exponents challenges i =
     foldl (\<lambda>(s, s_prime) (round, challenge).
        if (i div 2 ^ (2 - round)) mod 2 = 1 then (sc_mul s challenge, sc_mul s_prime (sc_invert challenge))
        else (sc_mul s (sc_invert challenge), sc_mul s_prime challenge)) (limbs_one, limbs_one) (enumerate 0 challenges)"

definition verify_range_proof :: "env \<Rightarrow> Pt \<Rightarrow> Bulletproof \<Rightarrow> bool" where
  "verify_range_proof e V bp =
     (let (g_pt, h_pt, d) = get_generators; (gs, hs) = get_vector_generators d;
          (y, z) = hash_fs_y_z e V (bp_A bp) (bp_S bp);
          x = hash_fs_x e (bp_T1 bp) (bp_T2 bp);
          z2 = sc_mul z z; x2 = sc_mul x x;
          delta = delta_yz y z;
          lhs1 = pt_add d (pt_mul d g_pt (bp_tx bp)) (pt_mul d h_pt (bp_taux bp));
          rhs1 = pt_add d (pt_add d (pt_add d (pt_mul d V z2) (pt_mul d g_pt delta)) (pt_mul d (bp_T1 bp) x)) (pt_mul d (bp_T2 bp) x2)
      in if lhs1 \<noteq> rhs1 then False
         else
           let Q = pt_mul d g_pt (hash_fs_w e (bp_tx bp) (bp_taux bp) (bp_mu bp));
               y_inv = sc_invert y;
               P_prime = pt_add d (verifier_P d h_pt gs hs y_inv z x bp) (pt_mul d Q (bp_tx bp));
               hs_ip = scaled_generators d hs y_inv;
               challenges = map (\<lambda>round. hash_fs_challenge_ip e round (bp_L bp ! round) (bp_R bp ! round)) [0..<3];
               P_prime = foldl (\<lambda>P round. let u = challenges ! round; u_inv = sc_invert u in
                   pt_add d (pt_add d P (pt_mul d (bp_L bp ! round) (sc_mul u u))) (pt_mul d (bp_R bp ! round) (sc_mul u_inv u_inv)))
                 P_prime [0..<3];
               gs_final = foldl (\<lambda>p i. pt_add d p (pt_mul d (gs ! i) (fst (fold_exponents challenges i)))) pt_identity [0..<8];
               hs_final = foldl (\<lambda>p i. pt_add d p (pt_mul d (hs_ip ! i) (snd (fold_exponents challenges i)))) pt_identity [0..<8];
               ab = sc_mul (bp_a bp) (bp_b bp)
           in P_prime = pt_add d (pt_add d (pt_mul d gs_final (bp_a bp)) (pt_mul d hs_final (bp_b bp))) (pt_mul d Q ab))"

section \<open>The contract's entry point\<close>

definition verify_score_range_proof :: "env \<Rightarrow> pair_key \<Rightarrow> bytes \<Rightarrow> bytes \<Rightarrow> u32 \<Rightarrow> contract \<Rightarrow> bool" where
  "verify_score_range_proof e k commitment proof_bytes threshold c =
     (if \<not> asset_pair_is_bounded (snd k) then False
      else case scores (c_store c) k of
        None \<Rightarrow> False
      | Some stored_score \<Rightarrow>
          (case rs_commitment stored_score of
             None \<Rightarrow> False
           | Some stored_commitment \<Rightarrow>
               if stored_commitment \<noteq> commitment then False
               else case bulletproof_from_bytes proof_bytes of
                 None \<Rightarrow> False
               | Some bp \<Rightarrow>
                   (case decompress_pt_32 commitment of
                      None \<Rightarrow> False
                    | Some c_pt \<Rightarrow>
                        let (g_pt, h_pt, d) = get_generators in
                        if threshold = 0 then False
                        else
                          let c_inv = \<lparr>pt_x = fe_neg (pt_x c_pt), pt_y = pt_y c_pt\<rparr>;
                              g_tm1 = pt_mul d g_pt (from_u64 (ucast (threshold - 1)))
                          in verify_range_proof e (pt_add d g_tm1 c_inv) bp)))"

section \<open>The byte form\<close>

definition proof_points :: "Bulletproof \<Rightarrow> Pt list" where
  "proof_points b = [bp_A b, bp_S b, bp_T1 b, bp_T2 b] @ bp_L b @ bp_R b"

definition proof_wf :: "Bulletproof \<Rightarrow> bool" where
  "proof_wf b \<longleftrightarrow> length (bp_L b) = 3 \<and> length (bp_R b) = 3 \<and> (\<forall>p\<in>set (proof_points b). is_on_curve (pt_x p) (pt_y p) curve_d)"

lemma length_pt_bytes [simp]: "length (pt_bytes p) = 64" "length (to_bytes x) = 32"
  by (simp_all add: pt_bytes_def of_to_bytes)

lemma to_bytes_inject [simp]: "to_bytes x = to_bytes y \<longleftrightarrow> x = y"
  by (metis of_to_bytes(1))

lemma read_sc_at: "read_sc bs n = Some (x, m) \<longleftrightarrow> m = n + 32 \<and> m \<le> length bs \<and> take 32 (drop n bs) = to_bytes x"
proof -
  have "of_bytes (drop n bs) = x \<longleftrightarrow> take 32 (drop n bs) = to_bytes x" if "n + 32 \<le> length bs"
  proof
    assume "take 32 (drop n bs) = to_bytes x"
    then have "drop n bs = to_bytes x @ drop 32 (drop n bs)"
      by (metis append_take_drop_id)
    then show "of_bytes (drop n bs) = x"
      by (metis of_to_bytes(1))
  next
    assume "of_bytes (drop n bs) = x"
    then have "limbs x = limbs_of_bytes 4 (take 32 (drop n bs))"
      by (auto simp: of_bytes_def limbs_of_bytes_take)
    then show "take 32 (drop n bs) = to_bytes x"
      using that by (simp add: to_bytes_def limbs_to_of_bytes)
  qed
  then show ?thesis
    by (auto simp: read_sc_def)
qed

lemma read_pt_at:
  "read_pt bs n = Some (p, m) \<longleftrightarrow>
     m = n + 64 \<and> m \<le> length bs \<and> take 64 (drop n bs) = pt_bytes p \<and> is_on_curve (pt_x p) (pt_y p) curve_d"
proof -
  have split: "take 64 xs = take 32 xs @ take 32 (drop 32 xs)" for xs :: bytes
    using take_add [of 32 32 xs] by simp
  have "length xs = 32 \<Longrightarrow> (xs @ ys = to_bytes x @ to_bytes y \<longleftrightarrow> xs = to_bytes x \<and> ys = to_bytes y)" for xs ys x y
    by simp
  then show ?thesis
    by (cases p) (auto simp: read_pt_def bind_eq_Some_conv read_sc_at pt_bytes_def split add.commute)
qed

lemma read_pts_at:
  "read_pts k bs n = Some (ps, m) \<longleftrightarrow>
     length ps = k \<and> m = n + 64 * k \<and> (k \<noteq> 0 \<longrightarrow> m \<le> length bs) \<and> take (64 * k) (drop n bs) = concat (map pt_bytes ps) \<and>
     (\<forall>p\<in>set ps. is_on_curve (pt_x p) (pt_y p) curve_d)"
proof (induction k arbitrary: n ps)
  case (Suc k)
  have split: "take (64 + 64 * k) xs = take 64 xs @ take (64 * k) (drop 64 xs)" for xs :: bytes
    by (rule take_add)
  show ?case
  proof (cases ps)
    case (Cons p ps')
    have "xs @ ys = pt_bytes p @ zs \<longleftrightarrow> xs = pt_bytes p \<and> ys = zs" if "length xs = 64" for xs ys zs
      using that by simp
    then show ?thesis
      by (cases "k = 0") (auto simp: Cons bind_eq_Some_conv read_pt_at Suc.IH split add.commute)
  qed (auto simp: bind_eq_Some_conv)
qed auto

lemma from_bytes_slices:
  "bulletproof_from_bytes bs = Some b \<longleftrightarrow> length bs = 800 \<and> proof_wf b \<and>
     take 64 bs = pt_bytes (bp_A b) \<and> take 64 (drop 64 bs) = pt_bytes (bp_S b) \<and>
     take 64 (drop 128 bs) = pt_bytes (bp_T1 b) \<and> take 64 (drop 192 bs) = pt_bytes (bp_T2 b) \<and>
     take 32 (drop 256 bs) = to_bytes (bp_tx b) \<and> take 32 (drop 288 bs) = to_bytes (bp_taux b) \<and>
     take 32 (drop 320 bs) = to_bytes (bp_mu b) \<and> take 192 (drop 352 bs) = concat (map pt_bytes (bp_L b)) \<and>
     take 192 (drop 544 bs) = concat (map pt_bytes (bp_R b)) \<and> take 32 (drop 736 bs) = to_bytes (bp_a b) \<and>
     take 32 (drop 768 bs) = to_bytes (bp_b b)" (is "?l \<longleftrightarrow> ?r")
proof
  assume ?l
  then show ?r
    by (simp add: bulletproof_from_bytes_def split: if_splits)
      (clarsimp simp: bind_eq_Some_conv read_pt_at read_sc_at read_pts_at proof_wf_def proof_points_def, blast)
next
  assume r: ?r
  then have reads: "read_pt bs 0 = Some (bp_A b, 64)" "read_pt bs 64 = Some (bp_S b, 128)" "read_pt bs 128 = Some (bp_T1 b, 192)"
    "read_pt bs 192 = Some (bp_T2 b, 256)" "read_sc bs 256 = Some (bp_tx b, 288)" "read_sc bs 288 = Some (bp_taux b, 320)"
    "read_sc bs 320 = Some (bp_mu b, 352)" "read_pts 3 bs 352 = Some (bp_L b, 544)" "read_pts 3 bs 544 = Some (bp_R b, 736)"
    "read_sc bs 736 = Some (bp_a b, 768)" "read_sc bs 768 = Some (bp_b b, 800)"
    unfolding read_pt_at read_sc_at read_pts_at by (simp_all add: proof_wf_def proof_points_def)
  show ?l
    using r reads by (simp add: bulletproof_from_bytes_def)
qed

lemma slice: "drop n bs = take k (drop n bs) @ drop (n + k) bs" for bs :: bytes
  by (metis add.commute append_take_drop_id drop_drop)

lemma length_points: "length (concat (map pt_bytes ps)) = 64 * length ps"
  by (induction ps) simp_all

lemma from_bytes_iff:
  "bulletproof_from_bytes bs = Some b \<longleftrightarrow> proof_wf b \<and> bulletproof_to_bytes b = bs"
proof
  assume l: "bulletproof_from_bytes bs = Some b"
  have "bs = take 64 bs @ take 64 (drop 64 bs) @ take 64 (drop 128 bs) @ take 64 (drop 192 bs) @ take 32 (drop 256 bs) @
      take 32 (drop 288 bs) @ take 32 (drop 320 bs) @ take 192 (drop 352 bs) @ take 192 (drop 544 bs) @ take 32 (drop 736 bs) @
      take 32 (drop 768 bs) @ drop 800 bs"
    using slice [of 0 bs 64] slice [of 64 bs 64] slice [of 128 bs 64] slice [of 192 bs 64] slice [of 256 bs 32] slice [of 288 bs 32]
      slice [of 320 bs 32] slice [of 352 bs 192] slice [of 544 bs 192] slice [of 736 bs 32] slice [of 768 bs 32] by simp
  then have "bs = bulletproof_to_bytes b"
    using l unfolding from_bytes_slices bulletproof_to_bytes_def by simp
  then show "proof_wf b \<and> bulletproof_to_bytes b = bs"
    using l unfolding from_bytes_slices by simp
next
  assume r: "proof_wf b \<and> bulletproof_to_bytes b = bs"
  then have "length (concat (map pt_bytes (bp_L b))) = 192" "length (concat (map pt_bytes (bp_R b))) = 192"
    unfolding length_points by (simp_all add: proof_wf_def)
  moreover have "bs = bulletproof_to_bytes b"
    using r by simp
  ultimately show "bulletproof_from_bytes bs = Some b"
    using r unfolding from_bytes_slices bulletproof_to_bytes_def by simp
qed

lemma from_to_bytes: "proof_wf b \<Longrightarrow> bulletproof_from_bytes (bulletproof_to_bytes b) = Some b"
  by (simp add: from_bytes_iff)

section \<open>Scalars as integers modulo the group order\<close>

definition denotes :: "Sc \<Rightarrow> int \<Rightarrow> bool" where
  "denotes x k \<longleftrightarrow> int (val x) = k mod int l25519"

lemma denotes_self: "val x < l25519 \<Longrightarrow> denotes x (int (val x))"
  by (simp add: denotes_def)

lemma denotes_reduced: "denotes x k \<Longrightarrow> val x < l25519"
proof -
  assume "denotes x k"
  then have "int (val x) < int l25519"
    using l25519_bounds(3) by (simp add: denotes_def)
  then show ?thesis by simp
qed

lemma denotes_small: "denotes limbs_zero 0" "denotes limbs_one 1"
  using l25519_bounds(3) by (simp_all add: denotes_def)

lemma denotes_u64: "denotes (from_u64 w) (int (unat w))"
proof -
  have "val (from_u64 w) < l25519"
    using limb_less(1) [of w] l25519_bounds(1) by simp
  then show ?thesis
    using denotes_self [of "from_u64 w"] by simp
qed

lemma denotes_add: "denotes x a \<Longrightarrow> denotes y b \<Longrightarrow> denotes (sc_add x y) (a + b)"
  using sc_add_val [OF denotes_reduced denotes_reduced, of x a y b] by (simp add: denotes_def of_nat_mod mod_simps)

lemma denotes_sub: "denotes x a \<Longrightarrow> denotes y b \<Longrightarrow> denotes (sc_sub x y) (a - b)"
  using sc_sub_int [OF denotes_reduced denotes_reduced, of x a y b] by (simp add: denotes_def mod_simps)

lemma denotes_mul: "denotes x a \<Longrightarrow> denotes y b \<Longrightarrow> denotes (sc_mul x y) (a * b)"
  by (simp add: denotes_def sc_mul_val of_nat_mod mod_simps)

lemmas denotes_ops = denotes_add denotes_sub denotes_mul

lemma denotes_fold:
  "denotes acc k \<Longrightarrow> (\<And>i. i \<in> set is \<Longrightarrow> denotes (f i) (F i)) \<Longrightarrow>
   denotes (foldl (\<lambda>t i. sc_add t (f i)) acc is) (k + (\<Sum>i\<leftarrow>is. F i))"
proof (induction "is" arbitrary: acc k)
  case (Cons i "is")
  have "denotes (foldl (\<lambda>t i. sc_add t (f i)) (sc_add acc (f i)) is) (k + F i + (\<Sum>i\<leftarrow>is. F i))"
    using Cons.prems by (intro Cons.IH denotes_add) simp_all
  then show ?case
    by (simp add: add.assoc)
qed simp

lemma denotes_sum:
  "(\<And>i. i \<in> set is \<Longrightarrow> denotes (f i) (F i)) \<Longrightarrow> denotes (foldl (\<lambda>t i. sc_add t (f i)) limbs_zero is) (\<Sum>i\<leftarrow>is. F i)"
  using denotes_fold [OF denotes_small(1), of "is" f F] by simp

lemma sc_reduce_val: "val (sc_reduce x) = val x mod l25519"
proof (induction x rule: sc_reduce.induct)
  case (1 x)
  show ?case
  proof (cases "l25519 \<le> val x")
    case True
    then have "val (sc_sub x sc_L) = val x - l25519"
      by (simp add: sc_sub_def sub_modulus_val)
    then show ?thesis
      using True 1 by (simp add: sc_reduce.simps [of x] ge_val le_mod_geq)
  qed (simp add: sc_reduce.simps [of x] ge_val)
qed

lemma hash_reduced: "val (hash_to_scalar e data) < l25519"
  using l25519_bounds(3) by (simp add: hash_to_scalar_def Let_def sc_reduce_val)

lemma denotes_hash: "denotes (hash_to_scalar e data) (int (val (hash_to_scalar e data)))"
  by (rule denotes_self [OF hash_reduced])

lemma denotes_next: "denotes (fst (next_scalar e st)) (int (val (fst (next_scalar e st))))"
  by (simp add: next_scalar_def denotes_hash)

lemma next_pairs_reduced:
  "next_pairs e n st = (ls, rs, st') \<Longrightarrow> length ls = n \<and> length rs = n \<and> (\<forall>x\<in>set ls \<union> set rs. val x < l25519)"
  by (induction n arbitrary: st ls rs st') (auto simp: Let_def next_scalar_def hash_reduced split: prod.splits)

lemma denotes_powers:
  "denotes acc k \<Longrightarrow> denotes y m \<Longrightarrow> i < n \<Longrightarrow> denotes (powers_from acc y n ! i) (k * m ^ i)"
proof (induction n arbitrary: acc k i)
  case (Suc n)
  show ?case
  proof (cases i)
    case (Suc j)
    have "denotes (powers_from (sc_mul acc y) y n ! j) ((k * m) * m ^ j)"
      using Suc.prems Suc by (intro Suc.IH denotes_mul) simp_all
    then show ?thesis
      by (simp add: Suc mult.assoc)
  qed (use Suc.prems in simp)
qed simp

lemma length_powers_from [simp]: "length (powers_from acc y n) = n"
  by (induction n arbitrary: acc) simp_all

lemma unat_value_bit: "unat (value_bit v i) = unat v div 2 ^ i mod 2"
proof -
  have "unat (drop_bit i v AND 1) = unat v div 2 ^ i mod 2"
    using unat_less_pow [of v]
    by (simp only: and_one_eq unat_word_ariths unsigned_drop_bit_eq) (simp add: drop_bit_eq_div take_bit_eq_mod)
  moreover have "unat (drop_bit i v AND 1) < 2 ^ 64"
    unfolding calculation by (rule less_trans [of _ 2]) simp_all
  ultimately show ?thesis
    by (simp add: value_bit_def unsigned_ucast_eq take_bit_eq_mod)
qed

lemma value_bits_sum: "(\<Sum>i\<leftarrow>[0..<n]. int (unat (value_bit v i)) * 2 ^ i) = int (unat v mod 2 ^ n)"
proof (induction n)
  case (Suc n)
  have "unat v mod 2 ^ Suc n = unat v mod 2 ^ n + 2 ^ n * (unat v div 2 ^ n mod 2)"
    by (simp only: power_Suc2 mod_mult2_eq add.commute)
  then show ?case
    using Suc by (simp add: unat_value_bit)
qed simp

lemma value_bit_square: "int (unat (value_bit v i)) * int (unat (value_bit v i)) = int (unat (value_bit v i))"
  unfolding unat_value_bit by (auto simp: mod2_eq_if)

lemma denotes_two_pow: "i < 64 \<Longrightarrow> denotes (two_pow i) (2 ^ i)"
proof -
  assume "i < 64"
  then have "unat (push_bit i 1 :: u64) = 2 ^ i"
    using unat_of_nat_small [of "2 ^ i", where ?'a = 64] power_strict_increasing [of i 64 "2 :: nat"] by simp
  then show ?thesis
    using denotes_u64 [of "push_bit i 1"] unfolding two_pow_def by (metis of_nat_numeral of_nat_power)
qed

lemma denotes_delta:
  assumes "denotes y Y" "denotes z Z"
  shows "denotes (delta_yz y z) ((Z - Z * Z) * (\<Sum>i\<leftarrow>[0..<8]. Y ^ i) - Z * Z * Z * (\<Sum>i\<leftarrow>[0..<8]. 2 ^ i))"
proof -
  have "powers_from limbs_one y 8 = map (\<lambda>i. powers_from limbs_one y 8 ! i) [0..<8]"
    by (metis length_powers_from map_nth)
  then have "foldl sc_add limbs_zero (powers_from limbs_one y 8) = foldl (\<lambda>t i. sc_add t (powers_from limbs_one y 8 ! i)) limbs_zero [0..<8]"
    by (metis foldl_map)
  moreover have "denotes \<dots> (0 + (\<Sum>i\<leftarrow>[0..<8]. 1 * Y ^ i))"
    using assms(1) by (intro denotes_fold denotes_small denotes_powers) simp_all
  ultimately have "denotes (foldl sc_add limbs_zero (powers_from limbs_one y 8)) (\<Sum>i\<leftarrow>[0..<8]. Y ^ i)"
    by simp
  moreover have "denotes (foldl (\<lambda>t i. sc_add t (two_pow i)) limbs_zero [0..<8]) (0 + (\<Sum>i\<leftarrow>[0..<8]. 2 ^ i))"
    by (intro denotes_fold denotes_small denotes_two_pow) simp_all
  ultimately show ?thesis
    using assms(2) unfolding delta_yz_def Let_def add_0 by (intro denotes_ops)
qed

text \<open>The inner product as a polynomial in \<open>x\<close>: its constant part is the committed value and the verifier's \<open>delta\<close>.\<close>

lemma inner_product_polynomial:
  fixes a s s' Y w :: "nat \<Rightarrow> int" and x z :: int
  assumes "\<And>i. a i * a i = a i"
  shows "(\<Sum>i\<leftarrow>is. (a i - z + s i * x) * (Y i * (a i - 1 + z + s' i * x) + z * z * w i)) =
    z * z * (\<Sum>i\<leftarrow>is. a i * w i) + ((z - z * z) * (\<Sum>i\<leftarrow>is. Y i) - z * z * z * (\<Sum>i\<leftarrow>is. w i)) +
    x * (\<Sum>i\<leftarrow>is. (a i - z) * (Y i * s' i) + s i * (Y i * (a i - 1 + z) + z * z * w i)) + x * x * (\<Sum>i\<leftarrow>is. s i * (Y i * s' i))"
proof (induction "is")
  case (Cons i "is")
  have "(a i - z + s i * x) * (Y i * (a i - 1 + z + s' i * x) + z * z * w i) = Y i * (a i * a i - a i) +
      (z * z * (a i * w i) + ((z - z * z) * Y i - z * z * z * w i) +
       x * ((a i - z) * (Y i * s' i) + s i * (Y i * (a i - 1 + z) + z * z * w i)) + x * x * (s i * (Y i * s' i)))"
    by (simp add: algebra_simps)
  then show ?case
    using Cons by (simp add: assms distrib_left)
qed simp

lemma denotes_bits:
  "i < 8 \<Longrightarrow> denotes (bits_left v ! i) (int (unat (value_bit v i)))"
  "i < 8 \<Longrightarrow> denotes (bits_right v ! i) (int (unat (value_bit v i)) - 1)"
proof -
  assume i: "i < 8"
  show "denotes (bits_left v ! i) (int (unat (value_bit v i)))"
    using i denotes_u64 by (simp add: bits_left_def)
  have "denotes (sc_sub (from_u64 (value_bit v i)) limbs_one) (int (unat (value_bit v i)) - 1)"
    by (intro denotes_sub denotes_u64 denotes_small)
  then show "denotes (bits_right v ! i) (int (unat (value_bit v i)) - 1)"
    using i by (simp add: bits_right_def)
qed

text \<open>What the prover computes from the bits, the blinding vectors and the challenges, as integers.\<close>

lemma recombine_mod:
  fixes m :: int
  assumes "t = (A + D + X * T1 + X * X * T2) mod m" "t1 = T1 mod m" "t2 = T2 mod m" "d = D mod m"
  shows "t = (A + d + t1 * X + t2 * (X * X)) mod m"
proof -
  have "A + D + X * T1 + X * X * T2 = A + D + T1 * X + T2 * (X * X)"
    by simp
  then show ?thesis
    unfolding assms by (simp only:) (intro mod_add_cong mod_mult_cong; simp)
qed

lemma prover_polynomial:
  assumes "length s_L = 8" "length s_R = 8" "\<forall>c\<in>set s_L \<union> set s_R. val c < l25519"
    "denotes y Y" "denotes z Z" "denotes x X" "unat v < 256"
  defines "a_L \<equiv> bits_left v" and "a_R \<equiv> bits_right v" and "yp \<equiv> powers_from limbs_one y 8"
  assumes t: "t_coefficients a_L a_R s_L s_R yp z = (t1, t2)"
  shows "denotes (inner_product (l_vector a_L s_L z x) (r_vector a_R s_R yp z x) [0..<8] 0 0)
    (Z * Z * int (unat v) + int (val (delta_yz y z)) + int (val t1) * X + int (val t2) * (X * X))"
proof -
  define a where "a = (\<lambda>i. int (unat (value_bit v i)))"
  let ?s = "\<lambda>i. int (val (s_L ! i))" and ?s' = "\<lambda>i. int (val (s_R ! i))"
  have s: "denotes (s_L ! i) (?s i)" "denotes (s_R ! i) (?s' i)" if "i < 8" for i
    using assms(1-3) that by (auto intro!: denotes_self)
  have yp: "denotes (yp ! i) (Y ^ i)" if "i < 8" for i
    using denotes_powers [OF denotes_small(2) assms(4) that] by (simp add: yp_def)
  have square: "a i * a i = a i" for i
    unfolding a_def by (rule value_bit_square)
  have bit: "denotes (a_L ! i) (a i)" "denotes (a_R ! i) (a i - 1)" if "i < 8" for i
    unfolding a_L_def a_R_def a_def by (rule denotes_bits [OF that])+
  note known = s yp bit denotes_two_pow assms(4-6)
  let ?l = "\<lambda>i. a i - Z + ?s i * X" and ?r = "\<lambda>i. Y ^ i * (a i - 1 + Z + ?s' i * X) + Z * Z * 2 ^ i"
  have "denotes (inner_product (l_vector a_L s_L z x) (r_vector a_R s_R yp z x) [0..<8] 0 0) (\<Sum>i\<leftarrow>[0..<8]. ?l i * ?r i)"
    unfolding inner_product_def l_vector_def r_vector_def
    by (intro denotes_sum) (auto intro!: denotes_ops known)
  moreover have "denotes t1 (\<Sum>i\<leftarrow>[0..<8]. (a i - Z) * (Y ^ i * ?s' i) + ?s i * (Y ^ i * (a i - 1 + Z) + Z * Z * 2 ^ i))"
    "denotes t2 (\<Sum>i\<leftarrow>[0..<8]. ?s i * (Y ^ i * ?s' i))"
    using t unfolding t_coefficients_def Let_def
    by (auto intro!: denotes_sum denotes_ops known)
  moreover have bits: "(\<Sum>i\<leftarrow>[0..<8]. a i * 2 ^ i) = int (unat v)"
    unfolding a_def value_bits_sum using assms(7) by simp
  ultimately show ?thesis
    using denotes_delta [OF assms(4,5)] unfolding inner_product_polynomial [of a, OF square] bits denotes_def
    by (intro recombine_mod)
qed

text \<open>The parts of a proof that its first equation is about, with the challenges they are hashed to.\<close>

lemma prove_parts:
  fixes e v r prng
  defines "bp \<equiv> prove_range_proof e v r prng"
  obtains s_L s_R y z t1 t2 tau1 tau2 x where
    "length s_L = 8" "length s_R = 8" "\<forall>c\<in>set s_L \<union> set s_R. val c < l25519" "val tau1 < l25519" "val tau2 < l25519"
    "hash_fs_y_z e (pedersen (from_u64 (ucast v)) r) (bp_A bp) (bp_S bp) = (y, z)"
    "t_coefficients (bits_left v) (bits_right v) s_L s_R (powers_from limbs_one y 8) z = (t1, t2)"
    "bp_T1 bp = pedersen t1 tau1" "bp_T2 bp = pedersen t2 tau2" "x = hash_fs_x e (bp_T1 bp) (bp_T2 bp)"
    "bp_tx bp = inner_product (l_vector (bits_left v) s_L z x) (r_vector (bits_right v) s_R (powers_from limbs_one y 8) z x) [0..<8] 0 0"
    "bp_taux bp = sc_add (sc_add (sc_mul tau2 (sc_mul x x)) (sc_mul tau1 x)) (sc_mul (sc_mul z z) r)"
proof -
  obtain g_pt h_pt d where gen: "get_generators = (g_pt, h_pt, d)" by (cases get_generators)
  obtain gs hs where vec: "get_vector_generators d = (gs, hs)" by (cases "get_vector_generators d")
  obtain alpha p1 where n1: "next_scalar e prng = (alpha, p1)" by (cases "next_scalar e prng")
  obtain s_L s_R p2 where n2: "next_pairs e 8 p1 = (s_L, s_R, p2)" by (cases "next_pairs e 8 p1")
  obtain beta p3 where n3: "next_scalar e p2 = (beta, p3)" by (cases "next_scalar e p2")
  obtain tau1 p4 where n4: "next_scalar e p3 = (tau1, p4)" by (cases "next_scalar e p3")
  obtain tau2 p5 where n5: "next_scalar e p4 = (tau2, p5)" by (cases "next_scalar e p4")
  define A where "A = vector_commit d h_pt alpha gs hs (bits_left v) (bits_right v)"
  define S where "S = vector_commit d h_pt beta gs hs s_L s_R"
  obtain y z where yz: "hash_fs_y_z e (pedersen (from_u64 (ucast v)) r) A S = (y, z)"
    by (cases "hash_fs_y_z e (pedersen (from_u64 (ucast v)) r) A S")
  obtain t1 t2 where t: "t_coefficients (bits_left v) (bits_right v) s_L s_R (powers_from limbs_one y 8) z = (t1, t2)"
    by (cases "t_coefficients (bits_left v) (bits_right v) s_L s_R (powers_from limbs_one y 8) z")
  have "val tau1 < l25519" "val tau2 < l25519"
    using n4 n5 hash_reduced by (auto simp: next_scalar_def)
  then show thesis
    using next_pairs_reduced [OF n2] yz t
    by (intro that [of s_L s_R tau1 tau2 y z t1 t2 "hash_fs_x e (pedersen t1 tau1) (pedersen t2 tau2)"])
      (simp_all add: bp_def prove_range_proof_def gen vec n1 n2 n3 n4 n5 A_def [symmetric] S_def [symmetric] case_prod_unfold Let_def)
qed

lemma challenges_reduced: "hash_fs_y_z e V A S = (y, z) \<Longrightarrow> val y < l25519 \<and> val z < l25519" "val (hash_fs_x e T1 T2) < l25519"
  by (auto simp: hash_fs_y_z_def Let_def hash_fs_x_def hash_reduced)

text \<open>C39: The 800-byte form of a proof is exact: \<^verbatim>\<open>Bulletproof::from_bytes\<close> returns a proof exactly when the bytes are those that
  \<^verbatim>\<open>to_bytes\<close> writes for it and all its points satisfy the curve equation, so proofs round-trip and no two byte strings decode alike.\<close>

theorem proof_bytes_exact:
  "bulletproof_from_bytes bs = Some b \<longleftrightarrow> proof_wf b \<and> bulletproof_to_bytes b = bs"
  by (rule from_bytes_iff)

text \<open>C38: The scalars of an honest proof satisfy the verifier's first equation in the exponents of the two generators.  For a value
  below 256 the prover's \<open>T1\<close> and \<open>T2\<close> are commitments to some \<open>t1\<close> and \<open>t2\<close>, its \<open>tx\<close> is \<open>z^2 v + delta + t1 x + t2 x^2\<close> with the
  \<open>delta\<close> that the verifier computes, and \<open>taux\<close> is the same combination of the blindings, modulo the group order.\<close>

theorem honest_proof_first_equation:
  assumes "unat v < 256" "val r < l25519"
  shows "let bp = prove_range_proof e v r prng;
      (y, z) = hash_fs_y_z e (pedersen (from_u64 (ucast v)) r) (bp_A bp) (bp_S bp);
      x = hash_fs_x e (bp_T1 bp) (bp_T2 bp) in
    \<exists>t1 t2 tau1 tau2. bp_T1 bp = pedersen t1 tau1 \<and> bp_T2 bp = pedersen t2 tau2 \<and>
      val (bp_tx bp) = (val z * val z * unat v + val (delta_yz y z) + val t1 * val x + val t2 * (val x * val x)) mod l25519 \<and>
      val (bp_taux bp) = (val z * val z * val r + val tau1 * val x + val tau2 * (val x * val x)) mod l25519"
proof -
  define bp where "bp = prove_range_proof e v r prng"
  obtain s_L s_R y z t1 t2 tau1 tau2 x where p:
    "length s_L = 8" "length s_R = 8" "\<forall>c\<in>set s_L \<union> set s_R. val c < l25519" "val tau1 < l25519" "val tau2 < l25519"
    "hash_fs_y_z e (pedersen (from_u64 (ucast v)) r) (bp_A bp) (bp_S bp) = (y, z)"
    "t_coefficients (bits_left v) (bits_right v) s_L s_R (powers_from limbs_one y 8) z = (t1, t2)"
    "bp_T1 bp = pedersen t1 tau1" "bp_T2 bp = pedersen t2 tau2" "x = hash_fs_x e (bp_T1 bp) (bp_T2 bp)"
    "bp_tx bp = inner_product (l_vector (bits_left v) s_L z x) (r_vector (bits_right v) s_R (powers_from limbs_one y 8) z x) [0..<8] 0 0"
    "bp_taux bp = sc_add (sc_add (sc_mul tau2 (sc_mul x x)) (sc_mul tau1 x)) (sc_mul (sc_mul z z) r)"
    unfolding bp_def by (rule prove_parts)
  have d: "denotes y (int (val y))" "denotes z (int (val z))" "denotes x (int (val x))" "denotes r (int (val r))"
    "denotes tau1 (int (val tau1))" "denotes tau2 (int (val tau2))"
    using challenges_reduced(1) [OF p(6)] challenges_reduced(2) assms(2) p(4,5,10) by (auto intro: denotes_self)
  have "denotes (bp_tx bp) (int (val z) * int (val z) * int (unat v) + int (val (delta_yz y z)) + int (val t1) * int (val x)
      + int (val t2) * (int (val x) * int (val x)))"
    unfolding p(11) by (rule prover_polynomial [OF p(1-3) d(1-3) assms(1) p(7)])
  moreover have "denotes (bp_taux bp) (int (val tau2) * (int (val x) * int (val x)) + int (val tau1) * int (val x)
      + int (val z) * int (val z) * int (val r))"
    unfolding p(12) by (intro denotes_ops d)
  ultimately have "val (bp_tx bp) = (val z * val z * unat v + val (delta_yz y z) + val t1 * val x + val t2 * (val x * val x)) mod l25519"
    "val (bp_taux bp) = (val z * val z * val r + val tau1 * val x + val tau2 * (val x * val x)) mod l25519"
    unfolding denotes_def of_nat_mult [symmetric] of_nat_add [symmetric] of_nat_mod [symmetric] of_nat_eq_iff
    by (simp_all only: add.commute add.left_commute)
  then show ?thesis
    using p(6,8-10) by (auto simp: bp_def [symmetric] Let_def)
qed

theorem honest_proof_first_equation_witness:
  "let bp = prove_range_proof (sample_env 1) 5 limbs_one (replicate 32 0);
      (y, z) = hash_fs_y_z (sample_env 1) (pedersen (from_u64 (ucast (5 :: u32))) limbs_one) (bp_A bp) (bp_S bp);
      x = hash_fs_x (sample_env 1) (bp_T1 bp) (bp_T2 bp) in
    \<exists>t1 t2 tau1 tau2. bp_T1 bp = pedersen t1 tau1 \<and> bp_T2 bp = pedersen t2 tau2 \<and>
      val (bp_tx bp) = (val z * val z * unat (5 :: u32) + val (delta_yz y z) + val t1 * val x + val t2 * (val x * val x)) mod l25519 \<and>
      val (bp_taux bp) = (val z * val z * val limbs_one + val tau1 * val x + val tau2 * (val x * val x)) mod l25519"
  by (rule honest_proof_first_equation) (use l25519_bounds(3) in simp_all)


end
