(* ===== verification/Hooks.thy ===== *)
theory Hooks
  imports Submission
begin

text \<open>
  Score-change hooks (\<^verbatim>\<open>lib.rs\<close> from \<^verbatim>\<open>register_score_change_hook\<close> to \<^verbatim>\<open>dispatch_score_change_hooks\<close>): consumers subscribe to
  a wallet and pair, and a dispatch calls the next subscriber that has not seen the latest score.  The consumer contracts are a
  parameter, the outcome of a call; the host does not let them call back into the contract.  A hook is disabled after a run of
  failed calls as long as the threshold, and the registry keeps the counters of enabled hooks below it.
\<close>

record ScoreChangeHook =
  hk_consumer :: address
  hk_wallet :: address
  hk_asset_pair :: symbol
  hk_enabled :: bool
  hk_consecutive_failures :: u32
  hk_last_dispatched_count :: u32

record hook_registry =
  hr_hooks :: "ScoreChangeHook list"
  hr_failure_threshold :: "u32 option"

definition empty_hooks :: hook_registry where
  "empty_hooks = \<lparr>hr_hooks = [], hr_failure_threshold = None\<rparr>"

definition MAX_SCORE_CHANGE_HOOKS_PER_PAIR :: nat where "MAX_SCORE_CHANGE_HOOKS_PER_PAIR = 4"
definition MAX_SCORE_CHANGE_HOOKS_GLOBAL :: nat where "MAX_SCORE_CHANGE_HOOKS_GLOBAL = 32"
definition MAX_SCORE_CHANGE_HOOKS_PER_DISPATCH :: nat where "MAX_SCORE_CHANGE_HOOKS_PER_DISPATCH = 1"
definition DEFAULT_SCORE_HOOK_FAILURE_THRESHOLD :: u32 where "DEFAULT_SCORE_HOOK_FAILURE_THRESHOLD = 3"
definition MAX_SCORE_HOOK_FAILURE_THRESHOLD :: u32 where "MAX_SCORE_HOOK_FAILURE_THRESHOLD = 10"

definition get_score_hook_failure_threshold :: "hook_registry \<Rightarrow> u32" where
  "get_score_hook_failure_threshold x = unwrap_or (hr_failure_threshold x) DEFAULT_SCORE_HOOK_FAILURE_THRESHOLD"

definition hook_key :: "ScoreChangeHook \<Rightarrow> pair_key" where
  "hook_key h = (hk_wallet h, hk_asset_pair h)"

section \<open>Operations\<close>

definition get_score_change_hooks :: "pair_key \<Rightarrow> hook_registry \<Rightarrow> ScoreChangeHook list" where
  "get_score_change_hooks k x = filter (\<lambda>h. hook_key h = k) (hr_hooks x)"

definition register_score_change_hook :: "env \<Rightarrow> contract \<Rightarrow> address \<Rightarrow> pair_key \<Rightarrow> hook_registry \<Rightarrow> hook_registry res" where
  "register_score_change_hook e c consumer k x =
     (if is_score_hook_dispatching c then Inl (HookErr ScoreHookDispatchInProgress)
      else if \<not> has_admin (c_auth c) then Inl (Err NotInitialized)
      else
        bind_res (require_auth e consumer) (\<lambda>_.
        bind_res (ensure_asset_pair_bounded (snd k)) (\<lambda>_.
          let hooks = hr_hooks x; same_pair = get_score_change_hooks k x in
          if consumer \<in> hk_consumer ` set same_pair then Inl (HookErr ScoreHookAlreadyRegistered)
          else if MAX_SCORE_CHANGE_HOOKS_GLOBAL \<le> length hooks \<or> MAX_SCORE_CHANGE_HOOKS_PER_PAIR \<le> length same_pair
          then Inl (HookErr ScoreHookLimitReached)
          else Inr (x\<lparr>hr_hooks := hooks @
            [\<lparr>hk_consumer = consumer, hk_wallet = fst k, hk_asset_pair = snd k, hk_enabled = True, hk_consecutive_failures = 0,
              hk_last_dispatched_count = get_score_count k (c_stats c)\<rparr>]\<rparr>))))"

definition unregister_score_change_hook :: "env \<Rightarrow> contract \<Rightarrow> address \<Rightarrow> pair_key \<Rightarrow> hook_registry \<Rightarrow> hook_registry res" where
  "unregister_score_change_hook e c consumer k x =
     (if is_score_hook_dispatching c then Inl (HookErr ScoreHookDispatchInProgress)
      else
        bind_res (require_auth e consumer) (\<lambda>_.
          let own = (\<lambda>h. hk_consumer h = consumer \<and> hook_key h = k) in
          if \<not> list_ex own (hr_hooks x) then Inl (HookErr ScoreHookNotRegistered)
          else Inr (x\<lparr>hr_hooks := filter (\<lambda>h. \<not> own h) (hr_hooks x)\<rparr>)))"

definition set_score_hook_failure_threshold ::
    "env \<Rightarrow> contract \<Rightarrow> address list \<Rightarrow> u32 \<Rightarrow> hook_registry \<Rightarrow> hook_registry res" where
  "set_score_hook_failure_threshold e c signers threshold x =
     (if is_score_hook_dispatching c then Inl (HookErr ScoreHookDispatchInProgress)
      else if \<not> has_admin (c_auth c) then Inl (Err NotInitialized)
      else if threshold = 0 \<or> MAX_SCORE_HOOK_FAILURE_THRESHOLD < threshold then Inl (Err InvalidThreshold)
      else
        bind_res (require_admin_auth e signers (c_auth c)) (\<lambda>_.
          if list_ex (\<lambda>h. hk_enabled h \<and> threshold \<le> hk_consecutive_failures h) (hr_hooks x) then Inl (Err InvalidThreshold)
          else Inr (x\<lparr>hr_failure_threshold := Some threshold\<rparr>)))"

text \<open>What a call leaves of the hook it went to; the loop over the registry, with the number of calls made so far.\<close>

definition after_call :: "bool \<Rightarrow> u32 \<Rightarrow> u32 \<Rightarrow> ScoreChangeHook \<Rightarrow> ScoreChangeHook \<times> event list" where
  "after_call ok threshold count h =
     (if ok then (h\<lparr>hk_consecutive_failures := 0, hk_last_dispatched_count := count\<rparr>, [])
      else
        let failures = saturating_add (hk_consecutive_failures h) 1;
            h = h\<lparr>hk_consecutive_failures := failures, hk_last_dispatched_count := count\<rparr> in
        if failures = threshold
        then (h\<lparr>hk_enabled := False\<rparr>,
              [Event ''score_hook_auto_disabled'' [VAddr (hk_consumer h), VAddr (hk_wallet h), VSym (hk_asset_pair h), VU32 failures]])
        else (h, []))"

definition hook_due :: "pair_key \<Rightarrow> u32 \<Rightarrow> ScoreChangeHook \<Rightarrow> bool" where
  "hook_due k count h \<longleftrightarrow> hk_enabled h \<and> hook_key h = k \<and> hk_last_dispatched_count h < count"

fun dispatch_loop ::
    "(address \<Rightarrow> bool) \<Rightarrow> u32 \<Rightarrow> pair_key \<Rightarrow> u32 \<Rightarrow> nat \<Rightarrow> ScoreChangeHook list \<Rightarrow> ScoreChangeHook list \<times> nat \<times> event list" where
  "dispatch_loop answers threshold k count dispatched [] = ([], dispatched, [])"
| "dispatch_loop answers threshold k count dispatched (h # hs) =
     (if MAX_SCORE_CHANGE_HOOKS_PER_DISPATCH \<le> dispatched then (h # hs, dispatched, [])
      else if \<not> hook_due k count h then
        (let (hs', n, evs) = dispatch_loop answers threshold k count dispatched hs in (h # hs', n, evs))
      else
        (let (h', evs1) = after_call (answers (hk_consumer h)) threshold count h;
             (hs', n, evs2) = dispatch_loop answers threshold k count (Suc dispatched) hs
         in (h' # hs', n, evs1 @ evs2)))"

definition dispatch_score_change_hooks ::
    "(RiskScore \<Rightarrow> u32 \<Rightarrow> address \<Rightarrow> bool) \<Rightarrow> env \<Rightarrow> contract \<Rightarrow> address \<Rightarrow> pair_key \<Rightarrow> hook_registry \<Rightarrow>
     ((contract \<times> hook_registry) \<times> nat \<times> event list) res" where
  "dispatch_score_change_hooks consumers e c dispatcher k x =
     (if is_score_hook_dispatching c then Inl (HookErr ScoreHookDispatchInProgress)
      else
        bind_res (require_auth e dispatcher) (\<lambda>_.
          let count = get_score_count k (c_stats c) in
          case scores (c_store c) k of
            None \<Rightarrow> Inl (Err ScoreNotFound)
          | Some risk_score \<Rightarrow>
              (let (hooks, dispatched, evs) =
                     dispatch_loop (consumers risk_score count) (get_score_hook_failure_threshold x) k count 0 (hr_hooks x)
               in Inr ((c\<lparr>score_hook_dispatching := Some False\<rparr>, x\<lparr>hr_hooks := hooks\<rparr>), dispatched, evs))))"

section \<open>One dispatch\<close>

lemma after_call_facts:
  "hk_consumer (fst (after_call ok t n h)) = hk_consumer h" "hook_key (fst (after_call ok t n h)) = hook_key h"
  "hk_last_dispatched_count (fst (after_call ok t n h)) = n"
  by (simp_all add: after_call_def hook_key_def Let_def)

lemma dispatch_loop_full: "dispatch_loop answers t k n (Suc 0) hs = (hs, Suc 0, [])"
  by (cases hs) (simp_all add: MAX_SCORE_CHANGE_HOOKS_PER_DISPATCH_def)

lemma dispatch_loop_none: "\<forall>h\<in>set hs. \<not> hook_due k n h \<Longrightarrow> dispatch_loop answers t k n 0 hs = (hs, 0, [])"
  by (induction hs) (simp_all add: MAX_SCORE_CHANGE_HOOKS_PER_DISPATCH_def)

lemma dispatch_loop_first:
  "\<forall>h\<in>set before. \<not> hook_due k n h \<Longrightarrow> hook_due k n h \<Longrightarrow>
   dispatch_loop answers t k n 0 (before @ h # behind) =
     (before @ fst (after_call (answers (hk_consumer h)) t n h) # behind, 1, snd (after_call (answers (hk_consumer h)) t n h))"
  by (induction before) (auto simp: MAX_SCORE_CHANGE_HOOKS_PER_DISPATCH_def dispatch_loop_full split: prod.splits)

text \<open>The registry after a dispatch: unchanged when nobody is due, otherwise with one hook replaced by what the call left of it.\<close>

lemma dispatch_cases:
  assumes "dispatch_score_change_hooks consumers e c dispatcher k x = Inr ((c', x'), n, evs)"
  defines "due \<equiv> hook_due k (get_score_count k (c_stats c))"
  obtains "\<forall>h\<in>set (hr_hooks x). \<not> due h" "x' = x" "n = 0" "evs = []"
  | before h behind ok where "hr_hooks x = before @ h # behind" "\<forall>h\<in>set before. \<not> due h" "due h" "n = 1"
      "x' = x\<lparr>hr_hooks := before @ fst (after_call ok (get_score_hook_failure_threshold x) (get_score_count k (c_stats c)) h) # behind\<rparr>"
proof (cases "\<exists>h\<in>set (hr_hooks x). due h")
  case True
  then obtain before h behind where h: "hr_hooks x = before @ h # behind" "due h" "\<forall>h\<in>set before. \<not> due h"
    using split_list_first_propE [of "hr_hooks x" due] by metis
  then show ?thesis
    using assms(1) that(2) [OF h(1,3,2)]
    by (auto simp: dispatch_score_change_hooks_def bind_res_Inr_iff Let_def due_def dispatch_loop_first split: if_splits option.splits)
next
  case False
  then show ?thesis
    using assms(1) that(1)
    by (auto simp: dispatch_score_change_hooks_def bind_res_Inr_iff Let_def due_def dispatch_loop_none split: if_splits option.splits)
qed

text \<open>A dispatch serves the first hook that is enabled, subscribed to the pair and behind the latest score, and only that one:
  the hooks that remain due are the other ones that were due, in the same order, and no subscription is lost.  So each due hook is
  called once per score, after at most as many dispatches as there are hooks due.\<close>

theorem dispatch_serves_next_due:
  assumes "dispatch_score_change_hooks consumers e c dispatcher k x = Inr ((c', x'), n, evs)"
  shows "filter (hook_due k (get_score_count k (c_stats c))) (hr_hooks x') = tl (filter (hook_due k (get_score_count k (c_stats c))) (hr_hooks x)) \<and>
    n = min 1 (length (filter (hook_due k (get_score_count k (c_stats c))) (hr_hooks x))) \<and>
    map (\<lambda>h. (hk_consumer h, hook_key h)) (hr_hooks x') = map (\<lambda>h. (hk_consumer h, hook_key h)) (hr_hooks x) \<and>
    filter (\<lambda>h. hook_key h \<noteq> k) (hr_hooks x') = filter (\<lambda>h. hook_key h \<noteq> k) (hr_hooks x) \<and>
    get_score_count k (c_stats c') = get_score_count k (c_stats c) \<and> \<not> is_score_hook_dispatching c'"
proof -
  have c': "c' = c\<lparr>score_hook_dispatching := Some False\<rparr>"
    using assms by (auto simp: dispatch_score_change_hooks_def bind_res_Inr_iff Let_def split: if_splits option.splits prod.splits)
  show ?thesis
    using assms
  proof (cases rule: dispatch_cases)
    case (2 before h behind ok)
    then have "\<not> hook_due k (get_score_count k (c_stats c)) (fst (after_call ok t (get_score_count k (c_stats c)) h))" for t
      by (simp add: hook_due_def after_call_facts)
    moreover have "hook_key h = k"
      using 2(3) by (simp add: hook_due_def)
    ultimately show ?thesis
      using 2 c' by (simp add: after_call_facts is_score_hook_dispatching_def)
  qed (simp add: c' is_score_hook_dispatching_def)
qed

section \<open>The registry\<close>

definition hooks_wf :: "hook_registry \<Rightarrow> bool" where
  "hooks_wf x \<longleftrightarrow> length (hr_hooks x) \<le> MAX_SCORE_CHANGE_HOOKS_GLOBAL \<and>
     (\<forall>k. length (get_score_change_hooks k x) \<le> MAX_SCORE_CHANGE_HOOKS_PER_PAIR) \<and>
     distinct (map (\<lambda>h. (hk_consumer h, hook_key h)) (hr_hooks x)) \<and>
     0 < get_score_hook_failure_threshold x \<and> get_score_hook_failure_threshold x \<le> MAX_SCORE_HOOK_FAILURE_THRESHOLD \<and>
     (\<forall>h\<in>set (hr_hooks x). hk_enabled h \<longrightarrow> hk_consecutive_failures h < get_score_hook_failure_threshold x)"

inductive hook_step :: "env \<Rightarrow> contract \<Rightarrow> hook_registry \<Rightarrow> hook_registry \<Rightarrow> bool" for e c x where
  register: "register_score_change_hook e c consumer k x = Inr x' \<Longrightarrow> hook_step e c x x'"
| unregister: "unregister_score_change_hook e c consumer k x = Inr x' \<Longrightarrow> hook_step e c x x'"
| threshold: "set_score_hook_failure_threshold e c signers n x = Inr x' \<Longrightarrow> hook_step e c x x'"
| dispatch: "dispatch_score_change_hooks consumers e c dispatcher k x = Inr ((c', x'), n, evs) \<Longrightarrow> hook_step e c x x'"

inductive hooks_reachable :: "hook_registry \<Rightarrow> bool" where
  start: "hooks_reachable empty_hooks"
| step: "hooks_reachable x \<Longrightarrow> hook_step e c x x' \<Longrightarrow> hooks_reachable x'"

text \<open>A failed call counts one more failure, and disables the hook when it reaches the threshold.\<close>

lemma after_call_counter:
  assumes "hk_enabled h \<longrightarrow> hk_consecutive_failures h < t" "0 < t" "hk_enabled (fst (after_call ok t n h))"
  shows "hk_consecutive_failures (fst (after_call ok t n h)) < t"
proof (cases ok)
  case False
  define f where "f = hk_consecutive_failures h"
  have "hk_enabled h" and f: "saturating_add f 1 \<noteq> t"
    using assms(3) False by (auto simp: after_call_def Let_def f_def split: if_splits)
  then have "f < t"
    using assms(1) by (simp add: f_def)
  then have "saturating_add f 1 \<le> t"
    by (simp add: word_le_nat_alt word_less_nat_alt unat_saturating_add)
  then show ?thesis
    using f False by (simp add: after_call_def Let_def f_def [symmetric])
qed (use assms(2) in \<open>simp add: after_call_def\<close>)

lemma register_wf:
  assumes "register_score_change_hook e c consumer k x = Inr x'" "hooks_wf x"
  shows "hooks_wf x'"
proof -
  let ?new = "\<lparr>hk_consumer = consumer, hk_wallet = fst k, hk_asset_pair = snd k, hk_enabled = True, hk_consecutive_failures = 0,
    hk_last_dispatched_count = get_score_count k (c_stats c)\<rparr>"
  have x': "x' = x\<lparr>hr_hooks := hr_hooks x @ [?new]\<rparr>" and new: "consumer \<notin> hk_consumer ` set (get_score_change_hooks k x)"
    "length (hr_hooks x) < MAX_SCORE_CHANGE_HOOKS_GLOBAL" "length (get_score_change_hooks k x) < MAX_SCORE_CHANGE_HOOKS_PER_PAIR"
    using assms(1) by (auto simp: register_score_change_hook_def bind_res_Inr_iff Let_def not_le split: if_splits)
  have "get_score_change_hooks k' x' = get_score_change_hooks k' x @ (if k' = k then [?new] else [])" for k'
    by (cases k) (simp add: x' get_score_change_hooks_def hook_key_def)
  moreover have "(consumer, k) \<notin> set (map (\<lambda>h. (hk_consumer h, hook_key h)) (hr_hooks x))"
    using new(1) by (auto simp: get_score_change_hooks_def)
  moreover have "get_score_hook_failure_threshold x' = get_score_hook_failure_threshold x"
    by (simp add: x' get_score_hook_failure_threshold_def)
  ultimately show ?thesis
    using assms(2) new(2,3) by (auto simp: hooks_wf_def x' hook_key_def)
qed

lemma unregister_wf:
  assumes "unregister_score_change_hook e c consumer k x = Inr x'" "hooks_wf x"
  shows "hooks_wf x'"
proof -
  obtain P where x': "x' = x\<lparr>hr_hooks := filter P (hr_hooks x)\<rparr>"
    using assms(1) by (auto simp: unregister_score_change_hook_def bind_res_Inr_iff Let_def split: if_splits)
  have "get_score_change_hooks k' x' = filter P (get_score_change_hooks k' x)" for k'
    by (simp add: x' get_score_change_hooks_def conj_commute)
  then have "length (get_score_change_hooks k' x') \<le> length (get_score_change_hooks k' x)" for k'
    by (simp add: length_filter_le)
  then show ?thesis
    using assms(2) le_trans [OF length_filter_le [of P "hr_hooks x"]]
    by (fastforce simp: hooks_wf_def x' get_score_hook_failure_threshold_def distinct_map_filter intro: le_trans)
qed

lemma threshold_wf:
  assumes "set_score_hook_failure_threshold e c signers n x = Inr x'" "hooks_wf x"
  shows "hooks_wf x'"
  using assms
  by (auto simp: set_score_hook_failure_threshold_def bind_res_Inr_iff hooks_wf_def get_score_hook_failure_threshold_def
      get_score_change_hooks_def list_ex_iff not_less not_le word_gt_0 split: if_splits)

lemma dispatch_wf:
  assumes "dispatch_score_change_hooks consumers e c dispatcher k x = Inr ((c', x'), n, evs)" "hooks_wf x"
  shows "hooks_wf x'"
  using assms(1)
proof (cases rule: dispatch_cases)
  case (2 before h behind ok)
  let ?h = "fst (after_call ok (get_score_hook_failure_threshold x) (get_score_count k (c_stats c)) h)"
  have "length (get_score_change_hooks k' x') = length (get_score_change_hooks k' x)" for k'
    by (simp add: 2 get_score_change_hooks_def after_call_facts)
  moreover have "hk_enabled ?h \<longrightarrow> hk_consecutive_failures ?h < get_score_hook_failure_threshold x"
    using after_call_counter [of h] assms(2) 2(1) by (auto simp: hooks_wf_def)
  ultimately show ?thesis
    using assms(2) 2(1,5) by (auto simp: hooks_wf_def get_score_hook_failure_threshold_def after_call_facts)
qed (use assms(2) in simp)

text \<open>C40: In every reachable registry there are at most 32 hooks, at most four per wallet and pair, no consumer is subscribed twice to
  one, the failure threshold is between one and ten, and every enabled hook has failed less often in a row than the threshold; so
  the test for equality that disables a hook is never missed.\<close>

theorem reachable_hooks_wf:
  assumes "hooks_reachable x"
  shows "hooks_wf x"
  using assms
proof (induction rule: hooks_reachable.induct)
  case start
  show ?case
    by (simp add: hooks_wf_def empty_hooks_def get_score_change_hooks_def get_score_hook_failure_threshold_def
        DEFAULT_SCORE_HOOK_FAILURE_THRESHOLD_def MAX_SCORE_HOOK_FAILURE_THRESHOLD_def)
next
  case (step x e c x')
  from step(2) show ?case
    using register_wf unregister_wf threshold_wf dispatch_wf step.IH by (cases rule: hook_step.cases) blast+
qed

section \<open>Witnesses\<close>

definition hooked_contract :: contract where
  "hooked_contract = sample_contract\<lparr>
     c_store := (c_store sample_contract)\<lparr>scores := (\<lambda>k. Some \<lparr>rs_score = 40, rs_benford_flag = False, rs_ml_flag = False,
       rs_timestamp = 1, rs_confidence = 90, rs_model_version = 1, rs_benford_score = 0, rs_ml_score = 0, rs_network_score = 0,
       rs_commitment = None\<rparr>)\<rparr>,
     c_stats := (c_stats sample_contract)\<lparr>score_count := (\<lambda>k. Some 1)\<rparr>\<rparr>"

definition subscribed :: "u32 \<Rightarrow> ScoreChangeHook" where
  "subscribed count = \<lparr>hk_consumer = Addr 11, hk_wallet = Addr 7, hk_asset_pair = ''XLM'', hk_enabled = True, hk_consecutive_failures = 0,
     hk_last_dispatched_count = count\<rparr>"

lemma hooked_contract_facts:
  "\<not> is_score_hook_dispatching hooked_contract" "\<not> is_score_hook_dispatching sample_contract" "has_admin (c_auth sample_contract)"
  "get_score_count k (c_stats hooked_contract) = 1" "get_score_count k (c_stats sample_contract) = 0"
  "scores (c_store hooked_contract) k \<noteq> None"
  by (simp_all add: hooked_contract_def is_score_hook_dispatching_def sample_contract_def empty_contract_def get_score_count_def
      empty_stats_def sample_auth_def has_admin_def)

lemma register_sample:
  "register_score_change_hook (sample_env 1) sample_contract (Addr 11) (Addr 7, ''XLM'') empty_hooks =
     Inr \<lparr>hr_hooks = [subscribed 0], hr_failure_threshold = None\<rparr>"
  by (simp add: register_score_change_hook_def hooked_contract_facts empty_hooks_def get_score_change_hooks_def require_auth_def
      ensure_asset_pair_bounded_def asset_pair_is_bounded_def MAX_ASSET_PAIR_BYTES_def subscribed_def
      MAX_SCORE_CHANGE_HOOKS_GLOBAL_def MAX_SCORE_CHANGE_HOOKS_PER_PAIR_def bind_res_def
      get_score_count_def empty_stats_def)

lemma dispatch_sample:
  "dispatch_score_change_hooks (\<lambda>_ _ _. True) (sample_env 2) hooked_contract (Addr 5) (Addr 7, ''XLM'')
     \<lparr>hr_hooks = [subscribed 0], hr_failure_threshold = None\<rparr> =
   Inr ((hooked_contract\<lparr>score_hook_dispatching := Some False\<rparr>, \<lparr>hr_hooks = [subscribed 1], hr_failure_threshold = None\<rparr>), 1, [])"
proof -
  obtain s where "scores (c_store hooked_contract) (Addr 7, ''XLM'') = Some s"
    using hooked_contract_facts(6) by blast
  then show ?thesis
    by (simp add: dispatch_score_change_hooks_def hooked_contract_facts require_auth_def bind_res_def Let_def hook_due_def subscribed_def
        hook_key_def after_call_def MAX_SCORE_CHANGE_HOOKS_PER_DISPATCH_def)
qed

theorem dispatch_serves_next_due_witness:
  "filter (hook_due (Addr 7, ''XLM'') 1) [subscribed 1] = [] \<and> filter (hook_due (Addr 7, ''XLM'') 1) [subscribed 0] = [subscribed 0]"
  using dispatch_serves_next_due [OF dispatch_sample]
  by (simp add: hooked_contract_facts hook_due_def subscribed_def hook_key_def)

theorem reachable_hooks_wf_witness:
  "\<exists>x. hooks_reachable x \<and> hr_hooks x = [subscribed 1] \<and> hooks_wf x"
proof -
  let ?x = "\<lparr>hr_hooks = [subscribed 1], hr_failure_threshold = None\<rparr>"
  have "hooks_reachable \<lparr>hr_hooks = [subscribed 0], hr_failure_threshold = None\<rparr>"
    by (rule hooks_reachable.step [OF hooks_reachable.start hook_step.register [OF register_sample]])
  then have "hooks_reachable ?x"
    by (rule hooks_reachable.step [OF _ hook_step.dispatch [OF dispatch_sample]])
  then show ?thesis
    using reachable_hooks_wf [of ?x] by (intro exI [of _ ?x]) simp
qed

end
