(* ===== verification/Spec2Isabelle.thy ===== *)
theory Spec2Isabelle
  imports Finality Merkle Statistics Gate Contagion Dispute Governance Credits Keeper Relay Aggregator Range_Proof Hooks
begin

text \<open>
  Verification of the LedgerLens contracts: the score contract (\<^verbatim>\<open>contracts/ledgerlens-score/src\<close>) and the shard aggregator
  (\<^verbatim>\<open>contracts/ledgerlens-aggregator/src\<close>).

  \<^bold>\<open>The program.\<close>  A detection service submits risk scores of wallets for asset pairs.  A submission passes authorization,
  normalization, validation and rate limits, waits in a finality buffer when one is configured, and is then written together with
  history, aggregates, histogram, counters, risk signals and a state commitment.  Other contracts ask the risk gate whether a wallet is
  below a threshold.  Around this core stand role and signer management, disputes with bonds, embargoes, delegation, model consensus,
  time-locked governance, prepaid gate credits, keeper rewards, relayed attestations, callbacks to consumers, and zero-knowledge
  proofs about a committed score.  The aggregator fans queries out to several deployments of the score contract.

  \<^bold>\<open>How it is modelled.\<close>  Storage is a record per component, with a map for every keyed entry and an option for every entry that
  has a default; \<^verbatim>\<open>contract\<close> in \<^verbatim>\<open>Submission\<close> joins the records that one submission writes.  An operation of the source is a function of
  the same name from the environment (time, ledger number, who has authorized, the host's hash and signature functions), its
  arguments and the state to a failure or the new state with the published events.  A failure is an error code or a trap and leaves
  the state as it was, as the host rolls a failed transaction back.  Unsigned integers are words of their width: sums that the source
  saturates saturate, sums that it leaves plain trap on overflow, as the release profile checks overflow; \<^verbatim>\<open>i128\<close> amounts are integers
  clamped where the source saturates.  What the sources only call is a parameter: the token contract, the secondary contract of
  the failover, the shards of the aggregator, the consumers of hooks, hash and signature recovery.

  \<^bold>\<open>Theories.\<close>
  \<^item> \<^verbatim>\<open>Prelude\<close>, \<^verbatim>\<open>Ledger_Types\<close>: words, bytes, failures; \<^verbatim>\<open>types.rs\<close>, \<^verbatim>\<open>errors.rs\<close> and \<^verbatim>\<open>constants.rs\<close>.
  \<^item> \<^verbatim>\<open>Bounded_Index\<close>, \<^verbatim>\<open>Score_Store\<close>, \<^verbatim>\<open>History\<close>, \<^verbatim>\<open>Score_Stats\<close>, \<^verbatim>\<open>Portfolio\<close>, \<^verbatim>\<open>Accumulator\<close>: what a write stores.  The early-stopping rent
    sweep equals the full scan; the history is the most recent writes; the aggregate lies between its components; the incremental
    commitment is the exclusive or of all leaves.
  \<^item> \<^verbatim>\<open>Risk_Monitor\<close>, \<^verbatim>\<open>Rate_Limit\<close>, \<^verbatim>\<open>Statistics\<close>: signals and admission.  Hysteresis and escalations over whole runs of writes, the
    spacing of admitted writes, the bound of the token bucket, termination and result of the integer square roots.
  \<^item> \<^verbatim>\<open>Auth\<close>, \<^verbatim>\<open>Attestation\<close>, \<^verbatim>\<open>Model_Registry\<close>, \<^verbatim>\<open>Delegation\<close>, \<^verbatim>\<open>Embargo\<close>: who may act and for whom.  Signer sets stay consistent, the admins
    are never locked out, an accepted attestation was signed, model versions move forward only.
  \<^item> \<^verbatim>\<open>Submission\<close>, \<^verbatim>\<open>Finality\<close>, \<^verbatim>\<open>Batch\<close>, \<^verbatim>\<open>Merkle\<close>, \<^verbatim>\<open>Consensus\<close>, \<^verbatim>\<open>Relay\<close>: the ways a score enters.  What a lookup returns after a
    submission, what the buffer holds back and releases, the exact result of a batch, the soundness of attested batches, what agreement a
    consensus score has, that a relayed message is applied once.
  \<^item> \<^verbatim>\<open>Gate\<close>, \<^verbatim>\<open>Credits\<close>, \<^verbatim>\<open>Keeper\<close>, \<^verbatim>\<open>Dispute\<close>, \<^verbatim>\<open>Contagion\<close>, \<^verbatim>\<open>Hooks\<close>, \<^verbatim>\<open>Token\<close>: consumers and money.  What a pass of the gate is backed by, solvency
    of the credits, keepers paid once per renewal, the index of open disputes, the counters of failing callbacks.
  \<^item> \<^verbatim>\<open>Settings\<close>, \<^verbatim>\<open>Governance\<close>: settings, staged changes, parameter proposals and upgrades, with their bounds and time locks.
  \<^item> \<^verbatim>\<open>Limbs\<close>, \<^verbatim>\<open>Field25519\<close>, \<^verbatim>\<open>Curve25519\<close>, \<^verbatim>\<open>Range_Proof\<close>: \<^verbatim>\<open>zk_range_proof.rs\<close>.  The multi-limb operations compute the residues they mean, decompression
    returns curve points, the byte form of proofs is exact, an honest proof satisfies the first equation of the verifier, and the
    commitments do not bind.
  \<^item> \<^verbatim>\<open>Aggregator\<close>: the shard registry, the fan-out reads and the split-brain diagnosis.

  This theory joins the operations on the score state into one step relation and proves what holds of every reachable state:
  all scores are in range, the pair lists agree with the stored scores, and the histogram counts the live scores under the operations
  that maintain it.

  \<^bold>\<open>Interfaces.\<close>  Locales state what one part relies on in another and are interpreted on the definitions of the model: capped
  lists that act as sets (\<^verbatim>\<open>bounded_index\<close>), buckets that refill over time (\<^verbatim>\<open>refilling_bucket\<close>), the write that every way of submitting
  ends in (\<^verbatim>\<open>score_writer\<close>), loops over the entries of a batch (\<^verbatim>\<open>batch_runner\<close>), the residue arithmetic shared by field and scalars
  (\<^verbatim>\<open>residue_ring\<close>) and the gate that a shard offers to the aggregator (\<^verbatim>\<open>backed_gate\<close>).

  \<^bold>\<open>Termination and bounds.\<close>  There is no fuel: loops over stored lists are structural recursions, the Newton iterations terminate
  by a decreasing measure, and the loops of the modular arithmetic by the value of the number they reduce or shift.

  \<^bold>\<open>Not modelled.\<close>
  \<^item> Time to live and archival of ledger entries, fees and resource limits of the host; the rent queue and the estimates computed from
    stored ledger numbers are modelled.
  \<^item> Queries that only read, exports, the differentially private and value-at-risk reports, snapshots and their reconciliation (they hash the
    host's serialization), and records that nothing else reads.
  \<^item> Functions the sources call without declaring them (proof encoding of \<^verbatim>\<open>verkle.rs\<close>, the reviewers' limit) and the simulation of parameter changes,
    whose file is cut off.
  \<^item> The propagation of contagion is modelled in \<^verbatim>\<open>Contagion\<close> but is not a step of the relation below, since it writes a score past the
    history and the histogram; this is one of the findings.
  \<^item> Primality of the two moduli and the group law of the curve: inversion is shown to be the power \<open>p - 2\<close>, and the verifier's equations are
    compared in the exponents.
  \<^item> Tests, benchmarks, tools, mock contracts and files that are not part of the crates' module trees.
\<close>

section \<open>Steps of the whole contract\<close>

inductive contract_step :: "env \<Rightarrow> contract \<Rightarrow> contract \<Rightarrow> bool" for e c where
  submit: "submit_score e signers s inp c = Inr (c', evs) \<Longrightarrow> contract_step e c c'"
| batch: "submit_scores_batch e subs c = Inr (c', r, evs) \<Longrightarrow> contract_step e c c'"
| attested: "submit_scores_batch_attested e signers entries att c = Inr (c', r, evs) \<Longrightarrow> contract_step e c c'"
| commit: "commit_pending_score e k c = Inr (c', evs) \<Longrightarrow> contract_step e c c'"
| reveal: "reveal_consensus e signers k models nonces ts (c, z) = Inr ((c', z'), evs) \<Longrightarrow> contract_step e c c'"
| consensus: "submit_consensus_score e signers k models ts (c, z) = Inr ((c', z'), evs) \<Longrightarrow> contract_step e c c'"
| cancel: "cancel_pending_score e signers k c = Inr (c', evs) \<Longrightarrow> contract_step e c c'"
| clear: "clear_score_with_audit e signers k reason category c = Inr (c', evs) \<Longrightarrow> contract_step e c c'"
| clear_history:
    "clear_score_history_with_audit e signers k reason category c = Inr (c', evs) \<Longrightarrow> contract_step e c c'"
| finality: "set_finality_buffer e signers secs c = Inr (c', evs) \<Longrightarrow> contract_step e c c'"
| flash: "set_flash_protection_mode e signers mode c = Inr (c', evs) \<Longrightarrow> contract_step e c c'"
| extend_ttl: "extend_score_entry_ttl e k (c_store c) = (found, store) \<Longrightarrow>
    contract_step e c (c\<lparr>c_store := store\<rparr>)"
| auth: "auth_step e (c_auth c) a \<Longrightarrow> contract_step e c (c\<lparr>c_auth := a\<rparr>)"
| models: "models_step e (c_auth c) (c_models c) r \<Longrightarrow> contract_step e c (c\<lparr>c_models := r\<rparr>)"
| embargo: "embargo_step e (c_auth c) (c_embargo c) m \<Longrightarrow> contract_step e c (c\<lparr>c_embargo := m\<rparr>)"
| delegate: "set_score_delegate e (c_auth c) w custodian (c_delegates c) = Inr (d, evs) \<Longrightarrow>
    contract_step e c (c\<lparr>c_delegates := d\<rparr>)"
| decay_rate: "set_decay_rate e (c_auth c) num den (c_portfolio c) = Inr (f, evs) \<Longrightarrow>
    contract_step e c (c\<lparr>c_portfolio := f\<rparr>)"
| pair_weight: "set_pair_weight e (c_auth c) signers p weight (c_portfolio c) = Inr (f, evs) \<Longrightarrow>
    contract_step e c (c\<lparr>c_portfolio := f\<rparr>)"
| cluster_boundaries: "set_cluster_boundaries e (c_auth c) signers bs (c_portfolio c) = Inr (f, evs) \<Longrightarrow>
    contract_step e c (c\<lparr>c_portfolio := f\<rparr>)"

inductive contract_reachable :: "contract \<Rightarrow> bool" where
  start: "contract_reachable empty_contract"
| step: "contract_reachable c \<Longrightarrow> contract_step e c c' \<Longrightarrow> contract_reachable c'"

definition contract_wf :: "contract \<Rightarrow> bool" where
  "contract_wf c \<longleftrightarrow> scores_wf c \<and>
     (\<forall>k pending. pending_score c k = Some pending \<longrightarrow> valid_risk_score (committed_score pending))"

lemma contract_wf_cong:
  "c_store c' = c_store c \<Longrightarrow> c_history c' = c_history c \<Longrightarrow>
   asset_pairs (c_portfolio c') = asset_pairs (c_portfolio c) \<Longrightarrow> pending_score c' = pending_score c \<Longrightarrow>
   contract_wf c' = contract_wf c"
  using scores_wf_cong [of c' c] by (simp add: contract_wf_def)

lemma pending_valid_upd:
  "contract_wf c \<Longrightarrow> scores_wf c' \<Longrightarrow> pending_score c' = pending_score c \<or>
     (\<exists>k. pending_score c' = (pending_score c)(k := None)) \<or>
     (\<exists>k p. pending_score c' = (pending_score c)(k \<mapsto> p) \<and> valid_risk_score (committed_score p)) \<Longrightarrow>
   contract_wf c'"
  by (auto simp: contract_wf_def split: if_splits)

lemma submit_wf:
  assumes "submit_score e signers s inp c = Inr (c', evs)" "contract_wf c"
  shows "contract_wf c'"
proof (cases "unwrap_or (finality_buffer_secs c) 0 = 0")
  case True
  note direct = submit_direct [OF assms(1) True]
  have "scores_wf c'"
    using records_scores_wf [OF direct(1)] direct(2) assms(2) by (simp add: contract_wf_def)
  then show ?thesis
    using direct(3) pending_valid_upd assms(2) by blast
next
  case False
  note buffered = submit_buffered [OF assms(1) refl False]
  have "scores_wf c'"
    using scores_wf_cong [OF buffered(1,2)] buffered(3) assms(2) by (simp add: contract_wf_def)
  then show ?thesis
    using buffered(5) pending_valid_upd assms(2) by blast
qed

lemma batch_entry_wf:
  "batch_entry e th i sub c = Inr (c', r, evs) \<Longrightarrow> scores_wf c \<Longrightarrow> scores_wf c'"
  using batch_entry_cases [of e th i sub c c' r evs] check_entry_valid
    batch_write.put_wf [of e "(th, sub, _)" c c' evs]
  by (auto split: if_splits)

lemma attested_entry_wf:
  "attested_entry e root th i x c = Inr (c', r, evs) \<Longrightarrow> scores_wf c \<Longrightarrow> scores_wf c'"
  using attested_entry_cases [of e root th i x c c' r evs] check_attested_Inr(2)
    attested_write.put_wf [of e "(th, sp_submission x, _)" c c' evs]
  by (auto split: if_splits)

lemma batch_Inr:
  assumes "submit_scores_batch e subs c = Inr (c', r, evs)"
  obtains c1 rs evs1 where "batch_loop e (get_effective_threshold c) 0 subs c = Inr (c1, rs, evs1)"
    "same_data c1 c'" "length subs \<le> MAX_BATCH_SIZE"
  using assms by (auto simp: submit_scores_batch_def bind_res_Inr_iff Let_def case_prod_unfold not_less
      split: if_splits)

lemma contract_wf_same_data:
  "scores_wf c1 \<Longrightarrow> pending_score c1 = pending_score c \<Longrightarrow> same_data c1 c' \<Longrightarrow> contract_wf c \<Longrightarrow> contract_wf c'"
  using scores_wf_cong [of c' c1] by (simp add: same_data_def contract_wf_def)

lemma batch_wf:
  assumes "submit_scores_batch e subs c = Inr (c', r, evs)" "contract_wf c"
  shows "contract_wf c'"
  using assms(1)
proof (rule batch_Inr)
  fix c1 rs evs1
  assume loop: "batch_loop e (get_effective_threshold c) 0 subs c = Inr (c1, rs, evs1)"
    and c': "same_data c1 c'"
  have "scores_wf c1"
    using plain_batch.loop_inv [OF loop, of scores_wf] batch_entry_wf assms(2) by (simp add: contract_wf_def)
  then show ?thesis
    using plain_batch.loop_effect [OF loop] c' assms(2) by (blast intro: contract_wf_same_data)
qed

lemma attested_wf:
  assumes "submit_scores_batch_attested e signers entries att c = Inr (c', r, evs)" "contract_wf c"
  shows "contract_wf c'"
  using assms(1)
proof (rule attested_Inr)
  fix y c1 evs1
  assume loop: "attested_loop e (ba_merkle_root att) (get_risk_threshold (c_monitor c)) 0 entries
      (c\<lparr>c_keys := y\<rparr>) = Inr (c1, br_results r, evs1)" and c': "same_data c1 c'"
  have "scores_wf (c\<lparr>c_keys := y\<rparr>)"
    using assms(2) scores_wf_cong [of "c\<lparr>c_keys := y\<rparr>" c] by (simp add: contract_wf_def)
  then have "scores_wf c1"
    using attested_batch.loop_inv [OF loop, of scores_wf] attested_entry_wf by blast
  then show ?thesis
    using attested_batch.loop_effect [OF loop] c' assms(2) by (auto intro: contract_wf_same_data)
qed

lemma commit_wf:
  assumes "commit_pending_score e k c = Inr (c', evs)" "contract_wf c"
  shows "contract_wf c'"
  using assms(1)
proof (rule commit_pending_Inr)
  fix pending
  assume p: "pending_score c k = Some pending" "pending_score c' = (pending_score c)(k := None)"
  have "scores_wf c" "valid_risk_score (committed_score pending)"
    using assms(2) p(1) unfolding contract_wf_def by blast+
  then have "scores_wf c'"
    using pending_commit.put_wf [OF assms(1)] p(1) by simp
  then show ?thesis
    using p pending_valid_upd assms(2) by blast
qed

lemma consensus_wf:
  assumes "reveal_consensus e signers k models nonces ts (c, z) = Inr ((c', z'), evs) \<or>
    submit_consensus_score e signers k models ts (c, z) = Inr ((c', z'), evs)" "contract_wf c"
  shows "contract_wf c'"
  using assms(1)
proof (rule consensus_writes)
  fix y t rs evs'
  let ?c = "c\<lparr>c_keys := y, last_global_submission_time := t\<rparr>"
  assume wr: "write_score_with_rate_limit e k rs ?c = Inr (c', evs')"
  have "scores_wf ?c"
    using assms(2) scores_wf_cong [of ?c c] by (simp add: contract_wf_def)
  moreover have "valid_risk_score rs"
    using wr by (auto elim: write_score_Inr intro: validate_risk_score_valid)
  ultimately have "scores_wf c'"
    using single_write.put_wf [of e "(k, rs)" ?c c' evs'] wr by simp
  then show ?thesis
    using pending_valid_upd [OF assms(2)] write_score_frame(1) [OF wr] by simp
qed

lemma remove_score_wf:
  assumes "scores_wf c"
  shows "scores_wf (remove_score k c)"
proof -
  obtain w p where k: "k = (w, p)"
    by (cases k)
  have "distinct (get_wallet_pairs w (c_portfolio c))"
    using assms by (simp add: scores_wf_def)
  then have "get_wallet_pairs v (remove_pair_for_wallet k (c_portfolio c)) =
      (if v = w then remove1 p (get_wallet_pairs w (c_portfolio c)) else get_wallet_pairs v (c_portfolio c))" for v
    by (auto simp: k remove_pair_for_wallet_def get_wallet_pairs_def Let_def remove1_idem)
  moreover have "c_history (remove_score k c) = c_history c"
    "c_portfolio (remove_score k c) = remove_pair_for_wallet k (c_portfolio c)"
    by (simp_all add: remove_score_def)
  ultimately show ?thesis
    using assms by (auto simp: scores_wf_def k distinct_remove1)
qed

lemma clear_wf:
  assumes "clear_score_with_audit e signers k reason category c = Inr (c', evs)" "contract_wf c"
  shows "contract_wf c'"
proof -
  have "scores_wf (c\<lparr>c_limits := histogram_without k c\<rparr>)"
    using assms(2) scores_wf_cong [of "c\<lparr>c_limits := histogram_without k c\<rparr>" c] by (simp add: contract_wf_def)
  then show ?thesis
    using remove_score_wf assms(2) by (simp add: clear_score_Inr [OF assms(1)] contract_wf_def)
      (simp add: remove_score_def)
qed

lemma clear_history_Inr:
  assumes "clear_score_history_with_audit e signers k reason category c = Inr (c', evs)"
  shows "c' = c\<lparr>c_limits := histogram_without k c, c_history := clear_score_history k (c_history c)\<rparr>"
  using assms by (auto simp: clear_score_history_with_audit_def bind_res_Inr_iff split: if_splits)

lemma clear_history_wf:
  assumes "clear_score_history_with_audit e signers k reason category c = Inr (c', evs)" "contract_wf c"
  shows "contract_wf c'"
  using assms(2)
  by (auto simp: clear_history_Inr [OF assms(1)] contract_wf_def scores_wf_def get_score_history_def
      clear_score_history_def)

lemma extend_ttl_scores: "scores (snd (extend_score_entry_ttl e k s)) = scores s"
  by (simp add: extend_score_entry_ttl_def touch_score_entry_def reindex_entry_to_back_def
      Let_def split: option.splits)

lemma contract_wf_updates [simp]:
  "contract_wf (c\<lparr>c_auth := a\<rparr>) = contract_wf c" "contract_wf (c\<lparr>c_models := r\<rparr>) = contract_wf c"
  "contract_wf (c\<lparr>c_embargo := m\<rparr>) = contract_wf c" "contract_wf (c\<lparr>c_delegates := d\<rparr>) = contract_wf c"
  "contract_wf (c\<lparr>finality_buffer_secs := b\<rparr>) = contract_wf c"
  "contract_wf (c\<lparr>flash_protection_mode := mode\<rparr>) = contract_wf c"
  "contract_wf (c\<lparr>c_portfolio := (c_portfolio c)\<lparr>decay_rate := dr\<rparr>\<rparr>) = contract_wf c"
  "contract_wf (c\<lparr>c_portfolio := (c_portfolio c)\<lparr>pair_weight := pw\<rparr>\<rparr>) = contract_wf c"
  "contract_wf (c\<lparr>c_portfolio := (c_portfolio c)\<lparr>cluster_boundaries := bs\<rparr>\<rparr>) = contract_wf c"
  by (rule contract_wf_cong; simp)+

lemma contract_step_wf:
  assumes "contract_step e c c'" "contract_wf c"
  shows "contract_wf c'"
  using assms
proof (cases rule: contract_step.cases)
  case (cancel signers k evs)
  then have "pending_score c' = (pending_score c)(k := None)" "scores_wf c' = scores_wf c"
    by (auto simp: cancel_pending_score_def admin_guard_def bind_res_Inr_iff scores_wf_def split: if_splits)
  then show ?thesis
    using pending_valid_upd [of c c'] assms(2) contract_wf_def by blast
next
  case (extend_ttl k found store)
  then show ?thesis
    using assms(2) extend_ttl_scores [of e k "c_store c"] by (auto simp: contract_wf_def scores_wf_def)
qed (auto intro: submit_wf batch_wf attested_wf commit_wf consensus_wf clear_wf clear_history_wf
  simp: set_finality_buffer_def set_flash_protection_mode_def admin_guard_def stored_admin_guard_def
    bind_res_Inr_iff set_decay_rate_def set_pair_weight_def store_pair_weight_def set_cluster_boundaries_def split: if_splits)


lemma sample_contract_reachable: "contract_reachable sample_contract"
  using contract_reachable.step [OF contract_reachable.start
      contract_step.auth [of "sample_env 1" empty_contract sample_auth]] sample_auth_step
  by (simp add: sample_contract_def empty_contract_def)


section \<open>The histogram over the whole contract\<close>

lemma submit_histogram:
  assumes "submit_score e signers s inp c = Inr (c', evs)" "histogram_exact c"
    "card (dom (scores (c_store c))) < 2 ^ 64 - 1"
  shows "histogram_exact c'"
proof (cases "unwrap_or (finality_buffer_secs c) 0 = 0")
  case True
  obtain a y where fin: "finalize_score_submission e signers s (input_commitment inp)
      (c\<lparr>c_auth := a, c_keys := y\<rparr>) = Inr (c', evs)"
    using assms(1) by (rule submit_score_Inr)
  define c1 where "c1 = hll_first_time e (claim_key s) (c\<lparr>c_auth := a, c_keys := y\<rparr>)"
  obtain c2 evs' where c2: "same_data c2 c'" "write_score_with_rate_limit e (claim_key s)
      (claimed_score s (input_commitment inp)) c1 = Inr (c2, evs')"
    using fin True by (elim finalize_direct) (auto simp: c1_def)
  have "same_data c c1"
    unfolding c1_def by (rule same_data_trans [of _ "c\<lparr>c_auth := a, c_keys := y\<rparr>"]) simp_all
  then have "histogram_exact c1" "card (dom (scores (c_store c1))) < 2 ^ 64 - 1"
    using assms(2,3) by (simp_all add: same_data_def histogram_exact_def)
  then have "histogram_exact c2"
    using write_score_histogram [OF c2(2)] by blast
  then show ?thesis
    using c2(1) by (simp add: same_data_def histogram_exact_def)
next
  case False
  then show ?thesis
    using submit_buffered [OF assms(1) refl False] assms(2) histogram_exact_cong [of c' c] by simp
qed

lemma check_entry_histogram:
  "check_entry e sub c = Inr l \<Longrightarrow> get_histogram_vec l = get_histogram_vec (c_limits c)"
  by (auto simp: check_entry_def Let_def get_histogram_vec_def clear_velocity_cap_override_def
      dest!: admit_velocity_cases split: if_splits sum.splits)

lemma batch_entry_histogram:
  assumes "batch_entry e th i sub c = Inr (c', r, evs)" "histogram_exact c"
    "card (dom (scores (c_store c))) < 2 ^ 64 - 1"
  shows "histogram_exact c'"
proof (cases "be_accepted r")
  case True
  then obtain l t where l: "check_entry e sub c = Inr l" and st: "store_entry e th sub l t c = (c', evs)"
    using batch_entry_cases [OF assms(1)] by (auto elim: write_entry_Inr)
  have "rs_score (claimed_score sub None) = sc_score sub"
    by (simp add: claimed_score_def)
  then show ?thesis
    using assms(2,3) store_entry_fields(1,4) [of e th sub l t c] check_entry_histogram [OF l]
    by (intro histogram_on_write [of c "update_historical_max_score (claim_key sub) (sc_score sub)
        (set_last_submit_time (claim_key sub) (ledger_timestamp e) l)" c' "claim_key sub" "claimed_score sub None"])
      (simp_all add: st, simp add: get_histogram_vec_def set_last_submit_time_def)
qed (use batch_entry_cases [OF assms(1)] assms(2) in simp)

lemma batch_loop_histogram:
  "batch_loop e th i subs c = Inr (c', rs, evs) \<Longrightarrow> histogram_exact c \<Longrightarrow>
   card (dom (scores (c_store c))) + length subs < 2 ^ 64 - 1 \<Longrightarrow> histogram_exact c'"
proof (induction subs arbitrary: i c rs evs)
  case (Cons sub subs)
  from Cons.prems(1) obtain c1 r ev1 rs' ev2 where
    entry: "batch_entry e th i sub c = Inr (c1, r, ev1)" and
    rest: "batch_loop e th (Suc i) subs c1 = Inr (c', rs', ev2)"
    by (auto simp: bind_res_Inr_iff)
  have fin: "finite (dom (scores (c_store c)))"
    using Cons.prems(2) by (simp add: histogram_exact_def)
  have "card (dom (scores (c_store c1))) \<le> Suc (card (dom (scores (c_store c))))"
    using batch_entry_effect(1) [OF entry] fin by (simp add: card_insert_if)
  moreover have "histogram_exact c1"
    using batch_entry_histogram [OF entry] Cons.prems(2,3) by simp
  ultimately show ?case
    using Cons.IH [OF rest] Cons.prems(3) by simp
qed simp

text \<open>
  C2: The score histogram is exact and stays exact: if every bucket holds the number of keys whose
  live score falls into it, this is still so after any successful \<^verbatim>\<open>submit_score\<close> (direct
  or buffered), any successful batch, and any deletion of a score, for a contract with
  fewer than \<open>2^64 - 21\<close> live scores.
\<close>

theorem histogram_counts_live_scores:
  assumes "histogram_exact c" "card (dom (scores (c_store c))) + MAX_BATCH_SIZE < 2 ^ 64 - 1"
    and "submit_score e signers s inp c = Inr (c', evs) \<or>
      submit_scores_batch e subs c = Inr (c', r, evs) \<or>
      clear_score_with_audit e signers k reason category c = Inr (c', evs)"
  shows "histogram_exact c'"
  using assms(3)
proof (elim disjE)
  assume "submit_scores_batch e subs c = Inr (c', r, evs)"
  then show ?thesis
  proof (rule batch_Inr)
    fix c1 rs evs1
    assume "batch_loop e (get_effective_threshold c) 0 subs c = Inr (c1, rs, evs1)"
      and c': "same_data c1 c'" and "length subs \<le> MAX_BATCH_SIZE"
    then have "histogram_exact c1"
      using assms(1,2) by (auto intro: batch_loop_histogram)
    then show ?thesis
      using c' by (simp add: same_data_def histogram_exact_def)
  qed
qed (use assms(1,2) submit_histogram clear_score_histogram in auto)

text \<open>
  Two operations make an exact histogram wrong.  Committing the first score of a key adds a live score
  that no bucket counts, and erasing the history of a key that has a live score, which
  leaves that score live, takes the score out of its bucket.
\<close>

theorem histogram_drifts:
  assumes "histogram_exact c"
    and "commit_pending_score e k c = Inr (c', evs) \<and> scores (c_store c) k = None \<or>
      clear_score_history_with_audit e signers k reason category c = Inr (c', evs) \<and>
        scores (c_store c) k = Some rs"
  shows "\<not> histogram_exact c'"
  using assms(2)
proof (elim disjE conjE)
  let ?S = "scores (c_store c)"
  have fin: "finite (dom ?S)"
    using assms(1) by (simp add: histogram_exact_def)
  {
    assume commit: "commit_pending_score e k c = Inr (c', evs)" and new: "?S k = None"
    obtain pending where p: "scores (c_store c') = ?S(k \<mapsto> committed_score pending)" "c_limits c' = c_limits c"
      using commit by (auto elim!: commit_pending_Inr simp: records_def)
    let ?b = "bucket_of (rs_score (committed_score pending))"
    have "card (in_bucket ?b (scores (c_store c'))) = Suc (card (in_bucket ?b ?S))"
      using card_in_bucket [of "scores (c_store c')" ?b k] fin new by (simp add: p fun_upd_idem)
    moreover have "unat (get_histogram_vec (c_limits c) ! ?b) = card (in_bucket ?b ?S)"
      using assms(1) by (simp add: histogram_exact_def)
    ultimately show ?thesis
      using bucket_of_lt p(2) unfolding histogram_exact_def by (metis n_not_Suc_n)
  next
    assume clear: "clear_score_history_with_audit e signers k reason category c = Inr (c', evs)"
      and live: "?S k = Some rs"
    let ?b = "bucket_of (rs_score rs)"
    have "card (in_bucket ?b ?S) = Suc (card (in_bucket ?b (?S(k := None))))"
      using card_in_bucket [OF fin, of ?b k] live by simp
    moreover have "unat (get_histogram_vec (c_limits c') ! ?b) = card (in_bucket ?b (?S(k := None)))"
      "scores (c_store c') = ?S"
      using histogram_without_vec(2) [OF assms(1), of k] by (simp_all add: clear_history_Inr [OF clear])
    ultimately show ?thesis
      using bucket_of_lt unfolding histogram_exact_def by (metis n_not_Suc_n)
  }
qed

lemma fresh_histogram:
  assumes "c_limits c = empty_limits" "c_store c = empty_score_store"
  shows "histogram_exact c"
  using assms by (simp add: histogram_exact_def empty_limits_def empty_score_store_def
      get_histogram_vec_def in_bucket_def)

theorem histogram_counts_live_scores_witness:
  "\<exists>c' evs. submit_score (sample_env 1) [] sample_claim None sample_contract = Inr (c', evs) \<and>
     histogram_exact c'"
proof -
  obtain c' evs where ok: "submit_score (sample_env 1) [] sample_claim None sample_contract = Inr (c', evs)"
    using sample_submit by blast
  have "histogram_exact sample_contract"
    by (rule fresh_histogram) simp_all
  then show ?thesis
    using histogram_counts_live_scores [of sample_contract "sample_env 1" "[]" sample_claim None c' evs] ok
    by (auto simp: empty_score_store_def MAX_BATCH_SIZE_def)
qed

theorem histogram_drifts_witness:
  "\<exists>c e c' evs. histogram_exact c \<and> commit_pending_score e (claim_key sample_claim) c = Inr (c', evs) \<and>
     \<not> histogram_exact c'"
proof -
  let ?e = "(sample_env 2)\<lparr>ledger_timestamp := 1060\<rparr>"
  have b: "c_limits buffered_contract = empty_limits" "c_store buffered_contract = empty_score_store"
    "unwrap_or (finality_buffer_secs buffered_contract) 0 = 60"
    by (simp_all add: buffered_contract_def)
  obtain c evs where ok: "submit_score (sample_env 1) [] sample_claim None buffered_contract = Inr (c, evs)"
    and c: "score_hook_dispatching c = None" "score_count (c_stats c) = (\<lambda>_. None)"
      "pair_score_count (c_stats c) = (\<lambda>_. None)" "total_wallets_scored (c_stats c) = None"
    using buffered_submit by blast
  note held = submit_buffered [OF ok b(3)]
  obtain t where "commit_counters (claim_key sample_claim) (c_stats c) = Inr t"
    using commit_counters_ok [of "claim_key sample_claim" "c_stats c"] c
    by (auto simp: get_score_count_def get_pair_score_count_def get_total_wallets_scored_def)
  then obtain c' evs' where commit: "commit_pending_score ?e (claim_key sample_claim) c = Inr (c', evs')"
    using commit_pending_ok [of c "claim_key sample_claim" _ ?e t] held(5) c
    by (auto simp: is_score_hook_dispatching_def saturating_add_def)
  moreover have "histogram_exact c"
    using histogram_exact_cong [of c buffered_contract] fresh_histogram b held(1,4) by simp
  ultimately show ?thesis
    using histogram_drifts [of c ?e "claim_key sample_claim" c' evs'] held(1) b(2)
    by (auto simp: empty_score_store_def)
qed

end
